(* ===== verification/Base.thy ===== *)
theory Base
  imports Main "HOL-Library.Word" "HOL-Library.Signed_Division" "HOL-Library.Monad_Syntax"
begin

text \<open>
  The prelude of the development: the machine types of the i386 target, the arithmetic of
  the C type \<^verbatim>\<open>int\<close>, the status codes of \<^verbatim>\<open>src/src/status.h\<close> and the constants of
  \<^verbatim>\<open>src/src/config.h\<close>, the flat byte memory with its little-endian 16 and 32 bit
  accesses, and the lemmas on words, regions and frames the components share.
\<close>

unbundle bit_operations_syntax

section \<open>Machine types\<close>

type_synonym u8 = "8 word"
type_synonym u16 = "16 word"
type_synonym u32 = "32 word"

text \<open>
  Physical memory is one flat array of bytes. A pointer is a 32 bit address; pointer
  arithmetic wraps, as it does on the machine. No address faults: the kernel runs in ring 0
  with the whole address space identity mapped, so a store through address 0 is a store to
  byte 0.
\<close>

type_synonym mem = "u32 \<Rightarrow> u8"

named_theorems mem_simps "reading memory after a write"
named_theorems c_arith "C int arithmetic inside its range"
named_theorems frame_intros "introduction rules for same_outside"

section \<open>The C type int\<close>

text \<open>
  A C \<^verbatim>\<open>int\<close> is modelled by a HOL \<open>int\<close> in the range of 32 bit two's complement;
  \<open>c_int\<close> is the wrap-around that the compiler produces at \<^verbatim>\<open>-O0\<close> and the conversion
  from any other integer type to \<^verbatim>\<open>int\<close>. Division and remainder truncate towards zero
  (\<open>sdiv\<close>, \<open>smod\<close> of HOL-Library.Signed_Division).
\<close>

definition c_int :: "int \<Rightarrow> int" where
  "c_int x = (x + 2 ^ 31) mod 2 ^ 32 - 2 ^ 31"

definition int_of_u32 :: "u32 \<Rightarrow> int" where
  "int_of_u32 w = c_int (uint w)"

definition u32_of_int :: "int \<Rightarrow> u32" where
  "u32_of_int x = word_of_int x"

lemma c_int_id [c_arith]: "- (2 ^ 31) \<le> x \<Longrightarrow> x < 2 ^ 31 \<Longrightarrow> c_int x = x"
  by (simp add: c_int_def)

lemma c_int_numeral [simp]:
  "c_int (numeral n) = (numeral n + 2147483648) mod 4294967296 - 2147483648"
  "c_int (- numeral n) = (- numeral n + 2147483648) mod 4294967296 - 2147483648"
  "c_int 0 = 0" "c_int 1 = 1" "c_int (- 1) = - 1"
  by (simp_all add: c_int_def)

lemma c_int_range: "- (2 ^ 31) \<le> c_int x" "c_int x < 2 ^ 31"
proof -
  have "0 \<le> (x + 2 ^ 31) mod 2 ^ 32" by simp
  then show "- (2 ^ 31) \<le> c_int x" unfolding c_int_def by linarith
  have "(x + 2 ^ 31) mod 2 ^ 32 < (2 ^ 32 :: int)" by simp
  then show "c_int x < 2 ^ 31" unfolding c_int_def by simp
qed

lemma word_of_c_int [simp]: "(word_of_int (c_int x) :: u32) = word_of_int x"
proof -
  have "c_int x mod 2 ^ 32 = x mod 2 ^ 32"
    unfolding c_int_def by (simp add: mod_diff_left_eq)
  then show ?thesis
    by (simp add: word_of_int_eq_iff take_bit_eq_mod)
qed

lemma u32_of_c_int [simp]: "u32_of_int (c_int x) = u32_of_int x"
  by (simp add: u32_of_int_def)

lemma u32_of_int_numeral [simp]:
  "u32_of_int (numeral n) = numeral n" "u32_of_int (- numeral n) = - numeral n"
  "u32_of_int 0 = 0" "u32_of_int 1 = 1"
  by (simp_all add: u32_of_int_def)

lemma u32_of_int_of_nat: "u32_of_int (int n) = of_nat n"
  by (simp add: u32_of_int_def)

lemma int_of_u32_small [c_arith]: "unat w < 2 ^ 31 \<Longrightarrow> int_of_u32 w = int (unat w)"
proof -
  assume b: "unat w < 2 ^ 31"
  have u: "uint w = int (unat w)" by (rule uint_nat)
  have "int (unat w) < 2 ^ 31" using b by (rule of_nat_less_numeral_power_cancel_iff [THEN iffD2])
  then show ?thesis unfolding int_of_u32_def u by (rule c_int_id [rotated]) (rule order_trans [of _ 0], simp_all)
qed

lemma int_less_int_of_u32: "unat w < 2 ^ 31 \<Longrightarrow> int i < int_of_u32 w \<longleftrightarrow> i < unat w"
  by (simp only: int_of_u32_small of_nat_less_iff)

lemma int_of_u32_inverse [simp]: "u32_of_int (int_of_u32 w) = w"
  by (simp add: int_of_u32_def u32_of_int_def)

lemma int_of_u32_of_int: "int_of_u32 (u32_of_int x) = c_int x"
proof -
  have "(x mod 2 ^ 32 + 2 ^ 31) mod 2 ^ 32 = (x + 2 ^ 31) mod (2 ^ 32 :: int)"
    by (rule mod_add_left_eq)
  moreover have "uint (u32_of_int x) = x mod 2 ^ 32"
    by (simp add: u32_of_int_def uint_word_of_int)
  ultimately show ?thesis
    unfolding int_of_u32_def c_int_def by (simp only:)
qed

lemma sdiv_nonneg: "0 \<le> x \<Longrightarrow> 0 < (y::int) \<Longrightarrow> x sdiv y = x div y"
  by (cases "x = 0") (simp_all add: signed_divide_int_def)

lemma smod_nonneg: "0 \<le> x \<Longrightarrow> 0 < (y::int) \<Longrightarrow> x smod y = x mod y"
proof -
  assume a: "0 \<le> x" "0 < y"
  have "x smod y = x - x sdiv y * y" by (simp add: minus_sdiv_mult_eq_smod)
  with a show ?thesis by (simp add: sdiv_nonneg minus_div_mult_eq_mod)
qed

section \<open>Status codes and constants\<close>

text \<open>Error codes are returned negated, as C \<^verbatim>\<open>int\<close>s (\<^verbatim>\<open>src/src/status.h\<close>).\<close>

abbreviation (input) SIMPOS_ALL_OK :: int where "SIMPOS_ALL_OK \<equiv> 0"
abbreviation (input) EIO :: int where "EIO \<equiv> 1"
abbreviation (input) EINVARG :: int where "EINVARG \<equiv> 2"
abbreviation (input) ENOMEM :: int where "ENOMEM \<equiv> 3"
abbreviation (input) BADPATH :: int where "BADPATH \<equiv> 4"
abbreviation (input) EFSNOTUS :: int where "EFSNOTUS \<equiv> 5"
abbreviation (input) ERDONLY :: int where "ERDONLY \<equiv> 6"
abbreviation (input) EUNIMP :: int where "EUNIMP \<equiv> 7"
abbreviation (input) EISTKN :: int where "EISTKN \<equiv> 8"
abbreviation (input) EINFORMAT :: int where "EINFORMAT \<equiv> 9"

section \<open>Word lemmas\<close>

lemma int_less_2p31: "n < 2 ^ 31 \<Longrightarrow> int n < 2 ^ 31"
  by (rule of_nat_less_numeral_power_cancel_iff [THEN iffD2])

lemma unat_u32_less: "unat (w::u32) < 2 ^ 32"
  using unsigned_less [of w] by simp

lemma unat_of_nat_u32 [simp]: "n < 2 ^ 32 \<Longrightarrow> unat (of_nat n :: u32) = n"
  by (simp add: unat_of_nat)

lemma unat_add_no_wrap: "unat (a::u32) + unat b < 2 ^ 32 \<Longrightarrow> unat (a + b) = unat a + unat b"
  by (simp add: unat_plus_if')

lemma unat_add_of_nat: "unat (a::u32) + n < 2 ^ 32 \<Longrightarrow> unat (a + of_nat n) = unat a + n"
  by (subst unat_add_no_wrap) simp_all

lemma of_nat_u32_inj: "(of_nat i :: u32) = of_nat j \<Longrightarrow> i < 2 ^ 32 \<Longrightarrow> j < 2 ^ 32 \<Longrightarrow> i = j"
  by (metis unat_of_nat_u32)

lemma unat_Suc_u32: "(i::u32) < n \<Longrightarrow> unat (i + 1) = Suc (unat i)"
proof -
  assume "i < n"
  then have "unat i < unat n" by (simp add: word_less_nat_alt)
  then have "unat i + unat (1::u32) < 2 ^ 32" using unat_u32_less [of n] by simp
  then show ?thesis by (subst unat_add_no_wrap) simp_all
qed

lemma unat_pred_u32: "(n::u32) \<noteq> 0 \<Longrightarrow> unat (n - 1) = unat n - 1"
  by (rule unat_minus_one)

lemma unat_u32_of_int: "0 \<le> x \<Longrightarrow> x < 2 ^ 32 \<Longrightarrow> unat (u32_of_int x) = nat x"
  by (simp add: u32_of_int_def unat_eq_nat_uint uint_word_of_int)

lemma unat_Suc_le: "unat ((w::u32) + 1) \<le> Suc (unat w)"
  using unat_u32_less [of w] by (simp add: unat_plus_if')

section \<open>Regions and frames\<close>

text \<open>The \<open>n\<close> bytes from address \<open>p\<close> on (wrapping at the end of memory).\<close>

definition region :: "u32 \<Rightarrow> nat \<Rightarrow> u32 set" where
  "region p n = {a. unat (a - p) < n}"

definition same_outside :: "u32 set \<Rightarrow> mem \<Rightarrow> mem \<Rightarrow> bool" where
  "same_outside A m m' \<longleftrightarrow> (\<forall>a. a \<notin> A \<longrightarrow> m' a = m a)"

lemma region_0 [simp]: "region p 0 = {}"
  by (simp add: region_def)

lemma in_region_offset: "i < n \<Longrightarrow> i < 2 ^ 32 \<Longrightarrow> p + of_nat i \<in> region p n"
  by (simp add: region_def)

lemma region_offsetE:
  assumes "a \<in> region p n"
  obtains i where "i < n" "i < 2 ^ 32" "a = p + of_nat i"
proof
  show "unat (a - p) < n" using assms by (simp add: region_def)
  show "unat (a - p) < 2 ^ 32" by (rule unat_u32_less)
  show "a = p + of_nat (unat (a - p))" by simp
qed

lemma region_mono: "n \<le> k \<Longrightarrow> region p n \<subseteq> region p k"
  by (auto simp: region_def)

lemma region_eq_range:
  "unat p + n \<le> 2 ^ 32 \<Longrightarrow> a \<in> region p n \<longleftrightarrow> unat p \<le> unat a \<and> unat a < unat p + n"
proof -
  assume b: "unat p + n \<le> 2 ^ 32"
  show ?thesis
  proof (cases "p \<le> a")
    case True
    then have "unat (a - p) = unat a - unat p"
      by (simp add: unat_sub)
    moreover have "unat p \<le> unat a" using True by (simp add: word_le_nat_alt)
    ultimately show ?thesis by (auto simp: region_def)
  next
    case False
    then have "unat a < unat p" by (simp add: word_le_nat_alt)
    moreover have "unat (a - p) = unat a + 2 ^ 32 - unat p"
      using False by (simp add: unat_sub_if_size word_le_nat_alt size_word.rep_eq)
    ultimately show ?thesis using b by (auto simp: region_def)
  qed
qed

lemma in_region_self: "0 < n \<Longrightarrow> p \<in> region p n"
  by (simp add: region_def)

lemma region_shift_subset: "region (p + 1) (n - 1) \<subseteq> region p n"
proof
  fix a assume "a \<in> region (p + 1) (n - 1)"
  then have l: "unat (a - p - 1) < n - 1" by (simp add: region_def diff_diff_eq)
  have "unat (a - p) \<le> Suc (unat (a - p - 1))"
    using unat_Suc_le [of "a - p - 1"] by simp
  then show "a \<in> region p n" using l by (simp add: region_def)
qed

lemma unat_minus_1_u32 [simp]: "unat (- 1 :: u32) = 4294967295"
  by (simp add: unsigned_minus_1_eq_mask mask_eq_exp_minus_1)

lemma region_head: "n \<le> 2 ^ 32 \<Longrightarrow> p \<notin> region (p + 1) (n - 1)"
  by (auto simp: region_def)

lemma region_Suc: "a \<in> region p (Suc n) \<longleftrightarrow> a = p \<or> a \<in> region (p + 1) n"
proof
  assume r: "a \<in> region p (Suc n)"
  show "a = p \<or> a \<in> region (p + 1) n"
  proof (cases "a = p")
    case False
    then have nz: "a - p \<noteq> 0" by simp
    then have "unat (a - p - 1) = unat (a - p) - 1" "0 < unat (a - p)"
      by (rule unat_pred_u32) (use False in \<open>simp add: unat_gt_0\<close>)
    then have "a \<in> region (p + 1) n" using r by (simp add: region_def diff_diff_eq)
    then show ?thesis by simp
  qed simp
next
  assume "a = p \<or> a \<in> region (p + 1) n"
  then show "a \<in> region p (Suc n)"
    using region_shift_subset [of p "Suc n"] in_region_self [of "Suc n" p] by auto
qed

lemma same_outside_refl [simp, frame_intros]: "same_outside A m m"
  by (simp add: same_outside_def)

lemma same_outside_trans:
  "same_outside A m m' \<Longrightarrow> same_outside B m' m'' \<Longrightarrow> same_outside (A \<union> B) m m''"
  by (simp add: same_outside_def)

lemma same_outside_trans1 [trans]:
  "same_outside A m m' \<Longrightarrow> same_outside A m' m'' \<Longrightarrow> same_outside A m m''"
  by (simp add: same_outside_def)

lemma same_outside_mono: "same_outside A m m' \<Longrightarrow> A \<subseteq> B \<Longrightarrow> same_outside B m m'"
  by (auto simp: same_outside_def)

lemma same_outsideD: "same_outside A m m' \<Longrightarrow> a \<notin> A \<Longrightarrow> m' a = m a"
  by (simp add: same_outside_def)

lemma same_outside_upd [frame_intros]: "a \<in> A \<Longrightarrow> same_outside A m (m(a := v))"
  by (auto simp: same_outside_def)

section \<open>Little-endian accesses\<close>

definition load16 :: "mem \<Rightarrow> u32 \<Rightarrow> u16" where
  "load16 m p = ucast (m p) OR push_bit 8 (ucast (m (p + 1)))"

definition load32 :: "mem \<Rightarrow> u32 \<Rightarrow> u32" where
  "load32 m p = ucast (m p) OR push_bit 8 (ucast (m (p + 1)))
     OR push_bit 16 (ucast (m (p + 2))) OR push_bit 24 (ucast (m (p + 3)))"

definition store16 :: "mem \<Rightarrow> u32 \<Rightarrow> u16 \<Rightarrow> mem" where
  "store16 m p v = m(p := ucast v, p + 1 := ucast (drop_bit 8 v))"

definition store32 :: "mem \<Rightarrow> u32 \<Rightarrow> u32 \<Rightarrow> mem" where
  "store32 m p v = m(p := ucast v, p + 1 := ucast (drop_bit 8 v),
     p + 2 := ucast (drop_bit 16 v), p + 3 := ucast (drop_bit 24 v))"

lemma load32_store32_same [mem_simps]: "load32 (store32 m p v) p = v"
proof -
  have b: "ucast (ucast v :: u8) OR push_bit 8 (ucast (ucast (drop_bit 8 v) :: u8))
     OR push_bit 16 (ucast (ucast (drop_bit 16 v) :: u8))
     OR push_bit 24 (ucast (ucast (drop_bit 24 v) :: u8)) = (v::u32)"
  proof (rule bit_word_eqI)
    fix n
    assume "n < LENGTH(32)"
    then consider "n < 8" | "8 \<le> n" "n < 16" | "16 \<le> n" "n < 24" | "24 \<le> n" "n < 32"
      by fastforce
    then show "bit (ucast (ucast v :: u8) OR push_bit 8 (ucast (ucast (drop_bit 8 v) :: u8))
     OR push_bit 16 (ucast (ucast (drop_bit 16 v) :: u8))
     OR push_bit 24 (ucast (ucast (drop_bit 24 v) :: u8)) :: u32) n = bit v n"
      by cases (auto simp: bit_simps)
  qed
  show ?thesis by (simp add: load32_def store32_def b)
qed

lemma load16_store16_same [mem_simps]: "load16 (store16 m p v) p = v"
proof -
  have b: "ucast (ucast v :: u8) OR push_bit 8 (ucast (ucast (drop_bit 8 v) :: u8)) = (v::u16)"
    by (rule bit_word_eqI) (auto simp: bit_simps)
  show ?thesis by (simp add: load16_def store16_def b)
qed

lemma region_4: "region p 4 = {p, p + 1, p + 2, p + 3}"
proof
  show "region p 4 \<subseteq> {p, p + 1, p + 2, p + 3}"
  proof
    fix a assume "a \<in> region p 4"
    then obtain i where "i < 4" "a = p + of_nat i" by (rule region_offsetE)
    moreover from this(1) have "i = 0 \<or> i = 1 \<or> i = 2 \<or> i = 3" by linarith
    ultimately show "a \<in> {p, p + 1, p + 2, p + 3}" by auto
  qed
  show "{p, p + 1, p + 2, p + 3} \<subseteq> region p 4"
    by (simp add: region_def)
qed

lemma store32_frame [frame_intros]: "same_outside (region p 4) m (store32 m p v)"
  by (simp add: same_outside_def store32_def region_4)

lemma store16_frame [frame_intros]: "same_outside (region p 4) m (store16 m p v)"
  by (simp add: same_outside_def store16_def region_4)

lemma load32_same_outside: "same_outside A m m' \<Longrightarrow> region p 4 \<inter> A = {} \<Longrightarrow> load32 m' p = load32 m p"
  by (simp add: same_outside_def load32_def region_4)

text \<open>An aligned access never wraps, and two aligned words are equal or disjoint.\<close>

definition aligned :: "nat \<Rightarrow> u32 \<Rightarrow> bool" where
  "aligned n p \<longleftrightarrow> n dvd unat p"

lemma aligned_no_wrap:
  assumes "aligned n p" and "n dvd 2 ^ 32" and "i < n"
  shows "unat p + i < 2 ^ 32"
proof -
  obtain k where k: "2 ^ 32 = n * k" using assms(2) by (elim dvdE)
  obtain j where j: "unat p = n * j" using assms(1) unfolding aligned_def by (elim dvdE)
  have "n * j < n * k" using unat_u32_less [of p] by (simp only: j [symmetric] k [symmetric])
  then have "n * Suc j \<le> n * k" by (meson Suc_leI mult_le_mono2 mult_less_cancel1)
  then have "n * j + n \<le> n * k" by simp
  then show ?thesis unfolding j k using assms(3) by linarith
qed

lemma aligned_unat_add:
  "aligned n p \<Longrightarrow> n dvd 2 ^ 32 \<Longrightarrow> i < n \<Longrightarrow> unat (p + of_nat i) = unat p + i"
  by (rule unat_add_of_nat) (rule aligned_no_wrap)

lemma aligned_offset_inj:
  assumes "aligned n p" "aligned n q" and "n dvd 2 ^ 32" and "i < n" "j < n"
    and "p + of_nat i = q + of_nat j"
  shows "p = q \<and> i = j"
proof -
  have e: "unat p + i = unat q + j"
    using assms by (metis aligned_unat_add)
  obtain a where a: "unat p = n * a" using assms(1) unfolding aligned_def by (elim dvdE)
  obtain b where b: "unat q = n * b" using assms(2) unfolding aligned_def by (elim dvdE)
  have "(n * a + i) div n = (n * b + j) div n" using e by (simp only: a b)
  then have "a = b" using assms(4,5) by simp
  then show ?thesis using e a b by (simp add: word_unat_eq_iff)
qed

lemma aligned_region_disjoint:
  assumes "aligned n p" "aligned n q" "n dvd 2 ^ 32" "p \<noteq> q" "k \<le> n" "l \<le> n"
  shows "region p k \<inter> region q l = {}"
proof (rule ccontr)
  assume "region p k \<inter> region q l \<noteq> {}"
  then obtain a where "a \<in> region p k" "a \<in> region q l" by blast
  then obtain i j where "i < k" "a = p + of_nat i" "j < l" "a = q + of_nat j"
    by (metis region_offsetE)
  then show False using aligned_offset_inj [OF assms(1-3), of i j] assms(4-6) by auto
qed

lemma load32_store32_aligned [mem_simps]:
  "aligned 4 p \<Longrightarrow> aligned 4 q \<Longrightarrow> p \<noteq> q \<Longrightarrow> load32 (store32 m q v) p = load32 m p"
  by (rule load32_same_outside [OF store32_frame])
     (rule aligned_region_disjoint [where n = 4], simp_all)

lemma aligned_trans: "aligned n p \<Longrightarrow> k dvd n \<Longrightarrow> aligned k p"
  by (auto simp: aligned_def intro: dvd_trans)

lemma aligned_add: 
  assumes "aligned n p" "aligned n q" "n dvd 2 ^ 32" shows "aligned n (p + q)"
proof -
  have "unat (p + q) = (unat p + unat q) mod 2 ^ 32" by (simp add: unat_word_ariths)
  then show ?thesis using assms by (simp add: aligned_def dvd_mod)
qed

lemma aligned_mult_of_nat: "n dvd 2 ^ 32 \<Longrightarrow> n dvd k \<Longrightarrow> aligned n (of_nat k)"
  by (simp add: aligned_def unat_of_nat dvd_mod)

lemma page_split:
  "unat ((p :: u32) + q) mod 4096 = (unat p + unat q) mod 4096"
  by (simp add: unat_word_ariths mod_mod_cancel)

end
