(* ===== verification/Mem.thy ===== *)
theory Mem
  imports Base
begin

text \<open>
  \<^verbatim>\<open>src/src/memory/memory.c\<close>: \<open>memset\<close>, \<open>memcmp\<close> and \<open>memcpy\<close>, each loop as a recursion
  over the flat memory, with closed forms and frame lemmas. (The user library's
  \<^verbatim>\<open>programs/stdlib/src/memory.c\<close> is the same text.)
\<close>

section \<open>memset\<close>

text \<open>
  \<open>for (int i = 0; i < size; i++) c_ptr[i] = (char)c\<close>: the comparison converts \<open>i\<close> to
  \<open>size_t\<close>, so the counter is the unsigned 32 bit value.
\<close>

function memset_loop :: "mem \<Rightarrow> u32 \<Rightarrow> u8 \<Rightarrow> u32 \<Rightarrow> u32 \<Rightarrow> mem" where
  "memset_loop m p c sz i =
     (if i < sz then memset_loop (m(p + i := c)) p c sz (i + 1) else m)"
  by pat_completeness auto
termination
  by (relation "measure (\<lambda>(m, p, c, sz, i). unat sz - unat i)")
     (auto simp: unat_Suc_u32 word_less_nat_alt)

declare memset_loop.simps [simp del]

definition memset :: "mem \<Rightarrow> u32 \<Rightarrow> int \<Rightarrow> u32 \<Rightarrow> mem" where
  "memset m p c sz = memset_loop m p (word_of_int c) sz 0"

lemma memset_loop_eq:
  "memset_loop m p c sz i a =
     (if unat i \<le> unat (a - p) \<and> unat (a - p) < unat sz then c else m a)"
proof (induction m p c sz i rule: memset_loop.induct)
  case (1 m p c sz i)
  show ?case
  proof (cases "i < sz")
    case True
    have s: "unat (i + 1) = Suc (unat i)" using True by (rule unat_Suc_u32)
    have "unat (a - p) = unat i \<longleftrightarrow> a = p + i"
      by (metis add_diff_cancel_left' diff_add_cancel add.commute word_unat_eq_iff)
    then show ?thesis
      using True "1.IH" [OF True] s
      by (auto simp: memset_loop.simps [of m p c sz i] word_less_nat_alt fun_upd_def)
  next
    case False
    then show ?thesis
      by (auto simp: memset_loop.simps [of m p c sz i] word_less_nat_alt)
  qed
qed

lemma memset_eq: "memset m p c sz a = (if a \<in> region p (unat sz) then word_of_int c else m a)"
  by (simp add: memset_def memset_loop_eq region_def)

lemma memset_frame [frame_intros]: "same_outside (region p (unat sz)) m (memset m p c sz)"
  by (simp add: same_outside_def memset_eq)

lemma memset_in: "a \<in> region p (unat sz) \<Longrightarrow> memset m p c sz a = word_of_int c"
  by (simp add: memset_eq)

lemma load32_memset_0:
  "region p 4 \<subseteq> region q (unat sz) \<Longrightarrow> load32 (memset m q 0 sz) p = 0"
  by (simp add: load32_def memset_eq region_4)

section \<open>memcmp\<close>

text \<open>
  On a mismatch the code returns \<open>c1[i] - c1[i]\<close>, the difference of the byte with itself.
\<close>

function memcmp_loop :: "mem \<Rightarrow> u32 \<Rightarrow> u32 \<Rightarrow> int \<Rightarrow> int \<Rightarrow> int" where
  "memcmp_loop m s1 s2 count i =
     (if i < count then
        (if m (s1 + u32_of_int i) \<noteq> m (s2 + u32_of_int i)
         then sint (m (s1 + u32_of_int i)) - sint (m (s1 + u32_of_int i))
         else memcmp_loop m s1 s2 count (i + 1))
      else 0)"
  by pat_completeness auto
termination
  by (relation "measure (\<lambda>(m, s1, s2, count, i). nat (count - i))") auto

declare memcmp_loop.simps [simp del]

definition memcmp :: "mem \<Rightarrow> u32 \<Rightarrow> u32 \<Rightarrow> int \<Rightarrow> int" where
  "memcmp m s1 s2 count = memcmp_loop m s1 s2 count 0"

lemma memcmp_loop_0: "memcmp_loop m s1 s2 count i = 0"
proof (induction m s1 s2 count i rule: memcmp_loop.induct)
  case (1 m s1 s2 count i)
  then show ?case by (subst memcmp_loop.simps) simp
qed

text \<open>
  The kernel's memcmp cannot tell two blocks of memory apart: whatever the blocks and
  the count, it returns 0. The mismatch branch subtracts a byte from itself.
\<close>

theorem memcmp_always_0: "memcmp m s1 s2 count = 0"
  by (simp add: memcmp_def memcmp_loop_0)

section \<open>memcpy\<close>

text \<open>
  \<open>while (len--) *d++ = *s++\<close>: the test is against zero, so a negative length runs
  through all its 2^32 - |len| bytes; the counter is the 32 bit value.
\<close>

function memcpy_loop :: "mem \<Rightarrow> u32 \<Rightarrow> u32 \<Rightarrow> u32 \<Rightarrow> mem" where
  "memcpy_loop m d s len =
     (if len \<noteq> 0 then memcpy_loop (m(d := m s)) (d + 1) (s + 1) (len - 1) else m)"
  by pat_completeness auto
termination
  by (relation "measure (\<lambda>(m, d, s, len). unat len)") (auto simp: unat_pred_u32 unat_gt_0)

declare memcpy_loop.simps [simp del]

definition memcpy :: "mem \<Rightarrow> u32 \<Rightarrow> u32 \<Rightarrow> int \<Rightarrow> mem" where
  "memcpy m dest src len = memcpy_loop m dest src (u32_of_int len)"

lemma memcpy_loop_eq:
  assumes "region d (unat len) \<inter> region s (unat len) = {}"
  shows "memcpy_loop m d s len a = (if a \<in> region d (unat len) then m (s + (a - d)) else m a)"
  using assms
proof (induction m d s len rule: memcpy_loop.induct)
  case (1 m d s len)
  show ?case
  proof (cases "len = 0")
    case True
    then show ?thesis by (simp add: memcpy_loop.simps [of m d s 0])
  next
    case False
    have u: "unat (len - 1) = unat len - 1" using False by (rule unat_pred_u32)
    have pos: "0 < unat len" using False by (simp add: unat_gt_0)
    have dd: "d \<in> region d (unat len)" using pos by (rule in_region_self)
    have "region (d + 1) (unat len - 1) \<inter> region (s + 1) (unat len - 1) = {}"
      using "1.prems" region_shift_subset by blast
    then have IH: "memcpy_loop (m(d := m s)) (d + 1) (s + 1) (len - 1) a =
      (if a \<in> region (d + 1) (unat len - 1) then (m(d := m s)) (s + 1 + (a - (d + 1)))
       else (m(d := m s)) a)"
      using "1.IH" [OF False] u by (simp add: fun_upd_def)
    have ne: "s + (a - d) \<noteq> d" if "a \<in> region d (unat len)"
    proof -
      have "s + (a - d) \<in> region s (unat len)" using that by (simp add: region_def)
      then show ?thesis using "1.prems" dd by (metis IntI emptyE)
    qed
    have split: "a \<in> region d (unat len) \<longleftrightarrow> a = d \<or> a \<in> region (d + 1) (unat len - 1)"
      using region_Suc [of a d "unat len - 1"] pos by simp
    show ?thesis
      using IH False ne split by (simp add: memcpy_loop.simps [of m d s len])
  qed
qed

lemma memcpy_frame:
  assumes "region d (unat (u32_of_int len)) \<inter> region s (unat (u32_of_int len)) = {}"
  shows "same_outside (region d (unat (u32_of_int len))) m (memcpy m d s len)"
  using memcpy_loop_eq [OF assms] by (simp add: same_outside_def memcpy_def)

text \<open>
  memcpy between two disjoint blocks copies every byte of the source to the same offset
  of the destination and writes nothing else.
\<close>

theorem memcpy_copies:
  assumes "0 \<le> len" and "len < 2 ^ 31"
    and "region d (nat len) \<inter> region s (nat len) = {}"
  shows "(\<forall>i < nat len. memcpy m d s len (d + of_nat i) = m (s + of_nat i))
    \<and> same_outside (region d (nat len)) m (memcpy m d s len)"
proof -
  have u: "unat (u32_of_int len) = nat len"
    using assms(1,2) by (intro unat_u32_of_int) simp_all
  have "memcpy m d s len (d + of_nat i) = m (s + of_nat i)" if "i < nat len" for i
    using that assms memcpy_loop_eq [of d "u32_of_int len" s m "d + of_nat i"]
    by (simp add: memcpy_def u in_region_offset)
  then show ?thesis using memcpy_frame [of d len s m] assms(3) u by simp
qed

theorem memcpy_copies_witness:
  "memcpy (\<lambda>a. ucast a) 100 7 2 101 = 8"
proof -
  have "region (100 :: u32) (nat 2) \<inter> region 7 (nat 2) = {}"
    by (auto simp: region_eq_range)
  from memcpy_copies [OF _ _ this, of "\<lambda>a. ucast a"]
  have "\<forall>i < nat 2. memcpy (\<lambda>a. ucast a) 100 7 2 (100 + of_nat i) = ucast (7 + of_nat i :: u32)"
    by simp
  then have "memcpy (\<lambda>a. ucast a) 100 7 2 (100 + of_nat 1) = ucast (7 + of_nat 1 :: u32)"
    by (rule allE [where x = 1]) simp
  then show ?thesis by simp
qed

end
