(* ===== verification/Bytes.thy ===== *)
theory Bytes
  imports Mem
begin

text \<open>
  Byte strings in memory: storing a list at an address, reading one back, and the frame of
  both. The structures the disk and file system code keeps in memory are read with these.
\<close>

primrec store_bytes :: "mem \<Rightarrow> u32 \<Rightarrow> u8 list \<Rightarrow> mem" where
  "store_bytes m p [] = m"
| "store_bytes m p (b # bs) = store_bytes (m(p := b)) (p + 1) bs"

definition load_bytes :: "mem \<Rightarrow> u32 \<Rightarrow> nat \<Rightarrow> u8 list" where
  "load_bytes m p n = map (\<lambda>i. m (p + of_nat i)) [0..<n]"

lemma length_load_bytes [simp]: "length (load_bytes m p n) = n"
  by (simp add: load_bytes_def)

lemma load_bytes_nth [simp]: "i < n \<Longrightarrow> load_bytes m p n ! i = m (p + of_nat i)"
  by (simp add: load_bytes_def)

lemma load_bytes_0 [simp]: "load_bytes m p 0 = []"
  by (simp add: load_bytes_def)

lemma store_bytes_frame: "same_outside (region p (length bs)) m (store_bytes m p bs)"
proof (induction bs arbitrary: m p)
  case (Cons b bs)
  have "same_outside (region p (length (b # bs))) m (m(p := b))"
    by (rule same_outside_upd) (simp add: in_region_self)
  moreover have "same_outside (region p (length (b # bs))) (m(p := b)) (store_bytes (m(p := b)) (p + 1) bs)"
    using Cons.IH region_shift_subset [of p "length (b # bs)"] by (auto intro: same_outside_mono)
  ultimately show ?case by (simp del: fun_upd_apply add: same_outside_trans1)
qed simp

lemma store_bytes_at:
  "length bs \<le> 2 ^ 32 \<Longrightarrow> i < length bs \<Longrightarrow> store_bytes m p bs (p + of_nat i) = bs ! i"
proof (induction bs arbitrary: m p i)
  case (Cons b bs)
  show ?case
  proof (cases i)
    case 0
    have "p \<notin> region (p + 1) (length bs)"
      using region_head [of "length (b # bs)" p] Cons.prems(1) by simp
    then show ?thesis using 0 same_outsideD [OF store_bytes_frame [of "p + 1" bs "m(p := b)"]] by simp
  next
    case (Suc k)
    have "p + of_nat i = p + 1 + of_nat k" using Suc by (simp add: algebra_simps)
    then show ?thesis using Cons.IH [of k "m(p := b)" "p + 1"] Cons.prems Suc by (simp add: add.assoc del: fun_upd_apply)
  qed
qed simp

lemma load_store_bytes: "length bs \<le> 2 ^ 32 \<Longrightarrow> load_bytes (store_bytes m p bs) p (length bs) = bs"
  by (rule nth_equalityI) (simp_all add: store_bytes_at)

lemma store_bytes_append:
  "store_bytes m p (bs @ cs) = store_bytes (store_bytes m p bs) (p + of_nat (length bs)) cs"
  by (induction bs arbitrary: m p) (simp_all add: algebra_simps del: fun_upd_apply)

lemma load_bytes_frame:
  assumes "same_outside A m m'" "region p n \<inter> A = {}" "n \<le> 2 ^ 32"
  shows "load_bytes m' p n = load_bytes m p n"
proof (rule nth_equalityI)
  fix i assume "i < length (load_bytes m' p n)"
  then have i: "i < n" by simp
  then have "p + of_nat i \<in> region p n" using assms(3) by (intro in_region_offset) simp_all
  then show "load_bytes m' p n ! i = load_bytes m p n ! i"
    using i assms(2) same_outsideD [OF assms(1), of "p + of_nat i"] by auto
qed simp

lemma load_bytes_add: "load_bytes m p (n + k) = load_bytes m p n @ load_bytes m (p + of_nat n) k"
proof (rule nth_equalityI)
  fix i assume "i < length (load_bytes m p (n + k))"
  then show "load_bytes m p (n + k) ! i = (load_bytes m p n @ load_bytes m (p + of_nat n) k) ! i"
    by (cases "i < n") (simp_all add: nth_append of_nat_diff)
qed simp

lemma region_split: "region p (n + k) = region p n \<union> region (p + of_nat n) k" if "n + k \<le> 2 ^ 32"
proof
  show "region p (n + k) \<subseteq> region p n \<union> region (p + of_nat n) k"
  proof
    fix a assume "a \<in> region p (n + k)"
    then obtain i where i: "i < n + k" "i < 2 ^ 32" "a = p + of_nat i" by (rule region_offsetE)
    show "a \<in> region p n \<union> region (p + of_nat n) k"
    proof (cases "i < n")
      case True
      then show ?thesis using i in_region_offset [of i n p] by simp
    next
      case False
      then have "a = p + of_nat n + of_nat (i - n)" using i(3) by (simp add: of_nat_diff)
      then show ?thesis using in_region_offset [of "i - n" k "p + of_nat n"] i False by simp
    qed
  qed
  show "region p n \<union> region (p + of_nat n) k \<subseteq> region p (n + k)"
  proof -
    have "a \<in> region p (n + k)" if a: "a \<in> region (p + of_nat n) k" for a
    proof -
      obtain i where i: "i < k" "a = p + of_nat n + of_nat i" using a by (rule region_offsetE)
      then have "a = p + of_nat (n + i)" by (simp add: add.assoc)
      then show ?thesis using in_region_offset [of "n + i" "n + k" p] i(1) \<open>n + k \<le> 2 ^ 32\<close> by simp
    qed
    then show ?thesis using region_mono [of n "n + k" p] by auto
  qed
qed

lemma region_split_disjoint: "region p n \<inter> region (p + of_nat n) k = {}" if "n + k \<le> 2 ^ 32"
proof (rule ccontr)
  assume "region p n \<inter> region (p + of_nat n) k \<noteq> {}"
  then obtain a where a: "a \<in> region p n" "a \<in> region (p + of_nat n) k" by blast
  obtain i where i: "i < n" "a = p + of_nat i" using a(1) by (rule region_offsetE)
  obtain j where j: "j < k" "a = p + of_nat n + of_nat j" using a(2) by (rule region_offsetE)
  have "(of_nat i :: u32) = of_nat (n + j)" using i(2) j(2) by (simp add: add.assoc)
  then have "i = n + j" by (rule of_nat_u32_inj) (use i j that in auto)
  then show False using i by simp
qed

lemma sub_region: "unat j + n \<le> k \<Longrightarrow> k \<le> 2 ^ 32 \<Longrightarrow> region (p + j) n \<subseteq> region p k"
  using region_split [of "unat j" n p] region_mono [of "unat j + n" k p] by simp

section \<open>Fields of a structure\<close>

text \<open>
  Two accesses that lie at a known distance: the conditions on the differences are decided
  by evaluation when both addresses are a base and a constant offset.
\<close>

named_theorems off_simps "accesses at different offsets"

lemma region_offsets_disjoint: "4 \<le> q - p \<Longrightarrow> 4 \<le> p - q \<Longrightarrow> region p 4 \<inter> region q 4 = {}"
proof -
  assume a: "4 \<le> q - p" "4 \<le> p - q"
  have n: "p - q = - (q - p)" by simp
  have "x \<noteq> y" if xy: "x \<in> region p 4" "y \<in> region q 4" for x y
  proof
    assume e: "x = y"
    obtain i where i: "i < 4" "x = p + of_nat i" using xy(1) by (rule region_offsetE)
    obtain j where j: "j < 4" "y = q + of_nat j" using xy(2) by (rule region_offsetE)
    have d: "q - p = of_nat i - of_nat j" using e i(2) j(2) by (simp add: algebra_simps)
    have "unat (q - p) < 4 \<or> unat (p - q) < 4"
    proof (cases "j \<le> i")
      case True
      then have "q - p = of_nat (i - j)" using d by (simp add: of_nat_diff)
      moreover have "i - j < 4" using i(1) by simp
      ultimately show ?thesis by simp
    next
      case False
      then have "p - q = of_nat (j - i)" using d n by (simp add: of_nat_diff)
      moreover have "j - i < 4" using j(1) by simp
      ultimately show ?thesis by simp
    qed
    then show False using a by (simp add: word_le_nat_alt)
  qed
  then show ?thesis by blast
qed

lemma load32_store32_off [off_simps]:
  "4 \<le> q - p \<Longrightarrow> 4 \<le> p - q \<Longrightarrow> load32 (store32 m q v) p = load32 m p"
  using region_offsets_disjoint [of q p] by (intro load32_same_outside [OF store32_frame]) auto

lemma store32_byte_off [off_simps]: "4 \<le> p - q \<Longrightarrow> store32 m q v p = m p"
  by (rule same_outsideD [OF store32_frame]) (simp add: region_def word_le_nat_alt)

lemma load32_byte_off [off_simps]: "4 \<le> q - p \<Longrightarrow> load32 (m(q := b)) p = load32 m p"
proof (rule load32_same_outside)
  assume "4 \<le> q - p"
  then have "q \<notin> region p 4" by (simp add: region_def word_le_nat_alt)
  then show "region p 4 \<inter> {q} = {}" by blast
qed (simp add: same_outside_def)

lemma load32_zero [off_simps]: "load32 (\<lambda>_. 0) p = 0"
  by (simp add: load32_def)

declare load32_store32_same [off_simps]

text \<open>The same for offsets that are natural numbers.\<close>

lemma offset_apart: "a + 4 \<le> b \<or> b + 4 \<le> a \<Longrightarrow> a < 2 ^ 31 \<Longrightarrow> b < 2 ^ 31 \<Longrightarrow> 4 \<le> (of_nat a :: u32) - of_nat b"
proof (cases "b < a")
  case True
  assume a: "a + 4 \<le> b \<or> b + 4 \<le> a" "a < 2 ^ 31"
  have "(of_nat a :: u32) - of_nat b = of_nat (a - b)" using True by (simp add: of_nat_diff)
  moreover have "unat (of_nat (a - b) :: u32) = a - b" using a by (intro unat_of_nat_u32) simp
  ultimately show ?thesis using True a unfolding word_le_nat_alt by simp
next
  case False
  assume a: "a + 4 \<le> b \<or> b + 4 \<le> a" "a < 2 ^ 31" "b < 2 ^ 31"
  have z: "(of_nat (2 ^ 32) :: u32) = 0" unfolding word_of_nat_eq_0_iff by simp
  have "(of_nat (2 ^ 32 - (b - a)) :: u32) = of_nat (2 ^ 32) - of_nat (b - a)"
    using a by (intro of_nat_diff) simp
  also have "\<dots> = of_nat a - of_nat b" unfolding z using False by (simp add: of_nat_diff)
  finally have e: "(of_nat a :: u32) - of_nat b = of_nat (2 ^ 32 - (b - a))" ..
  have "unat (of_nat (2 ^ 32 - (b - a)) :: u32) = 2 ^ 32 - (b - a)"
    using a False by (intro unat_of_nat_u32) simp
  then show ?thesis using a False unfolding e word_le_nat_alt by simp
qed

lemma load32_store32_nat:
  assumes "a + 4 \<le> b \<or> b + 4 \<le> a" "a < 2 ^ 31" "b < 2 ^ 31"
  shows "load32 (store32 m (p + of_nat b) v) (p + of_nat a) = load32 m (p + of_nat a)"
  using offset_apart [of a b] offset_apart [of b a] assms by (intro load32_store32_off) auto

end
