(* ===== verification/Disk.thy ===== *)
theory Disk
  imports Bytes
begin

text \<open>
  \<^verbatim>\<open>src/src/disk/disk.c\<close>: reading sectors from the primary hard disk through the ATA
  ports, and the single disk structure of the kernel.
\<close>

section \<open>The ATA controller\<close>

text \<open>
  The controller is hardware: it is a parameter that answers the six register writes of a
  command. \<open>status n\<close> is the \<open>n\<close>th byte read from the status port, \<open>data n\<close> the \<open>n\<close>th word read
  from the data port after the command was issued.
\<close>

record ata_registers =
  drive_head :: u8
  sector_count :: u8
  lba_low :: u8
  lba_mid :: u8
  lba_high :: u8
  command :: u8

record ata_answer =
  status :: "nat \<Rightarrow> u8"
  data :: "nat \<Rightarrow> u16"

type_synonym ata = "ata_registers \<Rightarrow> ata_answer"

text \<open>The loop that waits for bit 3 of the status may never end.\<close>

partial_function (option) ata_wait :: "(nat \<Rightarrow> u8) \<Rightarrow> nat \<Rightarrow> nat option" where
  "ata_wait st n = (if st n AND 0x08 = 0 then ata_wait st (n + 1) else Some (n + 1))"

text \<open>\<open>outb\<close> takes the low byte of its argument; \<open>>>\<close> on the signed \<open>lba\<close> is arithmetic.\<close>

definition ata_command :: "int \<Rightarrow> int \<Rightarrow> ata_registers" where
  "ata_command lba count =
     \<lparr>drive_head = word_of_int (drop_bit 24 lba OR 0xE0), sector_count = word_of_int count,
      lba_low = word_of_int (lba AND 0xff), lba_mid = word_of_int (drop_bit 8 lba),
      lba_high = word_of_int (drop_bit 16 lba), command = 0x20\<rparr>"

text \<open>One sector: wait, then 256 words to \<open>ptr\<close>.\<close>

function ata_copy_words :: "(nat \<Rightarrow> u16) \<Rightarrow> nat \<Rightarrow> nat \<Rightarrow> u32 \<Rightarrow> mem \<Rightarrow> mem" where
  "ata_copy_words words w b ptr m =
     (if b < 256 then ata_copy_words words (w + 1) (b + 1) (ptr + 2) (store16 m ptr (words w)) else m)"
  by auto
termination by (relation "measure (\<lambda>(_, _, b, _). 256 - b)") auto

declare ata_copy_words.simps [simp del]

function disk_read_sectors_loop ::
  "ata_answer \<Rightarrow> int \<Rightarrow> int \<Rightarrow> nat \<Rightarrow> nat \<Rightarrow> u32 \<Rightarrow> mem \<Rightarrow> mem option" where
  "disk_read_sectors_loop ans count i n w ptr m =
     (if i < count
      then do { n' \<leftarrow> ata_wait (status ans) n;
                disk_read_sectors_loop ans count (i + 1) n' (w + 256) (ptr + 512)
                  (ata_copy_words (data ans) w 0 ptr m) }
      else Some m)"
  by auto
termination by (relation "measure (\<lambda>(_, count, i, _). nat (count - i))") auto

declare disk_read_sectors_loop.simps [simp del]

definition disk_read_sector :: "ata \<Rightarrow> int \<Rightarrow> int \<Rightarrow> u32 \<Rightarrow> mem \<Rightarrow> (int \<times> mem) option" where
  "disk_read_sector ctl lba count buf m =
     do { m' \<leftarrow> disk_read_sectors_loop (ctl (ata_command lba count)) count 0 0 0 buf m; Some (0, m') }"

section \<open>The disk structure\<close>

text \<open>
  \<^verbatim>\<open>struct disk\<close> in memory: \<open>type\<close> at 0, \<open>sector_size\<close> at 4, \<open>id\<close> at 8, \<open>filesystem\<close> at 12 and
  \<open>fs_private\<close> at 16, 20 bytes in all. \<open>sys\<close> collects what the linker and the hardware fix:
  the controller, the addresses of the kernel's global structures, and the address of each
  string literal of the kernel (by its characters).
\<close>

record sys =
  controller :: ata
  disk_addr :: u32
  fat16_fs_addr :: u32
  filesystems_addr :: u32
  file_descriptors_addr :: u32
  literal_addr :: "u8 list \<Rightarrow> u32"

definition SIMPOS_SECTOR_SIZE :: int where "SIMPOS_SECTOR_SIZE = 512"
definition SIMPOS_DISK_TYPE_REAL :: u32 where "SIMPOS_DISK_TYPE_REAL = 0"

definition disk_sector_size :: "mem \<Rightarrow> u32 \<Rightarrow> int" where
  "disk_sector_size m d = int_of_u32 (load32 m (d + 4))"

definition disk_id :: "mem \<Rightarrow> u32 \<Rightarrow> int" where
  "disk_id m d = int_of_u32 (load32 m (d + 8))"

definition disk_filesystem :: "mem \<Rightarrow> u32 \<Rightarrow> u32" where
  "disk_filesystem m d = load32 m (d + 12)"

definition disk_fs_private :: "mem \<Rightarrow> u32 \<Rightarrow> u32" where
  "disk_fs_private m d = load32 m (d + 16)"

definition disk_get :: "sys \<Rightarrow> int \<Rightarrow> u32" where
  "disk_get S index = (if index \<noteq> 0 then 0 else disk_addr S)"

definition disk_read_block :: "sys \<Rightarrow> u32 \<Rightarrow> u32 \<Rightarrow> int \<Rightarrow> u32 \<Rightarrow> mem \<Rightarrow> (int \<times> mem) option" where
  "disk_read_block S idisk lba count buf m =
     (if idisk \<noteq> disk_addr S then Some (- EIO, m)
      else disk_read_sector (controller S) (int_of_u32 lba) count buf m)"

text \<open>
  \<open>disk_init\<close> calls the resolver of the file system layer, which is above this theory: it is
  an argument here and instantiated with \<open>fs_resolve\<close> there.
\<close>

definition disk_init :: "sys \<Rightarrow> (u32 \<Rightarrow> mem \<Rightarrow> (u32 \<times> mem) option) \<Rightarrow> mem \<Rightarrow> mem option" where
  "disk_init S resolve m =
     (let m = memset m (disk_addr S) 0 20;
          m = store32 m (disk_addr S) SIMPOS_DISK_TYPE_REAL;
          m = store32 m (disk_addr S + 4) (u32_of_int SIMPOS_SECTOR_SIZE);
          m = store32 m (disk_addr S + 8) 0
      in do { (fs, m) \<leftarrow> resolve (disk_addr S) m; Some (store32 m (disk_addr S + 12) fs) })"

section \<open>What a controller in order does\<close>

text \<open>
  The documented behaviour of the READ SECTORS command with one sector, for a disk whose
  byte at absolute position \<open>i\<close> is \<open>img i\<close>: the controller eventually reports data, and the
  words are the sector, low byte first.
\<close>

definition ata_reads :: "ata \<Rightarrow> (nat \<Rightarrow> u8) \<Rightarrow> bool" where
  "ata_reads ctl img \<longleftrightarrow> (\<forall>lba < 2 ^ 28. let ans = ctl (ata_command (int lba) 1) in
     (\<exists>n. status ans n AND 0x08 \<noteq> 0) \<and>
     (\<forall>w < 256. data ans w = ucast (img (512 * lba + 2 * w)) OR push_bit 8 (ucast (img (512 * lba + 2 * w + 1)))))"

text \<open>A controller that is always ready and serves an image.\<close>

definition lba_of :: "ata_registers \<Rightarrow> nat" where
  "lba_of r = unat (lba_low r) + 2 ^ 8 * unat (lba_mid r) + 2 ^ 16 * unat (lba_high r)
     + 2 ^ 24 * (unat (drive_head r) mod 16)"

definition ideal_controller :: "(nat \<Rightarrow> u8) \<Rightarrow> ata" where
  "ideal_controller img r = \<lparr>status = (\<lambda>_. 0x58),
     data = (\<lambda>w. ucast (img (512 * lba_of r + 2 * w)) OR push_bit 8 (ucast (img (512 * lba_of r + 2 * w + 1))))\<rparr>"

text \<open>The register writes of the driver carry the whole 28 bit address.\<close>

lemma of_nat_numeral_mod: "nat (int x mod 2 ^ 8) = x mod 2 ^ 8"
  by (simp add: nat_mod_distrib)

lemma bytes_sum:
  "(x :: nat) = a + 2 ^ 8 * q1 \<Longrightarrow> q1 = b + 2 ^ 8 * q2 \<Longrightarrow> q2 = c + 2 ^ 8 * q3
    \<Longrightarrow> x = a + 2 ^ 8 * b + 2 ^ 16 * c + 2 ^ 24 * q3"
  by simp

lemma lba_of_command:
  assumes "lba < 2 ^ 28"
  shows "lba_of (ata_command (int lba) count) = lba"
proof -
  have l: "unat (word_of_int (int lba AND 0xff) :: u8) = lba mod 2 ^ 8"
  proof -
    have "(0xff :: int) = mask 8" by (simp add: mask_eq_exp_minus_1)
    then have "int lba AND 0xff = int lba mod 2 ^ 8"
      by (simp only: take_bit_eq_mask [symmetric] take_bit_eq_mod)
    then have "unat (word_of_int (int lba AND 0xff) :: u8) = nat (int lba mod 2 ^ 8)"
      by (simp only: unat_eq_nat_uint uint_word_of_int) simp
    also have "\<dots> = lba mod 2 ^ 8" by (simp add: nat_mod_distrib)
    finally show ?thesis .
  qed
  have d: "unat (word_of_int (drop_bit k (int lba)) :: u8) = lba div 2 ^ k mod 2 ^ 8" for k
  proof -
    have "drop_bit k (int lba) = int (lba div 2 ^ k)" by (simp add: drop_bit_eq_div zdiv_int)
    then have "unat (word_of_int (drop_bit k (int lba)) :: u8) = nat (int (lba div 2 ^ k) mod 2 ^ 8)"
      by (simp only: unat_eq_nat_uint uint_word_of_int) simp
    also have "\<dots> = lba div 2 ^ k mod 2 ^ 8" by (simp only: of_nat_numeral_mod)
    finally show ?thesis .
  qed
  have h: "unat (word_of_int (drop_bit 24 (int lba) OR 0xE0) :: u8) mod 16 = lba div 2 ^ 24"
  proof -
    have x: "drop_bit 24 (int lba) = int (lba div 2 ^ 24)" by (simp add: drop_bit_eq_div zdiv_int)
    have t: "take_bit 4 (0xE0 :: int) = 0" by simp
    have "unat (word_of_int y :: u8) mod 16 = nat (take_bit 4 y)" for y
    proof -
      have "unat (word_of_int y :: u8) mod 16 = nat (y mod 2 ^ 8) mod 16"
        by (simp add: unat_eq_nat_uint uint_word_of_int)
      also have "\<dots> = nat (y mod 2 ^ 8 mod 16)" by (simp add: nat_mod_distrib)
      also have "y mod 2 ^ 8 mod 16 = take_bit 4 y" by (simp add: take_bit_eq_mod mod_mod_cancel)
      finally show ?thesis .
    qed
    then have "unat (word_of_int (drop_bit 24 (int lba) OR 0xE0) :: u8) mod 16
        = nat (take_bit 4 (int (lba div 2 ^ 24)))"
      by (simp only: x take_bit_or t or.right_neutral)
    moreover have "lba div 2 ^ 24 < 16" using assms by simp
    ultimately show ?thesis by (simp add: take_bit_eq_mod)
  qed
  have s: "x = x mod 2 ^ 8 + 2 ^ 8 * (x div 2 ^ 8)" for x :: nat by simp
  have "lba div 2 ^ 8 div 2 ^ 8 = lba div 2 ^ 16" "lba div 2 ^ 16 div 2 ^ 8 = lba div 2 ^ 24"
    by (simp_all add: div_mult2_eq [symmetric])
  then have q: "lba div 2 ^ 8 = lba div 2 ^ 8 mod 2 ^ 8 + 2 ^ 8 * (lba div 2 ^ 16)"
    "lba div 2 ^ 16 = lba div 2 ^ 16 mod 2 ^ 8 + 2 ^ 8 * (lba div 2 ^ 24)"
    using s [of "lba div 2 ^ 8"] s [of "lba div 2 ^ 16"] by simp_all
  have "lba = lba mod 2 ^ 8 + 2 ^ 8 * (lba div 2 ^ 8 mod 2 ^ 8) + 2 ^ 16 * (lba div 2 ^ 16 mod 2 ^ 8)
      + 2 ^ 24 * (lba div 2 ^ 24)"
    using s [of lba] q by (rule bytes_sum)
  then show ?thesis
    unfolding lba_of_def ata_command_def ata_registers.simps l d h by simp
qed

lemma ideal_controller_reads: "ata_reads (ideal_controller img) img"
  unfolding ata_reads_def
proof (intro allI impI)
  fix lba :: nat assume "lba < 2 ^ 28"
  then show "let ans = ideal_controller img (ata_command (int lba) 1) in
     (\<exists>n. status ans n AND 0x08 \<noteq> 0) \<and>
     (\<forall>w < 256. data ans w = ucast (img (512 * lba + 2 * w)) OR push_bit 8 (ucast (img (512 * lba + 2 * w + 1))))"
    by (simp add: ideal_controller_def lba_of_command)
qed

section \<open>Reading a sector\<close>

lemma ata_wait_ready: "\<exists>k \<ge> n. st k AND 0x08 \<noteq> 0 \<Longrightarrow> \<exists>n'. ata_wait st n = Some n'"
proof -
  assume "\<exists>k \<ge> n. st k AND 0x08 \<noteq> 0"
  then obtain k where "n \<le> k" "st k AND 0x08 \<noteq> 0" by blast
  then show ?thesis
  proof (induction "k - n" arbitrary: n)
    case 0
    then show ?case by (subst ata_wait.simps) simp
  next
    case (Suc d)
    then have "\<exists>n'. ata_wait st (n + 1) = Some n'" by simp
    then show ?case by (subst ata_wait.simps) auto
  qed
qed

lemma store16_bytes:
  "store16 m p (ucast a OR push_bit 8 (ucast b)) = m(p := a, p + 1 := b)"
proof -
  have "ucast (ucast a OR push_bit 8 (ucast b) :: u16) = a"
    by (rule bit_word_eqI) (auto simp: bit_simps)
  moreover have "ucast (drop_bit 8 (ucast a OR push_bit 8 (ucast b) :: u16)) = b"
    by (rule bit_word_eqI) (auto simp: bit_simps dest: bit_imp_le_length)
  ultimately show ?thesis by (simp add: store16_def)
qed

lemma ata_copy_words_eq:
  assumes "b \<le> 256" and "\<And>k. k < 256 - b \<Longrightarrow> words (w + k) = ucast (f (2 * (b + k))) OR push_bit 8 (ucast (f (2 * (b + k) + 1)))"
  shows "ata_copy_words words w b ptr m = store_bytes m ptr (map f [2 * b..<512])"
  using assms
proof (induction "256 - b" arbitrary: b w ptr m)
  case 0
  then show ?case by (subst ata_copy_words.simps) simp
next
  case (Suc d)
  have b: "b < 256" using Suc.hyps(2) by simp
  have w: "words w = ucast (f (2 * b)) OR push_bit 8 (ucast (f (2 * b + 1)))"
    using Suc.prems(2) [of 0] b by simp
  have "ata_copy_words words w b ptr m =
      ata_copy_words words (w + 1) (b + 1) (ptr + 2) (m(ptr := f (2 * b), ptr + 1 := f (2 * b + 1)))"
    using b by (subst ata_copy_words.simps) (simp only: w store16_bytes if_True)
  also have "\<dots> = store_bytes (m(ptr := f (2 * b), ptr + 1 := f (2 * b + 1))) (ptr + 2) (map f [2 * (b + 1)..<512])"
    using Suc.hyps b Suc.prems(2) [of "Suc _"] by (intro Suc.hyps(1)) auto
  also have "[2 * b..<512] = 2 * b # (2 * b + 1) # [2 * (b + 1)..<512]"
    using b by (simp add: upt_conv_Cons)
  then have "store_bytes (m(ptr := f (2 * b), ptr + 1 := f (2 * b + 1))) (ptr + 2) (map f [2 * (b + 1)..<512])
      = store_bytes m ptr (map f [2 * b..<512])"
    by (simp add: add.assoc)
  finally show ?case .
qed

text \<open>The bytes \<open>n\<close> from position \<open>p\<close> on of a disk image.\<close>

definition image_bytes :: "(nat \<Rightarrow> u8) \<Rightarrow> nat \<Rightarrow> nat \<Rightarrow> u8 list" where
  "image_bytes img p n = map img [p..<p + n]"

lemma length_image_bytes [simp]: "length (image_bytes img p n) = n"
  by (simp add: image_bytes_def)

lemma image_bytes_nth [simp]: "i < n \<Longrightarrow> image_bytes img p n ! i = img (p + i)"
  by (simp add: image_bytes_def)

lemma image_bytes_add: "image_bytes img p (n + k) = image_bytes img p n @ image_bytes img (p + n) k"
proof -
  have "[p..<p + (n + k)] = [p..<p + n] @ [p + n..<p + n + k]"
    using upt_add_eq_append [of p "p + n" k] by (simp add: add.assoc)
  then show ?thesis by (simp add: image_bytes_def)
qed

lemma disk_read_block_sector_eq:
  assumes "ata_reads (controller S) img" and "unat lba < 2 ^ 28"
  shows "disk_read_block S (disk_addr S) lba 1 buf m =
    Some (0, store_bytes m buf (image_bytes img (512 * unat lba) 512))"
proof -
  have l: "int_of_u32 lba = int (unat lba)" using assms(2) by (intro int_of_u32_small) simp
  define ans where "ans = controller S (ata_command (int (unat lba)) 1)"
  have ans: "\<exists>n. status ans n AND 0x08 \<noteq> 0"
    "\<And>w. w < 256 \<Longrightarrow> data ans w = ucast (img (512 * unat lba + 2 * w)) OR push_bit 8 (ucast (img (512 * unat lba + 2 * w + 1)))"
    using assms unfolding ata_reads_def Let_def ans_def by blast+
  then obtain n' where n': "ata_wait (status ans) 0 = Some n'" using ata_wait_ready [of 0] by auto
  have "ata_copy_words (data ans) 0 0 buf m = store_bytes m buf (map (\<lambda>i. img (512 * unat lba + i)) [2 * 0..<512])"
    using ans(2) by (intro ata_copy_words_eq) (simp_all add: add.assoc)
  also have "map (\<lambda>i. img (512 * unat lba + i)) [2 * 0..<512] = image_bytes img (512 * unat lba) 512"
    by (rule nth_equalityI) simp_all
  finally have c: "ata_copy_words (data ans) 0 0 buf m = store_bytes m buf (image_bytes img (512 * unat lba) 512)" .
  have "disk_read_sectors_loop ans 1 0 0 0 buf m = Some (store_bytes m buf (image_bytes img (512 * unat lba) 512))"
    by (subst disk_read_sectors_loop.simps) (simp add: n' c disk_read_sectors_loop.simps [of _ 1 1])
  then show ?thesis by (simp add: disk_read_block_def disk_read_sector_def l ans_def del: of_nat_unat)
qed

text \<open>
  Reading one sector of the primary disk from a controller in order returns, with
  result 0 and exactly the 512 bytes of that sector in the buffer.
\<close>

theorem disk_read_block_sector:
  assumes "ata_reads (controller S) img" and "unat lba < 2 ^ 28"
  shows "disk_read_block S (disk_addr S) lba 1 buf m =
    Some (0, store_bytes m buf (image_bytes img (512 * unat lba) 512))"
  using assms by (rule disk_read_block_sector_eq)

theorem disk_read_block_sector_witness:
  "\<exists>S. disk_read_block S (disk_addr S) 3 1 0x7000 (\<lambda>_. 0)
    = Some (0, store_bytes (\<lambda>_. 0) 0x7000 (image_bytes (\<lambda>i. of_nat i) 1536 512))"
proof -
  let ?S = "\<lparr>controller = ideal_controller (\<lambda>i. of_nat i), disk_addr = 0x8000, fat16_fs_addr = 0x8100,
    filesystems_addr = 0x8200, file_descriptors_addr = 0x8300, literal_addr = (\<lambda>_. 0x8F00)\<rparr>"
  have "ata_reads (controller ?S) (\<lambda>i. of_nat i)" using ideal_controller_reads by simp
  then have "disk_read_block ?S (disk_addr ?S) 3 1 0x7000 (\<lambda>_. 0)
      = Some (0, store_bytes (\<lambda>_. 0) 0x7000 (image_bytes (\<lambda>i. of_nat i) (512 * unat (3 :: u32)) 512))"
    by (rule disk_read_block_sector) simp
  then show ?thesis by (intro exI [of _ ?S]) simp
qed

end
