(* ===== verification/Heap.thy ===== *)
theory Heap
  imports Mem
begin

text \<open>
  \<^verbatim>\<open>src/src/memory/heap/heap.c\<close>: the block allocator of the kernel. The
  block table is an array of bytes in memory, read and written through the flat memory at
  \<open>entries + i\<close>, so a write past the table is a write to the byte that lies there.
\<close>

section \<open>State\<close>

text \<open>
  \<^verbatim>\<open>struct heap_table\<close> and \<^verbatim>\<open>struct heap\<close>. The heap holds a pointer to its only table; the
  table descriptor never changes after it was set up, so the model stores it in place.
\<close>

record heap_table =
  entries :: u32
  total :: u32

record heap =
  table :: heap_table
  start_address :: u32

definition HEAP_BLOCK_TABLE_ENTRY_TAKEN :: u8 where "HEAP_BLOCK_TABLE_ENTRY_TAKEN = 0x01"
definition HEAP_BLOCK_TABLE_ENTRY_FREE :: u8 where "HEAP_BLOCK_TABLE_ENTRY_FREE = 0x00"
definition HEAP_BLOCK_HAS_NEXT :: u8 where "HEAP_BLOCK_HAS_NEXT = 0x80"
definition HEAP_BLOCK_IS_FIRST :: u8 where "HEAP_BLOCK_IS_FIRST = 0x40"

lemmas heap_flags = HEAP_BLOCK_TABLE_ENTRY_TAKEN_def HEAP_BLOCK_TABLE_ENTRY_FREE_def
  HEAP_BLOCK_HAS_NEXT_def HEAP_BLOCK_IS_FIRST_def

definition SIMPOS_HEAP_SIZE_BYTES :: u32 where "SIMPOS_HEAP_SIZE_BYTES = 104857600"
definition SIMPOS_HEAP_BLOCK_SIZE :: u32 where "SIMPOS_HEAP_BLOCK_SIZE = 4096"
definition SIMPOS_HEAP_ADDRESS :: u32 where "SIMPOS_HEAP_ADDRESS = 0x01000000"
definition SIMPOS_HEAP_TABLE_ADDRESS :: u32 where "SIMPOS_HEAP_TABLE_ADDRESS = 0x00007E00"

section \<open>Creation\<close>

definition heap_validate_table :: "u32 \<Rightarrow> u32 \<Rightarrow> heap_table \<Rightarrow> int" where
  "heap_validate_table ptr end_ptr t =
     (let table_size = end_ptr - ptr; total_blocks = table_size div SIMPOS_HEAP_BLOCK_SIZE
      in if total t \<noteq> total_blocks then - EINVARG else 0)"

definition heap_validate_alignment :: "u32 \<Rightarrow> bool" where
  "heap_validate_alignment ptr \<longleftrightarrow> ptr mod SIMPOS_HEAP_BLOCK_SIZE = 0"

text \<open>The result code, the heap and the memory after the call.\<close>

definition heap_create :: "heap \<Rightarrow> u32 \<Rightarrow> u32 \<Rightarrow> heap_table \<Rightarrow> mem \<Rightarrow> int \<times> heap \<times> mem" where
  "heap_create h ptr end_ptr t m =
     (if \<not> heap_validate_alignment ptr \<or> \<not> heap_validate_alignment end_ptr
      then (- EINVARG, h, m)
      else let h' = \<lparr>table = t, start_address = ptr\<rparr>; res = heap_validate_table ptr end_ptr t
        in if res < 0 then (res, h', m)
           else (res, h', memset m (entries t) (uint HEAP_BLOCK_TABLE_ENTRY_FREE) (total t)))"

section \<open>Finding free blocks\<close>

definition heap_get_entry_type :: "u8 \<Rightarrow> int" where
  "heap_get_entry_type entry = uint (entry AND 0x0f)"

text \<open>
  The loop of \<open>heap_get_start_block\<close>: \<open>i\<close> is the \<open>size_t\<close> index, \<open>bc\<close> is \<open>block_count\<close>,
  \<open>sb\<close> is \<open>starting_block\<close>. The comparison \<open>block_count == total_blocks\<close> is between an int
  and a \<open>uint32_t\<close>, hence unsigned. Falling out of the loop keeps whatever start was set.
\<close>

function heap_scan :: "mem \<Rightarrow> heap_table \<Rightarrow> u32 \<Rightarrow> u32 \<Rightarrow> int \<Rightarrow> int \<Rightarrow> int" where
  "heap_scan m t total_blocks i bc sb =
     (if i < total t then
        (if heap_get_entry_type (m (entries t + i)) \<noteq> uint HEAP_BLOCK_TABLE_ENTRY_FREE
         then heap_scan m t total_blocks (i + 1) 0 (- 1)
         else let sb' = (if sb = - 1 then int_of_u32 i else sb); bc' = c_int (bc + 1)
           in if u32_of_int bc' = total_blocks then sb'
              else heap_scan m t total_blocks (i + 1) bc' sb')
      else sb)"
  by pat_completeness auto
termination
  by (relation "measure (\<lambda>(m, t, total_blocks, i, bc, sb). unat (total t) - unat i)")
     (auto simp: unat_Suc_u32 word_less_nat_alt)

declare heap_scan.simps [simp del]

definition heap_get_start_block :: "heap \<Rightarrow> u32 \<Rightarrow> mem \<Rightarrow> int" where
  "heap_get_start_block h total_blocks m =
     (let starting_block = heap_scan m (table h) total_blocks 0 0 (- 1)
      in if starting_block = - 1 then - ENOMEM else starting_block)"

section \<open>Marking, allocation and release\<close>

definition heap_block_to_address :: "heap \<Rightarrow> int \<Rightarrow> u32" where
  "heap_block_to_address h block = start_address h + u32_of_int (c_int (block * uint SIMPOS_HEAP_BLOCK_SIZE))"

function heap_mark_taken_loop :: "mem \<Rightarrow> u32 \<Rightarrow> int \<Rightarrow> int \<Rightarrow> u8 \<Rightarrow> mem" where
  "heap_mark_taken_loop m es i end_block entry =
     (if i \<le> end_block then
        heap_mark_taken_loop (m(es + u32_of_int i := entry)) es (i + 1) end_block
          (if i \<noteq> end_block - 1 then HEAP_BLOCK_TABLE_ENTRY_TAKEN OR HEAP_BLOCK_HAS_NEXT
           else HEAP_BLOCK_TABLE_ENTRY_TAKEN)
      else m)"
  by pat_completeness auto
termination
  by (relation "measure (\<lambda>(m, es, i, end_block, entry). nat (end_block + 1 - i))") auto

declare heap_mark_taken_loop.simps [simp del]

definition heap_mark_blocks_taken :: "heap \<Rightarrow> int \<Rightarrow> int \<Rightarrow> mem \<Rightarrow> mem" where
  "heap_mark_blocks_taken h start_block total_blocks m =
     (let end_block = c_int (c_int (start_block + total_blocks) - 1);
          entry = HEAP_BLOCK_TABLE_ENTRY_TAKEN OR HEAP_BLOCK_IS_FIRST;
          entry = (if total_blocks > 1 then entry OR HEAP_BLOCK_HAS_NEXT else entry)
      in heap_mark_taken_loop m (entries (table h)) start_block end_block entry)"

definition heap_malloc_blocks :: "heap \<Rightarrow> u32 \<Rightarrow> mem \<Rightarrow> u32 \<times> mem" where
  "heap_malloc_blocks h total_blocks m =
     (let start_block = heap_get_start_block h total_blocks m
      in if start_block < 0 then (0, m)
         else (heap_block_to_address h start_block,
               heap_mark_blocks_taken h start_block (int_of_u32 total_blocks) m))"

definition heap_align_value_to_upper :: "u32 \<Rightarrow> u32" where
  "heap_align_value_to_upper val =
     (if val mod SIMPOS_HEAP_BLOCK_SIZE = 0 then val
      else val - val mod SIMPOS_HEAP_BLOCK_SIZE + SIMPOS_HEAP_BLOCK_SIZE)"

definition heap_malloc :: "heap \<Rightarrow> u32 \<Rightarrow> mem \<Rightarrow> u32 \<times> mem" where
  "heap_malloc h sz m =
     (let aligned_size = heap_align_value_to_upper sz;
          total_blocks = aligned_size div SIMPOS_HEAP_BLOCK_SIZE
      in heap_malloc_blocks h total_blocks m)"

definition heap_address_to_block :: "heap \<Rightarrow> u32 \<Rightarrow> int" where
  "heap_address_to_block h address =
     int_of_u32 (address - start_address h) sdiv uint SIMPOS_HEAP_BLOCK_SIZE"

text \<open>
  A negative starting block passes the loop test, so \<open>entries[i]\<close> with \<open>i < 0\<close> is a byte
  in front of the table.
\<close>

function heap_mark_blocks_free_loop :: "mem \<Rightarrow> heap_table \<Rightarrow> int \<Rightarrow> mem" where
  "heap_mark_blocks_free_loop m t i =
     (if i < int_of_u32 (total t) then
        let entry = m (entries t + u32_of_int i);
            m' = m(entries t + u32_of_int i := HEAP_BLOCK_TABLE_ENTRY_FREE)
        in if entry AND HEAP_BLOCK_HAS_NEXT = 0 then m'
           else heap_mark_blocks_free_loop m' t (i + 1)
      else m)"
  by pat_completeness auto
termination
  by (relation "measure (\<lambda>(m, t, i). nat (int_of_u32 (total t) - i))") auto

declare heap_mark_blocks_free_loop.simps [simp del]

definition heap_mark_blocks_free :: "heap \<Rightarrow> int \<Rightarrow> mem \<Rightarrow> mem" where
  "heap_mark_blocks_free h starting_block m = heap_mark_blocks_free_loop m (table h) starting_block"

definition heap_free :: "heap \<Rightarrow> u32 \<Rightarrow> mem \<Rightarrow> mem" where
  "heap_free h ptr m = heap_mark_blocks_free h (heap_address_to_block h ptr) m"

end
