(* ===== verification/HeapSpec.thy ===== *)
theory HeapSpec
  imports Heap
begin

text \<open>
  What the block allocator promises. The abstract state is a finite map from the first
  block of every allocation to its number of blocks; \<open>heap_rel\<close> says that the byte table in
  memory represents it. The lemmas show that the search is first fit, that allocation and
  release refine the map update, and where the code leaves that specification.
\<close>

section \<open>The abstract allocator\<close>

type_synonym allocs = "nat \<rightharpoonup> nat"

definition covered :: "allocs \<Rightarrow> nat \<Rightarrow> bool" where
  "covered A i \<longleftrightarrow> (\<exists>b n. A b = Some n \<and> b \<le> i \<and> i < b + n)"

definition fits :: "allocs \<Rightarrow> nat \<Rightarrow> nat \<Rightarrow> nat \<Rightarrow> bool" where
  "fits A tot n b \<longleftrightarrow> b + n \<le> tot \<and> (\<forall>i. b \<le> i \<longrightarrow> i < b + n \<longrightarrow> \<not> covered A i)"

definition first_fit :: "allocs \<Rightarrow> nat \<Rightarrow> nat \<Rightarrow> nat \<Rightarrow> bool" where
  "first_fit A tot n b \<longleftrightarrow> fits A tot n b \<and> (\<forall>b' < b. \<not> fits A tot n b')"

text \<open>The flag byte of block \<open>k\<close> of an allocation of \<open>n\<close> blocks.\<close>

definition block_code :: "nat \<Rightarrow> nat \<Rightarrow> u8" where
  "block_code n k = HEAP_BLOCK_TABLE_ENTRY_TAKEN
     OR (if k = 0 then HEAP_BLOCK_IS_FIRST else 0) OR (if k + 1 < n then HEAP_BLOCK_HAS_NEXT else 0)"

definition blk :: "mem \<Rightarrow> heap_table \<Rightarrow> nat \<Rightarrow> u8" where
  "blk m t i = m (entries t + of_nat i)"

definition table_rel :: "heap_table \<Rightarrow> mem \<Rightarrow> allocs \<Rightarrow> bool" where
  "table_rel t m A \<longleftrightarrow>
     (\<forall>b n. A b = Some n \<longrightarrow> 0 < n \<and> b + n \<le> unat (total t) \<and> (\<forall>k < n. blk m t (b + k) = block_code n k)) \<and>
     (\<forall>b n b' n'. A b = Some n \<longrightarrow> A b' = Some n' \<longrightarrow> b < b' \<longrightarrow> b + n \<le> b') \<and>
     (\<forall>i < unat (total t). \<not> covered A i \<longrightarrow> blk m t i = HEAP_BLOCK_TABLE_ENTRY_FREE)"

text \<open>The layout a heap needs: the table does not wrap and lies outside the data area.\<close>

definition table_region :: "heap \<Rightarrow> u32 set" where
  "table_region h = region (entries (table h)) (unat (total (table h)))"

definition data_region :: "heap \<Rightarrow> u32 set" where
  "data_region h = region (start_address h) (4096 * unat (total (table h)))"

definition heap_geom :: "heap \<Rightarrow> bool" where
  "heap_geom h \<longleftrightarrow> aligned 4096 (start_address h) \<and> 0 < unat (start_address h) \<and>
     unat (start_address h) + 4096 * unat (total (table h)) \<le> 2 ^ 32 \<and>
     4096 * unat (total (table h)) < 2 ^ 31 \<and>
     unat (entries (table h)) + unat (total (table h)) \<le> 2 ^ 32 \<and>
     table_region h \<inter> data_region h = {}"

lemma block_code_cases:
  "block_code n k = (if k = 0 then (if 1 < n then 0xC1 else 0x41) else (if k + 1 < n then 0x81 else 0x01))"
  by (simp add: block_code_def heap_flags)

lemma block_code_type [simp]: "heap_get_entry_type (block_code n k) = 1"
  by (simp add: block_code_cases heap_get_entry_type_def)

lemma block_code_next: "block_code n k AND HEAP_BLOCK_HAS_NEXT = 0 \<longleftrightarrow> \<not> k + 1 < n"
  by (auto simp: block_code_cases heap_flags)

lemma free_type [simp]: "heap_get_entry_type HEAP_BLOCK_TABLE_ENTRY_FREE = 0"
  by (simp add: heap_get_entry_type_def heap_flags)

lemma geom_total: "heap_geom h \<Longrightarrow> unat (total (table h)) < 2 ^ 19"
  by (simp add: heap_geom_def)

section \<open>The search\<close>

definition blk_free :: "mem \<Rightarrow> heap_table \<Rightarrow> nat \<Rightarrow> bool" where
  "blk_free m t i \<longleftrightarrow> heap_get_entry_type (blk m t i) = 0"

definition run :: "mem \<Rightarrow> heap_table \<Rightarrow> nat \<Rightarrow> nat \<Rightarrow> bool" where
  "run m t b e \<longleftrightarrow> (\<forall>j. b \<le> j \<longrightarrow> j < e \<longrightarrow> blk_free m t j)"

text \<open>
  The invariant of the scan at index \<open>i\<close>, looking for \<open>n\<close> blocks: either no run is open,
  or the run that ends at \<open>i\<close> began at \<open>sb\<close> and is too short; and no run of \<open>n\<close> blocks lies
  before \<open>i\<close>.
\<close>

definition scan_inv :: "mem \<Rightarrow> heap_table \<Rightarrow> nat \<Rightarrow> nat \<Rightarrow> int \<Rightarrow> int \<Rightarrow> bool" where
  "scan_inv m t n i bc sb \<longleftrightarrow>
     ((sb = - 1 \<and> bc = 0 \<and> (i = 0 \<or> \<not> blk_free m t (i - 1))) \<or>
      (\<exists>s. sb = int s \<and> s < i \<and> bc = int (i - s) \<and> run m t s i \<and>
        (s = 0 \<or> \<not> blk_free m t (s - 1)) \<and> i - s < n)) \<and>
     (\<forall>b. b + n \<le> i \<longrightarrow> \<not> run m t b (b + n))"

definition scan_result :: "mem \<Rightarrow> heap_table \<Rightarrow> nat \<Rightarrow> nat \<Rightarrow> int \<Rightarrow> bool" where
  "scan_result m t n tot r \<longleftrightarrow>
     (\<exists>b. r = int b \<and> b + n \<le> tot \<and> run m t b (b + n) \<and> (\<forall>b' < b. \<not> run m t b' (b' + n))) \<or>
     ((\<forall>b. b + n \<le> tot \<longrightarrow> \<not> run m t b (b + n)) \<and>
      ((r = - 1 \<and> (tot = 0 \<or> \<not> blk_free m t (tot - 1))) \<or>
       (\<exists>s. r = int s \<and> s < tot \<and> run m t s tot \<and> (s = 0 \<or> \<not> blk_free m t (s - 1)) \<and> tot - s < n)))"

lemma scan_inv_end: "scan_inv m t n tot bc sb \<Longrightarrow> scan_result m t n tot sb"
  unfolding scan_inv_def scan_result_def by blast

lemma scan_inv_taken:
  assumes "scan_inv m t n i bc sb" and "\<not> blk_free m t i" and "0 < n"
  shows "scan_inv m t n (Suc i) 0 (- 1)"
proof -
  have "\<not> run m t b (b + n)" if "b + n \<le> Suc i" for b
  proof (cases "b + n = Suc i")
    case True
    then show ?thesis using assms(2,3) unfolding run_def by (metis less_add_same_cancel1 less_Suc_eq_le lessI)
  next
    case False
    then show ?thesis using assms(1) that by (simp add: scan_inv_def)
  qed
  then show ?thesis using assms(2) by (simp add: scan_inv_def)
qed

lemma run_Suc: "run m t s i \<Longrightarrow> blk_free m t i \<Longrightarrow> run m t s (Suc i)"
  by (auto simp: run_def less_Suc_eq)

text \<open>
  One more free block: the open run starts at \<open>s\<close> and now has \<open>Suc i - s\<close> blocks. Reaching
  \<open>n\<close> makes it the first run of \<open>n\<close> blocks; otherwise the invariant goes on.
\<close>

lemma scan_inv_free:
  assumes inv: "scan_inv m t n i bc sb" and fr: "blk_free m t i" and n: "0 < n"
    and s: "s = (if sb = - 1 then i else nat sb)"
  shows "s \<le> i" and "sb \<noteq> - 1 \<Longrightarrow> sb = int s" and "bc + 1 = int (Suc i - s)"
    and "Suc i - s = n \<Longrightarrow> run m t s (s + n) \<and> (\<forall>b' < s. \<not> run m t b' (b' + n))"
    and "Suc i - s \<noteq> n \<Longrightarrow> scan_inv m t n (Suc i) (bc + 1) (int s)"
proof -
  from inv have r: "s \<le> i" "run m t s i" "s = 0 \<or> \<not> blk_free m t (s - 1)" "Suc i - s \<le> n"
      "sb = - 1 \<or> sb = int s" "bc + 1 = int (Suc i - s)"
    using s n by (auto simp: scan_inv_def run_def)
  from inv have none: "\<not> run m t b (b + n)" if "b + n \<le> i" for b
    using that by (simp add: scan_inv_def)
  show "s \<le> i" "bc + 1 = int (Suc i - s)" by fact+
  show "sb \<noteq> - 1 \<Longrightarrow> sb = int s" using r(5) by blast
  have run: "run m t s (Suc i)" using r(2) fr by (rule run_Suc)
  show "run m t s (s + n) \<and> (\<forall>b' < s. \<not> run m t b' (b' + n))" if "Suc i - s = n"
  proof -
    have "s + n = Suc i" using that r(1) by simp
    then show ?thesis using run none by auto
  qed
  show "scan_inv m t n (Suc i) (bc + 1) (int s)" if "Suc i - s \<noteq> n"
  proof -
    have lt: "Suc i - s < n" using that r(4) by simp
    have "\<not> run m t b (b + n)" if b: "b + n \<le> Suc i" for b
    proof (cases "b + n = Suc i")
      case True
      then have "b < s" using lt r(1) by linarith
      then have "b \<le> s - 1" "s - 1 < b + n" "\<not> blk_free m t (s - 1)" using True r(1,3) by auto
      then show ?thesis unfolding run_def by blast
    next
      case False
      then show ?thesis using b none by simp
    qed
    then show ?thesis using r run lt by (auto simp: scan_inv_def)
  qed
qed

lemma heap_scan_result:
  assumes "unat (total t) < 2 ^ 31" and "0 < n" and "i \<le> total t"
    and "scan_inv m t n (unat i) bc sb"
    and "\<And>k. 0 < k \<Longrightarrow> k \<le> unat (total t) \<Longrightarrow> of_nat k = tb \<longleftrightarrow> k = n"
  shows "scan_result m t n (unat (total t)) (heap_scan m t tb i bc sb)"
  using assms
proof (induction m t tb i bc sb rule: heap_scan.induct)
  case (1 m t tb i bc sb)
  note inv = "1.prems"(4)
  have b: "m (entries t + i) = blk m t (unat i)" by (simp add: blk_def)
  show ?case
  proof (cases "i < total t")
    case False
    then have "i = total t" using "1.prems"(3) by simp
    then show ?thesis using inv by (simp add: heap_scan.simps [of m t tb "total t"] scan_inv_end)
  next
    case True
    have S: "unat (i + 1) = Suc (unat i)" using True by (rule unat_Suc_u32)
    have lt: "unat i < unat (total t)" using True by (simp add: word_less_nat_alt)
    then have le: "i + 1 \<le> total t" using S by (simp add: word_le_nat_alt)
    show ?thesis
    proof (cases "blk_free m t (unat i)")
      case False
      then have ty: "heap_get_entry_type (m (entries t + i)) \<noteq> uint HEAP_BLOCK_TABLE_ENTRY_FREE"
        by (simp add: b blk_free_def heap_flags)
      have "scan_inv m t n (unat (i + 1)) 0 (- 1)"
        unfolding S using inv False "1.prems"(2) by (rule scan_inv_taken)
      then show ?thesis
        using "1.IH"(1) [OF True ty] "1.prems"(1,2,5) le True ty
        by (simp add: heap_scan.simps [of m t tb i])
    next
      case free: True
      then have ty: "\<not> heap_get_entry_type (m (entries t + i)) \<noteq> uint HEAP_BLOCK_TABLE_ENTRY_FREE"
        by (simp add: b blk_free_def heap_flags)
      define s where "s = (if sb = - 1 then unat i else nat sb)"
      note f = scan_inv_free [OF inv free "1.prems"(2) s_def]
      have i31: "unat i < 2 ^ 31" using lt "1.prems"(1) by simp
      have sb': "(if sb = - 1 then int_of_u32 i else sb) = int s"
        using f(2) i31 by (auto simp: s_def int_of_u32_small)
      have "bc + 1 \<le> int (Suc (unat i))" unfolding f(3) by (rule of_nat_mono) simp
      moreover have "int (Suc (unat i)) < 2 ^ 31"
        using lt "1.prems"(1) by (intro int_less_2p31) simp
      ultimately have bcs: "bc + 1 < 2 ^ 31" by (rule order_le_less_trans)
      have bc': "c_int (bc + 1) = bc + 1"
        by (rule c_int_id) (use f(3) bcs in auto)
      have "0 < Suc (unat i) - s" "Suc (unat i) - s \<le> unat (total t)" using f(1) lt by auto
      then have eq: "u32_of_int (bc + 1) = tb \<longleftrightarrow> Suc (unat i) - s = n"
        unfolding f(3) u32_of_int_of_nat by (rule "1.prems"(5))
      show ?thesis
      proof (cases "Suc (unat i) - s = n")
        case hit: True
        then have "s + n \<le> unat (total t)" using f(1) lt by linarith
        then have "scan_result m t n (unat (total t)) (int s)"
          using f(4) [OF hit] unfolding scan_result_def by blast
        then show ?thesis
          using True ty hit eq by (simp add: heap_scan.simps [of m t tb i] sb' bc' Let_def)
      next
        case miss: False
        have ne: "\<not> u32_of_int (c_int (bc + 1)) = tb" using miss eq by simp
        have "scan_inv m t n (unat (i + 1)) (bc + 1) (int s)"
          unfolding S using miss by (rule f(5))
        then show ?thesis
          using "1.IH"(2) [OF True ty refl refl ne] "1.prems"(1,2,5) le True ty miss eq
          by (simp add: heap_scan.simps [of m t tb i] sb' bc' Let_def)
      qed
    qed
  qed
qed

lemma scan_inv_init: "0 < n \<Longrightarrow> scan_inv m t n 0 0 (- 1)"
  by (auto simp: scan_inv_def run_def)

lemma heap_scan_start:
  assumes "unat (total t) < 2 ^ 31" and "0 < unat tb"
  shows "scan_result m t (unat tb) (unat (total t)) (heap_scan m t tb 0 0 (- 1))"
proof (rule heap_scan_result [OF assms])
  show "scan_inv m t (unat tb) (unat 0) 0 (- 1)" using assms(2) by (simp add: scan_inv_init)
  show "of_nat k = tb \<longleftrightarrow> k = unat tb" if "0 < k" "k \<le> unat (total t)" for k
    using that assms(1) by (auto simp: word_unat_eq_iff)
qed simp

text \<open>A search for 0 blocks never stops early: it ends like a search for too many.\<close>

lemma heap_scan_zero:
  assumes "unat (total t) < 2 ^ 31"
  shows "scan_result m t (Suc (unat (total t))) (unat (total t)) (heap_scan m t 0 0 0 (- 1))"
proof (rule heap_scan_result [OF assms])
  show "scan_inv m t (Suc (unat (total t))) (unat 0) 0 (- 1)" by (simp add: scan_inv_init)
  show "of_nat k = (0 :: u32) \<longleftrightarrow> k = Suc (unat (total t))" if "0 < k" "k \<le> unat (total t)" for k
    using that assms by (auto simp: word_unat_eq_iff)
qed simp_all

section \<open>The table and the abstract map\<close>

lemma table_relD:
  assumes "table_rel t m A" and "A b = Some n"
  shows "0 < n" "b + n \<le> unat (total t)" "k < n \<Longrightarrow> blk m t (b + k) = block_code n k"
  using assms by (auto simp: table_rel_def)

lemma table_rel_disjoint:
  assumes "table_rel t m A" and "A b = Some n" "A b' = Some n'" "b \<noteq> b'"
  shows "b + n \<le> b' \<or> b' + n' \<le> b"
proof (cases "b < b'")
  case True
  then show ?thesis using assms unfolding table_rel_def by blast
next
  case False
  then have "b' < b" using assms(4) by simp
  then show ?thesis using assms unfolding table_rel_def by blast
qed

lemma blk_free_iff:
  assumes "table_rel t m A" and "i < unat (total t)"
  shows "blk_free m t i \<longleftrightarrow> \<not> covered A i"
proof (cases "covered A i")
  case True
  then obtain b n where "A b = Some n" "b \<le> i" "i < b + n" by (auto simp: covered_def)
  then have "blk m t i = block_code n (i - b)"
    using table_relD(3) [OF assms(1), of b n "i - b"] by simp
  then show ?thesis using True by (simp add: blk_free_def)
next
  case False
  then have "blk m t i = HEAP_BLOCK_TABLE_ENTRY_FREE" using assms by (simp add: table_rel_def)
  then show ?thesis using False by (simp add: blk_free_def)
qed

lemma run_iff_fits:
  assumes "table_rel t m A" and "b + n \<le> unat (total t)"
  shows "run m t b (b + n) \<longleftrightarrow> fits A (unat (total t)) n b"
  using assms blk_free_iff [OF assms(1)] unfolding run_def fits_def
  by (meson less_le_trans)

lemma start_block_first_fit:
  assumes "table_rel (table h) m A" and "unat (total (table h)) < 2 ^ 31" and "0 < unat tb"
    and "first_fit A (unat (total (table h))) (unat tb) b"
  shows "heap_get_start_block h tb m = int b"
proof -
  let ?t = "table h" and ?n = "unat tb" and ?tot = "unat (total (table h))"
  have b: "b + ?n \<le> ?tot" "run m ?t b (b + ?n)"
    using assms(4) run_iff_fits [OF assms(1)] by (auto simp: first_fit_def fits_def)
  have least: "\<not> run m ?t b' (b' + ?n)" if "b' < b" for b'
    using that b(1) assms(4) run_iff_fits [OF assms(1), of b' ?n] by (auto simp: first_fit_def)
  have "scan_result m ?t ?n ?tot (heap_scan m ?t tb 0 0 (- 1))"
    using assms(2,3) by (rule heap_scan_start)
  then obtain c where c: "heap_scan m ?t tb 0 0 (- 1) = int c" "run m ?t c (c + ?n)"
      "\<forall>b' < c. \<not> run m ?t b' (b' + ?n)"
    using b unfolding scan_result_def by blast
  then have "c = b" using b(2) least by (meson linorder_neqE_nat)
  then show ?thesis using c(1) by (simp add: heap_get_start_block_def)
qed

text \<open>
  When no run is long enough, the answer depends on the last block alone: taken, and the
  search fails; free, and the search answers the start of the run at the end of the table.
\<close>

lemma start_block_none:
  assumes "table_rel (table h) m A" and "unat (total (table h)) < 2 ^ 31" and "0 < unat tb"
    and nofit: "\<And>b. \<not> fits A (unat (total (table h))) (unat tb) b"
  shows "covered A (unat (total (table h)) - 1) \<or> unat (total (table h)) = 0
      \<Longrightarrow> heap_get_start_block h tb m = - ENOMEM"
    and "\<not> covered A (unat (total (table h)) - 1) \<Longrightarrow> 0 < unat (total (table h))
      \<Longrightarrow> \<exists>s. heap_get_start_block h tb m = int s \<and> s < unat (total (table h))
        \<and> (\<forall>i. s \<le> i \<longrightarrow> i < unat (total (table h)) \<longrightarrow> \<not> covered A i)
        \<and> unat (total (table h)) < s + unat tb"
proof -
  let ?t = "table h" and ?n = "unat tb" and ?tot = "unat (total (table h))"
  have norun: "\<not> run m ?t b (b + ?n)" if "b + ?n \<le> ?tot" for b
    using that nofit run_iff_fits [OF assms(1)] by blast
  have last: "blk_free m ?t (?tot - 1) \<longleftrightarrow> \<not> covered A (?tot - 1)" if "0 < ?tot"
    using that by (intro blk_free_iff [OF assms(1)]) simp
  have r: "scan_result m ?t ?n ?tot (heap_scan m ?t tb 0 0 (- 1))"
    using assms(2,3) by (rule heap_scan_start)
  let ?r = "heap_scan m ?t tb 0 0 (- 1)"
  have alt: "(?r = - 1 \<and> (?tot = 0 \<or> \<not> blk_free m ?t (?tot - 1))) \<or>
      (\<exists>s. ?r = int s \<and> s < ?tot \<and> run m ?t s ?tot \<and> ?tot - s < ?n)"
    using r norun unfolding scan_result_def by blast
  show "heap_get_start_block h tb m = - ENOMEM" if "covered A (?tot - 1) \<or> ?tot = 0"
  proof -
    have "\<not> (s < ?tot \<and> run m ?t s ?tot)" for s
    proof
      assume "s < ?tot \<and> run m ?t s ?tot"
      then have "0 < ?tot" "blk_free m ?t (?tot - 1)" by (auto simp: run_def)
      then show False using that last by auto
    qed
    then have "?r = - 1" using alt by blast
    then show ?thesis by (simp add: heap_get_start_block_def)
  qed
  show "\<exists>s. heap_get_start_block h tb m = int s \<and> s < ?tot
      \<and> (\<forall>i. s \<le> i \<longrightarrow> i < ?tot \<longrightarrow> \<not> covered A i) \<and> ?tot < s + ?n"
    if "\<not> covered A (?tot - 1)" "0 < ?tot"
  proof -
    from alt last that obtain s where s: "?r = int s" "s < ?tot" "run m ?t s ?tot" "?tot - s < ?n"
      by auto
    have "\<not> covered A i" if "s \<le> i" "i < ?tot" for i
      using s(3) that blk_free_iff [OF assms(1)] by (auto simp: run_def)
    then show ?thesis using s by (auto simp: heap_get_start_block_def)
  qed
qed

section \<open>Marking and freeing\<close>

lemma mark_loop:
  assumes "s + n \<le> 2 ^ 31" and "k \<le> n" and "k < n \<Longrightarrow> entry = block_code n k"
  shows "heap_mark_taken_loop m es (int (s + k)) (int (s + n) - 1) entry a =
    (if a \<in> region (es + of_nat (s + k)) (n - k) then block_code n (unat (a - es) - s) else m a)"
  using assms(2,3)
proof (induction "n - k" arbitrary: m k entry)
  case 0
  then show ?case by (simp add: heap_mark_taken_loop.simps)
next
  case (Suc d)
  let ?p = "es + of_nat (s + k)"
  let ?e = "if int (s + k) \<noteq> int (s + n) - 1 - 1
    then HEAP_BLOCK_TABLE_ENTRY_TAKEN OR HEAP_BLOCK_HAS_NEXT else HEAP_BLOCK_TABLE_ENTRY_TAKEN"
  have k: "k < n" using Suc.hyps(2) by simp
  have e: "?e = block_code n (Suc k)" if "Suc k < n"
    using that by (auto simp: block_code_def)
  have p: "es + u32_of_int (int (s + k)) = ?p" by (simp only: u32_of_int_of_nat)
  have IH: "heap_mark_taken_loop (m(?p := entry)) es (int (s + Suc k)) (int (s + n) - 1) ?e a =
    (if a \<in> region (es + of_nat (s + Suc k)) (n - Suc k) then block_code n (unat (a - es) - s)
     else (m(?p := entry)) a)"
    by (rule Suc.hyps(1)) (use Suc.hyps(2) k e in auto)
  have at: "unat (?p - es) - s = k" using k assms(1) by (simp del: of_nat_add)
  have nk: "n - k = Suc (n - Suc k)" and nx: "es + of_nat (s + Suc k) = ?p + 1"
    "int (s + Suc k) = int (s + k) + 1"
    using k by simp_all
  have "heap_mark_taken_loop m es (int (s + k)) (int (s + n) - 1) entry a
      = heap_mark_taken_loop (m(?p := entry)) es (int (s + k) + 1) (int (s + n) - 1) ?e a"
    using k by (subst heap_mark_taken_loop.simps) (simp add: p del: of_nat_add)
  then show ?case
    using IH at Suc.prems(2) [OF k] unfolding nx nk region_Suc by simp
qed

lemma mark_blocks_taken_eq:
  assumes "s + n < 2 ^ 31" and "0 < n"
  shows "heap_mark_blocks_taken h (int s) (int n) m a =
    (if a \<in> region (entries (table h) + of_nat s) n then block_code n (unat (a - entries (table h)) - s)
     else m a)"
proof -
  have "int (s + n) < 2 ^ 31" using assms(1) by (rule int_less_2p31)
  then have last: "c_int (c_int (int s + int n) - 1) = int (s + n) - 1"
    using assms(2) by (simp add: c_int_id)
  have e: "HEAP_BLOCK_TABLE_ENTRY_TAKEN OR HEAP_BLOCK_IS_FIRST OR HEAP_BLOCK_HAS_NEXT = block_code n 0"
    if "1 < n" using that by (simp add: block_code_def)
  have e1: "HEAP_BLOCK_TABLE_ENTRY_TAKEN OR HEAP_BLOCK_IS_FIRST = block_code n 0" if "\<not> 1 < n"
    using that by (simp add: block_code_def)
  show ?thesis
    using mark_loop [OF less_imp_le [OF assms(1)], of 0 "block_code n 0" m "entries (table h)" a] e e1
    unfolding heap_mark_blocks_taken_def Let_def last
    by (cases "1 < n") (simp_all add: or.assoc)
qed

lemma free_loop:
  assumes "unat (total t) < 2 ^ 31" and "b + n \<le> unat (total t)"
    and "\<And>j. k \<le> j \<Longrightarrow> j < n \<Longrightarrow> blk m t (b + j) = block_code n j" and "k < n"
  shows "heap_mark_blocks_free_loop m t (int (b + k)) a =
    (if a \<in> region (entries t + of_nat (b + k)) (n - k) then HEAP_BLOCK_TABLE_ENTRY_FREE else m a)"
  using assms(3,4)
proof (induction "n - Suc k" arbitrary: m k)
  case 0
  then have n: "n = Suc k" by simp
  then have "blk m t (b + k) AND HEAP_BLOCK_HAS_NEXT = 0"
    using "0.prems"(1) [of k] by (simp add: block_code_next)
  moreover have "int (b + k) < int_of_u32 (total t)"
    using assms(1,2) n by (simp only: int_less_int_of_u32)
  ultimately show ?case
    by (subst heap_mark_blocks_free_loop.simps)
       (simp add: u32_of_int_of_nat blk_def n region_Suc del: of_nat_add)
next
  case (Suc d)
  let ?p = "entries t + of_nat (b + k)"
  let ?m = "m(?p := HEAP_BLOCK_TABLE_ENTRY_FREE)"
  have k: "Suc k < n" using Suc.hyps(2) by simp
  then have nx: "blk m t (b + k) AND HEAP_BLOCK_HAS_NEXT \<noteq> 0"
    using Suc.prems(1) [of k] by (simp add: block_code_next)
  have lt: "int (b + k) < int_of_u32 (total t)"
    using assms(1,2) k by (simp only: int_less_int_of_u32)
  have "blk ?m t (b + j) = block_code n j" if "Suc k \<le> j" "j < n" for j
  proof -
    have "(of_nat (b + j) :: u32) \<noteq> of_nat (b + k)"
      using of_nat_u32_inj [of "b + j" "b + k"] that assms(1,2) by auto
    then show ?thesis using that Suc.prems(1) [of j] by (simp add: blk_def)
  qed
  then have IH: "heap_mark_blocks_free_loop ?m t (int (b + Suc k)) a =
    (if a \<in> region (entries t + of_nat (b + Suc k)) (n - Suc k) then HEAP_BLOCK_TABLE_ENTRY_FREE
     else ?m a)"
    using Suc.hyps(2) k by (intro Suc.hyps(1)) auto
  have nk: "n - k = Suc (n - Suc k)" and nx_eq: "entries t + of_nat (b + Suc k) = ?p + 1"
    "int (b + Suc k) = int (b + k) + 1"
    using k by simp_all
  have "heap_mark_blocks_free_loop m t (int (b + k)) a = heap_mark_blocks_free_loop ?m t (int (b + k) + 1) a"
    using nx lt by (subst heap_mark_blocks_free_loop.simps) (simp add: u32_of_int_of_nat blk_def del: of_nat_add)
  then show ?case
    using IH unfolding nx_eq nk region_Suc by simp
qed

section \<open>Allocation and release refine the map\<close>

lemma entry_in_region:
  assumes "i < 2 ^ 31" and "b + n \<le> 2 ^ 31"
  shows "es + of_nat i \<in> region (es + of_nat b) n \<longleftrightarrow> b \<le> i \<and> i < b + n"
proof
  assume "es + of_nat i \<in> region (es + of_nat b) n"
  then obtain j where "j < n" "es + of_nat i = es + of_nat b + of_nat j" by (rule region_offsetE)
  moreover from this have "i = b + j"
    using assms by (intro of_nat_u32_inj) (auto simp: add.assoc)
  ultimately show "b \<le> i \<and> i < b + n" by simp
next
  assume i: "b \<le> i \<and> i < b + n"
  have "es + of_nat b + of_nat (i - b) \<in> region (es + of_nat b) n"
    using i assms by (intro in_region_offset) auto
  then show "es + of_nat i \<in> region (es + of_nat b) n" using i by (simp add: of_nat_diff)
qed

lemma fits_disjoint:
  assumes "fits A tot n b" and "A b' = Some n'" and "0 < n'" and "0 < n"
  shows "b + n \<le> b' \<or> b' + n' \<le> b"
proof (rule ccontr)
  assume "\<not> (b + n \<le> b' \<or> b' + n' \<le> b)"
  then have "b \<le> max b b'" "max b b' < b + n" "b' \<le> max b b'" "max b b' < b' + n'"
    using assms(3,4) by auto
  then show False using assms(1,2) unfolding fits_def covered_def by blast
qed

lemma table_rel_alloc:
  assumes rel: "table_rel t m A" and tot: "unat (total t) < 2 ^ 31" and n: "0 < n"
    and fit: "fits A (unat (total t)) n b"
    and m': "\<And>i. i < unat (total t) \<Longrightarrow>
      blk m' t i = (if b \<le> i \<and> i < b + n then block_code n (i - b) else blk m t i)"
  shows "table_rel t m' (A(b \<mapsto> n))"
proof -
  have bn: "b + n \<le> unat (total t)" using fit by (simp add: fits_def)
  have old: "b + n \<le> b' \<or> b' + n' \<le> b" if "A b' = Some n'" for b' n'
    using fits_disjoint [OF fit that _ n] table_relD(1) [OF rel that] by blast
  have "0 < n' \<and> b' + n' \<le> unat (total t) \<and> (\<forall>k < n'. blk m' t (b' + k) = block_code n' k)"
    if "(A(b \<mapsto> n)) b' = Some n'" for b' n'
  proof (cases "b' = b")
    case True
    then show ?thesis using that n bn m' by auto
  next
    case False
    then have A: "A b' = Some n'" using that by simp
    then show ?thesis using table_relD [OF rel A] old [OF A] m' by auto
  qed
  moreover have "b1 + n1 \<le> b2" if "(A(b \<mapsto> n)) b1 = Some n1" "(A(b \<mapsto> n)) b2 = Some n2" "b1 < b2"
    for b1 n1 b2 n2
    using that old [of b1 n1] old [of b2 n2] table_rel_disjoint [OF rel, of b1 n1 b2 n2] n
    by (auto split: if_splits)
  moreover have "blk m' t i = HEAP_BLOCK_TABLE_ENTRY_FREE"
    if "i < unat (total t)" "\<not> covered (A(b \<mapsto> n)) i" for i
  proof -
    have out: "\<not> (b \<le> i \<and> i < b + n)" using that(2) by (auto simp: covered_def)
    have "\<not> covered A i"
    proof
      assume "covered A i"
      then obtain b' n' where A: "A b' = Some n'" "b' \<le> i" "i < b' + n'" by (auto simp: covered_def)
      then have "b' \<noteq> b" using old [OF A(1)] n by auto
      then show False using A that(2) by (auto simp: covered_def)
    qed
    then show ?thesis using out m' that(1) rel by (auto simp: table_rel_def)
  qed
  ultimately show ?thesis unfolding table_rel_def by blast
qed

lemma table_rel_free:
  assumes rel: "table_rel t m A" and A: "A b = Some n"
    and m': "\<And>i. i < unat (total t) \<Longrightarrow>
      blk m' t i = (if b \<le> i \<and> i < b + n then HEAP_BLOCK_TABLE_ENTRY_FREE else blk m t i)"
  shows "table_rel t m' (A(b := None))"
proof -
  have "0 < n' \<and> b' + n' \<le> unat (total t) \<and> (\<forall>k < n'. blk m' t (b' + k) = block_code n' k)"
    if "(A(b := None)) b' = Some n'" for b' n'
  proof -
    have A': "A b' = Some n'" "b \<noteq> b'" using that by (auto split: if_splits)
    show ?thesis using table_relD [OF rel A'(1)] table_rel_disjoint [OF rel A A'] m' by auto
  qed
  moreover have "b1 + n1 \<le> b2" if "(A(b := None)) b1 = Some n1" "(A(b := None)) b2 = Some n2" "b1 < b2"
    for b1 n1 b2 n2
    using that table_rel_disjoint [OF rel, of b1 n1 b2 n2] table_relD(1) [OF rel, of b2 n2]
    by (auto split: if_splits)
  moreover have "blk m' t i = HEAP_BLOCK_TABLE_ENTRY_FREE"
    if "i < unat (total t)" "\<not> covered (A(b := None)) i" for i
  proof (cases "b \<le> i \<and> i < b + n")
    case True
    then show ?thesis using m' that(1) by simp
  next
    case False
    then have "\<not> covered A i" using that(2) A by (auto simp: covered_def split: if_splits)
    then show ?thesis using False m' that(1) rel by (auto simp: table_rel_def)
  qed
  ultimately show ?thesis unfolding table_rel_def by blast
qed

lemma heap_block_to_address_eq:
  "heap_block_to_address h (int b) = start_address h + of_nat (4096 * b)"
  by (simp add: heap_block_to_address_def SIMPOS_HEAP_BLOCK_SIZE_def u32_of_int_def mult.commute)

lemma table_region_sub:
  assumes "b + n \<le> unat (total (table h))"
  shows "region (entries (table h) + of_nat b) n \<subseteq> table_region h"
proof
  fix a assume "a \<in> region (entries (table h) + of_nat b) n"
  then obtain j where j: "j < n" "a = entries (table h) + of_nat (b + j)"
    by (auto elim!: region_offsetE simp: add.assoc)
  moreover have "unat (total (table h)) < 2 ^ 32" by (rule unat_u32_less)
  ultimately show "a \<in> table_region h"
    unfolding table_region_def j(2) using assms by (intro in_region_offset) auto
qed

lemma malloc_blocks_fit:
  assumes "heap_geom h" and "table_rel (table h) m A" and "0 < unat tb"
    and "first_fit A (unat (total (table h))) (unat tb) b"
  obtains m' where "heap_malloc_blocks h tb m = (start_address h + of_nat (4096 * b), m')"
    and "table_rel (table h) m' (A(b \<mapsto> unat tb))" and "same_outside (table_region h) m m'"
proof -
  let ?t = "table h" and ?n = "unat tb"
  have tot: "unat (total ?t) < 2 ^ 19" using assms(1) by (rule geom_total)
  have fit: "fits A (unat (total ?t)) ?n b" and bn: "b + ?n \<le> unat (total ?t)"
    using assms(4) by (auto simp: first_fit_def fits_def)
  have sb: "heap_get_start_block h tb m = int b"
    using assms tot by (intro start_block_first_fit) auto
  have tb: "int_of_u32 tb = int ?n" using bn tot by (intro int_of_u32_small) simp
  define M where "M = heap_mark_blocks_taken h (int b) (int ?n) m"
  have eq: "M a = (if a \<in> region (entries ?t + of_nat b) ?n
      then block_code ?n (unat (a - entries ?t) - b) else m a)" for a
    unfolding M_def using bn tot assms(3) by (intro mark_blocks_taken_eq) auto
  have "table_rel ?t M (A(b \<mapsto> ?n))"
  proof (rule table_rel_alloc [OF assms(2) _ assms(3) fit])
    show "unat (total ?t) < 2 ^ 31" using tot by simp
    show "blk M ?t i = (if b \<le> i \<and> i < b + ?n then block_code ?n (i - b) else blk m ?t i)"
      if "i < unat (total ?t)" for i
      using that tot bn entry_in_region [of i b ?n "entries ?t"]
      by (simp add: blk_def eq)
  qed
  moreover have "same_outside (table_region h) m M"
    using table_region_sub [OF bn] by (auto simp: same_outside_def eq)
  ultimately show thesis
    using that [of M] sb tb
    by (simp add: heap_malloc_blocks_def heap_block_to_address_eq M_def del: of_nat_unat of_nat_mult)
qed

lemma heap_address_to_block_eq:
  assumes "heap_geom h" and "b < unat (total (table h))"
  shows "heap_address_to_block h (start_address h + of_nat (4096 * b)) = int b"
proof -
  have "4096 * b < 2 ^ 31" using assms by (simp add: heap_geom_def)
  then have "int_of_u32 (of_nat (4096 * b)) = int (4096 * b)"
    by (subst int_of_u32_small) (simp_all del: of_nat_mult)
  then show ?thesis
    by (simp add: heap_address_to_block_def SIMPOS_HEAP_BLOCK_SIZE_def sdiv_nonneg del: of_nat_mult)
qed

lemma heap_free_live:
  assumes "heap_geom h" and "table_rel (table h) m A" and A: "A b = Some n"
  defines "m' \<equiv> heap_free h (start_address h + of_nat (4096 * b)) m"
  shows "table_rel (table h) m' (A(b := None))"
    and "same_outside (region (entries (table h) + of_nat b) n) m m'"
    and "a \<in> region (entries (table h) + of_nat b) n \<Longrightarrow> m' a = HEAP_BLOCK_TABLE_ENTRY_FREE"
proof -
  let ?t = "table h"
  note R = table_relD [OF assms(2) A]
  have tot: "unat (total ?t) < 2 ^ 19" using assms(1) by (rule geom_total)
  have "b < unat (total ?t)" using R(1,2) by simp
  then have "m' = heap_mark_blocks_free_loop m ?t (int (b + 0))"
    using heap_address_to_block_eq [OF assms(1)]
    by (simp add: m'_def heap_free_def heap_mark_blocks_free_def)
  moreover have "heap_mark_blocks_free_loop m ?t (int (b + 0)) a =
    (if a \<in> region (entries ?t + of_nat (b + 0)) (n - 0) then HEAP_BLOCK_TABLE_ENTRY_FREE else m a)" for a
    by (rule free_loop) (use R tot in auto)
  ultimately have eq: "m' a = (if a \<in> region (entries ?t + of_nat b) n
      then HEAP_BLOCK_TABLE_ENTRY_FREE else m a)" for a
    by simp
  show "table_rel ?t m' (A(b := None))"
  proof (rule table_rel_free [OF assms(2) A])
    show "blk m' ?t i = (if b \<le> i \<and> i < b + n then HEAP_BLOCK_TABLE_ENTRY_FREE else blk m ?t i)"
      if "i < unat (total ?t)" for i
      using that tot R(2) entry_in_region [of i b n "entries ?t"] by (simp add: blk_def eq)
  qed
  show "same_outside (region (entries ?t + of_nat b) n) m m'" by (simp add: same_outside_def eq)
  show "a \<in> region (entries ?t + of_nat b) n \<Longrightarrow> m' a = HEAP_BLOCK_TABLE_ENTRY_FREE" by (simp add: eq)
qed

end
