(* ===== verification/Allocator.thy ===== *)
theory Allocator
  imports Mem
begin

text \<open>
  The interface between the kernel heap and the code that allocates: what a page-granular
  allocator promises its clients. \<open>rel m L\<close> says that memory \<open>m\<close> is in a state where exactly
  the pointers of \<open>L\<close> are live, each with its number of 4096 byte blocks; \<open>meta\<close> are the
  bytes the allocator keeps for itself. The clients' lemmas are proved here once.
\<close>

definition nblocks :: "u32 \<Rightarrow> nat" where
  "nblocks sz = (unat sz + 4095) div 4096"

definition block_region :: "u32 \<Rightarrow> nat \<Rightarrow> u32 set" where
  "block_region p n = region p (4096 * n)"

lemma request_in_blocks: "region p (unat sz) \<subseteq> block_region p (nblocks sz)"
  unfolding block_region_def nblocks_def by (rule region_mono) simp

lemma nblocks_pos: "0 < unat sz \<Longrightarrow> 0 < nblocks sz"
  by (simp add: nblocks_def)

locale allocator =
  fixes alloc :: "u32 \<Rightarrow> mem \<Rightarrow> u32 \<times> mem"
    and dealloc :: "u32 \<Rightarrow> mem \<Rightarrow> mem"
    and rel :: "mem \<Rightarrow> (u32 \<rightharpoonup> nat) \<Rightarrow> bool"
    and room :: "(u32 \<rightharpoonup> nat) \<Rightarrow> nat \<Rightarrow> bool"
    and meta :: "u32 set"
  assumes alloc_ok: "rel m L \<Longrightarrow> 0 < unat sz \<Longrightarrow> unat sz \<le> 2 ^ 32 - 4096 \<Longrightarrow> room L (nblocks sz)
      \<Longrightarrow> \<exists>p m'. alloc sz m = (p, m') \<and> L p = None \<and> rel m' (L(p \<mapsto> nblocks sz)) \<and> same_outside meta m m'"
    and dealloc_ok: "rel m L \<Longrightarrow> L p = Some n
      \<Longrightarrow> rel (dealloc p m) (L(p := None)) \<and> same_outside meta m (dealloc p m)"
    and live_ok: "rel m L \<Longrightarrow> L p = Some n
      \<Longrightarrow> aligned 4096 p \<and> p \<noteq> 0 \<and> 0 < n \<and> unat p + 4096 * n \<le> 2 ^ 32 \<and> block_region p n \<inter> meta = {}"
    and live_disjoint: "rel m L \<Longrightarrow> L p = Some n \<Longrightarrow> L q = Some k \<Longrightarrow> p \<noteq> q
      \<Longrightarrow> block_region p n \<inter> block_region q k = {}"
    and rel_frame: "rel m L \<Longrightarrow> same_outside B m m' \<Longrightarrow> B \<inter> meta = {} \<Longrightarrow> rel m' L"
begin

definition zalloc :: "u32 \<Rightarrow> mem \<Rightarrow> u32 \<times> mem" where
  "zalloc sz m = (case alloc sz m of (p, m') \<Rightarrow> if p = 0 then (0, m') else (p, memset m' p 0 sz))"

lemma alloc_fresh:
  assumes "rel m L" "0 < unat sz" "unat sz \<le> 2 ^ 32 - 4096" "room L (nblocks sz)"
  obtains p m' where "alloc sz m = (p, m')" "p \<noteq> 0" "aligned 4096 p" "L p = None"
    "rel m' (L(p \<mapsto> nblocks sz))" "same_outside meta m m'"
    "block_region p (nblocks sz) \<inter> meta = {}"
    "\<And>q k. L q = Some k \<Longrightarrow> block_region p (nblocks sz) \<inter> block_region q k = {}"
proof -
  obtain p m' where p: "alloc sz m = (p, m')" "L p = None" "rel m' (L(p \<mapsto> nblocks sz))"
      "same_outside meta m m'"
    using alloc_ok [OF assms] by blast
  have l: "aligned 4096 p \<and> p \<noteq> 0 \<and> block_region p (nblocks sz) \<inter> meta = {}"
    using live_ok [OF p(3), of p] by simp
  have "block_region p (nblocks sz) \<inter> block_region q k = {}" if "L q = Some k" for q k
  proof -
    have "q \<noteq> p" using that p(2) by auto
    then show ?thesis using live_disjoint [OF p(3), of p "nblocks sz" q k] that by simp
  qed
  then show thesis using that [OF p(1)] p l by blast
qed

text \<open>
  A zeroed allocation: the requested bytes are 0, the pointer is new, and every byte of the
  other live blocks keeps its value.
\<close>

lemma zalloc_fresh:
  assumes "rel m L" "0 < unat sz" "unat sz \<le> 2 ^ 32 - 4096" "room L (nblocks sz)"
  obtains p m' where "zalloc sz m = (p, m')" "p \<noteq> 0" "aligned 4096 p" "L p = None"
    "rel m' (L(p \<mapsto> nblocks sz))"
    "same_outside (meta \<union> region p (unat sz)) m m'"
    "\<And>a. a \<in> region p (unat sz) \<Longrightarrow> m' a = 0"
    "\<And>q k. L q = Some k \<Longrightarrow> block_region p (nblocks sz) \<inter> block_region q k = {}"
    "block_region p (nblocks sz) \<inter> meta = {}"
proof -
  obtain p m1 where p: "alloc sz m = (p, m1)" "p \<noteq> 0" "aligned 4096 p" "L p = None"
      "rel m1 (L(p \<mapsto> nblocks sz))" "same_outside meta m m1"
      "block_region p (nblocks sz) \<inter> meta = {}"
      "\<And>q k. L q = Some k \<Longrightarrow> block_region p (nblocks sz) \<inter> block_region q k = {}"
    by (rule alloc_fresh [OF assms]) blast
  let ?m' = "memset m1 p 0 sz"
  have "rel ?m' (L(p \<mapsto> nblocks sz))"
    by (rule rel_frame [OF p(5) memset_frame]) (use p(7) request_in_blocks [of p sz] in blast)
  moreover have "same_outside (meta \<union> region p (unat sz)) m ?m'"
    using p(6) memset_frame by (rule same_outside_trans)
  moreover have "?m' a = 0" if "a \<in> region p (unat sz)" for a
    using that by (simp add: memset_eq)
  moreover have "zalloc sz m = (p, ?m')" using p(1,2) by (simp add: zalloc_def)
  ultimately show thesis using that p by blast
qed

lemma write_live:
  assumes "rel m L" "L p = Some n" "same_outside (block_region p n) m m'"
  shows "rel m' L"
  using rel_frame [OF assms(1,3)] live_ok [OF assms(1,2)] by blast

lemma live_unchanged:
  assumes "rel m L" "L q = Some k" "same_outside (meta \<union> B) m m'"
    "B \<inter> block_region q k = {}" "a \<in> block_region q k"
  shows "m' a = m a"
  using assms live_ok [OF assms(1,2)] by (intro same_outsideD [OF assms(3)]) auto

end

text \<open>
  An allocator that also counts its free blocks, so that a client can ask for many single
  blocks in a row.
\<close>

locale page_allocator = allocator +
  fixes avail :: "(u32 \<rightharpoonup> nat) \<Rightarrow> nat"
  assumes room_one: "rel m L \<Longrightarrow> 0 < avail L \<Longrightarrow> room L 1"
    and avail_alloc: "rel m L \<Longrightarrow> L p = None \<Longrightarrow> rel m' (L(p \<mapsto> n)) \<Longrightarrow> avail L = avail (L(p \<mapsto> n)) + n"
begin

lemma page_fresh:
  assumes "rel m L" "0 < unat sz" "unat sz \<le> 4096" "0 < avail L"
  obtains p m' where "zalloc sz m = (p, m')" "p \<noteq> 0" "aligned 4096 p" "L p = None"
    "rel m' (L(p \<mapsto> 1))" "avail (L(p \<mapsto> 1)) = avail L - 1"
    "same_outside (meta \<union> region p (unat sz)) m m'"
    "\<And>a. a \<in> region p (unat sz) \<Longrightarrow> m' a = 0"
    "\<And>q k. L q = Some k \<Longrightarrow> block_region p 1 \<inter> block_region q k = {}"
    "block_region p 1 \<inter> meta = {}"
proof -
  have n: "nblocks sz = 1" using assms(2,3) by (simp add: nblocks_def div_nat_eqI)
  have "room L (nblocks sz)" unfolding n using assms(1,4) by (rule room_one)
  moreover have "unat sz \<le> 2 ^ 32 - 4096" using assms(3) by simp
  ultimately obtain p m' where p: "zalloc sz m = (p, m')" "p \<noteq> 0" "aligned 4096 p" "L p = None"
    "rel m' (L(p \<mapsto> 1))" "same_outside (meta \<union> region p (unat sz)) m m'"
    "\<And>a. a \<in> region p (unat sz) \<Longrightarrow> m' a = 0"
    "\<And>q k. L q = Some k \<Longrightarrow> block_region p 1 \<inter> block_region q k = {}"
    "block_region p 1 \<inter> meta = {}"
    using zalloc_fresh [OF assms(1,2)] n by metis
  have "avail (L(p \<mapsto> 1)) = avail L - 1" using avail_alloc [OF assms(1) p(4,5)] by simp
  then show thesis using that p by blast
qed

end

end
