(* ===== verification/KernelHeap.thy ===== *)
theory KernelHeap
  imports HeapSpec Allocator
begin

text \<open>
  \<^verbatim>\<open>src/src/memory/heap/kernel_heap.c\<close>: the kernel's own heap, and the contract of
  \<open>kmalloc\<close> and \<open>kfree\<close> at the level of pointers. The heap is an instance of the allocator
  interface wherever a long enough run of free blocks exists; the theorems at the end say
  what the code does where none exists and where the size rounds up to zero.
\<close>

section \<open>The kernel heap\<close>

text \<open>
  \<open>kernel_heap_init\<close> returns the code of \<open>heap_create\<close> beside the new state; the code
  prints a message when it is negative.
\<close>

definition kernel_heap_table :: heap_table where
  "kernel_heap_table = \<lparr>entries = SIMPOS_HEAP_TABLE_ADDRESS,
     total = SIMPOS_HEAP_SIZE_BYTES div SIMPOS_HEAP_BLOCK_SIZE\<rparr>"

definition kernel_heap_init :: "heap \<Rightarrow> mem \<Rightarrow> int \<times> heap \<times> mem" where
  "kernel_heap_init h m = heap_create h SIMPOS_HEAP_ADDRESS
     (SIMPOS_HEAP_ADDRESS + SIMPOS_HEAP_SIZE_BYTES) kernel_heap_table m"

definition kmalloc :: "heap \<Rightarrow> u32 \<Rightarrow> mem \<Rightarrow> u32 \<times> mem" where
  "kmalloc h sz m = heap_malloc h sz m"

definition kzalloc :: "heap \<Rightarrow> u32 \<Rightarrow> mem \<Rightarrow> u32 \<times> mem" where
  "kzalloc h sz m =
     (case kmalloc h sz m of (ptr, m') \<Rightarrow>
        if ptr = 0 then (0, m') else (ptr, memset m' ptr 0 sz))"

definition kfree :: "heap \<Rightarrow> u32 \<Rightarrow> mem \<Rightarrow> mem" where
  "kfree h ptr m = heap_free h ptr m"

section \<open>Sizes\<close>

lemma align_eq:
  assumes "unat sz \<le> 2 ^ 32 - 4096"
  shows "unat (heap_align_value_to_upper sz) = 4096 * nblocks sz"
proof -
  have m: "unat (sz mod 4096) = unat sz mod 4096" by (simp add: unat_mod)
  show ?thesis
  proof (cases "sz mod 4096 = 0")
    case True
    then have "unat sz mod 4096 = 0" using m by simp
    then show ?thesis using True
      by (auto simp: heap_align_value_to_upper_def SIMPOS_HEAP_BLOCK_SIZE_def nblocks_def elim!: dvdE)
  next
    case False
    then have "unat sz mod 4096 \<noteq> 0" using m by (metis unat_eq_zero)
    then obtain q r where q: "unat sz = 4096 * q + r" "0 < r" "r < 4096" "unat sz mod 4096 = r"
      by (metis mult_div_mod_eq mod_less_divisor zero_less_numeral neq0_conv)
    have "sz mod 4096 \<le> sz" by (simp add: word_le_nat_alt m)
    then have s: "unat (sz - sz mod 4096) = 4096 * q" using m q by (simp add: unat_sub)
    have "4096 * q + 4096 < (2 ^ 32 :: nat)"
    proof -
      have "4096 * q < 4096 * (2 ^ 20 - 1)" using assms q by simp
      then have "q < 2 ^ 20 - 1" by simp
      then show ?thesis by simp
    qed
    then have "unat (sz - sz mod 4096 + 4096) = 4096 * q + 4096"
      using s by (subst unat_add_no_wrap) simp_all
    moreover have "nblocks sz = q + 1" using q by (simp add: nblocks_def)
    ultimately show ?thesis using False
      by (simp add: heap_align_value_to_upper_def SIMPOS_HEAP_BLOCK_SIZE_def)
  qed
qed

lemma blocks_eq:
  assumes "unat sz \<le> 2 ^ 32 - 4096"
  shows "unat (heap_align_value_to_upper sz div SIMPOS_HEAP_BLOCK_SIZE) = nblocks sz"
  using align_eq [OF assms] by (simp add: SIMPOS_HEAP_BLOCK_SIZE_def unat_div)

lemma align_wraps:
  assumes "2 ^ 32 - 4096 < unat sz"
  shows "heap_align_value_to_upper sz = 0"
proof -
  have b: "unat sz < 2 ^ 32" by (rule unat_u32_less)
  define r where "r = unat sz - (2 ^ 32 - 4096)"
  have r: "0 < r" "r < 4096" "unat sz = 4096 * 1048575 + r"
    using assms b by (simp_all add: r_def)
  have "unat sz mod 4096 = r" unfolding r(3) using r(2) by (simp only: mod_mult_self4 mod_less)
  then have sr: "unat (sz mod 4096) = r" by (simp add: unat_mod)
  have nz: "sz mod 4096 \<noteq> 0" using sr r(1) by (metis unat_0 less_irrefl)
  have "unat (sz mod 4096) \<le> unat sz" unfolding sr r(3) by simp
  then have "sz mod 4096 \<le> sz" by (simp only: word_le_nat_alt)
  from unat_sub [OF this] have "unat (sz - sz mod 4096) = unat sz - r" by (simp only: sr)
  then have "unat (sz - sz mod 4096) = 4294963200" unfolding r(3) by simp
  moreover have "unat (4294963200 :: u32) = 4294963200" by simp
  ultimately have "sz - sz mod 4096 = 4294963200" by (metis word_unat_eq_iff)
  then show ?thesis using nz
    by (simp add: heap_align_value_to_upper_def SIMPOS_HEAP_BLOCK_SIZE_def)
qed

section \<open>Live pointers\<close>

definition block_ptr :: "heap \<Rightarrow> nat \<Rightarrow> u32" where
  "block_ptr h b = start_address h + of_nat (4096 * b)"

definition ptr_map :: "heap \<Rightarrow> allocs \<Rightarrow> u32 \<rightharpoonup> nat" where
  "ptr_map h A p = (if 4096 dvd unat (p - start_address h)
     then A (unat (p - start_address h) div 4096) else None)"

definition ptr_allocs :: "heap \<Rightarrow> (u32 \<rightharpoonup> nat) \<Rightarrow> allocs" where
  "ptr_allocs h L b = (if b < unat (total (table h)) then L (block_ptr h b) else None)"

definition heap_live :: "heap \<Rightarrow> mem \<Rightarrow> (u32 \<rightharpoonup> nat) \<Rightarrow> bool" where
  "heap_live h m L \<longleftrightarrow> table_rel (table h) m (ptr_allocs h L) \<and> L = ptr_map h (ptr_allocs h L)"

definition heap_room :: "heap \<Rightarrow> (u32 \<rightharpoonup> nat) \<Rightarrow> nat \<Rightarrow> bool" where
  "heap_room h L n \<longleftrightarrow> (\<exists>b \<le> unat (total (table h)). fits (ptr_allocs h L) (unat (total (table h))) n b)"

definition heap_avail :: "heap \<Rightarrow> (u32 \<rightharpoonup> nat) \<Rightarrow> nat" where
  "heap_avail h L = card {i. i < unat (total (table h)) \<and> \<not> covered (ptr_allocs h L) i}"

lemma block_ptr_offset:
  assumes "heap_geom h" and "b < unat (total (table h))"
  shows "unat (block_ptr h b) = unat (start_address h) + 4096 * b"
    and "unat (block_ptr h b - start_address h) = 4096 * b"
proof -
  have b: "unat (start_address h) + 4096 * b < 2 ^ 32" using assms by (simp add: heap_geom_def)
  then show "unat (block_ptr h b) = unat (start_address h) + 4096 * b"
    unfolding block_ptr_def by (rule unat_add_of_nat)
  show "unat (block_ptr h b - start_address h) = 4096 * b"
    using b by (simp add: block_ptr_def del: of_nat_mult)
qed

lemma ptr_map_block:
  "heap_geom h \<Longrightarrow> b < unat (total (table h)) \<Longrightarrow> ptr_map h A (block_ptr h b) = A b"
  by (simp add: ptr_map_def block_ptr_offset)

lemma ptr_mapE:
  assumes "ptr_map h A p = Some n"
  obtains b where "A b = Some n" "p = block_ptr h b"
proof -
  have d: "4096 dvd unat (p - start_address h)" and A: "A (unat (p - start_address h) div 4096) = Some n"
    using assms by (auto simp: ptr_map_def split: if_splits)
  have "of_nat (4096 * (unat (p - start_address h) div 4096)) = p - start_address h"
    using d by simp
  then show thesis using that [OF A] by (simp add: block_ptr_def del: of_nat_mult)
qed

lemma ptr_allocs_map:
  assumes "heap_geom h" and "table_rel (table h) m A"
  shows "ptr_allocs h (ptr_map h A) = A"
proof
  fix b
  show "ptr_allocs h (ptr_map h A) b = A b"
  proof (cases "b < unat (total (table h))")
    case True
    then show ?thesis using ptr_map_block [OF assms(1)] by (simp add: ptr_allocs_def)
  next
    case False
    have "A b = None"
    proof (cases "A b")
      case (Some n)
      then show ?thesis using table_relD(1,2) [OF assms(2) Some] False by simp
    qed
    then show ?thesis using False by (simp add: ptr_allocs_def)
  qed
qed

lemma heap_liveI:
  assumes "heap_geom h" and "table_rel (table h) m A"
  shows "heap_live h m (ptr_map h A)"
  using assms by (simp add: heap_live_def ptr_allocs_map)

lemma heap_liveE:
  assumes "heap_live h m L"
  obtains A where "table_rel (table h) m A" "L = ptr_map h A" "ptr_allocs h L = A"
  using assms by (auto simp: heap_live_def)

lemma ptr_map_upd:
  assumes "heap_geom h" and "b < unat (total (table h))"
  shows "ptr_map h (A(b := v)) = (ptr_map h A)(block_ptr h b := v)"
proof
  fix p
  show "ptr_map h (A(b := v)) p = ((ptr_map h A)(block_ptr h b := v)) p"
  proof (cases "p = block_ptr h b")
    case True
    then show ?thesis using ptr_map_block [OF assms] by simp
  next
    case False
    have "p = block_ptr h b"
      if "4096 dvd unat (p - start_address h)" "unat (p - start_address h) div 4096 = b"
    proof -
      have "unat (p - start_address h) = 4096 * b" using that by (metis dvd_mult_div_cancel)
      then have "p - start_address h = block_ptr h b - start_address h"
        using block_ptr_offset(2) [OF assms] by (metis word_unat_eq_iff)
      then show ?thesis by simp
    qed
    then show ?thesis using False by (auto simp: ptr_map_def)
  qed
qed

lemma block_region_eq:
  assumes "heap_geom h" and "b + n \<le> unat (total (table h))" "0 < n"
  shows "a \<in> block_region (block_ptr h b) n \<longleftrightarrow>
    unat (start_address h) + 4096 * b \<le> unat a \<and> unat a < unat (start_address h) + 4096 * (b + n)"
proof -
  have b: "b < unat (total (table h))" using assms by simp
  have "4096 * (b + n) \<le> 4096 * unat (total (table h))" using assms(2) by simp
  then have "unat (block_ptr h b) + 4096 * n \<le> 2 ^ 32"
    using assms(1) block_ptr_offset(1) [OF assms(1) b] by (simp add: heap_geom_def)
  then show ?thesis
    unfolding block_region_def by (simp add: region_eq_range block_ptr_offset(1) [OF assms(1) b] add_mult_distrib2 add.assoc)
qed

lemma block_region_data:
  assumes "heap_geom h" and "b + n \<le> unat (total (table h))" "0 < n"
  shows "block_region (block_ptr h b) n \<subseteq> data_region h"
proof
  fix a assume "a \<in> block_region (block_ptr h b) n"
  then have "unat (start_address h) \<le> unat a" "unat a < unat (start_address h) + 4096 * (b + n)"
    using block_region_eq [OF assms] by auto
  moreover have "4096 * (b + n) \<le> 4096 * unat (total (table h))" using assms(2) by simp
  ultimately show "a \<in> data_region h"
    using assms(1) by (simp add: data_region_def region_eq_range heap_geom_def)
qed

lemma table_rel_frame:
  assumes "table_rel (table h) m A" and "same_outside B m m'" and "B \<inter> table_region h = {}"
  shows "table_rel (table h) m' A"
proof -
  have "blk m' (table h) i = blk m (table h) i" if "i < unat (total (table h))" for i
  proof -
    have "i < 2 ^ 32" using that unat_u32_less less_trans by blast
    then have "entries (table h) + of_nat i \<in> table_region h"
      unfolding table_region_def using that by (rule in_region_offset [rotated])
    then show ?thesis using assms(2,3) by (auto simp: blk_def same_outside_def)
  qed
  moreover have "b + k < unat (total (table h))" if "A b = Some n" "k < n" for b n k
    using table_relD(2) [OF assms(1) that(1)] that(2) by simp
  ultimately show ?thesis using assms(1) by (simp add: table_rel_def)
qed

section \<open>The heap is a page allocator\<close>

lemma first_fit_ex:
  assumes "fits A tot n b"
  obtains b0 where "first_fit A tot n b0"
proof
  show "first_fit A tot n (LEAST b. fits A tot n b)"
    unfolding first_fit_def using LeastI [of "fits A tot n", OF assms] not_less_Least by blast
qed

lemma kmalloc_first_fit:
  assumes geom: "heap_geom h" and rel: "table_rel (table h) m A"
    and sz: "0 < unat sz" "unat sz \<le> 2 ^ 32 - 4096"
    and ff: "first_fit A (unat (total (table h))) (nblocks sz) b"
  obtains m' where "kmalloc h sz m = (block_ptr h b, m')"
    and "table_rel (table h) m' (A(b \<mapsto> nblocks sz))" and "same_outside (table_region h) m m'"
proof -
  let ?tb = "heap_align_value_to_upper sz div SIMPOS_HEAP_BLOCK_SIZE"
  have tb: "unat ?tb = nblocks sz" using sz(2) by (rule blocks_eq)
  then have "0 < unat ?tb" using nblocks_pos [OF sz(1)] by simp
  then obtain m' where "heap_malloc_blocks h ?tb m = (start_address h + of_nat (4096 * b), m')"
    "table_rel (table h) m' (A(b \<mapsto> unat ?tb))" "same_outside (table_region h) m m'"
    using malloc_blocks_fit [OF geom rel _ ff [folded tb]] by blast
  then show thesis using that [of m'] tb
    by (simp add: kmalloc_def heap_malloc_def Let_def block_ptr_def)
qed

lemma first_fit_free:
  assumes "table_rel t m A" and "first_fit A (unat (total t)) n b" and "0 < n"
  shows "A b = None"
proof (cases "A b")
  case (Some k)
  then show ?thesis
    using assms fits_disjoint [of A "unat (total t)" n b b k] table_relD(1) [OF assms(1) Some]
    by (simp add: first_fit_def)
qed

lemma kmalloc_live:
  assumes geom: "heap_geom h" and live: "heap_live h m L"
    and sz: "0 < unat sz" "unat sz \<le> 2 ^ 32 - 4096" and room: "heap_room h L (nblocks sz)"
  shows "\<exists>p m'. kmalloc h sz m = (p, m') \<and> L p = None \<and> heap_live h m' (L(p \<mapsto> nblocks sz))
    \<and> same_outside (table_region h) m m'"
proof -
  obtain A where A: "table_rel (table h) m A" "L = ptr_map h A" "ptr_allocs h L = A"
    using live by (rule heap_liveE)
  obtain c where "fits A (unat (total (table h))) (nblocks sz) c"
    using room A(3) by (auto simp: heap_room_def)
  then obtain b where ff: "first_fit A (unat (total (table h))) (nblocks sz) b"
    by (rule first_fit_ex)
  then have b: "b < unat (total (table h))"
    using nblocks_pos [OF sz(1)] by (auto simp: first_fit_def fits_def)
  obtain m' where m': "kmalloc h sz m = (block_ptr h b, m')"
      "table_rel (table h) m' (A(b \<mapsto> nblocks sz))" "same_outside (table_region h) m m'"
    using kmalloc_first_fit [OF geom A(1) sz ff] .
  have "heap_live h m' (ptr_map h (A(b \<mapsto> nblocks sz)))"
    using geom m'(2) by (rule heap_liveI)
  then have "heap_live h m' (L(block_ptr h b \<mapsto> nblocks sz))"
    by (simp add: A(2) ptr_map_upd [OF geom b])
  moreover have "L (block_ptr h b) = None"
    using first_fit_free [OF A(1) ff] nblocks_pos [OF sz(1)] ptr_map_block [OF geom b]
    by (simp add: A(2))
  ultimately show ?thesis using m' by blast
qed

lemma kfree_live:
  assumes geom: "heap_geom h" and live: "heap_live h m L" and p: "L p = Some n"
  shows "heap_live h (kfree h p m) (L(p := None)) \<and> same_outside (table_region h) m (kfree h p m)"
proof -
  obtain A where A: "table_rel (table h) m A" "L = ptr_map h A" using live by (rule heap_liveE)
  obtain b where b: "A b = Some n" "p = block_ptr h b" using p A(2) ptr_mapE by metis
  note R = table_relD [OF A(1) b(1)]
  have bt: "b < unat (total (table h))" using R(1,2) by simp
  have "table_rel (table h) (kfree h p m) (A(b := None))"
    using heap_free_live(1) [OF geom A(1) b(1)] by (simp add: kfree_def b(2) block_ptr_def)
  then have "heap_live h (kfree h p m) (ptr_map h (A(b := None)))"
    using geom by (intro heap_liveI)
  moreover have "same_outside (table_region h) m (kfree h p m)"
    using heap_free_live(2) [OF geom A(1) b(1)] table_region_sub [OF R(2)]
    by (auto simp: kfree_def b(2) block_ptr_def intro: same_outside_mono)
  ultimately show ?thesis using ptr_map_upd [OF geom bt, of A None] A(2) b(2) by simp
qed

lemma live_block:
  assumes geom: "heap_geom h" and live: "heap_live h m L" and p: "L p = Some n"
  obtains b where "ptr_allocs h L b = Some n" "p = block_ptr h b" "b + n \<le> unat (total (table h))" "0 < n"
proof -
  obtain A where A: "table_rel (table h) m A" "L = ptr_map h A" "ptr_allocs h L = A"
    using live by (rule heap_liveE)
  obtain b where "A b = Some n" "p = block_ptr h b" using p A(2) ptr_mapE by metis
  then show thesis using that A(3) table_relD(1,2) [OF A(1)] by blast
qed

lemma heap_live_ok:
  assumes geom: "heap_geom h" and live: "heap_live h m L" and p: "L p = Some n"
  shows "aligned 4096 p \<and> p \<noteq> 0 \<and> 0 < n \<and> unat p + 4096 * n \<le> 2 ^ 32
    \<and> block_region p n \<inter> table_region h = {}"
proof -
  obtain b where b: "p = block_ptr h b" "b + n \<le> unat (total (table h))" "0 < n"
    using live_block [OF assms] by blast
  have u: "unat p = unat (start_address h) + 4096 * b"
    using block_ptr_offset(1) [OF geom, of b] b by simp
  have "4096 * (b + n) \<le> 4096 * unat (total (table h))" using b(2) by simp
  then have "unat p + 4096 * n \<le> 2 ^ 32" using geom u by (simp add: heap_geom_def)
  moreover have "aligned 4096 p" using geom by (simp add: aligned_def u heap_geom_def)
  moreover have "p \<noteq> 0" using geom u by (auto simp: heap_geom_def)
  moreover have "block_region p n \<inter> table_region h = {}"
    using block_region_data [OF geom b(2,3)] geom b(1) by (auto simp: heap_geom_def)
  ultimately show ?thesis using b(3) by blast
qed

lemma heap_live_disjoint:
  assumes geom: "heap_geom h" and live: "heap_live h m L" and "L p = Some n" "L q = Some k" "p \<noteq> q"
  shows "block_region p n \<inter> block_region q k = {}"
proof -
  obtain b where b: "ptr_allocs h L b = Some n" "p = block_ptr h b" "b + n \<le> unat (total (table h))" "0 < n"
    using live_block [OF geom live assms(3)] .
  obtain c where c: "ptr_allocs h L c = Some k" "q = block_ptr h c" "c + k \<le> unat (total (table h))" "0 < k"
    using live_block [OF geom live assms(4)] .
  have "table_rel (table h) m (ptr_allocs h L)" using live by (simp add: heap_live_def)
  moreover have "b \<noteq> c" using assms(5) b(2) c(2) by auto
  ultimately have "b + n \<le> c \<or> c + k \<le> b" using table_rel_disjoint b(1) c(1) by blast
  then have "4096 * (b + n) \<le> 4096 * c \<or> 4096 * (c + k) \<le> 4096 * b" by auto
  then show ?thesis
    using block_region_eq [OF geom b(3,4)] block_region_eq [OF geom c(3,4)] b(2) c(2) by fastforce
qed

lemma heap_live_frame:
  "heap_live h m L \<Longrightarrow> same_outside B m m' \<Longrightarrow> B \<inter> table_region h = {} \<Longrightarrow> heap_live h m' L"
  unfolding heap_live_def using table_rel_frame by blast

lemma heap_avail_alloc:
  assumes geom: "heap_geom h" and "L p = None" and live: "heap_live h m' (L(p \<mapsto> n))"
  shows "heap_avail h L = heap_avail h (L(p \<mapsto> n)) + n"
proof -
  let ?tot = "unat (total (table h))" and ?A = "ptr_allocs h L" and ?A' = "ptr_allocs h (L(p \<mapsto> n))"
  obtain b where b: "?A' b = Some n" "p = block_ptr h b" "b + n \<le> ?tot" "0 < n"
    using live_block [OF geom live, of p n] by auto
  have rel: "table_rel (table h) m' ?A'" using live by (simp add: heap_live_def)
  have bt: "b < ?tot" using b by simp
  have inj: "block_ptr h c = p \<longleftrightarrow> c = b" if "c < ?tot" for c
  proof
    assume "block_ptr h c = p"
    then have "unat (start_address h) + 4096 * c = unat (start_address h) + 4096 * b"
      using block_ptr_offset(1) [OF geom that] block_ptr_offset(1) [OF geom bt] b(2) by metis
    then show "c = b" by simp
  qed (simp add: b(2))
  have A': "?A' = ?A(b \<mapsto> n)"
    using inj bt by (auto simp: fun_eq_iff ptr_allocs_def b(2))
  have Ab: "?A b = None" using assms(2) b(2) by (simp add: ptr_allocs_def)
  have dis: "\<not> covered ?A i" if "b \<le> i" "i < b + n" for i
  proof
    assume "covered ?A i"
    then obtain c k where c: "?A c = Some k" "c \<le> i" "i < c + k" by (auto simp: covered_def)
    then have "c \<noteq> b" using Ab by auto
    then have "?A' c = Some k" using c(1) A' by simp
    then have "b + n \<le> c \<or> c + k \<le> b" using rel b(1) \<open>c \<noteq> b\<close> [symmetric]
      by (intro table_rel_disjoint)
    then show False using c that by auto
  qed
  have cov: "covered ?A' i \<longleftrightarrow> covered ?A i \<or> (b \<le> i \<and> i < b + n)" for i
    using Ab unfolding A' covered_def by auto
  let ?F = "{i. i < ?tot \<and> \<not> covered ?A i}" and ?F' = "{i. i < ?tot \<and> \<not> covered ?A' i}"
  have "i \<in> ?F \<longleftrightarrow> i \<in> ?F' \<union> {b ..< b + n}" for i
    using cov [of i] dis [of i] b(3) by fastforce
  then have un: "?F = ?F' \<union> {b ..< b + n}" by blast
  have di: "?F' \<inter> {b ..< b + n} = {}" using cov by fastforce
  have "card ?F = card ?F' + card {b ..< b + n}"
    unfolding un by (rule card_Un_disjoint) (simp_all add: di)
  then show ?thesis by (simp only: heap_avail_def card_atLeastLessThan diff_add_inverse)
qed

lemma heap_room_one: "0 < heap_avail h L \<Longrightarrow> heap_room h L 1"
proof -
  assume "0 < heap_avail h L"
  then have "{i. i < unat (total (table h)) \<and> \<not> covered (ptr_allocs h L) i} \<noteq> {}"
    by (auto simp: heap_avail_def card_gt_0_iff)
  then obtain i where "i < unat (total (table h))" "\<not> covered (ptr_allocs h L) i" by blast
  then have "fits (ptr_allocs h L) (unat (total (table h))) 1 i"
    by (auto simp: fits_def less_Suc_eq le_less)
  then show ?thesis using \<open>i < unat (total (table h))\<close> less_imp_le unfolding heap_room_def by blast
qed

definition kheap :: heap where
  "kheap = \<lparr>table = kernel_heap_table, start_address = SIMPOS_HEAP_ADDRESS\<rparr>"

lemma kheap_consts [simp]:
  "start_address kheap = 0x1000000" "entries (table kheap) = 0x7E00" "total (table kheap) = 25600"
  by (simp_all add: kheap_def kernel_heap_table_def SIMPOS_HEAP_ADDRESS_def SIMPOS_HEAP_TABLE_ADDRESS_def
      SIMPOS_HEAP_SIZE_BYTES_def SIMPOS_HEAP_BLOCK_SIZE_def)

lemma kheap_geom: "heap_geom kheap"
  by (auto simp: heap_geom_def aligned_def table_region_def data_region_def region_eq_range)

interpretation kh: page_allocator "kmalloc kheap" "kfree kheap" "heap_live kheap" "heap_room kheap"
    "table_region kheap" "heap_avail kheap"
proof unfold_locales
  fix m m' B L sz p q n k
  assume live: "heap_live kheap m L"
  show "0 < unat sz \<Longrightarrow> unat sz \<le> 2 ^ 32 - 4096 \<Longrightarrow> heap_room kheap L (nblocks sz) \<Longrightarrow>
      \<exists>p m'. kmalloc kheap sz m = (p, m') \<and> L p = None \<and> heap_live kheap m' (L(p \<mapsto> nblocks sz))
        \<and> same_outside (table_region kheap) m m'"
    using kheap_geom live by (rule kmalloc_live)
  show "L p = Some n \<Longrightarrow> heap_live kheap (kfree kheap p m) (L(p := None))
      \<and> same_outside (table_region kheap) m (kfree kheap p m)"
    using kheap_geom live by (rule kfree_live)
  show "L p = Some n \<Longrightarrow> aligned 4096 p \<and> p \<noteq> 0 \<and> 0 < n \<and> unat p + 4096 * n \<le> 2 ^ 32
      \<and> block_region p n \<inter> table_region kheap = {}"
    using kheap_geom live by (rule heap_live_ok)
  show "L p = Some n \<Longrightarrow> L q = Some k \<Longrightarrow> p \<noteq> q \<Longrightarrow> block_region p n \<inter> block_region q k = {}"
    using kheap_geom live by (rule heap_live_disjoint)
  show "same_outside B m m' \<Longrightarrow> B \<inter> table_region kheap = {} \<Longrightarrow> heap_live kheap m' L"
    using live by (rule heap_live_frame)
  show "0 < heap_avail kheap L \<Longrightarrow> heap_room kheap L 1"
    by (rule heap_room_one)
  show "L p = None \<Longrightarrow> heap_live kheap m' (L(p \<mapsto> n)) \<Longrightarrow> heap_avail kheap L = heap_avail kheap (L(p \<mapsto> n)) + n"
    using kheap_geom by (rule heap_avail_alloc)
qed

lemma kzalloc_zalloc: "kzalloc kheap = kh.zalloc"
  by (simp add: fun_eq_iff kzalloc_def kh.zalloc_def)

section \<open>What the kernel heap guarantees\<close>

lemma table_rel_empty:
  assumes "\<And>a. a \<in> region (entries t) (unat (total t)) \<Longrightarrow> m a = 0"
  shows "table_rel t m Map.empty"
proof -
  have "m (entries t + of_nat i) = 0" if "i < unat (total t)" for i
    using that unat_u32_less [of "total t"] by (intro assms in_region_offset) auto
  then show ?thesis by (simp add: table_rel_def blk_def heap_flags)
qed

lemma kernel_heap_init_spec:
  "\<exists>m'. kernel_heap_init h m = (0, kheap, m') \<and> heap_geom kheap \<and> heap_live kheap m' Map.empty
    \<and> same_outside (table_region kheap) m m'"
proof -
  let ?m' = "memset m (entries kernel_heap_table) (uint HEAP_BLOCK_TABLE_ENTRY_FREE) (total kernel_heap_table)"
  have "kernel_heap_init h m = (0, kheap, ?m')"
    by (simp add: kernel_heap_init_def heap_create_def heap_validate_alignment_def heap_validate_table_def
        SIMPOS_HEAP_ADDRESS_def SIMPOS_HEAP_SIZE_BYTES_def SIMPOS_HEAP_BLOCK_SIZE_def kheap_def
        kernel_heap_table_def)
  moreover have "table_rel (table kheap) ?m' Map.empty"
    by (rule table_rel_empty) (simp add: memset_eq kheap_def heap_flags)
  then have "heap_live kheap ?m' (ptr_map kheap Map.empty)"
    using kheap_geom by (intro heap_liveI)
  then have "heap_live kheap ?m' Map.empty" by (simp add: ptr_map_def [abs_def])
  moreover have "same_outside (table_region kheap) m ?m'"
    using memset_frame by (simp add: table_region_def kheap_def)
  ultimately show ?thesis using kheap_geom by blast
qed

text \<open>
  kernel_heap_init succeeds whatever memory holds: it leaves a heap whose table and data
  area do not overlap, in which nothing is allocated, and it writes only the table.
\<close>

theorem kernel_heap_init_ok:
  "\<exists>m'. kernel_heap_init h m = (0, kheap, m') \<and> heap_geom kheap \<and> heap_live kheap m' Map.empty
    \<and> same_outside (table_region kheap) m m'"
  by (rule kernel_heap_init_spec)

lemma kernel_heap_init_live: "kernel_heap_init h m = (r, k, m') \<Longrightarrow> heap_live k m' Map.empty"
  using kernel_heap_init_spec [of h m] by auto

text \<open>
  C16. kmalloc refines the first-fit allocator: for a size of 1 byte up to 4 GB - 4 KB whose
  blocks fit somewhere, it returns the address of the first place they fit, records exactly
  that allocation in the table, and writes nothing but the table.
\<close>

theorem kmalloc_refines_first_fit:
  assumes "heap_geom h" and "table_rel (table h) m A"
    and "0 < unat sz" and "unat sz \<le> 2 ^ 32 - 4096"
    and "first_fit A (unat (total (table h))) (nblocks sz) b"
  shows "\<exists>m'. kmalloc h sz m = (start_address h + of_nat (4096 * b), m')
    \<and> table_rel (table h) m' (A(b \<mapsto> nblocks sz)) \<and> same_outside (table_region h) m m'"
  using kmalloc_first_fit [OF assms] unfolding block_ptr_def by metis

lemma first_fit_empty: "n \<le> tot \<Longrightarrow> first_fit Map.empty tot n 0"
  by (simp add: first_fit_def fits_def covered_def)

theorem kmalloc_refines_first_fit_witness:
  "\<exists>m'. kmalloc kheap 5000 (\<lambda>_. 0) = (0x1000000, m') \<and> table_rel (table kheap) m' [0 \<mapsto> 2]"
proof -
  have "table_rel (table kheap) (\<lambda>_. 0) Map.empty" by (rule table_rel_empty) simp
  moreover have "nblocks 5000 = 2" by (simp add: nblocks_def)
  ultimately show ?thesis
    using kmalloc_refines_first_fit [OF kheap_geom, of "\<lambda>_. 0" Map.empty 5000 0] first_fit_empty [of 2 25600]
    by auto
qed

text \<open>
  kfree of a pointer kmalloc returned releases exactly that allocation: the table then
  represents the map without it, and only the table bytes of its blocks were written.
\<close>

theorem kfree_refines:
  assumes "heap_geom h" and "table_rel (table h) m A" and "A b = Some n"
  shows "table_rel (table h) (kfree h (start_address h + of_nat (4096 * b)) m) (A(b := None))
    \<and> same_outside (region (entries (table h) + of_nat b) n) m
        (kfree h (start_address h + of_nat (4096 * b)) m)"
  using heap_free_live(1,2) [OF assms] unfolding kfree_def by blast

theorem kfree_refines_witness:
  "table_rel (table kheap) (kfree kheap 0x1001000 ((\<lambda>_. 0)(0x7E01 := 0x41))) Map.empty"
proof -
  let ?m = "(\<lambda>_. 0)(0x7E01 := 0x41) :: mem"
  have blk: "blk ?m (table kheap) i = (if i = 1 then 0x41 else 0)" if "i < 25600" for i
  proof -
    have "(of_nat i :: u32) = 1 \<longleftrightarrow> i = 1" using that of_nat_u32_inj [of i 1] by auto
    moreover have "0x7E00 + (of_nat i :: u32) = 0x7E01 \<longleftrightarrow> (of_nat i :: u32) = 1"
      using add_left_cancel [of "0x7E00" "of_nat i :: u32" 1] by simp
    ultimately show ?thesis by (simp add: blk_def)
  qed
  have "table_rel (table kheap) ?m [1 \<mapsto> 1]"
    using blk by (auto simp: table_rel_def block_code_cases covered_def heap_flags split: if_splits)
  from kfree_refines [OF kheap_geom this, of 1 1] show ?thesis by simp
qed



section \<open>Where no run of blocks is long enough\<close>

text \<open>
  kmalloc fails cleanly when no run of free blocks is long enough and the last block of
  the heap is taken: it returns the null pointer and writes nothing.
\<close>

theorem kmalloc_out_of_memory:
  assumes "heap_geom h" and "table_rel (table h) m A"
    and "0 < unat sz" and "unat sz \<le> 2 ^ 32 - 4096"
    and "\<And>b. \<not> fits A (unat (total (table h))) (nblocks sz) b"
    and "covered A (unat (total (table h)) - 1)"
  shows "kmalloc h sz m = (0, m)"
proof -
  let ?tb = "heap_align_value_to_upper sz div SIMPOS_HEAP_BLOCK_SIZE"
  have tb: "unat ?tb = nblocks sz" using assms(4) by (rule blocks_eq)
  have "heap_get_start_block h ?tb m = - ENOMEM"
  proof (rule start_block_none(1) [OF assms(2)])
    show "unat (total (table h)) < 2 ^ 31" using geom_total [OF assms(1)] by simp
    show "0 < unat ?tb" using tb nblocks_pos [OF assms(3)] by simp
    show "\<not> fits A (unat (total (table h))) (unat ?tb) b" for b using tb assms(5) by simp
  qed (use assms(6) in blast)
  then show ?thesis by (simp add: kmalloc_def heap_malloc_def heap_malloc_blocks_def Let_def)
qed

definition tiny_heap :: "heap" where
  "tiny_heap = \<lparr>table = \<lparr>entries = 0x100, total = 2\<rparr>, start_address = 0x1000\<rparr>"

lemma tiny_heap_geom: "heap_geom tiny_heap"
  by (auto simp: tiny_heap_def heap_geom_def aligned_def table_region_def data_region_def region_eq_range)

lemma tiny_heap_rel: "table_rel (table tiny_heap) ((\<lambda>_. 0)(0x101 := 0x41)) [1 \<mapsto> 1]"
  by (auto simp: table_rel_def tiny_heap_def blk_def block_code_cases covered_def heap_flags less_2_cases_iff
      split: if_splits)

theorem kmalloc_out_of_memory_witness:
  "kmalloc tiny_heap 5000 ((\<lambda>_. 0)(0x101 := 0x41)) = (0, (\<lambda>_. 0)(0x101 := 0x41))"
proof -
  have "nblocks 5000 = 2" by (simp add: nblocks_def)
  moreover have "\<not> fits [1 \<mapsto> 1] 2 2 b" for b
    by (cases b) (auto simp: fits_def covered_def intro!: exI [of _ 1])
  moreover have "covered [1 \<mapsto> 1] 1" by (simp add: covered_def)
  ultimately show ?thesis
    using kmalloc_out_of_memory [OF tiny_heap_geom tiny_heap_rel, of 5000] by (simp add: tiny_heap_def)
qed

text \<open>
  C40. When no run is long enough but the last block is free, kmalloc does not fail: it
  returns the start of the free run at the end of the heap and marks blocks past the end of
  the table, so the byte behind the table is overwritten with an allocation flag.
\<close>

theorem kmalloc_overruns_table:
  assumes "heap_geom h" and "table_rel (table h) m A"
    and "0 < unat sz" and "unat sz \<le> 2 ^ 32 - 4096"
    and "\<And>b. \<not> fits A (unat (total (table h))) (nblocks sz) b"
    and "\<not> covered A (unat (total (table h)) - 1)" and "0 < unat (total (table h))"
  shows "\<exists>s m'. kmalloc h sz m = (start_address h + of_nat (4096 * s), m')
    \<and> s < unat (total (table h)) \<and> unat (total (table h)) < s + nblocks sz
    \<and> m' (entries (table h) + total (table h)) \<noteq> HEAP_BLOCK_TABLE_ENTRY_FREE"
proof -
  let ?t = "table h" and ?n = "nblocks sz"
  let ?tot = "unat (total ?t)" and ?tb = "heap_align_value_to_upper sz div SIMPOS_HEAP_BLOCK_SIZE"
  have tot: "?tot < 2 ^ 19" using assms(1) by (rule geom_total)
  have tb: "unat ?tb = ?n" using assms(4) by (rule blocks_eq)
  have n: "0 < ?n" using assms(3) by (rule nblocks_pos)
  have n20: "?n \<le> 2 ^ 20" using assms(4) by (simp add: nblocks_def)
  have "\<exists>s. heap_get_start_block h ?tb m = int s \<and> s < ?tot
      \<and> (\<forall>i. s \<le> i \<longrightarrow> i < ?tot \<longrightarrow> \<not> covered A i) \<and> ?tot < s + unat ?tb"
  proof (rule start_block_none(2) [OF assms(2)])
    show "?tot < 2 ^ 31" using tot by simp
    show "0 < unat ?tb" using tb n by simp
    show "\<not> fits A ?tot (unat ?tb) b" for b using tb assms(5) by simp
  qed (use assms(6,7) in auto)
  then obtain s where s: "heap_get_start_block h ?tb m = int s" "s < ?tot" "?tot < s + ?n"
    using tb by auto
  define m' where "m' = heap_mark_blocks_taken h (int s) (int ?n) m"
  have sn: "s + ?n < 2 ^ 31" using s(2) tot n20 by simp
  have "m' (entries ?t + of_nat ?tot) = (if entries ?t + of_nat ?tot \<in> region (entries ?t + of_nat s) ?n
      then block_code ?n (unat (entries ?t + of_nat ?tot - entries ?t) - s) else m (entries ?t + of_nat ?tot))"
    unfolding m'_def by (rule mark_blocks_taken_eq [OF sn n])
  moreover have "entries ?t + of_nat ?tot \<in> region (entries ?t + of_nat s) ?n"
    using entry_in_region [of ?tot s ?n] s sn tot by auto
  ultimately have "m' (entries ?t + total ?t) \<noteq> HEAP_BLOCK_TABLE_ENTRY_FREE"
    by (auto simp: block_code_cases heap_flags split: if_splits)
  moreover have "int_of_u32 ?tb = int ?n" using tb n20 int_of_u32_small [of ?tb] by simp
  then have "kmalloc h sz m = (start_address h + of_nat (4096 * s), m')"
    using s(1) by (simp add: kmalloc_def heap_malloc_def heap_malloc_blocks_def Let_def m'_def
        heap_block_to_address_eq del: of_nat_mult)
  ultimately show ?thesis using s(2,3) by blast
qed

theorem kmalloc_overruns_table_witness:
  "\<exists>s m'. kmalloc tiny_heap 12288 (\<lambda>_. 0) = (0x1000 + of_nat (4096 * s), m') \<and> m' 0x102 \<noteq> 0"
proof -
  have "nblocks 12288 = 3" by (simp add: nblocks_def)
  moreover have "table_rel (table tiny_heap) (\<lambda>_. 0) Map.empty" by (rule table_rel_empty) simp
  ultimately show ?thesis
    using kmalloc_overruns_table [OF tiny_heap_geom, of "\<lambda>_. 0" Map.empty 12288]
    by (auto simp: tiny_heap_def fits_def covered_def heap_flags)
qed

text \<open>
  A request that rounds to zero blocks (0 bytes, or more than 4 GB - 4 KB, where the
  rounding wraps) reserves nothing: memory is unchanged, and while the last block is free
  the result is a non-null pointer to a block that stays free for the next caller.
\<close>

theorem kmalloc_zero_blocks:
  assumes "heap_geom h" and "table_rel (table h) m A" and "sz = 0 \<or> 2 ^ 32 - 4096 < unat sz"
    and "\<not> covered A (unat (total (table h)) - 1)" and "0 < unat (total (table h))"
  shows "\<exists>s. kmalloc h sz m = (start_address h + of_nat (4096 * s), m)
    \<and> s < unat (total (table h)) \<and> \<not> covered A s"
proof -
  let ?t = "table h"
  let ?tot = "unat (total ?t)"
  have tot: "?tot < 2 ^ 31" using geom_total [OF assms(1)] by simp
  have tb: "heap_align_value_to_upper sz div SIMPOS_HEAP_BLOCK_SIZE = 0"
    using assms(3)
  proof
    assume "sz = 0"
    then show ?thesis by (simp add: heap_align_value_to_upper_def)
  next
    assume "2 ^ 32 - 4096 < unat sz"
    then show ?thesis by (simp add: align_wraps)
  qed
  have "scan_result m ?t (Suc ?tot) ?tot (heap_scan m ?t 0 0 0 (- 1))"
    using tot by (rule heap_scan_zero)
  moreover have "blk_free m ?t (?tot - 1)"
    using blk_free_iff [OF assms(2), of "?tot - 1"] assms(4,5) by simp
  ultimately obtain s where s: "heap_scan m ?t 0 0 0 (- 1) = int s" "s < ?tot" "run m ?t s ?tot"
    using assms(5) unfolding scan_result_def by force
  have "heap_mark_blocks_taken h (int s) 0 m = m"
  proof -
    have "int s < 2 ^ 31" using s(2) tot by (intro int_less_2p31) simp
    then have "c_int (c_int (int s + 0) - 1) = int s - 1" by (simp add: c_int_id)
    then show ?thesis
      unfolding heap_mark_blocks_taken_def Let_def by (subst heap_mark_taken_loop.simps) simp
  qed
  moreover have "int_of_u32 0 = 0" by (simp add: int_of_u32_def)
  ultimately have "kmalloc h sz m = (start_address h + of_nat (4096 * s), m)"
    using s(1) by (simp add: kmalloc_def heap_malloc_def Let_def tb heap_malloc_blocks_def
        heap_get_start_block_def heap_block_to_address_eq del: of_nat_mult)
  moreover have "\<not> covered A s"
    using s(2,3) blk_free_iff [OF assms(2), of s] by (auto simp: run_def)
  ultimately show ?thesis using s(2) by blast
qed

theorem kmalloc_zero_blocks_witness:
  "\<exists>s. kmalloc kheap 0xFFFFFFFF (\<lambda>_. 0) = (0x1000000 + of_nat (4096 * s), \<lambda>_. 0) \<and> s < 25600"
proof -
  have "table_rel (table kheap) (\<lambda>_. 0) Map.empty" by (rule table_rel_empty) simp
  then show ?thesis
    using kmalloc_zero_blocks [OF kheap_geom, of "\<lambda>_. 0" Map.empty "0xFFFFFFFF"]
    by (auto simp: covered_def)
qed

section \<open>Every reachable state of the kernel heap\<close>

text \<open>
  The states the kernel heap goes through: after its initialisation, its users allocate (a
  size whose blocks fit somewhere), free a pointer they hold, and write bytes of the blocks
  they asked for. \<open>L\<close> maps every live pointer to the size asked for.
\<close>

definition live_blocks :: "(u32 \<rightharpoonup> u32) \<Rightarrow> (u32 \<rightharpoonup> nat)" where
  "live_blocks L = map_option nblocks \<circ> L"

inductive kheap_reach :: "mem \<Rightarrow> (u32 \<rightharpoonup> u32) \<Rightarrow> bool" where
  start: "kernel_heap_init h m0 = (0, kheap, m) \<Longrightarrow> kheap_reach m Map.empty"
| kmalloc: "kheap_reach m L \<Longrightarrow> 0 < unat sz \<Longrightarrow> unat sz \<le> 2 ^ 32 - 4096
    \<Longrightarrow> heap_room kheap (live_blocks L) (nblocks sz) \<Longrightarrow> kmalloc kheap sz m = (p, m')
    \<Longrightarrow> kheap_reach m' (L(p \<mapsto> sz))"
| kfree: "kheap_reach m L \<Longrightarrow> L p = Some sz \<Longrightarrow> kheap_reach (kfree kheap p m) (L(p := None))"
| write_byte: "kheap_reach m L \<Longrightarrow> L p = Some sz \<Longrightarrow> a \<in> region p (unat sz)
    \<Longrightarrow> kheap_reach (m(a := v)) L"

lemma live_blocks_upd:
  "live_blocks (L(p \<mapsto> sz)) = (live_blocks L)(p \<mapsto> nblocks sz)"
  "live_blocks (L(p := None)) = (live_blocks L)(p := None)"
  by (auto simp: live_blocks_def)

lemma live_blocks_Some: "L p = Some sz \<Longrightarrow> live_blocks L p = Some (nblocks sz)"
  by (simp add: live_blocks_def)

lemma kheap_reach_live: "kheap_reach m L \<Longrightarrow> heap_live kheap m (live_blocks L)"
proof (induction rule: kheap_reach.induct)
  case (start h m0 m)
  then show ?case using kernel_heap_init_live [of h m0] by (simp add: live_blocks_def)
next
  case (kmalloc m L sz p m')
  then obtain q m'' where "Heap.heap_malloc kheap sz m = (q, m'')"
      "heap_live kheap m'' ((live_blocks L)(q \<mapsto> nblocks sz))"
    using kh.alloc_fresh [of m "live_blocks L" sz] by (metis kmalloc_def)
  then show ?case using kmalloc.hyps(5) by (simp add: kmalloc_def live_blocks_upd del: fun_upd_apply)
next
  case (kfree m L p sz)
  then show ?case
    using kh.dealloc_ok [of m "live_blocks L" p] by (simp add: live_blocks_upd live_blocks_Some del: fun_upd_apply)
next
  case (write_byte m L p sz a v)
  have "a \<in> block_region p (nblocks sz)"
    using write_byte.hyps(3) request_in_blocks by blast
  then have "same_outside (block_region p (nblocks sz)) m (m(a := v))" by (rule same_outside_upd)
  moreover have "live_blocks L p = Some (nblocks sz)"
    using write_byte.hyps(2) by (rule live_blocks_Some)
  ultimately show ?case using write_byte.IH kh.write_live by blast
qed


lemma reach_two:
  "\<exists>m. kheap_reach m [0x1000000 \<mapsto> 100, 0x1001000 \<mapsto> 200]"
proof -
  have nb: "nblocks 100 = 1" "nblocks 200 = 1" by (simp_all add: nblocks_def)
  obtain m0 where m0: "kernel_heap_init kheap (\<lambda>_. 0) = (0, kheap, m0)"
    using kernel_heap_init_spec by blast
  then have r0: "kheap_reach m0 Map.empty" by (rule kheap_reach.start)
  have "ptr_allocs kheap Map.empty = Map.empty" by (auto simp: ptr_allocs_def)
  then have rel0: "table_rel (table kheap) m0 Map.empty"
    using kernel_heap_init_live [OF m0] by (simp add: heap_live_def)
  obtain m1 where m1: "kmalloc kheap 100 m0 = (block_ptr kheap 0, m1)" "table_rel (table kheap) m1 [0 \<mapsto> 1]"
    using kmalloc_first_fit [OF kheap_geom rel0, of 100 0] first_fit_empty [of 1 25600] nb by auto
  have live0: "live_blocks Map.empty = Map.empty" by (auto simp: live_blocks_def)
  have "heap_room kheap Map.empty 1"
    by (auto simp: heap_room_def fits_def covered_def ptr_allocs_def intro!: exI [of _ 0])
  then have r1: "kheap_reach m1 [0x1000000 \<mapsto> 100]"
    using kheap_reach.kmalloc [OF r0 _ _ _ m1(1)] nb live0 by (simp add: block_ptr_def)
  have A1: "ptr_allocs kheap (live_blocks [0x1000000 \<mapsto> 100]) = [0 \<mapsto> 1]"
  proof -
    have "live_blocks [0x1000000 \<mapsto> 100] = ptr_map kheap [0 \<mapsto> 1]"
      using ptr_map_upd [OF kheap_geom, of 0 Map.empty "Some 1"] nb
      by (simp add: live_blocks_upd live0 block_ptr_def ptr_map_def [abs_def])
    then show ?thesis using ptr_allocs_map [OF kheap_geom m1(2)] by simp
  qed
  have ff: "first_fit [0 \<mapsto> 1] 25600 1 1"
    by (auto simp: first_fit_def fits_def covered_def)
  obtain m2 where m2: "kmalloc kheap 200 m1 = (block_ptr kheap 1, m2)"
    using kmalloc_first_fit [OF kheap_geom m1(2), of 200 1] ff nb by auto
  have "heap_room kheap (live_blocks [0x1000000 \<mapsto> 100]) 1"
    unfolding heap_room_def A1 using ff by (auto simp: first_fit_def intro!: exI [of _ 1])
  then have "kheap_reach m2 [0x1000000 \<mapsto> 100, 0x1001000 \<mapsto> 200]"
    using kheap_reach.kmalloc [OF r1 _ _ _ m2] nb by (simp add: block_ptr_def)
  then show ?thesis by blast
qed


text \<open>The scan yields -1 or the index of a block, whatever the table holds.\<close>

lemma heap_scan_range:
  "unat (total t) < 2 ^ 31 \<Longrightarrow> sb = - 1 \<or> 0 \<le> sb \<and> sb < int (unat (total t)) \<Longrightarrow>
    heap_scan m t tb i bc sb = - 1 \<or> 0 \<le> heap_scan m t tb i bc sb \<and> heap_scan m t tb i bc sb < int (unat (total t))"
proof (induction m t tb i bc sb rule: heap_scan.induct)
  case (1 m t tb i bc sb)
  show ?case
  proof (cases "i < total t")
    case True
    then have i: "unat i < unat (total t)" by (simp add: word_less_nat_alt)
    then have "int_of_u32 i = int (unat i)" using 1(3) by (intro int_of_u32_small) simp
    then have "0 \<le> int_of_u32 i \<and> int_of_u32 i < int (unat (total t))" using i by (simp only: of_nat_0_le_iff of_nat_less_iff simp_thms)
    then have sb': "(if sb = - 1 then int_of_u32 i else sb) = - 1
        \<or> 0 \<le> (if sb = - 1 then int_of_u32 i else sb) \<and> (if sb = - 1 then int_of_u32 i else sb) < int (unat (total t))"
      using 1(4) by (cases "sb = - 1") auto
    show ?thesis
    proof (cases "heap_get_entry_type (m (entries t + i)) \<noteq> uint HEAP_BLOCK_TABLE_ENTRY_FREE")
      case taken: True
      show ?thesis using 1(1) [OF True taken 1(3)] True taken by (simp add: heap_scan.simps [of m t tb i])
    next
      case False
      show ?thesis using 1(2) [OF True False refl refl _ 1(3) sb'] sb' True False
        by (simp add: heap_scan.simps [of m t tb i] Let_def)
    qed
  next
    case False
    then show ?thesis using 1(4) by (simp add: heap_scan.simps [of m t tb i])
  qed
qed

text \<open>
  C17. The result of \<open>kmalloc\<close> is null or the address of a block of the heap's data, aligned to
  4096 bytes, for every request and whatever the block table holds.
\<close>

theorem kmalloc_result_type:
  "fst (kmalloc kheap sz m) = 0 \<or> aligned 4096 (fst (kmalloc kheap sz m)) \<and> region (fst (kmalloc kheap sz m)) 4096 \<subseteq> data_region kheap"
proof -
  let ?tb = "heap_align_value_to_upper sz div SIMPOS_HEAP_BLOCK_SIZE"
  let ?s = "heap_get_start_block kheap ?tb m"
  show ?thesis
  proof (cases "?s < 0")
    case True
    then show ?thesis by (simp add: kmalloc_def heap_malloc_def heap_malloc_blocks_def Let_def)
  next
    case False
    have tot: "unat (total (table kheap)) < 2 ^ 31" using geom_total [OF kheap_geom] by simp
    have "?s < int (unat (total (table kheap)))"
      using heap_scan_range [OF tot, of "- 1" m ?tb 0 0] False by (auto simp: heap_get_start_block_def Let_def split: if_splits)
    then obtain b where b: "?s = int b" "b < unat (total (table kheap))" using False nonneg_int_cases [of ?s] by auto
    have "fst (kmalloc kheap sz m) = block_ptr kheap b"
      using b(1) by (simp add: kmalloc_def heap_malloc_def heap_malloc_blocks_def Let_def heap_block_to_address_eq block_ptr_def del: of_nat_mult)
    moreover have "aligned 4096 (block_ptr kheap b)"
      using block_ptr_offset(1) [OF kheap_geom b(2)] kheap_geom by (simp add: aligned_def heap_geom_def)
    moreover have "region (block_ptr kheap b) 4096 \<subseteq> data_region kheap"
      using block_region_data [OF kheap_geom, of b 1] b(2) by (simp add: block_region_def)
    ultimately show ?thesis by simp
  qed
qed

end
