(* ===== verification/Streamer.thy ===== *)
theory Streamer
  imports Disk KernelHeap
begin

text \<open>
  \<^verbatim>\<open>src/src/disk/streamer.c\<close>: a byte stream over the disk. A stream is eight bytes of heap
  memory, its position at offset 0 and its disk at offset 4. \<open>sp\<close> is the stack pointer of
  the caller: the 512 byte buffer of every activation of \<open>diskstreamer_read\<close> lies below it.
\<close>

section \<open>Operations\<close>

definition stream_pos :: "mem \<Rightarrow> u32 \<Rightarrow> int" where
  "stream_pos m s = int_of_u32 (load32 m s)"

definition stream_disk :: "mem \<Rightarrow> u32 \<Rightarrow> u32" where
  "stream_disk m s = load32 m (s + 4)"

definition diskstreamer_new :: "sys \<Rightarrow> heap \<Rightarrow> int \<Rightarrow> mem \<Rightarrow> u32 \<times> mem" where
  "diskstreamer_new S h drive m =
     (let disk = disk_get S drive in
      if disk = 0 then (0, m)
      else case kzalloc h 8 m of (streamer, m) \<Rightarrow>
        (streamer, store32 (store32 m streamer 0) (streamer + 4) disk))"

definition diskstreamer_seek :: "u32 \<Rightarrow> int \<Rightarrow> mem \<Rightarrow> int \<times> mem" where
  "diskstreamer_seek stream pos m = (0, store32 m stream (u32_of_int pos))"

function diskstreamer_copy :: "u32 \<Rightarrow> int \<Rightarrow> int \<Rightarrow> int \<Rightarrow> u32 \<Rightarrow> mem \<Rightarrow> mem" where
  "diskstreamer_copy buf offset total_to_read i out m =
     (if i < total_to_read
      then diskstreamer_copy buf offset total_to_read (i + 1) (out + 1) (m(out := m (buf + u32_of_int (offset + i))))
      else m)"
  by auto
termination by (relation "measure (\<lambda>(_, _, n, i, _, _). nat (n - i))") auto

declare diskstreamer_copy.simps [simp del]

text \<open>
  The sums of an offset below 512 and a size are not wrapped: a size passed to the stream is
  far below \<open>2\<^sup>3\<^sup>1 - 512\<close>. The recursion is on the size less one whole sector, although
  only the rest of a sector may have been read.
\<close>

function diskstreamer_read :: "sys \<Rightarrow> u32 \<Rightarrow> u32 \<Rightarrow> u32 \<Rightarrow> int \<Rightarrow> mem \<Rightarrow> (int \<times> mem) option" where
  "diskstreamer_read S sp stream out count m =
     (let sector = stream_pos m stream sdiv SIMPOS_SECTOR_SIZE;
          offset = stream_pos m stream smod SIMPOS_SECTOR_SIZE;
          overflow = (offset + count \<ge> SIMPOS_SECTOR_SIZE);
          total_to_read = (if overflow then count - ((offset + count) - SIMPOS_SECTOR_SIZE) else count);
          buf = sp - 512
      in do {
        (res, m) \<leftarrow> disk_read_block S (stream_disk m stream) (u32_of_int sector) 1 buf m;
        if res < 0 then Some (res, m)
        else let m = diskstreamer_copy buf offset total_to_read 0 out m;
                 m = store32 m stream (u32_of_int (stream_pos m stream + total_to_read))
             in if overflow
                then diskstreamer_read S buf stream (out + u32_of_int total_to_read) (count - SIMPOS_SECTOR_SIZE) m
                else Some (res, m) })"
  by auto
termination
proof (relation "measure (\<lambda>(_, _, _, _, count, _). nat count)")
  fix S :: sys and sp stream out :: u32 and count :: int and m :: mem
    and x xa xb xc xd xe xf xg xh and xi xj :: mem
  assume "xa = stream_pos m stream smod SIMPOS_SECTOR_SIZE" "xb = (SIMPOS_SECTOR_SIZE \<le> xa + count)" "xb"
  moreover have "stream_pos m stream smod 512 < 512"
    using smod_int_range [where a = "stream_pos m stream" and b = 512] by simp
  ultimately show "((S, xd, stream, out + u32_of_int xc, count - SIMPOS_SECTOR_SIZE, xj), S, sp, stream, out, count, m)
    \<in> measure (\<lambda>(_, _, _, _, count, _). nat count)"
    by (simp add: SIMPOS_SECTOR_SIZE_def)
qed simp

declare diskstreamer_read.simps [simp del]

definition diskstreamer_close :: "heap \<Rightarrow> u32 \<Rightarrow> mem \<Rightarrow> mem" where
  "diskstreamer_close h stream m = kfree h stream m"

section \<open>One sector\<close>

text \<open>The \<open>n\<close> bytes of stack below \<open>sp\<close>.\<close>

definition stack :: "u32 \<Rightarrow> nat \<Rightarrow> u32 set" where
  "stack sp n = region (sp - of_nat n) n"

lemma stack_split: "n + k \<le> 2 ^ 32 \<Longrightarrow> stack sp (n + k) = stack sp n \<union> stack (sp - of_nat n) k"
  using region_split [of k n "sp - of_nat (n + k)"]
  by (simp add: stack_def add.commute diff_diff_eq Un_commute)

text \<open>\<open>stream_at S m s p\<close>: the stream \<open>s\<close> is on the primary disk at position \<open>p\<close>.\<close>

definition stream_at :: "sys \<Rightarrow> mem \<Rightarrow> u32 \<Rightarrow> int \<Rightarrow> bool" where
  "stream_at S m s p \<longleftrightarrow> stream_pos m s = p \<and> stream_disk m s = disk_addr S"

lemma copy_eq_store:
  assumes "\<And>k. k < n \<Longrightarrow> m (buf + u32_of_int (offset + i + int k)) = bs ! k" and "length bs = n"
    and "\<And>k. k < n \<Longrightarrow> buf + u32_of_int (offset + i + int k) \<notin> region out n"
  shows "diskstreamer_copy buf offset (i + int n) i out m = store_bytes m out bs"
  using assms
proof (induction n arbitrary: i out m bs)
  case 0
  then show ?case by (simp add: diskstreamer_copy.simps)
next
  case (Suc n)
  obtain b cs where bs: "bs = b # cs" "length cs = n" using Suc.prems(2) by (cases bs) auto
  have b: "m (buf + u32_of_int (offset + i)) = b" using Suc.prems(1) [of 0] bs by simp
  have "diskstreamer_copy buf offset (i + int (Suc n)) i out m =
      diskstreamer_copy buf offset (i + 1 + int n) (i + 1) (out + 1) (m(out := b))"
  proof -
    have e: "i + int (Suc n) = i + 1 + int n" by simp
    show ?thesis unfolding e by (subst diskstreamer_copy.simps) (simp add: b)
  qed
  also have "\<dots> = store_bytes (m(out := b)) (out + 1) cs"
  proof (rule Suc.IH)
    fix k assume k: "k < n"
    have e: "offset + (i + 1) + int k = offset + i + int (Suc k)" by simp
    have "buf + u32_of_int (offset + i + int (Suc k)) \<notin> region out (Suc n)" by (rule Suc.prems(3)) (use k in simp)
    then show "buf + u32_of_int (offset + (i + 1) + int k) \<notin> region (out + 1) n"
      and "(m(out := b)) (buf + u32_of_int (offset + (i + 1) + int k)) = cs ! k"
      unfolding e using Suc.prems(1) [of "Suc k"] k bs by (auto simp: region_Suc)
  qed (simp add: bs)
  finally show ?case by (simp add: bs)
qed

text \<open>What one activation leaves behind: the sector in its buffer, the bytes, the position.\<close>

definition after_sector :: "(nat \<Rightarrow> u8) \<Rightarrow> u32 \<Rightarrow> u32 \<Rightarrow> u32 \<Rightarrow> nat \<Rightarrow> nat \<Rightarrow> int \<Rightarrow> mem \<Rightarrow> mem" where
  "after_sector img buf s out pos n delta m =
     store32 (store_bytes (store_bytes m buf (image_bytes img (512 * (pos div 512)) 512)) out (image_bytes img pos n))
       s (u32_of_int (int pos + delta))"

lemma after_sector_facts:
  assumes "stream_at S m s (int pos)" and "n \<le> 512"
    and dis: "region s 8 \<inter> region out n = {}" "region s 8 \<inter> region buf 512 = {}"
    and "0 \<le> int pos + delta" "int pos + delta < 2 ^ 31"
  shows "stream_at S (after_sector img buf s out pos n delta m) s (int pos + delta)"
    and "load_bytes (after_sector img buf s out pos n delta m) out n = image_bytes img pos n"
    and "same_outside (region s 4 \<union> region out n \<union> region buf 512) m (after_sector img buf s out pos n delta m)"
proof -
  let ?m1 = "store_bytes m buf (image_bytes img (512 * (pos div 512)) 512)"
  let ?m2 = "store_bytes ?m1 out (image_bytes img pos n)"
  let ?m3 = "store32 ?m2 s (u32_of_int (int pos + delta))"
  have f1: "same_outside (region buf 512) m ?m1"
    using store_bytes_frame [of buf "image_bytes img (512 * (pos div 512)) 512" m] by simp
  have f2: "same_outside (region out n) ?m1 ?m2"
    using store_bytes_frame [of out "image_bytes img pos n" ?m1] by simp
  have f3: "same_outside (region s 4) ?m2 ?m3" by (rule store32_frame)
  have "same_outside (region buf 512 \<union> region out n \<union> region s 4) m ?m3"
    by (rule same_outside_trans [OF same_outside_trans [OF f1 f2] f3])
  then show "same_outside (region s 4 \<union> region out n \<union> region buf 512) m (after_sector img buf s out pos n delta m)"
    unfolding after_sector_def by (rule same_outside_mono) blast
  have r8: "region s 8 = region s 4 \<union> region (s + 4) 4" using region_split [of 4 4 s] by simp
  have d34: "region (s + 4) 4 \<inter> region s 4 = {}"
    by (auto simp: region_4 add.assoc)
  have "load32 ?m3 (s + 4) = load32 ?m2 (s + 4)" by (rule load32_same_outside [OF f3 d34])
  also have "\<dots> = load32 ?m1 (s + 4)" by (rule load32_same_outside [OF f2]) (use dis(1) r8 in blast)
  also have "\<dots> = load32 m (s + 4)" by (rule load32_same_outside [OF f1]) (use dis(2) r8 in blast)
  finally have "stream_disk ?m3 s = disk_addr S" using assms(1) by (simp add: stream_at_def stream_disk_def)
  moreover have "stream_pos ?m3 s = int pos + delta"
    using assms(5,6) by (simp add: stream_pos_def load32_store32_same int_of_u32_of_int c_int_id)
  ultimately show "stream_at S (after_sector img buf s out pos n delta m) s (int pos + delta)"
    by (simp add: stream_at_def after_sector_def)
  have "load_bytes ?m3 out n = load_bytes ?m2 out n"
    by (rule load_bytes_frame [OF f3]) (use dis(1) r8 assms(2) in auto)
  also have "\<dots> = image_bytes img pos n"
    using load_store_bytes [of "image_bytes img pos n" ?m1 out] assms(2) by simp
  finally show "load_bytes (after_sector img buf s out pos n delta m) out n = image_bytes img pos n"
    by (simp add: after_sector_def)
qed

lemma read_sector:
  fixes count :: int
  assumes ata: "ata_reads (controller S) img" and st: "stream_at S m s (int pos)" and pos: "pos < 2 ^ 31"
  defines "overflow \<equiv> 512 \<le> pos mod 512 + nat count"
    and "delta \<equiv> if 512 \<le> pos mod 512 + nat count then int (512 - pos mod 512) else count"
  assumes dis: "region out (nat delta) \<inter> region (sp - 512) 512 = {}" "region s 8 \<inter> region out (nat delta) = {}"
      "region s 8 \<inter> region (sp - 512) 512 = {}"
  shows "diskstreamer_read S sp s out count m =
    (let m' = after_sector img (sp - 512) s out pos (nat delta) delta m
     in if overflow then diskstreamer_read S (sp - 512) s (out + u32_of_int delta) (count - 512) m' else Some (0, m'))"
proof -
  let ?buf = "sp - 512"
  have p: "stream_pos m s = int pos" "stream_disk m s = disk_addr S" using st by (simp_all add: stream_at_def)
  have sec: "int pos sdiv 512 = int (pos div 512)" "int pos smod 512 = int (pos mod 512)"
    by (simp_all add: sdiv_nonneg smod_nonneg zdiv_int zmod_int)
  have ov: "(512 \<le> int (pos mod 512) + count) = overflow"
    by (auto simp: overflow_def)
  have dl: "(if overflow then count - (int (pos mod 512) + count - 512) else count) = delta"
    by (auto simp: delta_def overflow_def)
  have lba: "u32_of_int (int (pos div 512)) = of_nat (pos div 512)" by (rule u32_of_int_of_nat)
  have lb: "unat (of_nat (pos div 512) :: u32) = pos div 512" using pos by simp
  let ?m1 = "store_bytes m ?buf (image_bytes img (512 * (pos div 512)) 512)"
  have rb: "disk_read_block S (disk_addr S) (of_nat (pos div 512)) 1 ?buf m = Some (0, ?m1)"
    using disk_read_block_sector_eq [OF ata, of "of_nat (pos div 512)" ?buf m] pos lb by simp
  have f1: "same_outside (region ?buf 512) m ?m1"
    using store_bytes_frame [of ?buf "image_bytes img (512 * (pos div 512)) 512" m] by simp
  let ?n = "nat delta"
  let ?m2 = "store_bytes ?m1 out (image_bytes img pos ?n)"
  have n: "pos mod 512 + ?n \<le> 512"
    by (auto simp: delta_def)
  have cp: "diskstreamer_copy ?buf (int (pos mod 512)) delta 0 out ?m1 = ?m2"
  proof (cases "0 \<le> delta")
    case False
    then show ?thesis by (simp add: diskstreamer_copy.simps image_bytes_def)
  next
    case True
    have "diskstreamer_copy ?buf (int (pos mod 512)) (0 + int ?n) 0 out ?m1 = ?m2"
    proof (rule copy_eq_store)
      fix k assume k: "k < ?n"
      have e: "?buf + u32_of_int (int (pos mod 512) + 0 + int k) = ?buf + of_nat (pos mod 512 + k)"
        using u32_of_int_of_nat [of "pos mod 512 + k"] by simp
      have l: "pos mod 512 + k < 512" using k n by simp
      have "?m1 (?buf + of_nat (pos mod 512 + k)) = img (512 * (pos div 512) + (pos mod 512 + k))"
        using l by (subst store_bytes_at) simp_all
      also have "\<dots> = image_bytes img pos ?n ! k" using k by (simp add: add.assoc [symmetric])
      finally show "?m1 (?buf + u32_of_int (int (pos mod 512) + 0 + int k)) = image_bytes img pos ?n ! k"
        by (simp only: e)
      show "?buf + u32_of_int (int (pos mod 512) + 0 + int k) \<notin> region out ?n"
        unfolding e using l dis(1) in_region_offset [of "pos mod 512 + k" 512 ?buf] by auto
    qed simp
    then show ?thesis using True by simp
  qed
  have f2: "same_outside (region out ?n) ?m1 ?m2"
    using store_bytes_frame [of out "image_bytes img pos ?n" ?m1] by simp
  have sp': "stream_pos ?m2 s = int pos"
  proof -
    have r4: "region s 4 \<subseteq> region s 8" by (rule region_mono) simp
    have "load32 ?m2 s = load32 ?m1 s" by (rule load32_same_outside [OF f2]) (use dis(2) r4 in blast)
    also have "\<dots> = load32 m s" by (rule load32_same_outside [OF f1]) (use dis(3) r4 in blast)
    finally show ?thesis using p(1) by (simp add: stream_pos_def)
  qed
  show ?thesis
    by (subst diskstreamer_read.simps)
      (simp only: Let_def p SIMPOS_SECTOR_SIZE_def sec ov dl lba rb Option.bind.bind_lunit prod.case cp sp'
        after_sector_def less_irrefl if_False)
qed

section \<open>Whole reads\<close>

definition stack_need :: "nat \<Rightarrow> nat" where
  "stack_need count = 512 * (count div 512 + 2)"

lemma stack_need_ge: "1024 \<le> stack_need count"
  by (simp add: stack_need_def)

text \<open>
  The memory a read of \<open>count\<close> bytes touches: the stream, the output and the stack. They must
  not overlap.
\<close>

definition read_room :: "u32 \<Rightarrow> u32 \<Rightarrow> u32 \<Rightarrow> nat \<Rightarrow> bool" where
  "read_room sp s out count \<longleftrightarrow> region s 8 \<inter> region out count = {}
     \<and> region s 8 \<inter> stack sp (stack_need count) = {} \<and> region out count \<inter> stack sp (stack_need count) = {}"

lemma read_room_step:
  assumes "read_room sp s out count" "n + k \<le> count" "count < 2 ^ 31" "stack_need k + 512 \<le> stack_need count"
  shows "read_room (sp - 512) s (out + of_nat n) k" and "region out n \<inter> region (sp - 512) 512 = {}"
    and "region s 8 \<inter> region out n = {}" and "region s 8 \<inter> region (sp - 512) 512 = {}"
    and "stack (sp - 512) (stack_need k) \<union> region (sp - 512) 512 \<subseteq> stack sp (stack_need count)"
    and "region out n \<inter> stack (sp - 512) (stack_need k) = {}"
proof -
  have "512 + stack_need k \<le> 2 ^ 32" using assms(2,3) by (simp add: stack_need_def)
  then have st: "stack sp (512 + stack_need k) = region (sp - 512) 512 \<union> stack (sp - 512) (stack_need k)"
    using stack_split [of 512 "stack_need k" sp] by (simp add: stack_def)
  have "stack sp (512 + stack_need k) \<subseteq> stack sp (stack_need count)"
  proof -
    obtain d where "stack_need count = (512 + stack_need k) + d"
      using assms(4) by (metis add.commute le_iff_add)
    moreover have "stack_need count \<le> 2 ^ 32" using assms(3) by (simp add: stack_need_def)
    ultimately show ?thesis using stack_split [of "512 + stack_need k" d sp] by auto
  qed
  then show sub: "stack (sp - 512) (stack_need k) \<union> region (sp - 512) 512 \<subseteq> stack sp (stack_need count)"
    using st by blast
  have o: "region out n \<union> region (out + of_nat n) k = region out (n + k)"
    using region_split [of n k out] assms(2,3) by simp
  then have o': "region out n \<subseteq> region out count" "region (out + of_nat n) k \<subseteq> region out count"
    using region_mono [OF assms(2), of out] by blast+
  note r = assms(1) [unfolded read_room_def]
  show "read_room (sp - 512) s (out + of_nat n) k" "region out n \<inter> region (sp - 512) 512 = {}"
    "region s 8 \<inter> region out n = {}" "region s 8 \<inter> region (sp - 512) 512 = {}"
    "region out n \<inter> stack (sp - 512) (stack_need k) = {}"
    using r sub o' unfolding read_room_def by blast+
qed

definition read_effect :: "(nat \<Rightarrow> u8) \<Rightarrow> sys \<Rightarrow> u32 \<Rightarrow> u32 \<Rightarrow> u32 \<Rightarrow> nat \<Rightarrow> nat \<Rightarrow> nat \<Rightarrow> nat \<Rightarrow> mem \<Rightarrow> mem \<Rightarrow> bool" where
  "read_effect img S sp s out pos n pos' need m m' \<longleftrightarrow> stream_at S m' s (int pos')
     \<and> load_bytes m' out n = image_bytes img pos n
     \<and> same_outside (region s 4 \<union> region out n \<union> stack sp need) m m'"

lemma read_inside:
  assumes ata: "ata_reads (controller S) img" and st: "stream_at S m s (int pos)"
    and "pos mod 512 + count < 512" and small: "pos + count < 2 ^ 31" and room: "read_room sp s out count"
  shows "\<exists>m'. diskstreamer_read S sp s out (int count) m = Some (0, m')
    \<and> read_effect img S sp s out pos count (pos + count) (stack_need count) m m'"
proof -
  let ?m = "after_sector img (sp - 512) s out pos count (int count) m"
  have c: "count < 512" using assms(3) by simp
  have sub: "region (sp - 512) 512 \<subseteq> stack sp (stack_need count)"
  proof -
    have "stack_need count = 512 + 512" using c by (simp add: stack_need_def)
    then show ?thesis using stack_split [of 512 512 sp] by (simp add: stack_def)
  qed
  have dis: "region out count \<inter> region (sp - 512) 512 = {}" "region s 8 \<inter> region out count = {}"
      "region s 8 \<inter> region (sp - 512) 512 = {}"
    using room sub unfolding read_room_def by blast+
  have "diskstreamer_read S sp s out (int count) m = Some (0, ?m)"
    using read_sector [OF ata st, of out "int count" sp] assms(3) small dis by (simp add: Let_def)
  moreover have "stream_at S ?m s (int (pos + count)) \<and> load_bytes ?m out count = image_bytes img pos count
      \<and> same_outside (region s 4 \<union> region out count \<union> region (sp - 512) 512) m ?m"
    using after_sector_facts [OF st, of count out "sp - 512" "int count" img] c dis small by simp
  moreover from this have "same_outside (region s 4 \<union> region out count \<union> stack sp (stack_need count)) m ?m"
    using sub by (blast intro: same_outside_mono)
  ultimately show ?thesis unfolding read_effect_def by auto
qed

lemma read_aligned:
  assumes ata: "ata_reads (controller S) img" and st: "stream_at S m s (int pos)"
    and "pos mod 512 = 0" and "pos + count < 2 ^ 31" and room: "read_room sp s out count"
  shows "\<exists>m'. diskstreamer_read S sp s out (int count) m = Some (0, m')
    \<and> read_effect img S sp s out pos count (pos + count) (stack_need count) m m'"
  using st assms(3-5)
proof (induction count arbitrary: m pos sp out rule: less_induct)
  case (less count)
  show ?case
  proof (cases "count < 512")
    case True
    then show ?thesis using read_inside [OF ata less.prems(1) _ less.prems(3,4)] less.prems(2) by simp
  next
    case False
    let ?k = "count - 512" and ?m = "after_sector img (sp - 512) s out pos 512 512 m"
    have k: "512 + ?k \<le> count" "stack_need ?k + 512 \<le> stack_need count" "count < 2 ^ 31"
      using False less.prems(3) div_add_self2 [of 512 ?k] by (simp_all add: stack_need_def)
    note r = read_room_step [OF less.prems(4) k(1,3,2)]
    have e: "diskstreamer_read S sp s out (int count) m = diskstreamer_read S (sp - 512) s (out + 512) (int ?k) ?m"
      using read_sector [OF ata less.prems(1), of out "int count" sp] False less.prems(2,3) r(2,3,4)
      by (simp add: Let_def of_nat_diff)
    have f: "stream_at S ?m s (int (pos + 512))" "load_bytes ?m out 512 = image_bytes img pos 512"
        "same_outside (region s 4 \<union> region out 512 \<union> region (sp - 512) 512) m ?m"
      using after_sector_facts [OF less.prems(1), of 512 out "sp - 512" 512 img] r(3,4) less.prems(3) False by simp_all
    have "(pos + 512) mod 512 = 0" "pos + 512 + ?k < 2 ^ 31" using less.prems(2,3) False by simp_all
    then obtain m' where m': "diskstreamer_read S (sp - 512) s (out + 512) (int ?k) ?m = Some (0, m')"
        "read_effect img S (sp - 512) s (out + 512) (pos + 512) ?k (pos + 512 + ?k) (stack_need ?k) ?m m'"
      using less.IH [of ?k ?m "pos + 512" "sp - 512" "out + 512"] f(1) r(1) False by auto
    note m'' = m'(2) [unfolded read_effect_def]
    have "region out 512 \<inter> (region s 4 \<union> region (out + 512) ?k \<union> stack (sp - 512) (stack_need ?k)) = {}"
      using r(3,6) region_mono [of 4 8 s] region_split_disjoint [of 512 ?k out] k(1,3) by auto
    then have "load_bytes m' out 512 = image_bytes img pos 512"
      using m'' f(2) load_bytes_frame [of _ ?m m' out 512] by fastforce
    then have "load_bytes m' out (512 + ?k) = image_bytes img pos (512 + ?k)"
      using m'' unfolding load_bytes_add image_bytes_add by simp
    then have lb: "load_bytes m' out count = image_bytes img pos count" using False by simp
    have o: "region out 512 \<union> region (out + 512) ?k = region out count"
      using region_split [of 512 ?k out] k(1,3) False by simp
    have "same_outside ((region s 4 \<union> region out 512 \<union> region (sp - 512) 512) \<union>
        (region s 4 \<union> region (out + 512) ?k \<union> stack (sp - 512) (stack_need ?k))) m m'"
      by (rule same_outside_trans [OF f(3)]) (use m'' in blast)
    then have "same_outside (region s 4 \<union> region out count \<union> stack sp (stack_need count)) m m'"
      by (rule same_outside_mono) (use r(5) o in blast)
    then show ?thesis using m'(1) m'' lb False e by (simp add: read_effect_def)
  qed
qed

text \<open>
  C20. From a position at the start of a sector, or when the bytes stay inside one sector
  short of its last byte, the stream delivers exactly the bytes of the disk from its
  position on, for every size, advances by that size and touches nothing else.
\<close>

theorem diskstreamer_read_correct:
  assumes "ata_reads (controller S) img" and "stream_at S m s (int pos)"
    and "pos mod 512 = 0 \<or> pos mod 512 + count < 512"
    and "pos + count < 2 ^ 31" and "read_room sp s out count"
  shows "\<exists>m'. diskstreamer_read S sp s out (int count) m = Some (0, m')
    \<and> load_bytes m' out count = image_bytes img pos count \<and> stream_at S m' s (int (pos + count))
    \<and> same_outside (region s 4 \<union> region out count \<union> stack sp (stack_need count)) m m'"
  using assms(3) read_aligned [OF assms(1,2) _ assms(4,5)] read_inside [OF assms(1,2) _ assms(4,5)]
  unfolding read_effect_def by auto

lemma read_misaligned:
  assumes ata: "ata_reads (controller S) img" and st: "stream_at S m s (int pos)"
    and o: "0 < pos mod 512" "512 \<le> pos mod 512 + count"
    and small: "pos + count + 512 < 2 ^ 31" and room: "read_room sp s out count"
  shows "\<exists>m'. diskstreamer_read S sp s out (int count) m = Some (0, m')
    \<and> read_effect img S sp s out pos (512 - pos mod 512 + (count - 512)) (pos + count - pos mod 512)
        (stack_need count) m m'"
proof -
  define n where "n = 512 - pos mod 512"
  let ?k = "count - 512" and ?m = "after_sector img (sp - 512) s out pos n (int n) m"
  have n: "0 < n" "n \<le> 512" "n + ?k \<le> count" "pos mod 512 + n = 512" "(pos + n) mod 512 = 0"
  proof -
    show s: "pos mod 512 + n = 512" unfolding n_def using mod_less_divisor [of 512 pos] by simp
    have "(pos + n) mod 512 = (pos mod 512 + n) mod 512" by (simp add: mod_add_left_eq)
    then show "(pos + n) mod 512 = 0" by (simp add: s)
    show "0 < n" "n \<le> 512" "n + ?k \<le> count" using o s by auto
  qed
  have ct: "count < 2 ^ 31" using small by simp
  note rm = room [unfolded read_room_def]
  have st2: "stack sp 1024 \<subseteq> stack sp (stack_need count)" "stack sp 1024 = region (sp - 512) 512 \<union> region (sp - 512 - 512) 512"
  proof -
    obtain d where d: "stack_need count = 1024 + d" by (metis le_iff_add stack_need_ge)
    have "stack_need count \<le> 2 ^ 32" using ct by (simp add: stack_need_def)
    then show "stack sp 1024 \<subseteq> stack sp (stack_need count)" using stack_split [of 1024 d sp] d by auto
    show "stack sp 1024 = region (sp - 512) 512 \<union> region (sp - 512 - 512) 512"
      using stack_split [of 512 512 sp] by (simp add: stack_def)
  qed
  have on: "region out n \<subseteq> region out count" using n(3) by (intro region_mono) simp
  have dis: "region out n \<inter> region (sp - 512) 512 = {}" "region s 8 \<inter> region out n = {}"
      "region s 8 \<inter> region (sp - 512) 512 = {}" "region s 8 \<inter> region (sp - 512 - 512) 512 = {}"
      "region out n \<inter> region (sp - 512 - 512) 512 = {}"
    using rm st2 on by blast+
  have f: "stream_at S ?m s (int (pos + n))" "load_bytes ?m out n = image_bytes img pos n"
      "same_outside (region s 4 \<union> region out n \<union> region (sp - 512) 512) m ?m"
    using after_sector_facts [OF st n(2) dis(2,3), of "int n" img] small n(3) by simp_all
  have e: "diskstreamer_read S sp s out (int count) m =
      diskstreamer_read S (sp - 512) s (out + of_nat n) (int count - 512) ?m"
  proof -
    have "int (512 - pos mod 512) = int n" by (simp add: n_def)
    then show ?thesis
      using read_sector [OF ata st, of out "int count" sp] o(2) small dis(1-3)
      by (simp add: Let_def u32_of_int_of_nat n_def [symmetric])
  qed
  show ?thesis
  proof (cases "count < 512")
    case True
    let ?d = "int count - 512"
    let ?m' = "after_sector img (sp - 512 - 512) s (out + of_nat n) (pos + n) 0 ?d ?m"
    have sum: "int (pos + n) + ?d = int (pos + count - pos mod 512)"
      using n(4) o by simp
    have g: "stream_at S ?m' s (int (pos + n) + ?d)"
        "same_outside (region s 4 \<union> region (out + of_nat n) 0 \<union> region (sp - 512 - 512) 512) ?m ?m'"
      using after_sector_facts [OF f(1), of 0 "out + of_nat n" "sp - 512 - 512" ?d img] dis(4) small sum by simp_all
    have "diskstreamer_read S (sp - 512) s (out + of_nat n) ?d ?m = Some (0, ?m')"
      using read_sector [OF ata f(1), of "out + of_nat n" ?d "sp - 512"] n(5) small True dis(4) n(3)
      by (simp add: Let_def)
    moreover have "load_bytes ?m' out n = image_bytes img pos n"
      using f(2) load_bytes_frame [OF g(2), of out n] dis(2,5) n(2) region_mono [of 4 8 s] by fastforce
    moreover have "same_outside (region s 4 \<union> region out n \<union> stack sp (stack_need count)) m ?m'"
      by (rule same_outside_mono [OF same_outside_trans [OF f(3) g(2)]]) (use st2 in auto)
    moreover have "512 - pos mod 512 + (count - 512) = n" using True by (simp add: n_def)
    ultimately show ?thesis
      unfolding e read_effect_def using g(1) [unfolded sum] by simp
  next
    case False
    have k: "stack_need ?k + 512 \<le> stack_need count"
      using False div_add_self2 [of 512 ?k] by (simp add: stack_need_def)
    note r = read_room_step [OF room n(3) ct k]
    have "int count - 512 = int ?k" using False by simp
    moreover obtain m' where m': "diskstreamer_read S (sp - 512) s (out + of_nat n) (int ?k) ?m = Some (0, m')"
        "read_effect img S (sp - 512) s (out + of_nat n) (pos + n) ?k (pos + n + ?k) (stack_need ?k) ?m m'"
      using read_aligned [OF ata f(1) n(5) _ r(1)] small n(3) by auto
    note m'' = m'(2) [unfolded read_effect_def]
    have "region out n \<inter> (region s 4 \<union> region (out + of_nat n) ?k \<union> stack (sp - 512) (stack_need ?k)) = {}"
      using r(3,6) region_mono [of 4 8 s] region_split_disjoint [of n ?k out] n(3) ct by auto
    then have "load_bytes m' out n = image_bytes img pos n"
      using m'' f(2) load_bytes_frame [of _ ?m m' out n] n(2) by fastforce
    then have "load_bytes m' out (n + ?k) = image_bytes img pos (n + ?k)"
      using m'' unfolding load_bytes_add image_bytes_add by simp
    moreover have o3: "region out n \<union> region (out + of_nat n) ?k = region out (n + ?k)"
      using region_split [of n ?k out] n(3) ct by simp
    have "same_outside ((region s 4 \<union> region out n \<union> region (sp - 512) 512) \<union>
        (region s 4 \<union> region (out + of_nat n) ?k \<union> stack (sp - 512) (stack_need ?k))) m m'"
      by (rule same_outside_trans [OF f(3)]) (use m'' in blast)
    then have "same_outside (region s 4 \<union> region out (n + ?k) \<union> stack sp (stack_need count)) m m'"
      by (rule same_outside_mono) (use r(5) o3 in blast)
    moreover have q: "pos + n + ?k = pos + count - pos mod 512" using n(4) False by simp
    moreover have "stream_at S m' s (int (pos + count - pos mod 512))" using m'' by (simp only: q)
    ultimately show ?thesis
      unfolding e read_effect_def n_def [symmetric] \<open>int count - 512 = int ?k\<close> using m'(1) by blast
  qed
qed

text \<open>
  When a read that starts inside a sector reaches its end, the stream falls behind: of
  the rest only what a full sector less would leave is read, so \<open>pos mod 512\<close> bytes are
  missing from the output of a long read, and the position ends \<open>pos mod 512\<close> bytes too low,
  for a short read even below where it started.
\<close>

theorem diskstreamer_read_loses_bytes:
  assumes "ata_reads (controller S) img" and "stream_at S m s (int pos)"
    and "0 < pos mod 512" and "512 \<le> pos mod 512 + count"
    and "pos + count + 512 < 2 ^ 31" and "read_room sp s out count"
  shows "\<exists>m'. diskstreamer_read S sp s out (int count) m = Some (0, m')
    \<and> stream_at S m' s (int (pos + count - pos mod 512))
    \<and> same_outside (region s 4 \<union> region out (512 - pos mod 512 + (count - 512)) \<union> stack sp (stack_need count)) m m'"
  using read_misaligned [OF assms] by (auto simp: read_effect_def)

section \<open>Witnesses\<close>

definition demo_sys :: "(nat \<Rightarrow> u8) \<Rightarrow> sys" where
  "demo_sys img = \<lparr>controller = ideal_controller img, disk_addr = 0x8000, fat16_fs_addr = 0x8100,
     filesystems_addr = 0x8200, file_descriptors_addr = 0x8300, literal_addr = (\<lambda>_. 0x8F00)\<rparr>"

lemma demo_reads: "ata_reads (controller (demo_sys img)) img"
  using ideal_controller_reads by (simp add: demo_sys_def)

lemma demo_room: "count \<le> 4096 \<Longrightarrow> read_room 0x600000 0x9000 0xA000 count"
proof -
  assume c: "count \<le> 4096"
  then have n: "stack_need count \<le> 512 * 10" using div_le_mono [of count 4096 512] by (simp add: stack_need_def)
  have "unat (0x600000 - of_nat (stack_need count) :: u32) = 0x600000 - stack_need count"
    using n by (subst unat_sub) (simp_all add: word_le_nat_alt)
  then have "a \<in> stack 0x600000 (stack_need count) \<Longrightarrow> 0x500000 \<le> unat a" for a
    using n unfolding stack_def by (subst (asm) region_eq_range) auto
  moreover have "a \<in> region 0xA000 count \<Longrightarrow> 0xA000 \<le> unat a \<and> unat a < 0xB000" for a
    using c by (subst (asm) region_eq_range) auto
  moreover have "a \<in> region 0x9000 8 \<Longrightarrow> unat a < 0x9008" for a
    by (subst (asm) region_eq_range) auto
  ultimately show ?thesis unfolding read_room_def by fastforce
qed

definition demo_mem :: "nat \<Rightarrow> mem" where
  "demo_mem pos = store32 (store32 (\<lambda>_. 0) 0x9000 (of_nat pos)) 0x9004 0x8000"

lemma demo_stream: "pos < 2 ^ 31 \<Longrightarrow> stream_at (demo_sys img) (demo_mem pos) 0x9000 (int pos)"
proof -
  assume p: "pos < 2 ^ 31"
  have "load32 (demo_mem pos) 0x9000 = of_nat pos"
    unfolding demo_mem_def by (subst load32_store32_aligned) (simp_all add: load32_store32_same aligned_def)
  moreover have "int_of_u32 (of_nat pos) = int pos"
    using p by (simp add: int_of_u32_small)
  ultimately show ?thesis
    by (simp add: stream_at_def stream_pos_def stream_disk_def) (simp add: demo_mem_def load32_store32_same demo_sys_def)
qed

theorem diskstreamer_read_correct_witness:
  "\<exists>m'. diskstreamer_read (demo_sys of_nat) 0x600000 0x9000 0xA000 1000 (demo_mem 1024) = Some (0, m')
    \<and> load_bytes m' 0xA000 1000 = image_bytes of_nat 1024 1000"
  using diskstreamer_read_correct [OF demo_reads demo_stream _ _ demo_room, of 1024 1000 of_nat] by auto

theorem diskstreamer_read_loses_bytes_witness:
  "\<exists>m'. diskstreamer_read (demo_sys of_nat) 0x600000 0x9000 0xA000 32 (demo_mem 992) = Some (0, m')
    \<and> stream_at (demo_sys of_nat) m' 0x9000 544"
  using diskstreamer_read_loses_bytes [OF demo_reads demo_stream _ _ _ demo_room, of 992 32 of_nat] by auto

end
