(* ===== verification/CString.thy ===== *)
theory CString
  imports Mem
begin

text \<open>
  \<^verbatim>\<open>src/src/string/string.c\<close>: the string routines over the flat memory. A scan that only
  stops at a terminator (\<open>strlen\<close>, \<open>strcpy\<close>) may run forever, so its result is an option
  and None is "does not return". \<open>cstr m p bs\<close> says that the C string \<open>bs\<close> lies at \<open>p\<close>;
  the lemmas give each routine its meaning on C strings. (The user library's
  \<^verbatim>\<open>programs/stdlib/src/string.c\<close> repeats this text and adds \<open>strtok\<close>.)
\<close>

section \<open>Characters\<close>

text \<open>\<^verbatim>\<open>char\<close> is signed: the comparisons read the byte as two's complement.\<close>

definition tolower :: "u8 \<Rightarrow> u8" where
  "tolower s1 = (if 65 \<le> sint s1 \<and> sint s1 \<le> 90 then s1 + 32 else s1)"

definition isdigit :: "u8 \<Rightarrow> bool" where
  "isdigit c \<longleftrightarrow> 48 \<le> sint c \<and> sint c \<le> 57"

definition tonumericdigit :: "u8 \<Rightarrow> int" where
  "tonumericdigit c = sint c - 48"

section \<open>Lengths\<close>

partial_function (option) strlen_loop :: "mem \<Rightarrow> u32 \<Rightarrow> int \<Rightarrow> int option" where
  "strlen_loop m p i = (if m p \<noteq> 0 then strlen_loop m (p + 1) (c_int (i + 1)) else Some i)"

definition strlen :: "mem \<Rightarrow> u32 \<Rightarrow> int option" where
  "strlen m p = strlen_loop m p 0"

function strnlen_loop :: "mem \<Rightarrow> u32 \<Rightarrow> int \<Rightarrow> int \<Rightarrow> int" where
  "strnlen_loop m p max_length i =
     (if i < max_length \<and> m (p + u32_of_int i) \<noteq> 0
      then strnlen_loop m p max_length (i + 1) else i)"
  by pat_completeness auto
termination
  by (relation "measure (\<lambda>(m, p, max_length, i). nat (max_length - i))") auto

declare strnlen_loop.simps [simp del]

definition strnlen :: "mem \<Rightarrow> u32 \<Rightarrow> int \<Rightarrow> int" where
  "strnlen m p max_length = strnlen_loop m p max_length 0"

function strlen_terminator_loop :: "mem \<Rightarrow> u32 \<Rightarrow> int \<Rightarrow> u8 \<Rightarrow> int \<Rightarrow> int" where
  "strlen_terminator_loop m str mx terminator i =
     (if i < mx \<and> \<not> (m (str + u32_of_int i) = 0 \<or> m (str + u32_of_int i) = terminator)
      then strlen_terminator_loop m str mx terminator (i + 1) else i)"
  by pat_completeness auto
termination
  by (relation "measure (\<lambda>(m, str, mx, terminator, i). nat (mx - i))") auto

declare strlen_terminator_loop.simps [simp del]

definition strlen_terminator :: "mem \<Rightarrow> u32 \<Rightarrow> int \<Rightarrow> u8 \<Rightarrow> int" where
  "strlen_terminator m str mx terminator = strlen_terminator_loop m str mx terminator 0"

section \<open>Copies\<close>

text \<open>
  The loop ends at \<open>count - 1\<close> or at the terminator of the source; then \<open>dest[i]\<close> is
  zeroed, whatever \<open>count\<close> is.
\<close>

function strncpy_loop :: "mem \<Rightarrow> u32 \<Rightarrow> u32 \<Rightarrow> int \<Rightarrow> int \<Rightarrow> mem" where
  "strncpy_loop m dest src count i =
     (if i < count - 1 \<and> m (src + u32_of_int i) \<noteq> 0
      then strncpy_loop (m(dest + u32_of_int i := m (src + u32_of_int i))) dest src count (i + 1)
      else m(dest + u32_of_int i := 0))"
  by pat_completeness auto
termination
  by (relation "measure (\<lambda>(m, dest, src, count, i). nat (count - 1 - i))") auto

declare strncpy_loop.simps [simp del]

definition strncpy :: "mem \<Rightarrow> u32 \<Rightarrow> u32 \<Rightarrow> int \<Rightarrow> mem" where
  "strncpy m dest src count = strncpy_loop m dest src count 0"

partial_function (option) strcpy :: "mem \<Rightarrow> u32 \<Rightarrow> u32 \<Rightarrow> mem option" where
  "strcpy m dest src =
     (if m src \<noteq> 0 then strcpy (m(dest := m src)) (dest + 1) (src + 1) else Some (m(dest := 0)))"

section \<open>Comparisons\<close>

function strncmp :: "mem \<Rightarrow> u32 \<Rightarrow> u32 \<Rightarrow> int \<Rightarrow> int" where
  "strncmp m str1 str2 n =
     (if n > 0 then
        (if m str1 \<noteq> m str2 then uint (m str1) - uint (m str2)
         else if m str1 = 0 then 0
         else strncmp m (str1 + 1) (str2 + 1) (n - 1))
      else 0)"
  by pat_completeness auto
termination
  by (relation "measure (\<lambda>(m, str1, str2, n). nat n)") auto

declare strncmp.simps [simp del]

function istrncmp :: "mem \<Rightarrow> u32 \<Rightarrow> u32 \<Rightarrow> int \<Rightarrow> int" where
  "istrncmp m s1 s2 n =
     (if n > 0 then
        (if m s1 \<noteq> m s2 \<and> tolower (m s1) \<noteq> tolower (m s2) then uint (m s1) - uint (m s2)
         else if m s1 = 0 then 0
         else istrncmp m (s1 + 1) (s2 + 1) (n - 1))
      else 0)"
  by pat_completeness auto
termination
  by (relation "measure (\<lambda>(m, s1, s2, n). nat n)") auto

declare istrncmp.simps [simp del]

section \<open>C strings\<close>

primrec cstr :: "mem \<Rightarrow> u32 \<Rightarrow> u8 list \<Rightarrow> bool" where
  "cstr m p [] \<longleftrightarrow> m p = 0"
| "cstr m p (b # bs) \<longleftrightarrow> m p = b \<and> b \<noteq> 0 \<and> cstr m (p + 1) bs"

lemma cstr_nth: "cstr m p bs \<Longrightarrow> i < length bs \<Longrightarrow> m (p + of_nat i) = bs ! i"
proof (induction bs arbitrary: p i)
  case (Cons b bs)
  then show ?case by (cases i) (auto simp flip: add.assoc)
qed simp

lemma cstr_end: "cstr m p bs \<Longrightarrow> m (p + of_nat (length bs)) = 0"
  by (induction bs arbitrary: p) (auto simp flip: add.assoc)

lemma cstr_nonzero: "cstr m p bs \<Longrightarrow> 0 \<notin> set bs"
  by (induction bs arbitrary: p) auto

lemma cstrI:
  assumes "\<And>i. i < length bs \<Longrightarrow> m (p + of_nat i) = bs ! i"
    and "0 \<notin> set bs" and "m (p + of_nat (length bs)) = 0"
  shows "cstr m p bs"
  using assms
proof (induction bs arbitrary: p)
  case (Cons b bs)
  have "cstr m (p + 1) bs"
  proof (rule Cons.IH)
    show "m (p + 1 + of_nat i) = bs ! i" if "i < length bs" for i
      using Cons.prems(1) [of "Suc i"] that by (simp add: ac_simps)
    show "0 \<notin> set bs" using Cons.prems(2) by simp
    show "m (p + 1 + of_nat (length bs)) = 0" using Cons.prems(3) by (simp add: ac_simps)
  qed
  then show ?case using Cons.prems(1) [of 0] Cons.prems(2) by auto
qed simp

lemma cstr_unique: "cstr m p bs \<Longrightarrow> cstr m p bs' \<Longrightarrow> bs = bs'"
proof (induction bs arbitrary: p bs')
  case Nil
  then show ?case by (cases bs') auto
next
  case (Cons b bs)
  then show ?case by (cases bs') auto
qed

lemma cstr_frame:
  assumes "cstr m p bs" and "same_outside A m m'" and "region p (Suc (length bs)) \<inter> A = {}"
    and "length bs < 2 ^ 32 - 1"
  shows "cstr m' p bs"
proof -
  have keep: "m' (p + of_nat i) = m (p + of_nat i)" if "i \<le> length bs" for i
  proof -
    have "p + of_nat i \<in> region p (Suc (length bs))"
      using that assms(4) by (intro in_region_offset) auto
    then show ?thesis using assms(2,3) by (auto simp: same_outside_def)
  qed
  show ?thesis
  proof (rule cstrI)
    show "m' (p + of_nat i) = bs ! i" if "i < length bs" for i
      using that keep [of i] cstr_nth [OF assms(1)] by simp
    show "0 \<notin> set bs" using assms(1) by (rule cstr_nonzero)
    show "m' (p + of_nat (length bs)) = 0" using keep [of "length bs"] cstr_end [OF assms(1)] by simp
  qed
qed

section \<open>The routines on C strings\<close>

lemma strlen_loop_cstr:
  "cstr m p bs \<Longrightarrow> 0 \<le> i \<Longrightarrow> i + int (length bs) < 2 ^ 31
    \<Longrightarrow> strlen_loop m p i = Some (i + int (length bs))"
proof (induction bs arbitrary: p i)
  case Nil
  then show ?case by (subst strlen_loop.simps) simp
next
  case (Cons b bs)
  then show ?case by (subst strlen_loop.simps) (simp add: c_int_id)
qed

text \<open>
  strlen returns on every C string shorter than 2 GB, and returns its length.
\<close>

theorem strlen_cstr:
  assumes "cstr m p bs" and "length bs < 2 ^ 31"
  shows "strlen m p = Some (int (length bs))"
proof -
  have "int (length bs) < 2 ^ 31"
    using assms(2) by (rule of_nat_less_numeral_power_cancel_iff [THEN iffD2])
  then show ?thesis using strlen_loop_cstr [OF assms(1), of 0] by (simp add: strlen_def)
qed

theorem strlen_cstr_witness: "strlen ((\<lambda>_. 0)(5 := 97, 6 := 98)) 5 = Some 2"
  using strlen_cstr [of "(\<lambda>_. 0)(5 := 97, 6 := 98)" 5 "[97, 98]"] by simp

lemma strnlen_loop_cstr:
  "cstr m (p + u32_of_int i) bs \<Longrightarrow> 0 \<le> i \<Longrightarrow> i \<le> mx
    \<Longrightarrow> strnlen_loop m p mx i = min (i + int (length bs)) mx"
proof (induction bs arbitrary: i)
  case Nil
  then show ?case by (subst strnlen_loop.simps) simp
next
  case (Cons b bs)
  have nxt: "p + u32_of_int (i + 1) = p + u32_of_int i + 1"
    by (simp add: u32_of_int_def add.assoc)
  show ?case
  proof (cases "i < mx")
    case True
    then show ?thesis using Cons by (subst strnlen_loop.simps) (simp add: nxt)
  next
    case False
    then show ?thesis using Cons.prems by (subst strnlen_loop.simps) simp
  qed
qed

lemma strnlen_cstr: "cstr m p bs \<Longrightarrow> 0 \<le> mx \<Longrightarrow> strnlen m p mx = min (int (length bs)) mx"
  using strnlen_loop_cstr [of m p 0 bs mx] by (simp add: strnlen_def)

lemma strnlen_loop_ge: "i \<le> strnlen_loop m p mx i"
proof (induction m p mx i rule: strnlen_loop.induct)
  case (1 m p mx i)
  then show ?case by (subst strnlen_loop.simps) auto
qed

lemma strnlen_nonneg [simp]: "0 \<le> strnlen m p mx"
  unfolding strnlen_def by (rule strnlen_loop_ge)

text \<open>Advancing both pointers by one is the same as advancing the index.\<close>

lemma strncpy_loop_shift:
  "strncpy_loop m d s count (i + 1) = strncpy_loop m (d + 1) (s + 1) (count - 1) i"
proof (induction m d s count "i + 1" arbitrary: i rule: strncpy_loop.induct)
  case (1 m d s count)
  have sh: "p + 1 + u32_of_int i = p + u32_of_int (i + 1)" for p
    by (simp add: u32_of_int_def ac_simps)
  show ?case
  proof (cases "i + 1 < count - 1 \<and> m (s + u32_of_int (i + 1)) \<noteq> 0")
    case True
    then show ?thesis
      using "1.hyps" [OF True, of "i + 1"]
      by (simp add: strncpy_loop.simps [of m d s count "i + 1"]
          strncpy_loop.simps [of m "d + 1" "s + 1" "count - 1" i] sh fun_upd_def)
  next
    case False
    then have "\<not> (i < count - 1 - 1 \<and> m (s + 1 + u32_of_int i) \<noteq> 0)"
      by (simp add: sh)
    with False show ?thesis
      by (simp only: strncpy_loop.simps [of m d s count "i + 1"]
          strncpy_loop.simps [of m "d + 1" "s + 1" "count - 1" i] sh if_False)
  qed
qed

lemma strncpy_rec:
  "strncpy m d s count =
     (if 1 < count \<and> m s \<noteq> 0 then strncpy (m(d := m s)) (d + 1) (s + 1) (count - 1)
      else m(d := 0))"
  unfolding strncpy_def
  using strncpy_loop_shift [of "m(d := m s)" d s count 0]
  by (subst strncpy_loop.simps) simp

lemma strncpy_frame_aux:
  "n = nat (count - 1) \<Longrightarrow> same_outside (region d (Suc n)) m (strncpy m d s count)"
proof (induction n arbitrary: m d s count)
  case 0
  then show ?case by (subst strncpy_rec) (simp add: same_outside_upd in_region_self)
next
  case (Suc n)
  let ?m = "m(d := m s)"
  have "same_outside (region (d + 1) (Suc n)) ?m (strncpy ?m (d + 1) (s + 1) (count - 1))"
    by (rule Suc.IH) (use Suc.prems in simp)
  then have "same_outside (region d (Suc (Suc n))) ?m (strncpy ?m (d + 1) (s + 1) (count - 1))"
    by (rule same_outside_mono) (use region_shift_subset [of d "Suc (Suc n)"] in simp)
  moreover have "same_outside (region d (Suc (Suc n))) m (m(d := v))" for v
    by (simp add: same_outside_upd in_region_self)
  ultimately show ?case
    by (subst strncpy_rec) (auto intro: same_outside_trans1)
qed

lemma strncpy_frame: "0 < count \<Longrightarrow> same_outside (region d (nat count)) m (strncpy m d s count)"
  using strncpy_frame_aux [of "nat (count - 1)" count d m s] by (simp add: Suc_nat_eq_nat_zadd1)

lemma strncpy_aux:
  assumes "cstr m s bs" and "0 < count" and "count < 2 ^ 31" and "length bs < 2 ^ 31"
    and "region d (nat count) \<inter> region s (Suc (length bs)) = {}"
  shows "cstr (strncpy m d s count) d (take (nat (count - 1)) bs)"
  using assms
proof (induction bs arbitrary: m d s count)
  case Nil
  then show ?case by (subst strncpy_rec) simp
next
  case (Cons b bs)
  show ?case
  proof (cases "1 < count")
    case False
    then show ?thesis using Cons.prems by (subst strncpy_rec) simp
  next
    case True
    let ?m = "m(d := m s)" and ?m' = "strncpy (m(d := m s)) (d + 1) (s + 1) (count - 1)"
    have sub: "region (d + 1) (nat (count - 1)) \<subseteq> region d (nat count)"
        "region (s + 1) (Suc (length bs)) \<subseteq> region s (Suc (length (b # bs)))"
      using region_shift_subset [of d "nat count"] region_shift_subset [of s "Suc (Suc (length bs))"]
        True by (simp_all add: nat_diff_distrib)
    have d: "d \<in> region d (nat count)" using True by (simp add: in_region_self)
    have "cstr ?m (s + 1) bs"
    proof (rule cstr_frame)
      show "cstr m (s + 1) bs" using Cons.prems(1) by simp
      show "same_outside {d} m ?m" by (simp add: same_outside_upd)
      show "region (s + 1) (Suc (length bs)) \<inter> {d} = {}" using Cons.prems(5) sub(2) d by blast
      show "length bs < 2 ^ 32 - 1" using Cons.prems(4) by simp
    qed
    then have "cstr ?m' (d + 1) (take (nat (count - 1 - 1)) bs)"
      by (rule Cons.IH) (use Cons.prems True sub in auto)
    moreover have "?m' d = m s"
    proof -
      have "d \<notin> region (d + 1) (nat (count - 1))"
        using region_head [of "nat count" d] True Cons.prems(3) by (simp add: nat_diff_distrib)
      then show ?thesis
        using same_outsideD [OF strncpy_frame [of "count - 1"]] True by fastforce
    qed
    moreover have "nat (count - 1) = Suc (nat (count - 1 - 1))" using True by simp
    ultimately show ?thesis
      using True Cons.prems(1) by (subst strncpy_rec) simp
  qed
qed

text \<open>
  strncpy into a buffer of \<open>count\<close> bytes that does not overlap the source: the buffer
  then holds the source string cut to its first \<open>count - 1\<close> characters and terminated, and
  nothing outside the buffer has changed.
\<close>

theorem strncpy_cstr:
  assumes "cstr m src bs" and "0 < count" and "count < 2 ^ 31" and "length bs < 2 ^ 31"
    and "region dest (nat count) \<inter> region src (Suc (length bs)) = {}"
  shows "cstr (strncpy m dest src count) dest (take (nat (count - 1)) bs)
    \<and> same_outside (region dest (nat count)) m (strncpy m dest src count)"
  using strncpy_aux [OF assms] strncpy_frame [OF assms(2)] by blast

theorem strncpy_cstr_witness:
  "cstr (strncpy ((\<lambda>_. 0)(5 := 97, 6 := 98)) 100 5 2) 100 [97]"
proof -
  have "region (100::u32) (nat 2) \<inter> region 5 (Suc (length [97 :: u8, 98])) = {}"
    by (auto simp: region_eq_range)
  then show ?thesis
    using strncpy_cstr [of "(\<lambda>_. 0)(5 := 97, 6 := 98)" 5 "[97, 98]" 2 100] by simp
qed

lemma cstr_after_copy:
  assumes "cstr m s (b # bs)" and "d \<notin> region s (Suc (Suc (length bs)))" and "length bs < 2 ^ 31"
  shows "cstr (m(d := v)) (s + 1) bs"
proof (rule cstr_frame)
  show "cstr m (s + 1) bs" using assms(1) by simp
  show "same_outside {d} m (m(d := v))" by (simp add: same_outside_upd)
  show "region (s + 1) (Suc (length bs)) \<inter> {d} = {}"
    using assms(2) region_shift_subset [of s "Suc (Suc (length bs))"] by auto
  show "length bs < 2 ^ 32 - 1" using assms(3) by simp
qed

lemma strcpy_eq_strncpy:
  assumes "cstr m s bs" and "length bs < 2 ^ 31 - 1"
    and "region d (Suc (length bs)) \<inter> region s (Suc (length bs)) = {}"
  shows "strcpy m d s = Some (strncpy m d s (int (length bs) + 1))"
  using assms
proof (induction bs arbitrary: m d s)
  case Nil
  then show ?case by (subst strcpy.simps, subst strncpy_rec) simp
next
  case (Cons b bs)
  have "d \<notin> region s (Suc (length (b # bs)))"
    using Cons.prems(3) in_region_self [of "Suc (length (b # bs))" d] by blast
  then have "cstr (m(d := m s)) (s + 1) bs"
    using Cons.prems(1,2) by (intro cstr_after_copy) auto
  moreover have "region (d + 1) (Suc (length bs)) \<inter> region (s + 1) (Suc (length bs)) = {}"
    using Cons.prems(3) region_shift_subset [of d "Suc (Suc (length bs))"]
      region_shift_subset [of s "Suc (Suc (length bs))"] by auto
  ultimately have "strcpy (m(d := m s)) (d + 1) (s + 1)
      = Some (strncpy (m(d := m s)) (d + 1) (s + 1) (int (length bs) + 1))"
    using Cons.prems(2) by (intro Cons.IH) (auto simp del: fun_upd_apply)
  then show ?case
    using Cons.prems(1) by (subst strcpy.simps, subst strncpy_rec) (auto simp: add.commute)
qed

text \<open>
  strcpy returns whenever the source is a C string that the destination does not
  overlap; the destination then holds the same string, and only its bytes have changed.
\<close>

theorem strcpy_cstr:
  assumes "cstr m src bs" and "length bs < 2 ^ 31 - 1"
    and "region dest (Suc (length bs)) \<inter> region src (Suc (length bs)) = {}"
  shows "\<exists>m'. strcpy m dest src = Some m' \<and> cstr m' dest bs
    \<and> same_outside (region dest (Suc (length bs))) m m'"
proof -
  let ?m' = "strncpy m dest src (int (length bs) + 1)"
  have l: "int (length bs) + 1 < 2 ^ 31" using assms(2) by simp
  have n: "nat (int (length bs) + 1) = Suc (length bs)" by simp
  have "cstr ?m' dest (take (nat (int (length bs) + 1 - 1)) bs)
    \<and> same_outside (region dest (nat (int (length bs) + 1))) m ?m'"
    by (rule strncpy_cstr) (use assms l in \<open>simp_all add: n\<close>)
  then show ?thesis using strcpy_eq_strncpy [OF assms] n by simp
qed

theorem strcpy_cstr_witness:
  "\<exists>m'. strcpy ((\<lambda>_. 0)(5 := 97, 6 := 98)) 100 5 = Some m' \<and> cstr m' 100 [97, 98]"
proof -
  have "region (100::u32) (Suc (length [97 :: u8, 98])) \<inter> region 5 (Suc (length [97 :: u8, 98])) = {}"
    by (auto simp: region_eq_range)
  then show ?thesis
    using strcpy_cstr [of "(\<lambda>_. 0)(5 := 97, 6 := 98)" 5 "[97, 98]" 100] by auto
qed

lemma uint_pos_iff: "0 < uint (w :: u8) \<longleftrightarrow> w \<noteq> 0"
  using word_gt_0 [of w] by (simp add: word_less_def)

lemma strncmp_spec:
  "cstr m p xs \<Longrightarrow> cstr m q ys \<Longrightarrow>
    (strncmp m p q n = 0 \<longleftrightarrow> take (nat n) xs = take (nat n) ys) \<and>
    (strncmp m p q n < 0 \<longleftrightarrow> (take (nat n) xs, take (nat n) ys) \<in> lexord {(a, b). a < b})"
proof (induction xs arbitrary: p q ys n)
  case Nil
  then show ?case
    by (cases ys; cases "nat n")
      (auto simp: strncmp.simps [of m p q n] word_less_def uint_pos_iff unsigned_eq_0_iff)
next
  case (Cons x xs)
  show ?case
  proof (cases "0 < n")
    case False
    then show ?thesis by (subst (1 2) strncmp.simps) simp
  next
    case True
    then have n: "nat n = Suc (nat (n - 1))" by simp
    show ?thesis
    proof (cases ys)
      case Nil
      then show ?thesis using Cons.prems True n
        by (subst (1 2) strncmp.simps) (auto simp: uint_0_iff unsigned_greater_eq not_less)
    next
      case (Cons y ys')
      have IH: "(strncmp m (p + 1) (q + 1) (n - 1) = 0 \<longleftrightarrow> take (nat (n - 1)) xs = take (nat (n - 1)) ys') \<and>
        (strncmp m (p + 1) (q + 1) (n - 1) < 0 \<longleftrightarrow>
          (take (nat (n - 1)) xs, take (nat (n - 1)) ys') \<in> lexord {(a, b). a < b})"
        by (rule Cons.IH) (use Cons.prems Cons in auto)
      have x: "m p = x" "m q = y" "x \<noteq> 0" using Cons.prems Cons by auto
      have step: "strncmp m p q n =
          (if x = y then strncmp m (p + 1) (q + 1) (n - 1) else uint x - uint y)"
        using True x by (subst strncmp.simps) auto
      show ?thesis
      proof (cases "x = y")
        case True
        then show ?thesis using IH by (simp add: step n Cons)
      next
        case False
        then have "uint x \<noteq> uint y" by (simp add: word_uint_eq_iff)
        then show ?thesis using False by (simp add: step n Cons word_less_def)
      qed
    qed
  qed
qed

text \<open>
  C37. strncmp is the lexicographic comparison of the first \<open>n\<close> characters, as unsigned
  bytes: 0 exactly when they are equal, negative exactly when the first string is smaller.
\<close>

theorem strncmp_lexicographic:
  assumes "cstr m p xs" and "cstr m q ys"
  shows "(strncmp m p q n = 0 \<longleftrightarrow> take (nat n) xs = take (nat n) ys) \<and>
    (strncmp m p q n < 0 \<longleftrightarrow> (take (nat n) xs, take (nat n) ys) \<in> lexord {(a, b). a < b})"
  using assms by (rule strncmp_spec)

theorem strncmp_lexicographic_witness:
  "strncmp ((\<lambda>_. 0)(5 := 97, 6 := 98, 9 := 97, 10 := 200)) 5 9 2 < 0"
  using strncmp_lexicographic [of "(\<lambda>_. 0)(5 := 97, 6 := 98, 9 := 97, 10 := 200)" 5 "[97, 98]" 9 "[97, 200]" 2]
  by simp

lemma tolower_0: "tolower 0 = 0"
  by (simp add: tolower_def)

lemma tolower_eq_0: "tolower c = 0 \<longleftrightarrow> c = 0"
proof
  assume "tolower c = 0"
  then show "c = 0"
  proof (cases "65 \<le> sint c \<and> sint c \<le> 90")
    case True
    then have "c = - 32" using \<open>tolower c = 0\<close> by (simp add: tolower_def eq_neg_iff_add_eq_0)
    then have "sint c = - 32" by simp
    with True show ?thesis by simp
  qed (simp add: tolower_def)
qed (simp add: tolower_def)

lemma istrncmp_spec:
  "cstr m p xs \<Longrightarrow> cstr m q ys \<Longrightarrow>
    istrncmp m p q n = 0 \<longleftrightarrow> map tolower (take (nat n) xs) = map tolower (take (nat n) ys)"
proof (induction xs arbitrary: p q ys n)
  case Nil
  then show ?case
    by (cases ys; cases "nat n")
      (auto simp: istrncmp.simps [of m p q n] uint_0_iff tolower_0 tolower_eq_0)
next
  case (Cons x xs)
  show ?case
  proof (cases "0 < n")
    case False
    then show ?thesis by (subst istrncmp.simps) simp
  next
    case True
    then have n: "nat n = Suc (nat (n - 1))" by simp
    show ?thesis
    proof (cases ys)
      case Nil
      then have x: "m p = x" "m q = 0" "x \<noteq> 0" using Cons.prems by auto
      then have "tolower x \<noteq> tolower 0" using tolower_eq_0 by metis
      then show ?thesis using x True Nil n
        by (subst istrncmp.simps) (simp add: uint_0_iff)
    next
      case (Cons y ys')
      have IH: "istrncmp m (p + 1) (q + 1) (n - 1) = 0 \<longleftrightarrow>
          map tolower (take (nat (n - 1)) xs) = map tolower (take (nat (n - 1)) ys')"
        by (rule Cons.IH) (use Cons.prems Cons in auto)
      have x: "m p = x" "m q = y" "x \<noteq> 0" using Cons.prems Cons by auto
      have step: "istrncmp m p q n =
          (if tolower x = tolower y then istrncmp m (p + 1) (q + 1) (n - 1) else uint x - uint y)"
        using True x by (subst istrncmp.simps) auto
      show ?thesis
      proof (cases "tolower x = tolower y")
        case True
        then show ?thesis using IH by (simp add: step n Cons)
      next
        case False
        then have "x \<noteq> y" by blast
        then have "uint x \<noteq> uint y" by (simp add: word_uint_eq_iff)
        then show ?thesis using False by (simp add: step n Cons)
      qed
    qed
  qed
qed

text \<open>
  istrncmp returns 0 exactly when the first \<open>n\<close> characters of the two strings are
  equal after lower-casing both.
\<close>

theorem istrncmp_case_insensitive:
  assumes "cstr m p xs" and "cstr m q ys"
  shows "istrncmp m p q n = 0 \<longleftrightarrow> map tolower (take (nat n) xs) = map tolower (take (nat n) ys)"
  using assms by (rule istrncmp_spec)

theorem istrncmp_case_insensitive_witness:
  "istrncmp ((\<lambda>_. 0)(5 := 65, 6 := 98, 9 := 97, 10 := 66)) 5 9 4 = 0"
  using istrncmp_case_insensitive [of "(\<lambda>_. 0)(5 := 65, 6 := 98, 9 := 97, 10 := 66)" 5 "[65, 98]" 9 "[97, 66]" 4]
  by (simp add: tolower_def)

text \<open>
  The sign of \<open>istrncmp\<close> is that of the raw bytes, not of the lower-cased ones: 'a'
  compares above 'B'.
\<close>

lemma istrncmp_sign: "0 < istrncmp ((\<lambda>_. 0)(5 := 97, 9 := 66)) 5 9 1"
  by (subst istrncmp.simps) (simp add: tolower_def)

end
