(* ===== verification/Fat16.thy ===== *)
theory Fat16
  imports Streamer CString
begin

text \<open>
  \<^verbatim>\<open>src/src/fs/fat/fat16.c\<close>: the read-only FAT16 file system, function by function. Its
  structures lie in kernel memory at the offsets of \<^verbatim>\<open>fat16.h\<close>:
  \<^item> \<^verbatim>\<open>struct fat_private\<close> (92 bytes): the boot sector's header at 0, the root directory
    (\<^verbatim>\<open>struct fat_directory\<close>) at 64, the three streams at 80, 84 and 88;
  \<^item> \<^verbatim>\<open>struct fat_directory\<close> (16 bytes): \<open>item\<close> 0, \<open>total\<close> 4, \<open>first_sector_pos\<close> 8, \<open>last_sector_pos\<close> 12;
  \<^item> \<^verbatim>\<open>struct fat_directory_item\<close> (32 bytes, packed): \<open>filename\<close> 0, \<open>ext\<close> 8, \<open>attribute\<close> 11,
    \<open>high_16_bits_first_cluster\<close> 20, \<open>low_16_bits_first_cluster\<close> 26, \<open>file_size\<close> 28;
  \<^item> \<^verbatim>\<open>struct fat_item\<close> (8 bytes): the union of the two pointers at 0, \<open>type\<close> at 4;
  \<^item> \<^verbatim>\<open>struct fat_file_descriptor\<close> (8 bytes): \<open>item\<close> 0, \<open>pos\<close> 4.

  \<open>S\<close> is what hardware and linker fix, \<open>h\<close> the kernel heap, \<open>sp\<close> the stack pointer below
  which the locals lie whose address is taken. None is a call that does not return: a disk
  that never answers, an endless loop, or a division by zero.
\<close>

section \<open>Fields\<close>

definition SIMPOS_FAT16_SIGNATURE :: u8 where "SIMPOS_FAT16_SIGNATURE = 0x29"
definition SIMPOS_FAT16_FAT_ENTRY_SIZE :: int where "SIMPOS_FAT16_FAT_ENTRY_SIZE = 2"
definition SIMPOS_FAT16_BAD_SECTOR :: int where "SIMPOS_FAT16_BAD_SECTOR = 0xFF7"
definition FAT_ITEM_TYPE_DIRECTORY :: u32 where "FAT_ITEM_TYPE_DIRECTORY = 0"
definition FAT_ITEM_TYPE_FILE :: u32 where "FAT_ITEM_TYPE_FILE = 1"
definition FAT_FILE_READ_ONLY :: u8 where "FAT_FILE_READ_ONLY = 0x01"
definition FAT_FILE_SUBDIRECTORY :: u8 where "FAT_FILE_SUBDIRECTORY = 0x10"
definition FILE_MODE_READ :: u32 where "FILE_MODE_READ = 0"
definition SEEK_SET :: u32 where "SEEK_SET = 0"
definition SEEK_CUR :: u32 where "SEEK_CUR = 1"
definition SEEK_END :: u32 where "SEEK_END = 2"
definition FILE_STAT_READ_ONLY :: u32 where "FILE_STAT_READ_ONLY = 1"

definition sectors_per_cluster :: "mem \<Rightarrow> u32 \<Rightarrow> int" where
  "sectors_per_cluster m private = uint (m (private + 13))"
definition reserved_sectors :: "mem \<Rightarrow> u32 \<Rightarrow> int" where
  "reserved_sectors m private = uint (load16 m (private + 14))"
definition fat_copies :: "mem \<Rightarrow> u32 \<Rightarrow> int" where
  "fat_copies m private = uint (m (private + 16))"
definition root_dir_entries :: "mem \<Rightarrow> u32 \<Rightarrow> int" where
  "root_dir_entries m private = uint (load16 m (private + 17))"
definition sectors_per_fat :: "mem \<Rightarrow> u32 \<Rightarrow> int" where
  "sectors_per_fat m private = uint (load16 m (private + 22))"
definition root_last_sector_pos :: "mem \<Rightarrow> u32 \<Rightarrow> int" where
  "root_last_sector_pos m private = int_of_u32 (load32 m (private + 76))"
definition cluster_read_stream :: "mem \<Rightarrow> u32 \<Rightarrow> u32" where
  "cluster_read_stream m private = load32 m (private + 80)"
definition fat_read_stream :: "mem \<Rightarrow> u32 \<Rightarrow> u32" where
  "fat_read_stream m private = load32 m (private + 84)"
definition directory_stream :: "mem \<Rightarrow> u32 \<Rightarrow> u32" where
  "directory_stream m private = load32 m (private + 88)"
definition dir_item :: "mem \<Rightarrow> u32 \<Rightarrow> u32" where
  "dir_item m directory = load32 m directory"
definition dir_total :: "mem \<Rightarrow> u32 \<Rightarrow> int" where
  "dir_total m directory = int_of_u32 (load32 m (directory + 4))"
definition item_attribute :: "mem \<Rightarrow> u32 \<Rightarrow> u8" where
  "item_attribute m item = m (item + 11)"
definition item_file_size :: "mem \<Rightarrow> u32 \<Rightarrow> u32" where
  "item_file_size m item = load32 m (item + 28)"

section \<open>Initialisation\<close>

text \<open>The string literal is copied with its terminator to \<open>name\<close>, behind six function pointers.\<close>

definition fat16_init :: "sys \<Rightarrow> mem \<Rightarrow> u32 \<times> mem" where
  "fat16_init S m = (fat16_fs_addr S, store_bytes m (fat16_fs_addr S + 24) [70, 65, 84, 49, 54, 0])"

definition fat16_init_private :: "sys \<Rightarrow> heap \<Rightarrow> u32 \<Rightarrow> u32 \<Rightarrow> mem \<Rightarrow> mem" where
  "fat16_init_private S h disk private m =
     (let m = memset m private 0 92 in
      case diskstreamer_new S h (disk_id m disk) m of (s1, m) \<Rightarrow>
      let m = store32 m (private + 80) s1 in
      case diskstreamer_new S h (disk_id m disk) m of (s2, m) \<Rightarrow>
      let m = store32 m (private + 84) s2 in
      case diskstreamer_new S h (disk_id m disk) m of (s3, m) \<Rightarrow>
      store32 m (private + 88) s3)"

definition fat16_sector_to_absolute :: "mem \<Rightarrow> u32 \<Rightarrow> int \<Rightarrow> int" where
  "fat16_sector_to_absolute m disk sector = c_int (sector * disk_sector_size m disk)"

partial_function (option) fat16_count_items ::
  "sys \<Rightarrow> u32 \<Rightarrow> u32 \<Rightarrow> u32 \<Rightarrow> int \<Rightarrow> mem \<Rightarrow> (int \<times> mem) option" where
  "fat16_count_items S sp stream item i m =
     do { (res, m) \<leftarrow> diskstreamer_read S sp stream item 32 m;
          if res \<noteq> SIMPOS_ALL_OK then Some (- EIO, m)
          else if m item = 0x00 then Some (i, m)
          else if m item = 0xE5 then fat16_count_items S sp stream item i m
          else fat16_count_items S sp stream item (c_int (i + 1)) m }"

text \<open>\<open>item\<close> lies at \<open>sp - 32\<close>, the unused \<open>empty_item\<close> at \<open>sp - 64\<close>.\<close>

definition fat16_get_total_items_for_directory ::
  "sys \<Rightarrow> u32 \<Rightarrow> u32 \<Rightarrow> u32 \<Rightarrow> mem \<Rightarrow> (int \<times> mem) option" where
  "fat16_get_total_items_for_directory S sp disk directory_start_sector m =
     (let m = memset m (sp - 64) 0 32;
          fat_private = disk_fs_private m disk;
          directory_start_pos = int_of_u32 (directory_start_sector * u32_of_int (disk_sector_size m disk));
          stream = directory_stream m fat_private
      in case diskstreamer_seek stream directory_start_pos m of (res, m) \<Rightarrow>
        if res \<noteq> SIMPOS_ALL_OK then Some (- EIO, m)
        else fat16_count_items S (sp - 64) stream (sp - 32) 0 m)"

definition fat16_root_directory_setup ::
  "sys \<Rightarrow> heap \<Rightarrow> u32 \<Rightarrow> u32 \<Rightarrow> u32 \<Rightarrow> u32 \<Rightarrow> mem \<Rightarrow> (int \<times> mem) option" where
  "fat16_root_directory_setup S h sp disk fat_private directory m =
     (let root_dir_sector_pos = fat_copies m fat_private * sectors_per_fat m fat_private + reserved_sectors m fat_private;
          root_dir_size = root_dir_entries m fat_private * 32;
          total_sectors = root_dir_size sdiv disk_sector_size m disk;
          total_sectors = (if root_dir_size smod disk_sector_size m disk \<noteq> 0 then total_sectors + 1 else total_sectors)
      in do {
        (total_items, m) \<leftarrow> fat16_get_total_items_for_directory S sp disk (u32_of_int root_dir_sector_pos) m;
        let (dir, m) = kzalloc h (u32_of_int root_dir_size) m in
        if dir = 0 then Some (- ENOMEM, m)
        else let stream = directory_stream m fat_private;
                 (res, m) = diskstreamer_seek stream (fat16_sector_to_absolute m disk root_dir_sector_pos) m in
        if res \<noteq> SIMPOS_ALL_OK then Some (- EIO, kfree h dir m)
        else do {
          (res, m) \<leftarrow> diskstreamer_read S sp stream dir root_dir_size m;
          if res \<noteq> SIMPOS_ALL_OK then Some (- EIO, kfree h dir m)
          else let m = store32 m directory dir;
                   m = store32 m (directory + 4) (u32_of_int total_items);
                   m = store32 m (directory + 8) (u32_of_int root_dir_sector_pos);
                   m = store32 m (directory + 12) (u32_of_int (root_dir_sector_pos + total_sectors))
               in Some (0, m) } })"

definition fat16_resolve_out :: "heap \<Rightarrow> u32 \<Rightarrow> u32 \<Rightarrow> u32 \<Rightarrow> int \<Rightarrow> mem \<Rightarrow> int \<times> mem" where
  "fat16_resolve_out h disk fat_private stream res m =
     (let m = (if stream \<noteq> 0 then diskstreamer_close h stream m else m)
      in if res < 0 then (res, store32 (kfree h fat_private m) (disk + 16) 0) else (res, m))"

definition fat16_resolve :: "sys \<Rightarrow> heap \<Rightarrow> u32 \<Rightarrow> u32 \<Rightarrow> mem \<Rightarrow> (int \<times> mem) option" where
  "fat16_resolve S h sp disk m =
     (case kzalloc h 92 m of (fat_private, m) \<Rightarrow>
      let m = fat16_init_private S h disk fat_private m;
          m = store32 m (disk + 16) fat_private;
          m = store32 m (disk + 12) (fat16_fs_addr S) in
      case diskstreamer_new S h (disk_id m disk) m of (stream, m) \<Rightarrow>
      let out = fat16_resolve_out h disk fat_private stream in
      if stream = 0 then Some (out (- ENOMEM) m)
      else do {
        (res, m) \<leftarrow> diskstreamer_read S sp stream fat_private 62 m;
        if res \<noteq> SIMPOS_ALL_OK then Some (out (- EIO) m)
        else if m (fat_private + 38) \<noteq> SIMPOS_FAT16_SIGNATURE then Some (out (- EFSNOTUS) m)
        else do {
          (res, m) \<leftarrow> fat16_root_directory_setup S h sp disk fat_private (fat_private + 64) m;
          if res \<noteq> SIMPOS_ALL_OK then Some (out (- EIO) m) else Some (out 0 m) } })"

section \<open>Names and items\<close>

text \<open>
  The out-pointer of \<open>fat16_to_proper_string\<close> is a value that is passed and returned.
  \<open>i >= size - 1\<close> compares as \<^verbatim>\<open>size_t\<close>.
\<close>

function fat16_proper_loop :: "u32 \<Rightarrow> u32 \<Rightarrow> u32 \<Rightarrow> u32 \<Rightarrow> mem \<Rightarrow> u32 \<times> mem" where
  "fat16_proper_loop out inp sz i m =
     (if m inp \<noteq> 0x00 \<and> m inp \<noteq> 0x20
      then let m = m(out := m inp); out = out + 1; inp = inp + 1 in
        if sz - 1 \<le> i then (out, m) else fat16_proper_loop out inp sz (i + 1) m
      else (out, m))"
  by auto
termination
  by (relation "measure (\<lambda>(_, _, sz, i, _). unat (sz - 1) - unat i)")
    (auto simp: not_le unat_Suc_u32 word_less_nat_alt)

declare fat16_proper_loop.simps [simp del]

definition fat16_to_proper_string :: "u32 \<Rightarrow> u32 \<Rightarrow> u32 \<Rightarrow> mem \<Rightarrow> u32 \<times> mem" where
  "fat16_to_proper_string out inp sz m =
     (case fat16_proper_loop out inp sz 0 m of (out, m) \<Rightarrow> (out, m(out := 0x00)))"

definition fat16_get_full_relative_filename :: "u32 \<Rightarrow> u32 \<Rightarrow> int \<Rightarrow> mem \<Rightarrow> mem" where
  "fat16_get_full_relative_filename item out max_length m =
     (let m = memset m out 0 (u32_of_int max_length);
          (out_tmp, m) = fat16_to_proper_string out item 8 m
      in if m (item + 8) \<noteq> 0x00 \<and> m (item + 8) \<noteq> 0x20
         then let m = m(out_tmp := 46) in snd (fat16_to_proper_string (out_tmp + 1) (item + 8) 3 m)
         else m)"

definition fat16_clone_directory_item :: "heap \<Rightarrow> u32 \<Rightarrow> int \<Rightarrow> mem \<Rightarrow> u32 \<times> mem" where
  "fat16_clone_directory_item h item sz m =
     (if u32_of_int sz < 32 then (0, m)
      else case kzalloc h (u32_of_int sz) m of (item_copy, m) \<Rightarrow>
        if item_copy = 0 then (0, m) else (item_copy, memcpy m item_copy item sz))"

definition fat16_get_first_cluster :: "mem \<Rightarrow> u32 \<Rightarrow> u32" where
  "fat16_get_first_cluster m item =
     push_bit 16 (ucast (load16 m (item + 20))) OR ucast (load16 m (item + 26))"

section \<open>Clusters\<close>

definition fat16_cluster_to_sector :: "mem \<Rightarrow> u32 \<Rightarrow> int \<Rightarrow> int" where
  "fat16_cluster_to_sector m private cluster =
     c_int (root_last_sector_pos m private + c_int ((cluster - 2) * sectors_per_cluster m private))"

definition fat16_get_first_fat_sector :: "mem \<Rightarrow> u32 \<Rightarrow> u32" where
  "fat16_get_first_fat_sector m private = u32_of_int (reserved_sectors m private)"

text \<open>\<open>result\<close> lies at \<open>sp - 4\<close>.\<close>

definition fat16_get_fat_entry :: "sys \<Rightarrow> u32 \<Rightarrow> u32 \<Rightarrow> int \<Rightarrow> mem \<Rightarrow> (int \<times> mem) option" where
  "fat16_get_fat_entry S sp disk cluster m =
     (let private = disk_fs_private m disk; stream = fat_read_stream m private in
      if stream = 0 then Some (- 1, m)
      else let fat_table_position = fat16_get_first_fat_sector m private * u32_of_int (disk_sector_size m disk);
               (res, m) = diskstreamer_seek stream
                 (int_of_u32 (fat_table_position + u32_of_int (cluster * SIMPOS_FAT16_FAT_ENTRY_SIZE))) m
        in if res < 0 then Some (res, m)
           else let m = store16 m (sp - 4) 0 in do {
             (res, m) \<leftarrow> diskstreamer_read S (sp - 4) stream (sp - 4) 2 m;
             if res < 0 then Some (res, m) else Some (uint (load16 m (sp - 4)), m) })"

function fat16_cluster_loop :: "sys \<Rightarrow> u32 \<Rightarrow> u32 \<Rightarrow> int \<Rightarrow> int \<Rightarrow> int \<Rightarrow> mem \<Rightarrow> (int \<times> mem) option" where
  "fat16_cluster_loop S sp disk clusters_ahead i cluster_to_use m =
     (if i < clusters_ahead
      then do {
        (entry, m) \<leftarrow> fat16_get_fat_entry S sp disk cluster_to_use m;
        if entry = 0xFFF8 \<or> entry = 0xFFFF then Some (- EIO, m)
        else if entry = SIMPOS_FAT16_BAD_SECTOR then Some (- EIO, m)
        else if entry = 0xFF0 \<or> entry = 0xFF6 then Some (- EIO, m)
        else if entry = 0x00 then Some (- EIO, m)
        else fat16_cluster_loop S sp disk clusters_ahead (i + 1) entry m }
      else Some (cluster_to_use, m))"
  by auto
termination by (relation "measure (\<lambda>(_, _, _, n, i, _, _). nat (n - i))") auto

declare fat16_cluster_loop.simps [simp del]

text \<open>A cluster size of zero traps in the division.\<close>

definition fat16_get_cluster_for_offset ::
  "sys \<Rightarrow> u32 \<Rightarrow> u32 \<Rightarrow> int \<Rightarrow> int \<Rightarrow> mem \<Rightarrow> (int \<times> mem) option" where
  "fat16_get_cluster_for_offset S sp disk starting_cluster offset m =
     (let private = disk_fs_private m disk;
          size_of_cluster_bytes = c_int (sectors_per_cluster m private * disk_sector_size m disk)
      in if size_of_cluster_bytes = 0 then None
         else fat16_cluster_loop S sp disk (offset sdiv size_of_cluster_bytes) 0 starting_cluster m)"

partial_function (option) fat16_read_internal_from_stream ::
  "sys \<Rightarrow> u32 \<Rightarrow> u32 \<Rightarrow> u32 \<Rightarrow> int \<Rightarrow> int \<Rightarrow> int \<Rightarrow> u32 \<Rightarrow> mem \<Rightarrow> (int \<times> mem) option" where
  "fat16_read_internal_from_stream S sp disk stream cluster offset total_left out m =
     (let private = disk_fs_private m disk;
          size_of_cluster_bytes = c_int (sectors_per_cluster m private * disk_sector_size m disk)
      in do {
        (cluster_to_use, m) \<leftarrow> fat16_get_cluster_for_offset S sp disk cluster offset m;
        if cluster_to_use < 0 then Some (cluster_to_use, m)
        else let offset_from_cluster = offset smod size_of_cluster_bytes;
                 starting_sector = fat16_cluster_to_sector m private cluster_to_use;
                 starting_pos = c_int (c_int (starting_sector * disk_sector_size m disk) + offset_from_cluster);
                 total_to_read = (if total_left > size_of_cluster_bytes then size_of_cluster_bytes else total_left);
                 (res, m) = diskstreamer_seek stream starting_pos m
          in if res \<noteq> SIMPOS_ALL_OK then Some (res, m)
             else do {
               (res, m) \<leftarrow> diskstreamer_read S sp stream out total_to_read m;
               if res \<noteq> SIMPOS_ALL_OK then Some (res, m)
               else if total_left - total_to_read > 0
               then fat16_read_internal_from_stream S sp disk stream cluster (c_int (offset + total_to_read))
                      (total_left - total_to_read) (out + u32_of_int total_to_read) m
               else Some (res, m) } })"

definition fat16_read_internal :: "sys \<Rightarrow> u32 \<Rightarrow> u32 \<Rightarrow> int \<Rightarrow> int \<Rightarrow> int \<Rightarrow> u32 \<Rightarrow> mem \<Rightarrow> (int \<times> mem) option" where
  "fat16_read_internal S sp disk starting_cluster offset total_left out m =
     (let fs_private = disk_fs_private m disk; stream = cluster_read_stream m fs_private
      in fat16_read_internal_from_stream S sp disk stream starting_cluster offset total_left out m)"

section \<open>Directories\<close>

definition fat16_free_directory :: "heap \<Rightarrow> u32 \<Rightarrow> mem \<Rightarrow> mem" where
  "fat16_free_directory h directory m =
     (if directory = 0 then m
      else let m = (if dir_item m directory \<noteq> 0 then kfree h (dir_item m directory) m else m)
        in kfree h directory m)"

definition fat16_fat_item_free :: "heap \<Rightarrow> u32 \<Rightarrow> mem \<Rightarrow> mem" where
  "fat16_fat_item_free h item m =
     (let m = (if load32 m (item + 4) = FAT_ITEM_TYPE_DIRECTORY then fat16_free_directory h (load32 m item) m
               else if load32 m (item + 4) = FAT_ITEM_TYPE_FILE then kfree h (load32 m item) m
               else m)
      in kfree h item m)"

text \<open>On an error after the allocation the freed directory is still returned.\<close>

definition fat16_load_fat_directory :: "sys \<Rightarrow> heap \<Rightarrow> u32 \<Rightarrow> u32 \<Rightarrow> u32 \<Rightarrow> mem \<Rightarrow> (u32 \<times> mem) option" where
  "fat16_load_fat_directory S h sp disk item m =
     (let fat_private = disk_fs_private m disk in
      if item_attribute m item AND FAT_FILE_SUBDIRECTORY = 0 then Some (0, fat16_free_directory h 0 m)
      else let (directory, m) = kzalloc h 16 m in
      if directory = 0 then Some (directory, fat16_free_directory h directory m)
      else let cluster = int_of_u32 (fat16_get_first_cluster m item);
               cluster_sector = fat16_cluster_to_sector m fat_private cluster in do {
        (total_items, m) \<leftarrow> fat16_get_total_items_for_directory S sp disk (u32_of_int cluster_sector) m;
        let m = store32 m (directory + 4) (u32_of_int total_items);
            directory_size = c_int (dir_total m directory * 32);
            (buf, m) = kzalloc h (u32_of_int directory_size) m;
            m = store32 m directory buf in
        if dir_item m directory = 0 then Some (directory, fat16_free_directory h directory m)
        else do {
          (res, m) \<leftarrow> fat16_read_internal S sp disk cluster 0x00 directory_size (dir_item m directory) m;
          if res \<noteq> SIMPOS_ALL_OK then Some (directory, fat16_free_directory h directory m)
          else Some (directory, m) } })"

definition fat16_new_fat_item_for_directory_item ::
  "sys \<Rightarrow> heap \<Rightarrow> u32 \<Rightarrow> u32 \<Rightarrow> u32 \<Rightarrow> mem \<Rightarrow> (u32 \<times> mem) option" where
  "fat16_new_fat_item_for_directory_item S h sp disk item m =
     (case kzalloc h 8 m of (f_item, m) \<Rightarrow>
      if f_item = 0 then Some (0, m)
      else if item_attribute m item AND FAT_FILE_SUBDIRECTORY \<noteq> 0
      then do {
        (directory, m) \<leftarrow> fat16_load_fat_directory S h sp disk item m;
        let m = store32 m f_item directory in
        Some (f_item, store32 m (f_item + 4) FAT_ITEM_TYPE_DIRECTORY) }
      else let m = store32 m (f_item + 4) FAT_ITEM_TYPE_FILE;
               (copy, m) = fat16_clone_directory_item h item 32 m
        in Some (f_item, store32 m f_item copy))"

text \<open>
  \<open>tmp_filename\<close> is the 108 bytes (\<^verbatim>\<open>SIMPOS_MAX_PATH\<close>) at \<open>sp - 108\<close>. The loop does not stop
  at the first match: the last one counts.
\<close>

partial_function (option) fat16_find_loop ::
  "sys \<Rightarrow> heap \<Rightarrow> u32 \<Rightarrow> u32 \<Rightarrow> u32 \<Rightarrow> u32 \<Rightarrow> int \<Rightarrow> u32 \<Rightarrow> mem \<Rightarrow> (u32 \<times> mem) option" where
  "fat16_find_loop S h sp disk directory name i f_item m =
     (if i < dir_total m directory
      then let item = dir_item m directory + u32_of_int (32 * i);
               m = fat16_get_full_relative_filename item (sp - 108) 108 m
        in if istrncmp m (sp - 108) name 108 = 0
           then do { (f_item, m) \<leftarrow> fat16_new_fat_item_for_directory_item S h (sp - 108) disk
                       (dir_item m directory + u32_of_int (32 * i)) m;
                     fat16_find_loop S h sp disk directory name (i + 1) f_item m }
           else fat16_find_loop S h sp disk directory name (i + 1) f_item m
      else Some (f_item, m))"

definition fat16_find_item_in_directory ::
  "sys \<Rightarrow> heap \<Rightarrow> u32 \<Rightarrow> u32 \<Rightarrow> u32 \<Rightarrow> u32 \<Rightarrow> mem \<Rightarrow> (u32 \<times> mem) option" where
  "fat16_find_item_in_directory S h sp disk directory name m = fat16_find_loop S h sp disk directory name 0 0 m"

text \<open>\<^verbatim>\<open>struct path_part\<close> (8 bytes): \<open>part\<close> at 0, \<open>next\<close> at 4.\<close>

definition path_part_part :: "mem \<Rightarrow> u32 \<Rightarrow> u32" where "path_part_part m p = load32 m p"
definition path_part_next :: "mem \<Rightarrow> u32 \<Rightarrow> u32" where "path_part_next m p = load32 m (p + 4)"

partial_function (option) fat16_walk ::
  "sys \<Rightarrow> heap \<Rightarrow> u32 \<Rightarrow> u32 \<Rightarrow> u32 \<Rightarrow> u32 \<Rightarrow> mem \<Rightarrow> (u32 \<times> mem) option" where
  "fat16_walk S h sp disk current_item next_part m =
     (if next_part \<noteq> 0
      then if load32 m (current_item + 4) \<noteq> FAT_ITEM_TYPE_DIRECTORY then Some (0, m)
        else do {
          (tmp_item, m) \<leftarrow> fat16_find_item_in_directory S h sp disk (load32 m current_item)
                            (path_part_part m next_part) m;
          let m = fat16_fat_item_free h current_item m in
          fat16_walk S h sp disk tmp_item (path_part_next m next_part) m }
      else Some (current_item, m))"

definition fat16_get_directory_entry :: "sys \<Rightarrow> heap \<Rightarrow> u32 \<Rightarrow> u32 \<Rightarrow> u32 \<Rightarrow> mem \<Rightarrow> (u32 \<times> mem) option" where
  "fat16_get_directory_entry S h sp disk path m =
     (let fat_private = disk_fs_private m disk in do {
        (root_item, m) \<leftarrow> fat16_find_item_in_directory S h sp disk (fat_private + 64) (path_part_part m path) m;
        if root_item = 0 then Some (0, m)
        else fat16_walk S h sp disk root_item (path_part_next m path) m })"

section \<open>The file system interface\<close>

text \<open>\<open>ERROR\<close> casts a negative code to a pointer.\<close>

definition fat16_open :: "sys \<Rightarrow> heap \<Rightarrow> u32 \<Rightarrow> u32 \<Rightarrow> u32 \<Rightarrow> u32 \<Rightarrow> mem \<Rightarrow> (u32 \<times> mem) option" where
  "fat16_open S h sp disk path mode m =
     (if mode \<noteq> FILE_MODE_READ then Some (u32_of_int (- ERDONLY), m)
      else case kzalloc h 8 m of (descriptor, m) \<Rightarrow>
      if descriptor = 0 then Some (u32_of_int (- ENOMEM), kfree h descriptor m)
      else do {
        (item, m) \<leftarrow> fat16_get_directory_entry S h sp disk path m;
        let m = store32 m descriptor item in
        if load32 m descriptor = 0 then Some (u32_of_int (- EIO), kfree h descriptor m)
        else Some (descriptor, store32 m (descriptor + 4) 0) })"

definition fat16_free_file_descriptor :: "heap \<Rightarrow> u32 \<Rightarrow> mem \<Rightarrow> mem" where
  "fat16_free_file_descriptor h desc m = kfree h desc (fat16_fat_item_free h (load32 m desc) m)"

definition fat16_close :: "heap \<Rightarrow> u32 \<Rightarrow> mem \<Rightarrow> int \<times> mem" where
  "fat16_close h private m = (0, fat16_free_file_descriptor h private m)"

text \<open>\<^verbatim>\<open>struct file_stat\<close> (8 bytes): \<open>flags\<close> at 0, \<open>file_size\<close> at 4.\<close>

definition fat16_stat :: "u32 \<Rightarrow> u32 \<Rightarrow> u32 \<Rightarrow> mem \<Rightarrow> int \<times> mem" where
  "fat16_stat disk private stat m =
     (let desc_item = load32 m private in
      if load32 m (desc_item + 4) \<noteq> FAT_ITEM_TYPE_FILE then (- EINVARG, m)
      else let ritem = load32 m desc_item;
               m = store32 m (stat + 4) (item_file_size m ritem);
               m = store32 m stat 0x00
        in if item_attribute m ritem AND FAT_FILE_READ_ONLY \<noteq> 0
           then (0, store32 m stat (load32 m stat OR FILE_STAT_READ_ONLY))
           else (0, m))"

function fat16_read_loop ::
  "sys \<Rightarrow> u32 \<Rightarrow> u32 \<Rightarrow> u32 \<Rightarrow> u32 \<Rightarrow> u32 \<Rightarrow> u32 \<Rightarrow> int \<Rightarrow> u32 \<Rightarrow> mem \<Rightarrow> (int \<times> int \<times> mem) option" where
  "fat16_read_loop S sp disk item sz nmemb i offset out m =
     (if i < nmemb
      then do {
        (res, m) \<leftarrow> fat16_read_internal S sp disk (int_of_u32 (fat16_get_first_cluster m item)) offset
                     (int_of_u32 sz) out m;
        if res < 0 then Some (res, offset, m)
        else fat16_read_loop S sp disk item sz nmemb (i + 1) (int_of_u32 (u32_of_int offset + sz)) (out + sz) m }
      else Some (0, offset, m))"
  by auto
termination
  by (relation "measure (\<lambda>(_, _, _, _, _, n, i, _, _, _). unat n - unat i)")
    (auto simp: unat_Suc_u32 word_less_nat_alt)

declare fat16_read_loop.simps [simp del]

definition fat16_read :: "sys \<Rightarrow> u32 \<Rightarrow> u32 \<Rightarrow> u32 \<Rightarrow> u32 \<Rightarrow> u32 \<Rightarrow> u32 \<Rightarrow> mem \<Rightarrow> (int \<times> mem) option" where
  "fat16_read S sp disk descriptor sz nmemb out m =
     (let item = load32 m (load32 m descriptor); offset = int_of_u32 (load32 m (descriptor + 4)) in do {
        (res, offset, m) \<leftarrow> fat16_read_loop S sp disk item sz nmemb 0 offset out m;
        if res < 0 then Some (res, m)
        else Some (int_of_u32 nmemb, store32 m (descriptor + 4) (u32_of_int offset)) })"

definition fat16_seek :: "u32 \<Rightarrow> u32 \<Rightarrow> u32 \<Rightarrow> mem \<Rightarrow> int \<times> mem" where
  "fat16_seek private offset seek_mode m =
     (let desc_item = load32 m private in
      if load32 m (desc_item + 4) \<noteq> FAT_ITEM_TYPE_FILE then (- EINVARG, m)
      else let ritem = load32 m desc_item in
      if item_file_size m ritem \<le> offset then (- EIO, m)
      else if seek_mode = SEEK_SET then (0, store32 m (private + 4) offset)
      else if seek_mode = SEEK_END then (- EUNIMP, m)
      else if seek_mode = SEEK_CUR then (0, store32 m (private + 4) (load32 m (private + 4) + offset))
      else (- EINVARG, m))"

end
