(* ===== verification/PathParser.thy ===== *)
theory PathParser
  imports Fat16
begin

text \<open>
  \<^verbatim>\<open>src/src/fs/pparser.c\<close>: a path \<^verbatim>\<open>0:/a/b\<close> becomes a drive number and a list of parts on
  the kernel heap. \<^verbatim>\<open>struct path_root\<close> (8 bytes) has \<open>drive_no\<close> at 0 and \<open>first\<close> at 4;
  \<^verbatim>\<open>struct path_part\<close> is in theory Fat16. The in-out parameter \<^verbatim>\<open>const char **path\<close> is a value
  that is passed and returned.
\<close>

section \<open>Operations\<close>

definition SIMPOS_MAX_PATH :: int where "SIMPOS_MAX_PATH = 108"

definition path_root_drive_no :: "mem \<Rightarrow> u32 \<Rightarrow> int" where
  "path_root_drive_no m root = int_of_u32 (load32 m root)"
definition path_root_first :: "mem \<Rightarrow> u32 \<Rightarrow> u32" where
  "path_root_first m root = load32 m (root + 4)"

definition pathparser_path_valid_format :: "sys \<Rightarrow> u32 \<Rightarrow> mem \<Rightarrow> bool" where
  "pathparser_path_valid_format S path m =
     (let len = strnlen m path SIMPOS_MAX_PATH
      in len \<ge> 0 \<and> isdigit (m path) \<and> memcmp m (path + 1) (literal_addr S [58, 47]) 2 = 0)"

definition pathparser_get_drive_number :: "sys \<Rightarrow> u32 \<Rightarrow> mem \<Rightarrow> int \<times> u32" where
  "pathparser_get_drive_number S path m =
     (if \<not> pathparser_path_valid_format S path m then (- BADPATH, path)
      else (tonumericdigit (m path), path + 3))"

definition pathparser_create_root :: "heap \<Rightarrow> int \<Rightarrow> mem \<Rightarrow> u32 \<times> mem" where
  "pathparser_create_root h drive_number m =
     (case kzalloc h 8 m of (path_r, m) \<Rightarrow>
        if path_r = 0 then (0, m)
        else let m = store32 m path_r (u32_of_int drive_number) in (path_r, store32 m (path_r + 4) 0))"

text \<open>The characters are copied up to the next slash or the terminator, however many there are.\<close>

partial_function (option) pathparser_copy_part :: "u32 \<Rightarrow> int \<Rightarrow> u32 \<Rightarrow> mem \<Rightarrow> (u32 \<times> int \<times> mem) option" where
  "pathparser_copy_part result_path_part i path m =
     (if m path \<noteq> 47 \<and> m path \<noteq> 0x00
      then pathparser_copy_part result_path_part (c_int (i + 1)) (path + 1)
             (m(result_path_part + u32_of_int i := m path))
      else Some (path, i, m))"

definition pathparser_get_path_part :: "heap \<Rightarrow> u32 \<Rightarrow> mem \<Rightarrow> (u32 \<times> u32 \<times> mem) option" where
  "pathparser_get_path_part h path m =
     (case kzalloc h (u32_of_int SIMPOS_MAX_PATH) m of (result_path_part, m) \<Rightarrow>
      if result_path_part = 0 then Some (0, path, m)
      else do {
        (path, i, m) \<leftarrow> pathparser_copy_part result_path_part 0 path m;
        let path = (if m path = 47 then path + 1 else path) in
        if i = 0 then Some (0, path, kfree h result_path_part m)
        else Some (result_path_part, path, m) })"

definition pathparser_parse_path_part :: "heap \<Rightarrow> u32 \<Rightarrow> u32 \<Rightarrow> mem \<Rightarrow> (u32 \<times> u32 \<times> mem) option" where
  "pathparser_parse_path_part h last_part path m =
     do { (path_part_str, path, m) \<leftarrow> pathparser_get_path_part h path m;
          if path_part_str = 0 then Some (0, path, m)
          else let (part, m) = kzalloc h 8 m in
          if part = 0 then Some (0, path, kfree h path_part_str m)
          else let m = store32 m part path_part_str;
                   m = store32 m (part + 4) 0;
                   m = (if last_part \<noteq> 0 then store32 m (last_part + 4) part else m)
               in Some (part, path, m) }"

partial_function (option) pathparser_free_loop :: "heap \<Rightarrow> u32 \<Rightarrow> mem \<Rightarrow> mem option" where
  "pathparser_free_loop h part m =
     (if part \<noteq> 0
      then let next_part = path_part_next m part;
               m = kfree h (path_part_part m part) m;
               m = kfree h part m
           in pathparser_free_loop h next_part m
      else Some m)"

definition pathparser_free :: "heap \<Rightarrow> u32 \<Rightarrow> mem \<Rightarrow> mem option" where
  "pathparser_free h root m =
     do { m \<leftarrow> pathparser_free_loop h (path_root_first m root) m; Some (kfree h root m) }"

partial_function (option) pathparser_parse_loop :: "heap \<Rightarrow> u32 \<Rightarrow> u32 \<Rightarrow> mem \<Rightarrow> mem option" where
  "pathparser_parse_loop h part path m =
     (if part \<noteq> 0
      then do { (part, path, m) \<leftarrow> pathparser_parse_path_part h part path m;
                pathparser_parse_loop h part path m }
      else Some m)"

text \<open>The code behind the label \<^verbatim>\<open>out\<close>. The second argument of \<open>pathparser_parse\<close> is not used.\<close>

definition pathparser_parse_out :: "heap \<Rightarrow> int \<Rightarrow> u32 \<Rightarrow> u32 \<Rightarrow> mem \<Rightarrow> u32 \<times> mem" where
  "pathparser_parse_out h res path_root first_part m =
     (if res < 0
      then let (path_root, m) = (if path_root \<noteq> 0 then (0, kfree h path_root m) else (path_root, m));
               m = (if first_part \<noteq> 0 then kfree h first_part m else m)
           in (path_root, m)
      else (path_root, m))"

definition pathparser_parse :: "sys \<Rightarrow> heap \<Rightarrow> u32 \<Rightarrow> u32 \<Rightarrow> mem \<Rightarrow> (u32 \<times> mem) option" where
  "pathparser_parse S h path current_directory_path m =
     (case pathparser_get_drive_number S path m of (res, tmp_path) \<Rightarrow>
      if res < 0 then Some (pathparser_parse_out h (- 1) 0 0 m)
      else case pathparser_create_root h res m of (path_root, m) \<Rightarrow>
      if path_root = 0 then Some (pathparser_parse_out h (- 1) path_root 0 m)
      else do {
        (first_part, tmp_path, m) \<leftarrow> pathparser_parse_path_part h 0 tmp_path m;
        if first_part = 0 then Some (pathparser_parse_out h (- 1) path_root first_part m)
        else let m = store32 m (path_root + 4) first_part in do {
          (part, tmp_path, m) \<leftarrow> pathparser_parse_path_part h first_part tmp_path m;
          m \<leftarrow> pathparser_parse_loop h part tmp_path m;
          Some (pathparser_parse_out h res path_root first_part m) } })"

end
