(* ===== verification/File.thy ===== *)
theory File
  imports PathParser
begin

text \<open>
  \<^verbatim>\<open>src/src/fs/file.c\<close>: the virtual file system. The array \<^verbatim>\<open>filesystems\<close> has 12 pointers, the
  array \<^verbatim>\<open>file_descriptors\<close> 512; \<^verbatim>\<open>struct file_descriptor\<close> (16 bytes) has \<open>index\<close> at 0,
  \<open>filesystem\<close> at 4, \<open>private\<close> at 8 and \<open>disk\<close> at 12. The only \<^verbatim>\<open>struct filesystem\<close> is
  \<^verbatim>\<open>fat16_fs\<close>, whose function pointers the compiler fills in; a call through the pointers of
  any other address is None.
\<close>

section \<open>Constants and fields\<close>

definition SIMPOS_MAX_FILESYSTEMS :: int where "SIMPOS_MAX_FILESYSTEMS = 12"
definition SIMPOS_MAX_FILE_DESCRIPTORS :: int where "SIMPOS_MAX_FILE_DESCRIPTORS = 512"
definition FILE_MODE_WRITE :: u32 where "FILE_MODE_WRITE = 1"
definition FILE_MODE_APPEND :: u32 where "FILE_MODE_APPEND = 2"
definition FILE_MODE_INVALID :: u32 where "FILE_MODE_INVALID = 3"

definition fd_index :: "mem \<Rightarrow> u32 \<Rightarrow> int" where "fd_index m desc = int_of_u32 (load32 m desc)"
definition fd_filesystem :: "mem \<Rightarrow> u32 \<Rightarrow> u32" where "fd_filesystem m desc = load32 m (desc + 4)"
definition fd_private :: "mem \<Rightarrow> u32 \<Rightarrow> u32" where "fd_private m desc = load32 m (desc + 8)"
definition fd_disk :: "mem \<Rightarrow> u32 \<Rightarrow> u32" where "fd_disk m desc = load32 m (desc + 12)"

definition filesystems_slot :: "sys \<Rightarrow> int \<Rightarrow> u32" where
  "filesystems_slot S i = filesystems_addr S + u32_of_int (4 * i)"
definition file_descriptors_slot :: "sys \<Rightarrow> int \<Rightarrow> u32" where
  "file_descriptors_slot S i = file_descriptors_addr S + u32_of_int (4 * i)"

definition ISERR :: "u32 \<Rightarrow> bool" where "ISERR v \<longleftrightarrow> int_of_u32 v < 0"

section \<open>The function pointers of a file system\<close>

definition fs_call_resolve :: "sys \<Rightarrow> heap \<Rightarrow> u32 \<Rightarrow> u32 \<Rightarrow> u32 \<Rightarrow> mem \<Rightarrow> (int \<times> mem) option" where
  "fs_call_resolve S h sp fs disk m = (if fs = fat16_fs_addr S then fat16_resolve S h sp disk m else None)"

definition fs_call_open :: "sys \<Rightarrow> heap \<Rightarrow> u32 \<Rightarrow> u32 \<Rightarrow> u32 \<Rightarrow> u32 \<Rightarrow> u32 \<Rightarrow> mem \<Rightarrow> (u32 \<times> mem) option" where
  "fs_call_open S h sp fs disk path mode m =
     (if fs = fat16_fs_addr S then fat16_open S h sp disk path mode m else None)"

definition fs_call_read ::
  "sys \<Rightarrow> u32 \<Rightarrow> u32 \<Rightarrow> u32 \<Rightarrow> u32 \<Rightarrow> u32 \<Rightarrow> u32 \<Rightarrow> u32 \<Rightarrow> mem \<Rightarrow> (int \<times> mem) option" where
  "fs_call_read S sp fs disk private sz nmemb out m =
     (if fs = fat16_fs_addr S then fat16_read S sp disk private sz nmemb out m else None)"

definition fs_call_seek :: "sys \<Rightarrow> u32 \<Rightarrow> u32 \<Rightarrow> u32 \<Rightarrow> u32 \<Rightarrow> mem \<Rightarrow> (int \<times> mem) option" where
  "fs_call_seek S fs private offset whence m =
     (if fs = fat16_fs_addr S then Some (fat16_seek private offset whence m) else None)"

definition fs_call_stat :: "sys \<Rightarrow> u32 \<Rightarrow> u32 \<Rightarrow> u32 \<Rightarrow> u32 \<Rightarrow> mem \<Rightarrow> (int \<times> mem) option" where
  "fs_call_stat S fs disk private stat m =
     (if fs = fat16_fs_addr S then Some (fat16_stat disk private stat m) else None)"

definition fs_call_close :: "sys \<Rightarrow> heap \<Rightarrow> u32 \<Rightarrow> u32 \<Rightarrow> mem \<Rightarrow> (int \<times> mem) option" where
  "fs_call_close S h fs private m =
     (if fs = fat16_fs_addr S then Some (fat16_close h private m) else None)"

section \<open>File systems\<close>

function fs_free_loop :: "sys \<Rightarrow> int \<Rightarrow> mem \<Rightarrow> u32" where
  "fs_free_loop S i m =
     (if i < SIMPOS_MAX_FILESYSTEMS
      then if load32 m (filesystems_slot S i) = 0 then filesystems_slot S i else fs_free_loop S (i + 1) m
      else 0)"
  by auto
termination by (relation "measure (\<lambda>(_, i, _). nat (12 - i))") (auto simp: SIMPOS_MAX_FILESYSTEMS_def)

declare fs_free_loop.simps [simp del]

definition fs_get_free_filesystem :: "sys \<Rightarrow> mem \<Rightarrow> u32" where
  "fs_get_free_filesystem S m = fs_free_loop S 0 m"

text \<open>Without a free slot the kernel stops in an endless loop.\<close>

definition fs_insert_filesystem :: "sys \<Rightarrow> u32 \<Rightarrow> mem \<Rightarrow> mem option" where
  "fs_insert_filesystem S filesystem m =
     (let fs = fs_get_free_filesystem S m in if fs = 0 then None else Some (store32 m fs filesystem))"

definition fs_static_load :: "sys \<Rightarrow> mem \<Rightarrow> mem option" where
  "fs_static_load S m = (case fat16_init S m of (fs, m) \<Rightarrow> fs_insert_filesystem S fs m)"

definition fs_init :: "sys \<Rightarrow> mem \<Rightarrow> mem option" where
  "fs_init S m =
     (let m = memset m (filesystems_addr S) 0 48;
          m = memset m (file_descriptors_addr S) 0 2048
      in fs_static_load S m)"

function fs_resolve_loop :: "sys \<Rightarrow> heap \<Rightarrow> u32 \<Rightarrow> u32 \<Rightarrow> int \<Rightarrow> mem \<Rightarrow> (u32 \<times> mem) option" where
  "fs_resolve_loop S h sp disk i m =
     (if i < SIMPOS_MAX_FILESYSTEMS
      then if load32 m (filesystems_slot S i) \<noteq> 0
        then do { (res, m) \<leftarrow> fs_call_resolve S h sp (load32 m (filesystems_slot S i)) disk m;
                  if res = 0 then Some (load32 m (filesystems_slot S i), m)
                  else fs_resolve_loop S h sp disk (i + 1) m }
        else fs_resolve_loop S h sp disk (i + 1) m
      else Some (0, m))"
  by auto
termination by (relation "measure (\<lambda>(_, _, _, _, i, _). nat (12 - i))") (auto simp: SIMPOS_MAX_FILESYSTEMS_def)

declare fs_resolve_loop.simps [simp del]

definition fs_resolve :: "sys \<Rightarrow> heap \<Rightarrow> u32 \<Rightarrow> u32 \<Rightarrow> mem \<Rightarrow> (u32 \<times> mem) option" where
  "fs_resolve S h sp disk m = fs_resolve_loop S h sp disk 0 m"

section \<open>The descriptor table\<close>

definition file_free_descriptor :: "sys \<Rightarrow> heap \<Rightarrow> u32 \<Rightarrow> mem \<Rightarrow> mem" where
  "file_free_descriptor S h desc m =
     (let m = store32 m (file_descriptors_slot S (fd_index m desc - 1)) 0 in kfree h desc m)"

text \<open>The result of \<open>kzalloc\<close> is used unchecked. Result: code, descriptor, memory.\<close>

function new_file_descriptor_loop :: "sys \<Rightarrow> heap \<Rightarrow> int \<Rightarrow> u32 \<Rightarrow> mem \<Rightarrow> int \<times> u32 \<times> mem" where
  "new_file_descriptor_loop S h i desc_out m =
     (if i < SIMPOS_MAX_FILE_DESCRIPTORS
      then if load32 m (file_descriptors_slot S i) = 0
        then case kzalloc h 16 m of (desc, m) \<Rightarrow>
          let m = store32 m desc (u32_of_int (i + 1));
              m = store32 m (file_descriptors_slot S i) desc
          in (0, desc, m)
        else new_file_descriptor_loop S h (i + 1) desc_out m
      else (- ENOMEM, desc_out, m))"
  by auto
termination
  by (relation "measure (\<lambda>(_, _, i, _, _). nat (512 - i))") (auto simp: SIMPOS_MAX_FILE_DESCRIPTORS_def)

declare new_file_descriptor_loop.simps [simp del]

definition new_file_descriptor :: "sys \<Rightarrow> heap \<Rightarrow> u32 \<Rightarrow> mem \<Rightarrow> int \<times> u32 \<times> mem" where
  "new_file_descriptor S h desc_out m = new_file_descriptor_loop S h 0 desc_out m"

definition file_get_descriptor :: "sys \<Rightarrow> int \<Rightarrow> mem \<Rightarrow> u32" where
  "file_get_descriptor S fd m =
     (if fd \<le> 0 \<or> fd \<ge> SIMPOS_MAX_FILE_DESCRIPTORS then 0
      else let index = fd - 1 in load32 m (file_descriptors_slot S index))"

definition file_get_mode_by_string :: "sys \<Rightarrow> u32 \<Rightarrow> mem \<Rightarrow> u32" where
  "file_get_mode_by_string S str m =
     (if strncmp m str (literal_addr S [114]) 1 = 0 then FILE_MODE_READ
      else if strncmp m str (literal_addr S [119]) 1 = 0 then FILE_MODE_WRITE
      else if strncmp m str (literal_addr S [97]) 1 = 0 then FILE_MODE_APPEND
      else FILE_MODE_INVALID)"

section \<open>The file operations\<close>

text \<open>
  The code behind the label \<^verbatim>\<open>out\<close>: every error gives 0. The private data is closed whenever
  it is not 0, also when it is an error code; the parsed path is freed on errors only.
\<close>

definition fopen_out :: "sys \<Rightarrow> heap \<Rightarrow> int \<Rightarrow> u32 \<Rightarrow> u32 \<Rightarrow> u32 \<Rightarrow> u32 \<Rightarrow> mem \<Rightarrow> (int \<times> mem) option" where
  "fopen_out S h res root_path disk descriptor_private_data desc m =
     (if res < 0
      then do {
        m \<leftarrow> (if root_path \<noteq> 0 then pathparser_free h root_path m else Some m);
        m \<leftarrow> (if disk \<noteq> 0 \<and> descriptor_private_data \<noteq> 0
              then do { (_, m) \<leftarrow> fs_call_close S h (disk_filesystem m disk) descriptor_private_data m; Some m }
              else Some m);
        let m = (if desc \<noteq> 0 then file_free_descriptor S h desc m else m) in Some (0, m) }
      else Some (res, m))"

definition fopen :: "sys \<Rightarrow> heap \<Rightarrow> u32 \<Rightarrow> u32 \<Rightarrow> u32 \<Rightarrow> mem \<Rightarrow> (int \<times> mem) option" where
  "fopen S h sp filename mode_str m =
     do { (root_path, m) \<leftarrow> pathparser_parse S h filename 0 m;
          if root_path = 0 then fopen_out S h (- EINVARG) root_path 0 0 0 m
          else if path_root_first m root_path = 0 then fopen_out S h (- EINVARG) root_path 0 0 0 m
          else let disk = disk_get S (path_root_drive_no m root_path) in
          if disk = 0 then fopen_out S h (- EIO) root_path disk 0 0 m
          else if disk_filesystem m disk = 0 then fopen_out S h (- EIO) root_path disk 0 0 m
          else let mode = file_get_mode_by_string S mode_str m in
          if mode = FILE_MODE_INVALID then fopen_out S h (- EINVARG) root_path disk 0 0 m
          else do {
            (descriptor_private_data, m) \<leftarrow> fs_call_open S h sp (disk_filesystem m disk) disk
                                              (path_root_first m root_path) mode m;
            if ISERR descriptor_private_data
            then fopen_out S h (int_of_u32 descriptor_private_data) root_path disk descriptor_private_data 0 m
            else case new_file_descriptor S h 0 m of (res, desc, m) \<Rightarrow>
            if res < 0 then fopen_out S h res root_path disk descriptor_private_data desc m
            else let m = store32 m (desc + 4) (disk_filesystem m disk);
                     m = store32 m (desc + 8) descriptor_private_data;
                     m = store32 m (desc + 12) disk
                 in fopen_out S h (fd_index m desc) root_path disk descriptor_private_data desc m } }"

definition fseek :: "sys \<Rightarrow> int \<Rightarrow> int \<Rightarrow> u32 \<Rightarrow> mem \<Rightarrow> (int \<times> mem) option" where
  "fseek S fd offset whence m =
     (let desc = file_get_descriptor S fd m in
      if desc = 0 then Some (- EIO, m)
      else fs_call_seek S (fd_filesystem m desc) (fd_private m desc) (u32_of_int offset) whence m)"

definition fread :: "sys \<Rightarrow> u32 \<Rightarrow> u32 \<Rightarrow> u32 \<Rightarrow> u32 \<Rightarrow> int \<Rightarrow> mem \<Rightarrow> (int \<times> mem) option" where
  "fread S sp ptr sz nmemb fd m =
     (if sz = 0 \<or> nmemb = 0 \<or> fd < 1 then Some (- EINVARG, m)
      else let desc = file_get_descriptor S fd m in
      if desc = 0 then Some (- EINVARG, m)
      else fs_call_read S sp (fd_filesystem m desc) (fd_disk m desc) (fd_private m desc) sz nmemb ptr m)"

definition fstat :: "sys \<Rightarrow> int \<Rightarrow> u32 \<Rightarrow> mem \<Rightarrow> (int \<times> mem) option" where
  "fstat S fd stat m =
     (let desc = file_get_descriptor S fd m in
      if desc = 0 then Some (- EIO, m)
      else fs_call_stat S (fd_filesystem m desc) (fd_disk m desc) (fd_private m desc) stat m)"

definition fclose :: "sys \<Rightarrow> heap \<Rightarrow> int \<Rightarrow> mem \<Rightarrow> (int \<times> mem) option" where
  "fclose S h fd m =
     (let desc = file_get_descriptor S fd m in
      if desc = 0 then Some (- EIO, m)
      else do {
        (res, m) \<leftarrow> fs_call_close S h (fd_filesystem m desc) (fd_private m desc) m;
        if res = SIMPOS_ALL_OK then Some (res, file_free_descriptor S h desc m) else Some (res, m) })"

end
