(* ===== verification/Elf.thy ===== *)
theory Elf
  imports File
begin

text \<open>
  \<^verbatim>\<open>src/src/loader/formats/elf_loader.c\<close> and \<^verbatim>\<open>elf.c\<close>: loading a 32 bit ELF executable.
  \<^verbatim>\<open>struct elf_file\<close> (132 bytes): \<open>filename\<close> 0, \<open>in_memory_size\<close> 108, \<open>elf_memory\<close> 112,
  \<open>virtual_base_address\<close> 116, \<open>virtual_end_address\<close> 120, \<open>physical_base_address\<close> 124,
  \<open>physical_end_address\<close> 128. The file's own structures are packed as the ELF specification
  lays them out: \<^verbatim>\<open>struct elf_header\<close> (52 bytes), \<^verbatim>\<open>struct elf32_phdr\<close> (32), \<^verbatim>\<open>struct elf32_shdr\<close> (40).
\<close>

section \<open>Constants and fields\<close>

definition PT_LOAD :: u32 where "PT_LOAD = 1"
definition ET_EXEC :: u16 where "ET_EXEC = 2"
definition EI_CLASS :: u32 where "EI_CLASS = 4"
definition EI_DATA :: u32 where "EI_DATA = 5"
definition ELFCLASSNONE :: u8 where "ELFCLASSNONE = 0"
definition ELFCLASS32 :: u8 where "ELFCLASS32 = 1"
definition ELFDATANONE :: u8 where "ELFDATANONE = 0"
definition ELFDATA2LSB :: u8 where "ELFDATA2LSB = 1"
definition SIMPOS_PROGRAM_VIRTUAL_ADDRESS :: u32 where "SIMPOS_PROGRAM_VIRTUAL_ADDRESS = 0x400000"

definition elf_signature :: "u8 list" where "elf_signature = [0x7f, 69, 76, 70]"

definition p_type :: "mem \<Rightarrow> u32 \<Rightarrow> u32" where "p_type m phdr = load32 m phdr"
definition p_offset :: "mem \<Rightarrow> u32 \<Rightarrow> u32" where "p_offset m phdr = load32 m (phdr + 4)"
definition p_vaddr :: "mem \<Rightarrow> u32 \<Rightarrow> u32" where "p_vaddr m phdr = load32 m (phdr + 8)"
definition p_filesz :: "mem \<Rightarrow> u32 \<Rightarrow> u32" where "p_filesz m phdr = load32 m (phdr + 16)"
definition p_memsz :: "mem \<Rightarrow> u32 \<Rightarrow> u32" where "p_memsz m phdr = load32 m (phdr + 20)"
definition p_flags :: "mem \<Rightarrow> u32 \<Rightarrow> u32" where "p_flags m phdr = load32 m (phdr + 24)"
definition sh_offset :: "mem \<Rightarrow> u32 \<Rightarrow> u32" where "sh_offset m shdr = load32 m (shdr + 16)"
definition e_ident :: "mem \<Rightarrow> u32 \<Rightarrow> u32 \<Rightarrow> u8" where "e_ident m header i = m (header + i)"
definition e_type :: "mem \<Rightarrow> u32 \<Rightarrow> u16" where "e_type m header = load16 m (header + 16)"
definition e_entry :: "mem \<Rightarrow> u32 \<Rightarrow> u32" where "e_entry m header = load32 m (header + 24)"
definition e_phoff :: "mem \<Rightarrow> u32 \<Rightarrow> u32" where "e_phoff m header = load32 m (header + 28)"
definition e_shoff :: "mem \<Rightarrow> u32 \<Rightarrow> u32" where "e_shoff m header = load32 m (header + 32)"
definition e_phnum :: "mem \<Rightarrow> u32 \<Rightarrow> int" where "e_phnum m header = uint (load16 m (header + 44))"
definition e_shstrndx :: "mem \<Rightarrow> u32 \<Rightarrow> int" where "e_shstrndx m header = uint (load16 m (header + 50))"

section \<open>The header\<close>

definition elf_valid_signature :: "sys \<Rightarrow> mem \<Rightarrow> u32 \<Rightarrow> bool" where
  "elf_valid_signature S m buffer \<longleftrightarrow> memcmp m buffer (literal_addr S elf_signature) 4 = 0"

definition elf_valid_class :: "mem \<Rightarrow> u32 \<Rightarrow> bool" where
  "elf_valid_class m header \<longleftrightarrow> e_ident m header EI_CLASS = ELFCLASSNONE \<or> e_ident m header EI_CLASS = ELFCLASS32"

definition elf_valid_encoding :: "mem \<Rightarrow> u32 \<Rightarrow> bool" where
  "elf_valid_encoding m header \<longleftrightarrow> e_ident m header EI_DATA = ELFDATANONE \<or> e_ident m header EI_DATA = ELFDATA2LSB"

definition elf_is_executable :: "mem \<Rightarrow> u32 \<Rightarrow> bool" where
  "elf_is_executable m header \<longleftrightarrow> e_type m header = ET_EXEC \<and> e_entry m header \<ge> SIMPOS_PROGRAM_VIRTUAL_ADDRESS"

definition elf_has_program_header :: "mem \<Rightarrow> u32 \<Rightarrow> bool" where
  "elf_has_program_header m header \<longleftrightarrow> e_phoff m header \<noteq> 0"

definition elf_validate_loaded :: "sys \<Rightarrow> mem \<Rightarrow> u32 \<Rightarrow> int" where
  "elf_validate_loaded S m header =
     (if elf_valid_signature S m header \<and> elf_valid_class m header \<and> elf_valid_encoding m header
         \<and> elf_is_executable m header \<and> elf_has_program_header m header
      then SIMPOS_ALL_OK else - EINFORMAT)"

section \<open>Access\<close>

definition elf_memory :: "mem \<Rightarrow> u32 \<Rightarrow> u32" where "elf_memory m file = load32 m (file + 112)"
definition elf_header :: "mem \<Rightarrow> u32 \<Rightarrow> u32" where "elf_header m file = load32 m (file + 112)"
definition elf_virtual_base :: "mem \<Rightarrow> u32 \<Rightarrow> u32" where "elf_virtual_base m file = load32 m (file + 116)"
definition elf_virtual_end :: "mem \<Rightarrow> u32 \<Rightarrow> u32" where "elf_virtual_end m file = load32 m (file + 120)"
definition elf_phys_base :: "mem \<Rightarrow> u32 \<Rightarrow> u32" where "elf_phys_base m file = load32 m (file + 124)"
definition elf_phys_end :: "mem \<Rightarrow> u32 \<Rightarrow> u32" where "elf_phys_end m file = load32 m (file + 128)"

definition elf_sheader :: "mem \<Rightarrow> u32 \<Rightarrow> u32" where
  "elf_sheader m header = header + e_shoff m header"

definition elf_pheader :: "mem \<Rightarrow> u32 \<Rightarrow> u32" where
  "elf_pheader m header = (if e_phoff m header = 0 then 0 else header + e_phoff m header)"

definition elf_program_header :: "mem \<Rightarrow> u32 \<Rightarrow> int \<Rightarrow> u32" where
  "elf_program_header m header index = elf_pheader m header + u32_of_int (32 * index)"

definition elf_section :: "mem \<Rightarrow> u32 \<Rightarrow> int \<Rightarrow> u32" where
  "elf_section m header index = elf_sheader m header + u32_of_int (40 * index)"

definition elf_str_table :: "mem \<Rightarrow> u32 \<Rightarrow> u32" where
  "elf_str_table m header = header + sh_offset m (elf_section m header (e_shstrndx m header))"

definition elf_phdr_phys_address :: "mem \<Rightarrow> u32 \<Rightarrow> u32 \<Rightarrow> u32" where
  "elf_phdr_phys_address m file phdr = elf_memory m file + p_offset m phdr"

definition elf_get_entry_ptr :: "mem \<Rightarrow> u32 \<Rightarrow> u32" where "elf_get_entry_ptr m header = e_entry m header"
definition elf_get_entry :: "mem \<Rightarrow> u32 \<Rightarrow> u32" where "elf_get_entry m header = e_entry m header"

section \<open>Processing\<close>

definition elf_process_phdr_pt_load :: "u32 \<Rightarrow> u32 \<Rightarrow> mem \<Rightarrow> int \<times> mem" where
  "elf_process_phdr_pt_load elf_file phdr m =
     (let m = (if elf_virtual_base m elf_file \<ge> p_vaddr m phdr \<or> elf_virtual_base m elf_file = 0x00
               then let m = store32 m (elf_file + 116) (p_vaddr m phdr)
                    in store32 m (elf_file + 124) (elf_memory m elf_file + p_offset m phdr)
               else m);
          end_virtual_address = p_vaddr m phdr + p_filesz m phdr;
          m = (if elf_virtual_end m elf_file \<le> end_virtual_address \<or> elf_virtual_end m elf_file = 0x00
               then let m = store32 m (elf_file + 120) end_virtual_address
                    in store32 m (elf_file + 128) (elf_memory m elf_file + p_offset m phdr + p_filesz m phdr)
               else m)
      in (0, m))"

definition elf_process_pheader :: "u32 \<Rightarrow> u32 \<Rightarrow> mem \<Rightarrow> int \<times> mem" where
  "elf_process_pheader elf_file phdr m =
     (if p_type m phdr = PT_LOAD then elf_process_phdr_pt_load elf_file phdr m else (0, m))"

function elf_process_pheaders_loop :: "u32 \<Rightarrow> u32 \<Rightarrow> int \<Rightarrow> int \<Rightarrow> mem \<Rightarrow> int \<times> mem" where
  "elf_process_pheaders_loop elf_file header i res m =
     (if i < e_phnum m header
      then case elf_process_pheader elf_file (elf_program_header m header i) m of (res, m) \<Rightarrow>
        if res < 0 then (res, m) else elf_process_pheaders_loop elf_file header (i + 1) res m
      else (res, m))"
  by auto
termination
proof (relation "measure (\<lambda>(_, _, i, _, _). nat (65536 - i))")
  fix elf_file header :: u32 and i res :: int and m :: mem and x xa y
  assume "i < e_phnum m header"
  moreover have "e_phnum m header < 65536" using uint_lt2p [of "load16 m (header + 44)"] by (simp add: e_phnum_def)
  ultimately show "((elf_file, header, i + 1, xa, y), elf_file, header, i, res, m)
    \<in> measure (\<lambda>(_, _, i, _, _). nat (65536 - i))" by simp
qed simp

declare elf_process_pheaders_loop.simps [simp del]

definition elf_process_pheaders :: "u32 \<Rightarrow> mem \<Rightarrow> int \<times> mem" where
  "elf_process_pheaders elf_file m = elf_process_pheaders_loop elf_file (elf_header m elf_file) 0 0 m"

definition elf_process_loaded :: "sys \<Rightarrow> u32 \<Rightarrow> mem \<Rightarrow> int \<times> mem" where
  "elf_process_loaded S elf_file m =
     (let header = elf_header m elf_file; res = elf_validate_loaded S m header in
      if res < 0 then (res, m) else elf_process_pheaders elf_file m)"

section \<open>Loading\<close>

definition elf_file_free :: "heap \<Rightarrow> u32 \<Rightarrow> mem \<Rightarrow> mem" where
  "elf_file_free h elf_file m =
     (let m = (if elf_memory m elf_file \<noteq> 0 then kfree h (elf_memory m elf_file) m else m) in kfree h elf_file m)"

definition elf_file_new :: "heap \<Rightarrow> mem \<Rightarrow> u32 \<times> mem" where
  "elf_file_new h m = kzalloc h 132 m"

text \<open>
  \<open>stat\<close> lies at \<open>sp - 8\<close>. Result: code, the value left in \<^verbatim>\<open>*file_out\<close>, memory. When the file
  cannot be opened the \<^verbatim>\<open>struct elf_file\<close> is not freed.
\<close>

definition elf_load_out :: "sys \<Rightarrow> heap \<Rightarrow> u32 \<Rightarrow> int \<Rightarrow> int \<Rightarrow> u32 \<Rightarrow> mem \<Rightarrow> (int \<times> u32 \<times> mem) option" where
  "elf_load_out S h elf_file fd res file_out m =
     (let m = (if res < 0 then elf_file_free h elf_file m else m) in
      do { (_, m) \<leftarrow> fclose S h fd m; Some (res, file_out, m) })"

definition elf_load :: "sys \<Rightarrow> heap \<Rightarrow> u32 \<Rightarrow> u32 \<Rightarrow> u32 \<Rightarrow> mem \<Rightarrow> (int \<times> u32 \<times> mem) option" where
  "elf_load S h sp filename file_out m =
     (case elf_file_new h m of (elf_file, m) \<Rightarrow> do {
        (res, m) \<leftarrow> fopen S h (sp - 8) filename (literal_addr S [114]) m;
        if res \<le> 0 then Some (- EIO, file_out, m)
        else let fd = res in do {
          (res, m) \<leftarrow> fstat S fd (sp - 8) m;
          if res < 0 then elf_load_out S h elf_file fd res file_out m
          else case kzalloc h (load32 m (sp - 8 + 4)) m of (memory, m) \<Rightarrow>
            let m = store32 m (elf_file + 112) memory in do {
            (res, m) \<leftarrow> fread S (sp - 8) (elf_memory m elf_file) (load32 m (sp - 8 + 4)) 1 fd m;
            if res < 0 then elf_load_out S h elf_file fd res file_out m
            else case elf_process_loaded S elf_file m of (res, m) \<Rightarrow>
            if res < 0 then elf_load_out S h elf_file fd res file_out m
            else elf_load_out S h elf_file fd res elf_file m } } })"

definition elf_close :: "heap \<Rightarrow> u32 \<Rightarrow> mem \<Rightarrow> mem" where
  "elf_close h file m =
     (if file = 0 then m else let m = kfree h (load32 m (file + 112)) m in kfree h file m)"

end
