(* ===== verification/PageMap.thy ===== *)
theory PageMap
  imports Base
begin

text \<open>
  The interface between the page tables and the code that maps address ranges through them:
  a table from page addresses to entries, kept in memory, that can be read and changed one
  page at a time. The lemma about mapping a whole range is proved here once, from the laws
  of a single page.
\<close>

lemma page_offset_inj:
  assumes "v + of_nat (4096 * i) = v + (of_nat (4096 * j) :: u32)" and "i < 2 ^ 20" "j < 2 ^ 20"
  shows "i = j"
proof -
  have "(of_nat (4096 * i) :: u32) = of_nat (4096 * j)" using assms(1) by simp
  then have "4096 * i = 4096 * j" by (rule of_nat_u32_inj) (use assms(2,3) in simp_all)
  then show ?thesis by simp
qed

lemma aligned_page_offset: "aligned 4096 v \<Longrightarrow> aligned 4096 (v + of_nat (4096 * i))"
  by (rule aligned_add) (simp_all add: aligned_mult_of_nat del: of_nat_mult)

locale page_map =
  fixes get :: "mem \<Rightarrow> u32 \<Rightarrow> u32"
    and put :: "u32 \<Rightarrow> u32 \<Rightarrow> mem \<Rightarrow> mem"
    and wf :: "mem \<Rightarrow> bool"
    and owned :: "mem \<Rightarrow> u32 set"
  assumes put_wf: "wf m \<Longrightarrow> aligned 4096 v \<Longrightarrow> wf (put v e m) \<and> owned (put v e m) = owned m"
    and put_frame: "wf m \<Longrightarrow> aligned 4096 v \<Longrightarrow> same_outside (owned m) m (put v e m)"
    and get_put: "wf m \<Longrightarrow> aligned 4096 v \<Longrightarrow> get (put v e m) v = e"
    and get_other: "wf m \<Longrightarrow> aligned 4096 v \<Longrightarrow> aligned 4096 w \<Longrightarrow> w \<noteq> v \<Longrightarrow> get (put v e m) w = get m w"
begin

text \<open>The entries \<open>es\<close> on consecutive pages from \<open>v\<close> on.\<close>

primrec put_seq :: "u32 \<Rightarrow> u32 list \<Rightarrow> mem \<Rightarrow> mem" where
  "put_seq v [] m = m"
| "put_seq v (e # es) m = put_seq (v + 4096) es (put v e m)"

lemma page_step: "aligned 4096 v \<Longrightarrow> aligned 4096 (v + 4096)"
  using aligned_page_offset [of v 1] by simp

lemma put_seq_wf:
  "wf m \<Longrightarrow> aligned 4096 v \<Longrightarrow> wf (put_seq v es m) \<and> owned (put_seq v es m) = owned m
     \<and> same_outside (owned m) m (put_seq v es m)"
proof (induction es arbitrary: v m)
  case (Cons e es)
  have p: "wf (put v e m)" "owned (put v e m) = owned m"
    using put_wf Cons.prems by blast+
  then show ?case
    using Cons.IH [OF p(1) page_step [OF Cons.prems(2)]] put_frame [OF Cons.prems]
    by (auto intro: same_outside_trans1)
qed simp

lemma put_seq_other:
  assumes "wf m" and "aligned 4096 v" and "aligned 4096 w"
    and "\<And>i. i < length es \<Longrightarrow> w \<noteq> v + of_nat (4096 * i)"
  shows "get (put_seq v es m) w = get m w"
  using assms
proof (induction es arbitrary: v m)
  case (Cons e es)
  have "w \<noteq> v + 4096 + of_nat (4096 * i)" if "i < length es" for i
    using Cons.prems(4) [of "Suc i"] that by (simp add: algebra_simps)
  then have "get (put_seq (v + 4096) es (put v e m)) w = get (put v e m) w"
    using Cons.IH [of "put v e m" "v + 4096"] put_wf [OF Cons.prems(1,2)] page_step [OF Cons.prems(2)]
      Cons.prems(3) by blast
  also have "\<dots> = get m w"
    using Cons.prems(1-3) Cons.prems(4) [of 0] by (intro get_other) simp_all
  finally show ?case by simp
qed simp

lemma put_seq_get:
  assumes "wf m" and "aligned 4096 v" and "i < length es" and "length es \<le> 2 ^ 20"
  shows "get (put_seq v es m) (v + of_nat (4096 * i)) = es ! i"
  using assms
proof (induction es arbitrary: v m i)
  case (Cons e es)
  note wf' = put_wf [OF Cons.prems(1,2), THEN conjunct1] and al' = page_step [OF Cons.prems(2)]
  show ?case
  proof (cases i)
    case 0
    have "v \<noteq> v + 4096 + of_nat (4096 * k)" if "k < length es" for k
    proof
      assume "v = v + 4096 + of_nat (4096 * k)"
      then have "v + of_nat (4096 * 0) = v + of_nat (4096 * Suc k)" by (simp add: algebra_simps)
      then have "0 = Suc k" by (rule page_offset_inj) (use that Cons.prems(4) in auto)
      then show False by simp
    qed
    then have "get (put_seq (v + 4096) es (put v e m)) v = get (put v e m) v"
      using put_seq_other [OF wf' al' Cons.prems(2)] by blast
    then show ?thesis using 0 get_put [OF Cons.prems(1,2)] by simp
  next
    case (Suc k)
    have "v + of_nat (4096 * i) = v + 4096 + of_nat (4096 * k)"
      by (simp add: Suc algebra_simps)
    then show ?thesis using Cons.IH [OF wf' al', of k] Cons.prems(3,4) Suc by (simp add: add.assoc)
  qed
qed simp

end

end
