(* ===== verification/Paging.thy ===== *)
theory Paging
  imports KernelHeap PageMap
begin

text \<open>
  \<^verbatim>\<open>src/src/memory/paging/paging.c\<close>: page directories and page tables as words in
  memory, the routines that build, walk, change and free them, and the page walk of the i386
  that they are meant to drive.
\<close>

section \<open>Operations\<close>

definition PAGING_CACHE_DISABLED :: u32 where "PAGING_CACHE_DISABLED = 0x10"
definition PAGING_WRITE_THROUGH :: u32 where "PAGING_WRITE_THROUGH = 0x08"
definition PAGING_ACCESS_FROM_ALL :: u32 where "PAGING_ACCESS_FROM_ALL = 0x04"
definition PAGING_IS_WRITEABLE :: u32 where "PAGING_IS_WRITEABLE = 0x02"
definition PAGING_IS_PRESENT :: u32 where "PAGING_IS_PRESENT = 0x01"
definition PAGING_TOTAL_ENTRIES_PER_TABLE :: nat where "PAGING_TOTAL_ENTRIES_PER_TABLE = 1024"
definition PAGING_PAGE_SIZE :: u32 where "PAGING_PAGE_SIZE = 4096"

text \<open>
  \<open>entry[b] = (offset + b * PAGING_PAGE_SIZE) | flags\<close> is computed in \<open>int\<close> and then
  stored as a 32 bit word; the outer loop's \<open>offset\<close> passes \<open>2\<^sup>3\<^sup>1\<close> halfway.
\<close>

function paging_fill_table :: "u32 \<Rightarrow> int \<Rightarrow> u8 \<Rightarrow> nat \<Rightarrow> mem \<Rightarrow> mem" where
  "paging_fill_table entry offset flags b m =
     (if b < PAGING_TOTAL_ENTRIES_PER_TABLE
      then paging_fill_table entry offset flags (b + 1)
        (store32 m (entry + of_nat (4 * b))
          (u32_of_int (c_int (offset + c_int (int b * 4096)) OR uint flags)))
      else m)"
  by auto
termination by (relation "measure (\<lambda>(_, _, _, b, _). PAGING_TOTAL_ENTRIES_PER_TABLE - b)") auto

function paging_new_4gb_loop :: "heap \<Rightarrow> u8 \<Rightarrow> u32 \<Rightarrow> nat \<Rightarrow> int \<Rightarrow> mem \<Rightarrow> mem" where
  "paging_new_4gb_loop h flags directory i offset m =
     (if i < PAGING_TOTAL_ENTRIES_PER_TABLE
      then (case kzalloc h 4096 m of (entry, m1) \<Rightarrow>
        let m2 = paging_fill_table entry offset flags 0 m1;
            m3 = store32 m2 (directory + of_nat (4 * i)) (entry OR ucast flags OR PAGING_IS_WRITEABLE)
        in paging_new_4gb_loop h flags directory (i + 1) (c_int (offset + 1024 * 4096)) m3)
      else m)"
  by auto
termination by (relation "measure (\<lambda>(_, _, _, i, _, _). PAGING_TOTAL_ENTRIES_PER_TABLE - i)") auto

declare paging_fill_table.simps [simp del] paging_new_4gb_loop.simps [simp del]

text \<open>The result is the address of the \<open>paging_4gb_chunk\<close>, whose only field is at offset 0.\<close>

definition paging_new_4gb :: "heap \<Rightarrow> u8 \<Rightarrow> mem \<Rightarrow> u32 \<times> mem" where
  "paging_new_4gb h flags m =
     (case kzalloc h 4096 m of (directory, m1) \<Rightarrow>
      case kzalloc h 4 (paging_new_4gb_loop h flags directory 0 0 m1) of (chunk_4gb, m2) \<Rightarrow>
        (chunk_4gb, store32 m2 chunk_4gb directory))"

definition directory_entry :: "mem \<Rightarrow> u32 \<Rightarrow> u32" where
  "directory_entry m chunk = load32 m chunk"

text \<open>
  \<open>paging_switch\<close> loads the directory into \<open>cr3\<close> and remembers it in
  \<open>current_directory\<close>; both are the state the function changes.
\<close>

record paging_state =
  cr3 :: u32
  current_directory :: u32

definition paging_load_directory :: "u32 \<Rightarrow> 'a paging_state_scheme \<Rightarrow> 'a paging_state_scheme" where
  "paging_load_directory directory s = s\<lparr>cr3 := directory\<rparr>"

definition paging_switch :: "mem \<Rightarrow> u32 \<Rightarrow> 'a paging_state_scheme \<Rightarrow> 'a paging_state_scheme" where
  "paging_switch m directory s =
     (paging_load_directory (directory_entry m directory) s)\<lparr>current_directory := directory_entry m directory\<rparr>"

function paging_free_loop :: "heap \<Rightarrow> u32 \<Rightarrow> nat \<Rightarrow> mem \<Rightarrow> mem" where
  "paging_free_loop h chunk i m =
     (if i < 1024
      then paging_free_loop h chunk (i + 1)
        (kfree h (load32 m (directory_entry m chunk + of_nat (4 * i)) AND 0xFFFFF000) m)
      else m)"
  by auto
termination by (relation "measure (\<lambda>(_, _, i, _). 1024 - i)") auto

declare paging_free_loop.simps [simp del]

definition paging_free_4gb :: "heap \<Rightarrow> u32 \<Rightarrow> mem \<Rightarrow> mem" where
  "paging_free_4gb h chunk m =
     (let m1 = paging_free_loop h chunk 0 m; m2 = kfree h (directory_entry m1 chunk) m1
      in kfree h chunk m2)"

definition paging_4gb_chunk_get_directory :: "mem \<Rightarrow> u32 \<Rightarrow> u32" where
  "paging_4gb_chunk_get_directory m chunk = directory_entry m chunk"

definition validate_paging_alignment :: "u32 \<Rightarrow> bool" where
  "validate_paging_alignment address \<longleftrightarrow> address mod PAGING_PAGE_SIZE = 0"

text \<open>The out-parameters keep their old value when the address is rejected.\<close>

definition paging_get_indexes :: "u32 \<Rightarrow> u32 \<Rightarrow> u32 \<Rightarrow> int \<times> u32 \<times> u32" where
  "paging_get_indexes virtual_address directory_index table_index =
     (if \<not> validate_paging_alignment virtual_address then (- EINVARG, directory_index, table_index)
      else (0, virtual_address div (1024 * PAGING_PAGE_SIZE),
        virtual_address mod (1024 * PAGING_PAGE_SIZE) div PAGING_PAGE_SIZE))"

definition paging_align_address :: "u32 \<Rightarrow> u32" where
  "paging_align_address ptr =
     (if ptr mod PAGING_PAGE_SIZE \<noteq> 0 then ptr + PAGING_PAGE_SIZE - ptr mod PAGING_PAGE_SIZE else ptr)"

definition paging_align_to_lower_page :: "u32 \<Rightarrow> u32" where
  "paging_align_to_lower_page addr = addr - addr mod PAGING_PAGE_SIZE"

definition paging_get :: "mem \<Rightarrow> u32 \<Rightarrow> u32 \<Rightarrow> u32" where
  "paging_get m directory virt =
     (case paging_get_indexes virt 0 0 of (_, directory_index, table_index) \<Rightarrow>
       let entry = load32 m (directory + 4 * directory_index);
           table = entry AND 0xFFFFF000
       in load32 m (table + 4 * table_index))"

definition paging_set :: "u32 \<Rightarrow> u32 \<Rightarrow> u32 \<Rightarrow> mem \<Rightarrow> int \<times> mem" where
  "paging_set directory virtual_address physical_address m =
     (if \<not> validate_paging_alignment virtual_address then (- EINVARG, m)
      else case paging_get_indexes virtual_address 0 0 of (res, directory_index, table_index) \<Rightarrow>
        if res < 0 then (res, m)
        else let entry = load32 m (directory + 4 * directory_index);
                 table = entry AND 0xFFFFF000
             in (res, store32 m (table + 4 * table_index) physical_address))"

definition paging_map :: "u32 \<Rightarrow> u32 \<Rightarrow> u32 \<Rightarrow> int \<Rightarrow> mem \<Rightarrow> int \<times> mem" where
  "paging_map directory virt phys flags m =
     (if virt mod PAGING_PAGE_SIZE \<noteq> 0 \<or> phys mod PAGING_PAGE_SIZE \<noteq> 0 then (- EINVARG, m)
      else paging_set (directory_entry m directory) virt (phys OR u32_of_int flags) m)"

function paging_map_range_loop ::
  "u32 \<Rightarrow> u32 \<Rightarrow> u32 \<Rightarrow> int \<Rightarrow> int \<Rightarrow> int \<Rightarrow> int \<Rightarrow> mem \<Rightarrow> int \<times> mem" where
  "paging_map_range_loop directory virt phys count flags i res m =
     (if i < count
      then (case paging_map directory virt phys flags m of (res, m') \<Rightarrow>
        if res < 0 then (res, m')
        else paging_map_range_loop directory (virt + PAGING_PAGE_SIZE) (phys + PAGING_PAGE_SIZE)
               count flags (i + 1) res m')
      else (res, m))"
  by auto
termination by (relation "measure (\<lambda>(_, _, _, count, _, i, _, _). nat (count - i))") auto

declare paging_map_range_loop.simps [simp del]

definition paging_map_range :: "u32 \<Rightarrow> u32 \<Rightarrow> u32 \<Rightarrow> int \<Rightarrow> int \<Rightarrow> mem \<Rightarrow> int \<times> mem" where
  "paging_map_range directory virt phys count flags m =
     paging_map_range_loop directory virt phys count flags 0 0 m"

definition paging_map_to :: "u32 \<Rightarrow> u32 \<Rightarrow> u32 \<Rightarrow> u32 \<Rightarrow> int \<Rightarrow> mem \<Rightarrow> int \<times> mem" where
  "paging_map_to directory virt phys phys_end flags m =
     (if virt mod PAGING_PAGE_SIZE \<noteq> 0 then (- EINVARG, m)
      else if phys mod PAGING_PAGE_SIZE \<noteq> 0 then (- EINVARG, m)
      else if phys_end mod PAGING_PAGE_SIZE \<noteq> 0 then (- EINVARG, m)
      else if phys_end < phys then (- EINVARG, m)
      else let total_bytes = phys_end - phys;
               total_pages = int_of_u32 (total_bytes div PAGING_PAGE_SIZE)
           in paging_map_range directory virt phys total_pages flags m)"

definition paging_get_physical_address :: "mem \<Rightarrow> u32 \<Rightarrow> u32 \<Rightarrow> u32" where
  "paging_get_physical_address m directory virt =
     (let virt_addr_new = paging_align_to_lower_page virt;
          difference = virt - virt_addr_new
      in (paging_get m directory virt_addr_new AND 0xFFFFF000) + difference)"

section \<open>Page frames\<close>

lemma page_mask: "(0xFFFFF000 :: u32) = NOT (mask 12)"
  by (simp add: mask_eq_exp_minus_1)

lemma aligned_page_iff: "aligned 4096 (p :: u32) \<longleftrightarrow> take_bit 12 p = 0"
proof -
  have "unat (take_bit 12 p) = unat p mod 4096"
    by (simp add: take_bit_eq_mod unat_mod)
  then have "take_bit 12 p = 0 \<longleftrightarrow> unat p mod 4096 = 0" by (metis unat_eq_zero)
  then show ?thesis by (simp add: aligned_def dvd_eq_mod_eq_0)
qed

lemma word_mod_page: "(p :: u32) mod PAGING_PAGE_SIZE = take_bit 12 p"
  by (simp add: PAGING_PAGE_SIZE_def take_bit_eq_mod)

lemma aligned_mod_page: "p mod PAGING_PAGE_SIZE = 0 \<longleftrightarrow> aligned 4096 p"
  by (simp add: word_mod_page aligned_page_iff)

lemma validate_iff [simp]: "validate_paging_alignment p \<longleftrightarrow> aligned 4096 p"
  by (simp add: validate_paging_alignment_def aligned_mod_page)

lemma frame_aligned [simp]: "aligned 4096 (w AND 0xFFFFF000)"
  unfolding aligned_page_iff page_mask
  by (rule bit_word_eqI) (simp add: bit_simps)

lemma frame_of_or:
  assumes "aligned 4096 p" and "drop_bit 12 f = 0"
  shows "(p OR f) AND 0xFFFFF000 = (p :: u32)"
proof (rule bit_word_eqI)
  fix n
  have "bit (take_bit 12 p) n = bit (0 :: u32) n" using assms(1) by (simp add: aligned_page_iff)
  then have p: "n < 12 \<Longrightarrow> \<not> bit p n" by (simp add: bit_simps)
  have "bit (drop_bit 12 f) (n - 12) = bit (0 :: u32) (n - 12)" using assms(2) by simp
  then have f: "12 \<le> n \<Longrightarrow> \<not> bit f n" by (simp add: bit_simps)
  assume "n < LENGTH(32)"
  then show "bit ((p OR f) AND 0xFFFFF000) n = bit p n"
    unfolding page_mask using p f by (cases "n < 12") (auto simp: bit_simps)
qed

lemma lower_page: "paging_align_to_lower_page p = p AND 0xFFFFF000"
proof -
  have "p = (p AND NOT (mask 12)) OR take_bit 12 p"
    by (rule bit_word_eqI) (auto simp: bit_simps)
  also have "\<dots> = (p AND NOT (mask 12)) + take_bit 12 p"
    by (rule disjunctive_add [symmetric]) (auto simp: bit_simps)
  finally have "p - take_bit 12 p = p AND NOT (mask 12)" by (simp add: algebra_simps)
  then show ?thesis by (simp add: paging_align_to_lower_page_def word_mod_page page_mask)
qed

lemma align_address_aligned: "aligned 4096 (paging_align_address p)"
proof (cases "aligned 4096 p")
  case True
  then show ?thesis by (simp add: paging_align_address_def aligned_mod_page)
next
  case False
  then have "paging_align_address p = paging_align_to_lower_page p + 4096"
    unfolding paging_align_address_def aligned_mod_page by (simp add: paging_align_to_lower_page_def PAGING_PAGE_SIZE_def)
  moreover have "aligned 4096 (4096 :: u32)" by (simp add: aligned_def)
  ultimately show ?thesis by (simp add: lower_page aligned_add)
qed

section \<open>Well-formed directories\<close>

text \<open>The page table behind the \<open>i\<close>th entry of a directory.\<close>

definition pd_table :: "mem \<Rightarrow> u32 \<Rightarrow> nat \<Rightarrow> u32" where
  "pd_table m d i = load32 m (d + of_nat (4 * i)) AND 0xFFFFF000"

definition page_wf :: "mem \<Rightarrow> u32 \<Rightarrow> bool" where
  "page_wf m d \<longleftrightarrow> aligned 4096 d \<and> (\<forall>i < 1024. pd_table m d i \<noteq> d) \<and> inj_on (pd_table m d) {..<1024}"

definition table_pages :: "mem \<Rightarrow> u32 \<Rightarrow> u32 set" where
  "table_pages m d = (\<Union>i < 1024. region (pd_table m d i) 4096)"

definition chunk_wf :: "u32 \<Rightarrow> mem \<Rightarrow> bool" where
  "chunk_wf c m \<longleftrightarrow> page_wf m (directory_entry m c) \<and> region c 4 \<inter> table_pages m (directory_entry m c) = {}"

definition dir_index :: "u32 \<Rightarrow> nat" where "dir_index v = unat v div 4194304"
definition tab_index :: "u32 \<Rightarrow> nat" where "tab_index v = unat v mod 4194304 div 4096"

definition pte_addr :: "mem \<Rightarrow> u32 \<Rightarrow> u32 \<Rightarrow> u32" where
  "pte_addr m d v = pd_table m d (dir_index v) + of_nat (4 * tab_index v)"

lemma index_less: "dir_index v < 1024" "tab_index v < 1024"
  using unat_u32_less [of v] by (simp_all add: dir_index_def tab_index_def)

lemma index_inj:
  assumes "aligned 4096 v" "aligned 4096 w" "dir_index v = dir_index w" "tab_index v = tab_index w"
  shows "v = w"
proof -
  obtain a where a: "unat v = 4096 * a" using assms(1) by (auto simp: aligned_def)
  obtain b where b: "unat w = 4096 * b" using assms(2) by (auto simp: aligned_def)
  have d: "x = x div 1024 * 1024 + x mod 1024" for x :: nat by simp
  have m: "4096 * x mod 4194304 div 4096 = x mod 1024" for x :: nat
    using mult_mod_right [of 4096 x 1024] by simp
  have "a div 1024 = b div 1024" "a mod 1024 = b mod 1024"
    using assms(3,4) by (simp_all add: dir_index_def tab_index_def a b m)
  then have "a = b" using d by metis
  then show ?thesis using a b by (simp add: word_unat_eq_iff)
qed

lemma word_indexes:
  "4 * (v div (1024 * PAGING_PAGE_SIZE)) = of_nat (4 * dir_index v)"
  "4 * (v mod (1024 * PAGING_PAGE_SIZE) div PAGING_PAGE_SIZE) = of_nat (4 * tab_index v)"
proof -
  have "v div 4194304 = of_nat (dir_index v)" "v mod 4194304 div 4096 = of_nat (tab_index v)"
    unfolding dir_index_def tab_index_def
    by (simp_all add: word_unat_eq_iff unat_div unat_mod unat_of_nat)
      (simp_all add: mod_less [OF order_le_less_trans [OF div_le_dividend]] unat_u32_less [simplified] less_imp_diff_less)
  then show "4 * (v div (1024 * PAGING_PAGE_SIZE)) = of_nat (4 * dir_index v)"
    "4 * (v mod (1024 * PAGING_PAGE_SIZE) div PAGING_PAGE_SIZE) = of_nat (4 * tab_index v)"
    by (simp_all add: PAGING_PAGE_SIZE_def)
qed

lemma paging_get_eq: "aligned 4096 v \<Longrightarrow> paging_get m d v = load32 m (pte_addr m d v)"
  by (simp add: paging_get_def paging_get_indexes_def Let_def word_indexes pte_addr_def pd_table_def
      del: of_nat_mult)

lemma paging_set_eq: "aligned 4096 v \<Longrightarrow> paging_set d v e m = (0, store32 m (pte_addr m d v) e)"
  by (simp add: paging_set_def paging_get_indexes_def Let_def word_indexes pte_addr_def pd_table_def
      del: of_nat_mult)

lemma pd_table_aligned [simp]: "aligned 4096 (pd_table m d i)"
  by (simp add: pd_table_def)

lemma aligned_4_entry: "aligned 4096 p \<Longrightarrow> aligned 4 (p + of_nat (4 * i))"
  by (rule aligned_add) (simp_all add: aligned_mult_of_nat aligned_trans [of 4096] del: of_nat_mult)

lemma pte_addr_aligned: "aligned 4 (pte_addr m d v)"
  unfolding pte_addr_def by (rule aligned_4_entry) simp

lemma entry_region:
  assumes "aligned 4096 p" "i < 1024"
  shows "region (p + of_nat (4 * i)) 4 \<subseteq> region p 4096"
proof
  fix a assume "a \<in> region (p + of_nat (4 * i)) 4"
  then obtain j where "j < 4" "a = p + of_nat (4 * i) + of_nat j" by (rule region_offsetE)
  then have "a = p + of_nat (4 * i + j)" "4 * i + j < 4096" using assms(2) by simp_all
  then show "a \<in> region p 4096" using in_region_offset [of "4 * i + j" 4096 p] by simp
qed

lemma pte_in_tables: "region (pte_addr m d v) 4 \<subseteq> table_pages m d"
  unfolding pte_addr_def table_pages_def
  using entry_region [of "pd_table m d (dir_index v)" "tab_index v"] index_less by fastforce

lemma dir_table_disjoint: "page_wf m d \<Longrightarrow> region d 4096 \<inter> table_pages m d = {}"
proof -
  assume wf: "page_wf m d"
  have "region d 4096 \<inter> region (pd_table m d i) 4096 = {}" if "i < 1024" for i
    by (rule aligned_region_disjoint [where n = 4096]) (use wf that in \<open>auto simp: page_wf_def\<close>)
  then show ?thesis unfolding table_pages_def by blast
qed

text \<open>Nothing outside the directory's own page decides which tables it has.\<close>

lemma pd_table_frame:
  assumes "same_outside A m m'" "region d 4096 \<inter> A = {}" "aligned 4096 d" "i < 1024"
  shows "pd_table m' d i = pd_table m d i"
proof -
  have "load32 m' (d + of_nat (4 * i)) = load32 m (d + of_nat (4 * i))"
    by (rule load32_same_outside [OF assms(1)]) (use entry_region [OF assms(3,4)] assms(2) in blast)
  then show ?thesis by (simp only: pd_table_def)
qed

lemma page_wf_frame:
  assumes "page_wf m d" "same_outside A m m'" "region d 4096 \<inter> A = {}"
  shows "page_wf m' d \<and> table_pages m' d = table_pages m d \<and> (\<forall>v. pte_addr m' d v = pte_addr m d v)"
proof -
  have e: "pd_table m' d i = pd_table m d i" if "i < 1024" for i
    using pd_table_frame [OF assms(2,3) _ that] assms(1) by (simp add: page_wf_def)
  moreover have "inj_on (pd_table m' d) {..<1024} = inj_on (pd_table m d) {..<1024}"
    by (rule inj_on_cong) (use e in simp)
  moreover have "table_pages m' d = table_pages m d" using e by (simp add: table_pages_def)
  ultimately show ?thesis using assms(1) index_less by (auto simp: page_wf_def pte_addr_def)
qed

lemma pte_addr_inj:
  assumes "page_wf m d" "aligned 4096 v" "aligned 4096 w" "v \<noteq> w"
  shows "pte_addr m d v \<noteq> pte_addr m d w"
proof
  assume e: "pte_addr m d v = pte_addr m d w"
  have "pd_table m d (dir_index v) = pd_table m d (dir_index w) \<and> 4 * tab_index v = 4 * tab_index w"
    using e unfolding pte_addr_def
    by (intro aligned_offset_inj [where n = 4096]) (use index_less in auto)
  then have "dir_index v = dir_index w" "tab_index v = tab_index w"
    using assms(1) index_less by (auto simp: page_wf_def dest: inj_onD)
  then show False using index_inj assms by blast
qed

lemma paging_set_wf:
  fixes e
  assumes wf: "page_wf m d" and v: "aligned 4096 v"
  defines "m' \<equiv> snd (paging_set d v e m)"
  shows "same_outside (table_pages m d) m m'" and "page_wf m' d" and "table_pages m' d = table_pages m d"
    and "paging_get m' d v = e" and "aligned 4096 w \<Longrightarrow> w \<noteq> v \<Longrightarrow> paging_get m' d w = paging_get m d w"
proof -
  have m': "m' = store32 m (pte_addr m d v) e" using v by (simp add: m'_def paging_set_eq)
  show so: "same_outside (table_pages m d) m m'"
    unfolding m' using store32_frame pte_in_tables by (rule same_outside_mono)
  note fr = page_wf_frame [OF wf so dir_table_disjoint [OF wf]]
  show "page_wf m' d" "table_pages m' d = table_pages m d" using fr by auto
  have p: "pte_addr m' d x = pte_addr m d x" for x using fr by blast
  show "paging_get m' d v = e" using v by (simp add: paging_get_eq p) (simp add: m' mem_simps)
  assume w: "aligned 4096 w" "w \<noteq> v"
  have "pte_addr m d w \<noteq> pte_addr m d v" using pte_addr_inj [OF wf w(1) v w(2)] .
  then show "paging_get m' d w = paging_get m d w"
    using w by (simp add: paging_get_eq p) (simp add: m' mem_simps pte_addr_aligned)
qed

section \<open>A chunk is a page map\<close>

definition chunk_get :: "u32 \<Rightarrow> mem \<Rightarrow> u32 \<Rightarrow> u32" where
  "chunk_get c m v = paging_get m (directory_entry m c) v"

definition chunk_put :: "u32 \<Rightarrow> u32 \<Rightarrow> u32 \<Rightarrow> mem \<Rightarrow> mem" where
  "chunk_put c v e m = snd (paging_set (directory_entry m c) v e m)"

definition chunk_tables :: "u32 \<Rightarrow> mem \<Rightarrow> u32 set" where
  "chunk_tables c m = table_pages m (directory_entry m c)"

lemma chunk_frame:
  "same_outside (chunk_tables c m) m m' \<Longrightarrow> chunk_wf c m \<Longrightarrow> directory_entry m' c = directory_entry m c"
  unfolding directory_entry_def chunk_wf_def chunk_tables_def by (rule load32_same_outside) auto

lemma chunk_put_facts:
  assumes wf: "chunk_wf c m" and v: "aligned 4096 v"
  shows "same_outside (chunk_tables c m) m (chunk_put c v e m)"
    and "directory_entry (chunk_put c v e m) c = directory_entry m c"
proof -
  show so: "same_outside (chunk_tables c m) m (chunk_put c v e m)"
    unfolding chunk_put_def chunk_tables_def
    by (rule paging_set_wf(1)) (use wf v in \<open>simp_all add: chunk_wf_def\<close>)
  show "directory_entry (chunk_put c v e m) c = directory_entry m c" using so wf by (rule chunk_frame)
qed

interpretation chunk: page_map "chunk_get c" "chunk_put c" "chunk_wf c" "chunk_tables c" for c
proof
  fix m v e w
  assume wf: "chunk_wf c m" and v: "aligned 4096 v"
  note d = chunk_put_facts [OF wf v]
  have pw: "page_wf m (directory_entry m c)" using wf by (simp add: chunk_wf_def)
  note s = paging_set_wf [OF pw v, where e = e, folded chunk_put_def]
  show "same_outside (chunk_tables c m) m (chunk_put c v e m)" by (rule d(1))
  show "chunk_wf c (chunk_put c v e m) \<and> chunk_tables c (chunk_put c v e m) = chunk_tables c m"
    using s(2,3) wf by (simp add: chunk_wf_def chunk_tables_def d(2))
  show "chunk_get c (chunk_put c v e m) v = e" using s(4) by (simp add: chunk_get_def d(2))
  assume "aligned 4096 w" "w \<noteq> v"
  then show "chunk_get c (chunk_put c v e m) w = chunk_get c m w" using s(5) by (simp add: chunk_get_def d(2))
qed

end
