(* ===== verification/PagingSpec.thy ===== *)
theory PagingSpec
  imports Paging
begin

text \<open>
  What the paging routines achieve, in terms of the page walk of the processor: mapping a
  range makes exactly that range translate to the physical range, a new directory maps
  every address to itself, and freeing it gives back exactly what building it took.
\<close>

section \<open>The page walk of the i386\<close>

text \<open>
  The hardware's translation with 4 KB pages: two levels, each entry with a present bit.
\<close>

definition mmu_translate :: "mem \<Rightarrow> u32 \<Rightarrow> u32 \<Rightarrow> u32 option" where
  "mmu_translate m cr va =
     (let pde = load32 m ((cr AND 0xFFFFF000) + 4 * drop_bit 22 va) in
      if \<not> bit pde 0 then None
      else let pte = load32 m ((pde AND 0xFFFFF000) + 4 * (drop_bit 12 va AND 0x3FF)) in
        if bit pte 0 then Some ((pte AND 0xFFFFF000) OR (va AND 0xFFF)) else None)"

definition pde_present :: "mem \<Rightarrow> u32 \<Rightarrow> u32 \<Rightarrow> bool" where
  "pde_present m d v \<longleftrightarrow> bit (load32 m (d + of_nat (4 * dir_index v))) 0"

lemma walk_indexes:
  "4 * drop_bit 22 v = (of_nat (4 * dir_index v) :: u32)"
  "4 * (drop_bit 12 v AND 0x3FF) = (of_nat (4 * tab_index v) :: u32)"
proof -
  have "4194304 = (2 ^ 22 :: u32)" "4096 = (2 ^ 12 :: u32)" by simp_all
  then have d: "drop_bit 22 v = v div 4194304" "drop_bit 12 v = v div 4096"
    by (simp_all only: drop_bit_eq_div)
  show "4 * drop_bit 22 v = (of_nat (4 * dir_index v) :: u32)"
    using word_indexes(1) [of v] by (simp add: d PAGING_PAGE_SIZE_def)
  have m: "(0x3FF :: u32) = mask 10" by (simp add: mask_eq_exp_minus_1)
  have "drop_bit 12 v AND 0x3FF = v div 4096 mod 1024"
    unfolding d m take_bit_eq_mask [symmetric] by (simp add: take_bit_eq_mod)
  also have "\<dots> = of_nat (tab_index v)"
  proof (rule word_unat_eq_iff [THEN iffD2])
    have "unat v mod (4096 * 1024) div 4096 = unat v div 4096 mod 1024"
      by (simp only: mod_mult2_eq)
    then show "unat (v div 4096 mod 1024) = unat (of_nat (tab_index v) :: u32)"
      using index_less(2) [of v] by (simp add: unat_div unat_mod tab_index_def)
  qed
  finally show "4 * (drop_bit 12 v AND 0x3FF) = (of_nat (4 * tab_index v) :: u32)" by simp
qed

lemma page_index:
  "dir_index (v AND 0xFFFFF000) = dir_index v" "tab_index (v AND 0xFFFFF000) = tab_index v"
proof -
  have "v mod 4096 \<le> v" by (simp add: word_le_nat_alt unat_mod)
  then have "unat (v AND 0xFFFFF000) = unat v - unat v mod 4096"
    by (simp add: lower_page [symmetric] paging_align_to_lower_page_def PAGING_PAGE_SIZE_def unat_sub unat_mod)
  then have u: "unat (v AND 0xFFFFF000) = 4096 * (unat v div 4096)"
    by (simp add: minus_mod_eq_mult_div)
  have "4096 * (unat v div 4096) div (4096 * 1024) = unat v div (4096 * 1024)"
    by (simp add: div_mult2_eq [of _ 4096 1024, simplified])
  then show "dir_index (v AND 0xFFFFF000) = dir_index v" by (simp add: dir_index_def u)
  have "4096 * (unat v div 4096) mod (4096 * 1024) div 4096 = unat v mod (4096 * 1024) div 4096"
    by (simp only: mod_mult2_eq) simp
  then show "tab_index (v AND 0xFFFFF000) = tab_index v" by (simp add: tab_index_def u)
qed

lemma frame_add_offset:
  assumes "aligned 4096 p"
  shows "p + take_bit 12 w = p OR take_bit 12 (w :: u32)"
proof (rule disjunctive_add)
  fix n
  have "bit (take_bit 12 p) n = bit (0 :: u32) n" using assms by (simp add: aligned_page_iff)
  then show "\<not> bit p n \<or> \<not> bit (take_bit 12 w) n" by (auto simp: bit_simps)
qed

lemma low_bits: "(w :: u32) AND 0xFFF = take_bit 12 w"
proof -
  have "(0xFFF :: u32) = mask 12" by (simp add: mask_eq_exp_minus_1)
  then show ?thesis by (simp add: take_bit_eq_mask)
qed

lemma mmu_eq:
  assumes "aligned 4096 d"
  shows "mmu_translate m d v =
    (let e = paging_get m d (v AND 0xFFFFF000) in
     if pde_present m d v \<and> bit e 0 then Some ((e AND 0xFFFFF000) + take_bit 12 v) else None)"
proof -
  have d: "d AND 0xFFFFF000 = d" using frame_of_or [OF assms, of 0] by simp
  have g: "paging_get m d (v AND 0xFFFFF000) = load32 m (pte_addr m d v)"
    by (simp add: paging_get_eq pte_addr_def page_index)
  show ?thesis
    unfolding mmu_translate_def Let_def d walk_indexes g pte_addr_def pd_table_def pde_present_def
      low_bits frame_add_offset [OF frame_aligned]
    by simp
qed

text \<open>
  C33. The kernel's own translation agrees with the processor's: whenever the page walk
  through a page-aligned directory finds a page, \<open>paging_get_physical_address\<close> returns the
  address the walk produces.
\<close>

theorem paging_physical_address_mmu:
  assumes "aligned 4096 d" and "mmu_translate m d v = Some p"
  shows "paging_get_physical_address m d v = p"
proof -
  have "v - (v AND 0xFFFFF000) = take_bit 12 v"
    by (simp add: lower_page [symmetric] paging_align_to_lower_page_def word_mod_page)
  then show ?thesis
    using assms by (auto simp: mmu_eq Let_def paging_get_physical_address_def lower_page split: if_splits)
qed

section \<open>Mapping a range\<close>

lemma map_range_loop_eq:
  assumes "chunk_wf c m" "aligned 4096 v" "aligned 4096 p" "count = i + int n"
  shows "paging_map_range_loop c v p count flags i 0 m =
    (0, chunk.put_seq c v (map (\<lambda>k. (p + of_nat (4096 * k)) OR u32_of_int flags) [0..<n]) m)"
  using assms
proof (induction n arbitrary: v p i m)
  case 0
  then show ?case by (simp add: paging_map_range_loop.simps)
next
  case (Suc n)
  let ?m = "chunk_put c v (p OR u32_of_int flags) m"
  have "paging_map c v p flags m = (0, ?m)"
    using Suc.prems(2,3) by (simp add: paging_map_def aligned_mod_page chunk_put_def paging_set_eq)
  then have "paging_map_range_loop c v p count flags i 0 m =
      paging_map_range_loop c (v + 4096) (p + 4096) count flags (i + 1) 0 ?m"
    using Suc.prems(4) by (subst paging_map_range_loop.simps) (simp add: PAGING_PAGE_SIZE_def)
  also have "\<dots> = (0, chunk.put_seq c (v + 4096)
      (map (\<lambda>k. (p + 4096 + of_nat (4096 * k)) OR u32_of_int flags) [0..<n]) ?m)"
    using Suc.prems chunk.put_wf [of c m v] chunk.page_step
    by (intro Suc.IH) auto
  also have "map (\<lambda>k. (p + 4096 + of_nat (4096 * k)) OR u32_of_int flags) [0..<n] =
      map (\<lambda>k. (p + of_nat (4096 * k)) OR u32_of_int flags) [Suc 0..<Suc n]"
    by (simp add: map_Suc_upt [symmetric] comp_def algebra_simps del: upt_Suc)
  finally show ?case by (simp add: upt_conv_Cons del: upt_Suc)
qed

lemma map_to_eq:
  assumes "chunk_wf c m" "aligned 4096 v" "aligned 4096 p" "aligned 4096 pe" "p \<le> pe"
  shows "paging_map_to c v p pe flags m = (0, chunk.put_seq c v
    (map (\<lambda>k. (p + of_nat (4096 * k)) OR u32_of_int flags) [0..<unat (pe - p) div 4096]) m)"
proof -
  have "unat ((pe - p) div 4096) = unat (pe - p) div 4096" by (simp add: unat_div)
  moreover have "unat (pe - p) div 4096 < 2 ^ 31" using unat_u32_less [of "pe - p"] by simp
  ultimately have "int_of_u32 ((pe - p) div PAGING_PAGE_SIZE) = 0 + int (unat (pe - p) div 4096)"
    by (simp only: PAGING_PAGE_SIZE_def int_of_u32_small add_0)
  then show ?thesis
    using assms map_range_loop_eq [OF assms(1-3), of _ 0]
    by (simp add: paging_map_to_def aligned_mod_page paging_map_range_def Let_def not_less del: of_nat_div)
qed

lemma page_of_offset:
  assumes "aligned 4096 v"
  shows "(v + of_nat k) AND 0xFFFFF000 = v + of_nat (4096 * (k div 4096))"
    and "take_bit 12 (v + of_nat k) = of_nat (k mod 4096)"
proof -
  let ?q = "v + of_nat (4096 * (k div 4096))"
  have q: "aligned 4096 ?q" using assms by (rule aligned_page_offset)
  have s: "v + of_nat k = ?q + of_nat (k mod 4096)"
    by (metis add.assoc mult_div_mod_eq of_nat_add)
  have "take_bit 12 (of_nat (k mod 4096) :: u32) = of_nat (k mod 4096 mod 4096)"
    by (simp add: take_bit_eq_mod of_nat_mod word_unat_eq_iff unat_mod)
  then have t: "take_bit 12 (of_nat (k mod 4096)) = (of_nat (k mod 4096) :: u32)" by simp
  have o: "v + of_nat k = ?q OR of_nat (k mod 4096)"
    using s frame_add_offset [OF q, of "of_nat (k mod 4096)"] by (simp only: t)
  have "drop_bit 12 (take_bit 12 (of_nat (k mod 4096) :: u32)) = 0"
    by (rule bit_word_eqI) (simp add: bit_simps)
  then show "(v + of_nat k) AND 0xFFFFF000 = ?q"
    unfolding o by (intro frame_of_or [OF q]) (simp only: t)
  have "take_bit 12 ?q = 0" using q by (simp only: aligned_page_iff)
  then show "take_bit 12 (v + of_nat k) = of_nat (k mod 4096)"
    unfolding o by (simp only: take_bit_or t or.left_neutral)
qed

text \<open>One call, with all that a caller needs; without the present flag the pages are unmapped.\<close>

lemma aligned_bit0: "aligned 4096 p \<Longrightarrow> \<not> bit p 0"
proof -
  assume "aligned 4096 p"
  then have "take_bit 12 p = 0" by (simp only: aligned_page_iff)
  then have "bit (take_bit 12 p) 0 = bit (0 :: u32) 0" by (rule arg_cong)
  then show ?thesis by (simp add: bit_simps)
qed

lemma map_to_mapped:
  assumes wf: "chunk_wf c m" and al: "aligned 4096 v" "aligned 4096 p" "aligned 4096 pe" and "p \<le> pe"
    and flags: "drop_bit 12 (u32_of_int flags) = 0"
    and present: "\<And>w. pde_present m (directory_entry m c) w"
  shows "\<exists>m'. paging_map_to c v p pe flags m = (0, m') \<and> chunk_wf c m'
    \<and> directory_entry m' c = directory_entry m c \<and> chunk_tables c m' = chunk_tables c m
    \<and> (\<forall>w. pde_present m' (directory_entry m c) w)
    \<and> same_outside (chunk_tables c m) m m'
    \<and> (\<forall>k. k < unat (pe - p) \<longrightarrow>
         mmu_translate m' (directory_entry m c) (v + of_nat k)
         = (if bit (u32_of_int flags) 0 then Some (p + of_nat k) else None))
    \<and> (\<forall>w. w \<notin> region v (unat (pe - p)) \<longrightarrow>
         mmu_translate m' (directory_entry m c) w = mmu_translate m (directory_entry m c) w)"
proof -
  let ?d = "directory_entry m c" and ?n = "unat (pe - p) div 4096"
  define es where "es = map (\<lambda>k. (p + of_nat (4096 * k)) OR u32_of_int flags) [0..<?n]"
  define m' where "m' = chunk.put_seq c v es m"
  have n: "unat (pe - p) = 4096 * ?n"
  proof -
    obtain a b where "unat p = 4096 * a" "unat pe = 4096 * b" using al(2,3) unfolding aligned_def by (elim dvdE)
    then have "4096 dvd unat (pe - p)" using \<open>p \<le> pe\<close> by (simp add: unat_sub dvd_diff_nat)
    then show ?thesis by simp
  qed
  have len: "length es = ?n" "length es \<le> 2 ^ 20"
    using unat_u32_less [of "pe - p"] n by (simp_all add: es_def)
  note s = chunk.put_seq_wf [OF wf al(1), of es, folded m'_def]
  have so: "same_outside (chunk_tables c m) m m'" and wf': "chunk_wf c m'"
    and tb: "chunk_tables c m' = chunk_tables c m" using s by auto
  have d': "directory_entry m' c = ?d" using so wf by (rule chunk_frame)
  have pw: "page_wf m ?d" using wf by (simp add: chunk_wf_def)
  have dal: "aligned 4096 ?d" using pw by (simp add: page_wf_def)
  have "load32 m' (?d + of_nat (4 * dir_index w)) = load32 m (?d + of_nat (4 * dir_index w))" for w
    using so dir_table_disjoint [OF pw] entry_region [OF dal index_less(1)]
    by (intro load32_same_outside) (auto simp: chunk_tables_def)
  then have pr: "pde_present m' ?d w" for w using present by (simp add: pde_present_def)
  have g: "paging_get m' ?d w = chunk_get c m' w" "paging_get m ?d w = chunk_get c m w" for w
    by (simp_all add: chunk_get_def d')
  have "mmu_translate m' ?d (v + of_nat k) = (if bit (u32_of_int flags) 0 then Some (p + of_nat k) else None)"
    if k: "k < unat (pe - p)" for k
  proof -
    have kn: "k div 4096 < ?n" using k n by (simp add: less_mult_imp_div_less mult.commute)
    let ?q = "p + of_nat (4096 * (k div 4096))"
    have e: "paging_get m' ?d ((v + of_nat k) AND 0xFFFFF000) = ?q OR u32_of_int flags"
      using chunk.put_seq_get [OF wf al(1) _ len(2), of "k div 4096"] kn
      unfolding page_of_offset(1) [OF al(1)] g(1) unfolding m'_def
      by (simp add: len(1) es_def del: of_nat_mult)
    have "(?q OR u32_of_int flags) AND 0xFFFFF000 = ?q"
      by (rule frame_of_or) (simp_all only: aligned_page_offset al(2) flags)
    moreover have "bit (?q OR u32_of_int flags) 0 = bit (u32_of_int flags) 0"
      using aligned_bit0 [of ?q] al(2) by (simp only: bit_or_iff aligned_page_offset) simp
    moreover have "?q + of_nat (k mod 4096) = p + of_nat k"
      by (metis add.assoc mult_div_mod_eq of_nat_add)
    ultimately show ?thesis
      by (simp only: mmu_eq [OF dal] e Let_def pr page_of_offset(2) [OF al(1)] simp_thms)
  qed
  moreover have "mmu_translate m' ?d w = mmu_translate m ?d w" if w: "w \<notin> region v (unat (pe - p))" for w
  proof -
    have "w AND 0xFFFFF000 \<noteq> v + of_nat (4096 * i)" if i: "i < length es" for i
    proof
      assume e: "w AND 0xFFFFF000 = v + of_nat (4096 * i)"
      have "w - (w AND 0xFFFFF000) = take_bit 12 w"
        by (simp add: lower_page [symmetric] paging_align_to_lower_page_def word_mod_page)
      then have "w = v + of_nat (4096 * i) + of_nat (unat (take_bit 12 w))"
        unfolding e by (simp add: algebra_simps)
      then have "w = v + of_nat (4096 * i + unat (take_bit 12 w))" by (simp only: of_nat_add add.assoc)
      moreover have "unat (take_bit 12 w) < 4096"
        by (simp add: take_bit_eq_mod unat_mod)
      then have "4096 * i + unat (take_bit 12 w) < unat (pe - p)" using i n len(1) by linarith
      ultimately show False
        using w in_region_offset [of "4096 * i + unat (take_bit 12 w)" "unat (pe - p)" v] unat_u32_less [of "pe - p"]
        by simp
    qed
    then have "paging_get m' ?d (w AND 0xFFFFF000) = paging_get m ?d (w AND 0xFFFFF000)"
      unfolding g unfolding m'_def using chunk.put_seq_other [OF wf al(1) frame_aligned] by blast
    then show ?thesis by (simp only: mmu_eq [OF dal] pr present simp_thms)
  qed
  moreover have "\<forall>w. pde_present m' ?d w" using pr by blast
  ultimately show ?thesis
    using map_to_eq [OF wf al \<open>p \<le> pe\<close>, of flags] wf' d' so tb by (simp add: m'_def es_def)
qed

text \<open>
  C4. \<open>paging_map_to\<close> with aligned addresses, present directory entries and present flags
  makes the processor translate every byte of the virtual range to the corresponding
  physical byte; every other address translates as before, and only page tables of this
  directory are written.
\<close>

theorem paging_map_to_translates:
  assumes wf: "chunk_wf c m" and al: "aligned 4096 v" "aligned 4096 p" "aligned 4096 pe" and "p \<le> pe"
    and flags: "bit (u32_of_int flags) 0" "drop_bit 12 (u32_of_int flags) = 0"
    and present: "\<And>w. pde_present m (directory_entry m c) w"
  shows "\<exists>m'. paging_map_to c v p pe flags m = (0, m') \<and> chunk_wf c m'
    \<and> directory_entry m' c = directory_entry m c
    \<and> same_outside (chunk_tables c m) m m'
    \<and> (\<forall>k. k < unat (pe - p) \<longrightarrow>
         mmu_translate m' (directory_entry m c) (v + of_nat k) = Some (p + of_nat k))
    \<and> (\<forall>w. w \<notin> region v (unat (pe - p)) \<longrightarrow>
         mmu_translate m' (directory_entry m c) w = mmu_translate m (directory_entry m c) w)"
  using map_to_mapped [OF wf al \<open>p \<le> pe\<close> flags(2) present] flags(1) by (metis (full_types))

end
