(* ===== verification/HeapClient.thy ===== *)
theory HeapClient
  imports KernelHeap Bytes
begin

text \<open>
  What the clients of the kernel heap share: the live pages as a map that grows by lists of
  pages, the bytes of free memory an allocation may overwrite, and allocation and release
  of single pages in these terms.
\<close>

section \<open>Live pages\<close>

definition grab :: "(u32 \<rightharpoonup> nat) \<Rightarrow> u32 list \<Rightarrow> (u32 \<rightharpoonup> nat)" where
  "grab L ps = L ++ (\<lambda>p. if p \<in> set ps then Some 1 else None)"

lemma grab_simps [simp]:
  "grab L [] = L" "p \<in> set ps \<Longrightarrow> grab L ps p = Some 1" "p \<notin> set ps \<Longrightarrow> grab L ps p = L p"
  by (auto simp: grab_def map_add_def fun_eq_iff split: option.splits)

lemma grab_upd: "set qs = insert p (set ps) \<Longrightarrow> grab L qs = (grab L ps)(p \<mapsto> 1)"
  by (auto simp: grab_def map_add_def fun_eq_iff)

lemma grab_drop: "p \<notin> set ps \<Longrightarrow> L p = None \<Longrightarrow> (grab L (p # ps))(p := None) = grab L ps"
  by (auto simp: grab_def map_add_def fun_eq_iff)

lemma block_region_1: "block_region p 1 = region p 4096" "block_region p (Suc 0) = region p 4096"
  by (simp_all add: block_region_def)

definition live_same :: "(u32 \<rightharpoonup> nat) \<Rightarrow> mem \<Rightarrow> mem \<Rightarrow> bool" where
  "live_same L m m' \<longleftrightarrow> (\<forall>q n a. L q = Some n \<longrightarrow> a \<in> block_region q n \<longrightarrow> m' a = m a)"

lemma live_same_trans: "live_same L m m' \<Longrightarrow> live_same L m' m'' \<Longrightarrow> live_same L m m''"
  by (simp add: live_same_def)

lemma live_same_refl [simp]: "live_same L m m"
  by (simp add: live_same_def)


section \<open>Free memory\<close>

text \<open>The bytes of the heap's data that belong to no live allocation.\<close>

definition free_mem :: "(u32 \<rightharpoonup> nat) \<Rightarrow> u32 set" where
  "free_mem L = {a \<in> data_region kheap. \<forall>q n. L q = Some n \<longrightarrow> a \<notin> block_region q n}"

text \<open>What an allocation may write: the table and free memory.\<close>

definition heap_scratch :: "(u32 \<rightharpoonup> nat) \<Rightarrow> u32 set" where
  "heap_scratch L = table_region kheap \<union> free_mem L"

lemma heap_scratch_mono: "(\<And>p n. L p = Some n \<Longrightarrow> L' p = Some n) \<Longrightarrow> heap_scratch L' \<subseteq> heap_scratch L"
  by (auto simp: heap_scratch_def free_mem_def)

lemma heap_scratch_upd: "L p = None \<Longrightarrow> heap_scratch (L(p \<mapsto> n)) \<subseteq> heap_scratch L"
  by (rule heap_scratch_mono) auto

lemma live_data:
  assumes "heap_live kheap m L" "L p = Some n"
  shows "block_region p n \<subseteq> data_region kheap"
proof -
  obtain b where "p = block_ptr kheap b" "b + n \<le> unat (total (table kheap))" "0 < n"
    using live_block [OF kheap_geom assms] by metis
  then show ?thesis using block_region_data [OF kheap_geom] by simp
qed

lemma live_scratch:
  assumes "heap_live kheap m L" "L p = Some n"
  shows "block_region p n \<inter> heap_scratch L = {}"
  using assms kh.live_ok [OF assms] by (auto simp: heap_scratch_def free_mem_def)

lemma page_scratch: "heap_live kheap m L \<Longrightarrow> L p = Some 1 \<Longrightarrow> region p 4096 \<inter> heap_scratch L = {}"
  using live_scratch [of m L p 1] by (simp add: block_region_1)

text \<open>Memory outside the heap: the kernel's image and stack.\<close>

definition off_heap :: "u32 set \<Rightarrow> bool" where
  "off_heap A \<longleftrightarrow> A \<inter> table_region kheap = {} \<and> A \<inter> data_region kheap = {}"

lemma off_heap_scratch: "off_heap A \<Longrightarrow> A \<inter> heap_scratch L = {}"
  by (auto simp: off_heap_def heap_scratch_def free_mem_def)

lemma off_heap_live: "off_heap A \<Longrightarrow> heap_live kheap m L \<Longrightarrow> L p = Some n \<Longrightarrow> A \<inter> block_region p n = {}"
  using live_data by (fastforce simp: off_heap_def)

section \<open>Allocation\<close>

lemma kzalloc_blocks:
  assumes live: "heap_live kheap m L" and "0 < unat sz" "unat sz \<le> 2 ^ 32 - 4096" "heap_room kheap L (nblocks sz)"
  obtains p m' where "kzalloc kheap sz m = (p, m')" "p \<noteq> 0" "aligned 4096 p" "L p = None"
    "heap_live kheap m' (L(p \<mapsto> nblocks sz))" "\<And>a. a \<in> region p (unat sz) \<Longrightarrow> m' a = 0"
    "block_region p (nblocks sz) \<subseteq> heap_scratch L" "same_outside (heap_scratch L) m m'"
proof -
  obtain p m' where p: "kh.zalloc sz m = (p, m')" "p \<noteq> 0" "aligned 4096 p" "L p = None"
      "heap_live kheap m' (L(p \<mapsto> nblocks sz))"
      "same_outside (table_region kheap \<union> region p (unat sz)) m m'"
      "\<And>a. a \<in> region p (unat sz) \<Longrightarrow> m' a = 0"
      "\<And>q k. L q = Some k \<Longrightarrow> block_region p (nblocks sz) \<inter> block_region q k = {}"
    using kh.zalloc_fresh [OF assms] by metis
  have sub: "block_region p (nblocks sz) \<subseteq> heap_scratch L"
    using live_data [OF p(5), of p] p(8) by (auto simp: heap_scratch_def free_mem_def)
  have "same_outside (heap_scratch L) m m'"
    by (rule same_outside_mono [OF p(6)]) (use sub request_in_blocks [of p sz] in \<open>auto simp: heap_scratch_def\<close>)
  then show thesis using that p sub by (simp add: kzalloc_zalloc)
qed

section \<open>One page\<close>

lemma kzalloc_page:
  assumes live: "heap_live kheap m L" and "0 < unat sz" "unat sz \<le> 4096" "0 < heap_avail kheap L"
  obtains p m' where "kzalloc kheap sz m = (p, m')" "p \<noteq> 0" "aligned 4096 p" "L p = None"
    "heap_live kheap m' (L(p \<mapsto> 1))" "heap_avail kheap (L(p \<mapsto> 1)) = heap_avail kheap L - 1"
    "\<And>a. a \<in> region p (unat sz) \<Longrightarrow> m' a = 0"
    "region p 4096 \<subseteq> heap_scratch L" "same_outside (heap_scratch L) m m'"
proof -
  obtain p m' where p: "kh.zalloc sz m = (p, m')" "p \<noteq> 0" "aligned 4096 p" "L p = None"
      "heap_live kheap m' (L(p \<mapsto> 1))" "heap_avail kheap (L(p \<mapsto> 1)) = heap_avail kheap L - 1"
      "same_outside (table_region kheap \<union> region p (unat sz)) m m'"
      "\<And>a. a \<in> region p (unat sz) \<Longrightarrow> m' a = 0"
      "\<And>q k. L q = Some k \<Longrightarrow> block_region p 1 \<inter> block_region q k = {}"
    using kh.page_fresh [OF assms] by metis
  have sub: "region p 4096 \<subseteq> heap_scratch L"
    using live_data [OF p(5), of p 1] p(9) by (auto simp: heap_scratch_def free_mem_def block_region_1)
  have "region p (unat sz) \<subseteq> heap_scratch L" using sub region_mono [OF assms(3), of p] by blast
  then have "same_outside (heap_scratch L) m m'"
    by (intro same_outside_mono [OF p(7)]) (auto simp: heap_scratch_def)
  then show thesis using that p sub by (simp add: kzalloc_zalloc)
qed

lemma kfree_live_page:
  assumes "heap_live kheap m L" "L p = Some n"
  shows "heap_live kheap (kfree kheap p m) (L(p := None))"
    and "same_outside (heap_scratch L') m (kfree kheap p m)"
    and "heap_avail kheap (L(p := None)) = heap_avail kheap L + n"
proof -
  have k: "heap_live kheap (kfree kheap p m) (L(p := None)) \<and> same_outside (table_region kheap) m (kfree kheap p m)"
    by (rule kh.dealloc_ok [OF assms])
  then show "heap_live kheap (kfree kheap p m) (L(p := None))" by blast
  show "same_outside (heap_scratch L') m (kfree kheap p m)"
    using k by (auto intro: same_outside_mono simp: heap_scratch_def)
  have "(L(p := None))(p \<mapsto> n) = L" using assms(2) by auto
  then show "heap_avail kheap (L(p := None)) = heap_avail kheap L + n"
    using kh.avail_alloc [of "kfree kheap p m" "L(p := None)" p m n] k assms by simp
qed

lemma avail_grab:
  assumes "heap_live kheap m (grab L ps)" "distinct ps" "\<And>p. p \<in> set ps \<Longrightarrow> L p = None"
  shows "heap_avail kheap (grab L ps) + length ps = heap_avail kheap L \<and> (\<exists>m. heap_live kheap m L)"
  using assms
proof (induction ps arbitrary: m)
  case (Cons p ps)
  have drop: "(grab L (p # ps))(p := None) = grab L ps" using Cons.prems by (intro grab_drop) simp_all
  have p: "grab L (p # ps) p = Some 1" by simp
  have "heap_live kheap (kfree kheap p m) (grab L ps)"
    and "heap_avail kheap (grab L ps) = heap_avail kheap (grab L (p # ps)) + 1"
    using kfree_live_page [OF Cons.prems(1) p] unfolding drop by blast+
  then show ?case using Cons.IH [of "kfree kheap p m"] Cons.prems(2,3) by simp
qed auto

text \<open>The list may name a page twice.\<close>

lemma avail_grab_le:
  assumes "heap_live kheap m (grab L ps)" "set ps \<inter> dom L = {}"
  shows "heap_avail kheap L \<le> heap_avail kheap (grab L ps) + length ps"
proof -
  have e: "grab L (remdups ps) = grab L ps" by (simp add: grab_def)
  have "heap_avail kheap (grab L (remdups ps)) + length (remdups ps) = heap_avail kheap L"
    by (rule conjunct1 [OF avail_grab [of m]]) (use assms e in auto)
  then show ?thesis using length_remdups_leq [of ps] unfolding e by linarith
qed

lemma write_page:
  assumes "heap_live kheap m L" "L p = Some 1" "same_outside (region p 4096) m m'"
  shows "heap_live kheap m' L"
  using assms by (intro kh.write_live [of m L p 1 m']) (simp_all add: block_region_1)

lemma new_page_scratch:
  assumes live: "heap_live kheap m (L(p \<mapsto> 1))" and new: "L p = None"
  shows "region p 4096 \<subseteq> heap_scratch L"
proof -
  have "region p 4096 \<inter> block_region q k = {}" if "L q = Some k" for q k
  proof -
    have "p \<noteq> q" using new that by auto
    then show ?thesis using kh.live_disjoint [OF live, of p 1 q k] that by (simp add: block_region_1)
  qed
  moreover have "region p 4096 \<subseteq> data_region kheap"
    using live_data [OF live, of p 1] by (simp add: block_region_1)
  ultimately show ?thesis by (auto simp: heap_scratch_def free_mem_def)
qed

text \<open>The bytes of a live page below its 4096 th.\<close>

lemma page_bytes: "i + n \<le> 4096 \<Longrightarrow> region (p + of_nat i) n \<subseteq> region p 4096"
proof
  fix a assume i: "i + n \<le> 4096" and "a \<in> region (p + of_nat i) n"
  then obtain j where "j < n" "a = p + of_nat i + of_nat j" by (elim region_offsetE)
  then show "a \<in> region p 4096"
    using i in_region_offset [of "i + j" 4096 p] by (simp add: add.assoc)
qed

lemma page_word: "i + 4 \<le> 4096 \<Longrightarrow> same_outside (region p 4096) m (store32 m (p + of_nat i) v)"
  by (rule same_outside_mono [OF store32_frame page_bytes])

text \<open>The empty heap over zeroed memory, for the witnesses.\<close>

lemma kernel_empty: "heap_live kheap (\<lambda>_. 0) Map.empty" "heap_avail kheap Map.empty = 25600"
proof -
  have e: "ptr_allocs kheap Map.empty = Map.empty" by (auto simp: ptr_allocs_def)
  have "table_rel (table kheap) (\<lambda>_. 0) Map.empty" by (rule table_rel_empty) simp
  moreover have "ptr_map kheap Map.empty = Map.empty" by (auto simp: ptr_map_def)
  ultimately show "heap_live kheap (\<lambda>_. 0) Map.empty" by (simp add: heap_live_def e)
  show "heap_avail kheap Map.empty = 25600" by (simp add: heap_avail_def e covered_def)
qed

lemma empty_heap_outside:
  "same_outside A (\<lambda>_. 0) m \<Longrightarrow> A \<inter> table_region kheap = {} \<Longrightarrow> heap_live kheap m Map.empty"
  using kernel_empty(1) by (rule kh.rel_frame)

lemma kheap_regions:
  "a \<in> table_region kheap \<longleftrightarrow> 0x7E00 \<le> unat a \<and> unat a < 0xE200"
  "a \<in> data_region kheap \<longleftrightarrow> 0x1000000 \<le> unat a \<and> unat a < 0x7400000"
  by (simp_all add: table_region_def data_region_def region_eq_range)

lemma off_heapI: "0xE200 \<le> unat p \<Longrightarrow> unat p + n \<le> 0x1000000 \<Longrightarrow> off_heap (region p n)"
  by (auto simp: off_heap_def kheap_regions region_eq_range)

end
