(* ===== verification/PagingNew.thy ===== *)
theory PagingNew
  imports PagingSpec HeapClient
begin

text \<open>
  Building and freeing a whole address space: \<open>paging_new_4gb\<close> takes 1026 pages from the
  kernel heap and fills them, \<open>paging_free_4gb\<close> walks the directory and gives them back.
\<close>

section \<open>One page table\<close>

lemma fill_value:
  "u32_of_int (c_int (offset + c_int (int b * 4096)) OR uint flags)
     = (u32_of_int offset + of_nat (4096 * b)) OR ucast (flags :: u8)"
proof -
  have "u32_of_int (x OR y) = u32_of_int x OR u32_of_int y" for x y
    by (simp add: u32_of_int_def of_int_or_eq)
  then have "u32_of_int (c_int (offset + c_int (int b * 4096)) OR uint flags)
     = u32_of_int (offset + c_int (int b * 4096)) OR u32_of_int (uint flags)"
    by simp
  moreover have "u32_of_int (offset + c_int (int b * 4096)) = u32_of_int offset + of_nat (4096 * b)"
    using word_of_c_int [of "int b * 4096"] by (simp add: u32_of_int_def del: word_of_c_int)
  moreover have "u32_of_int (uint flags) = ucast flags" by (simp add: u32_of_int_def)
  ultimately show ?thesis by simp
qed

lemma fill_table:
  assumes "aligned 4096 entry"
  shows "same_outside (region entry 4096) m (paging_fill_table entry offset flags b m)
    \<and> (\<forall>j < 1024. load32 (paging_fill_table entry offset flags b m) (entry + of_nat (4 * j)) =
        (if b \<le> j then (u32_of_int offset + of_nat (4096 * j)) OR ucast flags
         else load32 m (entry + of_nat (4 * j))))"
  using assms
proof (induction entry offset flags b m rule: paging_fill_table.induct)
  case (1 entry offset flags b m)
  note al = 1(2)
  show ?case
  proof (cases "b < 1024")
    case False
    then show ?thesis
      by (subst (1 2) paging_fill_table.simps) (simp add: PAGING_TOTAL_ENTRIES_PER_TABLE_def)
  next
    case True
    let ?x = "(u32_of_int offset + of_nat (4096 * b)) OR ucast flags"
    let ?m = "store32 m (entry + of_nat (4 * b)) ?x"
    have e: "paging_fill_table entry offset flags b m = paging_fill_table entry offset flags (b + 1) ?m"
      by (subst paging_fill_table.simps)
        (simp only: True PAGING_TOTAL_ENTRIES_PER_TABLE_def if_True fill_value)
    have IH: "same_outside (region entry 4096) ?m (paging_fill_table entry offset flags (b + 1) ?m)
      \<and> (\<forall>j < 1024. load32 (paging_fill_table entry offset flags (b + 1) ?m) (entry + of_nat (4 * j)) =
        (if b + 1 \<le> j then (u32_of_int offset + of_nat (4096 * j)) OR ucast flags
         else load32 ?m (entry + of_nat (4 * j))))"
      using 1(1) [unfolded fill_value PAGING_TOTAL_ENTRIES_PER_TABLE_def, OF True al] .
    have "same_outside (region entry 4096) m ?m"
      using store32_frame entry_region [OF al True] by (rule same_outside_mono)
    then have fr: "same_outside (region entry 4096) m (paging_fill_table entry offset flags b m)"
      unfolding e using IH by (blast intro: same_outside_trans1)
    have w: "load32 ?m (entry + of_nat (4 * j)) = load32 m (entry + of_nat (4 * j))" if "j < b" for j
    proof (rule load32_store32_aligned)
      show "entry + of_nat (4 * j) \<noteq> entry + of_nat (4 * b)"
      proof
        assume "entry + of_nat (4 * j) = entry + of_nat (4 * b)"
        then have "4 * j = 4 * b"
          using aligned_offset_inj [OF al al, of "4 * j" "4 * b"] that True by simp
        then show False using that by simp
      qed
    qed (rule aligned_4_entry [OF al])+
    have "load32 (paging_fill_table entry offset flags b m) (entry + of_nat (4 * j)) =
        (if b \<le> j then (u32_of_int offset + of_nat (4096 * j)) OR ucast flags
         else load32 m (entry + of_nat (4 * j)))" if "j < 1024" for j
    proof -
      consider "j < b" | "j = b" | "b < j" by linarith
      then show ?thesis
      proof cases
        case 1
        then show ?thesis using IH that w [OF 1] unfolding e by simp
      next
        case 2
        then show ?thesis using IH that unfolding e by (simp add: load32_store32_same del: of_nat_mult)
      next
        case 3
        then show ?thesis using IH that unfolding e by simp
      qed
    qed
    then show ?thesis using fr by blast
  qed
qed

section \<open>The tables built so far\<close>

text \<open>
  The state inside \<open>paging_new_4gb\<close>: the directory \<open>d\<close> and the tables \<open>ts\<close> are new live
  pages of the heap, the first entries of the directory name the tables, and every table
  holds the identity mapping of its 4 MB.
\<close>

definition built :: "(u32 \<rightharpoonup> nat) \<Rightarrow> u8 \<Rightarrow> u32 \<Rightarrow> u32 list \<Rightarrow> mem \<Rightarrow> bool" where
  "built L flags d ts m \<longleftrightarrow> heap_live kheap m (grab L (d # ts)) \<and> distinct (d # ts)
    \<and> (\<forall>p \<in> set (d # ts). L p = None)
    \<and> (\<forall>k < length ts. load32 m (d + of_nat (4 * k)) = ts ! k OR ucast flags OR PAGING_IS_WRITEABLE)
    \<and> (\<forall>k < length ts. \<forall>j < 1024. load32 m (ts ! k + of_nat (4 * j)) =
         of_nat (4096 * (1024 * k + j)) OR ucast flags)"

lemma built_aligned: "built L flags d ts m \<Longrightarrow> p \<in> set (d # ts) \<Longrightarrow> aligned 4096 p"
  unfolding built_def using kh.live_ok [of m _ p 1] by (metis grab_simps(2))

text \<open>
  A write outside the allocator's table and the pages of \<open>L\<close>, \<open>d\<close> and \<open>ts\<close> keeps the state.
\<close>

lemma words_kept:
  assumes "same_outside A m m'" and "region p 4096 \<inter> A = {}" and "aligned 4096 p" "j < 1024"
  shows "load32 m' (p + of_nat (4 * j)) = load32 m (p + of_nat (4 * j))"
  using assms(1) by (rule load32_same_outside) (use entry_region [OF assms(3,4)] assms(2) in blast)

lemma unat_4096: "unat (4096 :: u32) = 4096" by simp

lemma built_step:
  assumes b: "built L flags d ts m" and len: "length ts < 1024"
    and av: "0 < heap_avail kheap (grab L (d # ts))" and off: "u32_of_int offset = of_nat (4194304 * length ts)"
  obtains p m' where "kzalloc kheap 4096 m = (p, m')"
    and "built L flags d (ts @ [p]) (store32 (paging_fill_table p offset flags 0 m')
          (d + of_nat (4 * length ts)) (p OR ucast flags OR PAGING_IS_WRITEABLE))"
    and "live_same L m (store32 (paging_fill_table p offset flags 0 m')
          (d + of_nat (4 * length ts)) (p OR ucast flags OR PAGING_IS_WRITEABLE))"
    and "heap_avail kheap (grab L (d # ts @ [p])) = heap_avail kheap (grab L (d # ts)) - 1"
proof -
  let ?L = "grab L (d # ts)"
  have live: "heap_live kheap m ?L" using b by (simp add: built_def)
  obtain p m1 where p: "kzalloc kheap 4096 m = (p, m1)" "aligned 4096 p" "?L p = None"
      "heap_live kheap m1 (?L(p \<mapsto> 1))" "heap_avail kheap (?L(p \<mapsto> 1)) = heap_avail kheap ?L - 1"
      "same_outside (table_region kheap \<union> region p 4096) m m1"
      "\<And>q k. ?L q = Some k \<Longrightarrow> block_region p 1 \<inter> block_region q k = {}"
    using kh.page_fresh [OF live _ _ av, of 4096 thesis] that
    unfolding kzalloc_zalloc unat_4096 by (simp del: One_nat_def fun_upd_apply)
  let ?m2 = "paging_fill_table p offset flags 0 m1" and ?i = "length ts"
  let ?v = "p OR ucast flags OR PAGING_IS_WRITEABLE"
  let ?m3 = "store32 ?m2 (d + of_nat (4 * ?i)) ?v"
  have dal: "aligned 4096 d" and tal: "k < ?i \<Longrightarrow> aligned 4096 (ts ! k)" for k
    using built_aligned [OF b] by auto
  have pnew: "p \<notin> set (d # ts)" "L p = None"
    using p(3) by (metis grab_simps(2) option.distinct(1), metis grab_simps(3) grab_simps(2) option.distinct(1))
  have dL: "?L d = Some 1" and tL: "k < ?i \<Longrightarrow> ?L (ts ! k) = Some 1" for k by simp_all
  have f2: "same_outside (region p 4096) m1 ?m2" using fill_table [OF p(2)] by blast
  have f3: "same_outside (region d 4096) ?m2 ?m3"
    using store32_frame entry_region [OF dal len] by (rule same_outside_mono)
  have f02: "same_outside (table_region kheap \<union> region p 4096) m ?m2"
    by (rule same_outside_trans1 [OF p(6) same_outside_mono [OF f2]]) simp
  have apart: "block_region q n \<inter> (table_region kheap \<union> region p 4096) = {}" if "?L q = Some n" for q n
    using kh.live_ok [OF live that] p(7) [OF that] unfolding block_region_1 by blast
  have dapart: "block_region q n \<inter> region d 4096 = {}" if "?L q = Some n" "q \<noteq> d" for q n
    using kh.live_disjoint [OF live that(1) dL that(2)] by (simp add: block_region_1)
  have live3: "heap_live kheap ?m3 (?L(p \<mapsto> 1))"
  proof (rule kh.write_live [where p = d and n = 1])
    show "heap_live kheap ?m2 (?L(p \<mapsto> 1))"
      using p(4) by (rule kh.write_live [where p = p and n = 1]) (simp_all add: f2 block_region_1)
  qed (use f3 dL pnew in \<open>auto simp: block_region_1\<close>)
  have g: "grab L (d # ts @ [p]) = ?L(p \<mapsto> 1)" by (rule grab_upd) auto
  have dw: "load32 ?m3 (d + of_nat (4 * k)) = load32 m (d + of_nat (4 * k))" if k: "k < ?i" for k
  proof -
    have "d + of_nat (4 * k) \<noteq> d + of_nat (4 * ?i)"
      using aligned_offset_inj [OF dal dal, of "4 * k" "4 * ?i"] k len by auto
    then have "load32 ?m3 (d + of_nat (4 * k)) = load32 ?m2 (d + of_nat (4 * k))"
      by (rule load32_store32_aligned [rotated 2]) (rule aligned_4_entry [OF dal])+
    also have "\<dots> = load32 m (d + of_nat (4 * k))"
      by (rule words_kept [OF f02 _ dal]) (use apart [OF dL] k len in \<open>simp_all add: block_region_1\<close>)
    finally show ?thesis .
  qed
  have tw: "load32 ?m3 (ts ! k + of_nat (4 * j)) = load32 m (ts ! k + of_nat (4 * j))"
    if k: "k < ?i" "j < 1024" for k j
  proof -
    have nd: "ts ! k \<noteq> d" using b k(1) by (auto simp: built_def)
    have "load32 ?m3 (ts ! k + of_nat (4 * j)) = load32 ?m2 (ts ! k + of_nat (4 * j))"
      by (rule words_kept [OF f3 _ tal [OF k(1)] k(2)])
        (use dapart [OF tL [OF k(1)] nd] in \<open>simp add: block_region_1\<close>)
    also have "\<dots> = load32 m (ts ! k + of_nat (4 * j))"
      by (rule words_kept [OF f02 _ tal [OF k(1)] k(2)])
        (use apart [OF tL [OF k(1)]] in \<open>simp add: block_region_1\<close>)
    finally show ?thesis .
  qed
  have pw: "load32 ?m3 (p + of_nat (4 * j)) = of_nat (4096 * (1024 * ?i + j)) OR ucast flags"
    if j: "j < 1024" for j
  proof -
    have "region p 4096 \<inter> region d 4096 = {}"
      by (rule aligned_region_disjoint [OF p(2) dal]) (use pnew(1) in auto)
    then have "load32 ?m3 (p + of_nat (4 * j)) = load32 ?m2 (p + of_nat (4 * j))"
      by (rule words_kept [OF f3 _ p(2) j])
    also have "\<dots> = (u32_of_int offset + of_nat (4096 * j)) OR ucast flags"
      using fill_table [OF p(2), of m1 offset flags 0] j by simp
    also have "u32_of_int offset + of_nat (4096 * j) = of_nat (4096 * (1024 * ?i + j))"
      by (simp add: off algebra_simps)
    finally show ?thesis .
  qed
  have "built L flags d (ts @ [p]) ?m3"
    unfolding built_def g
  proof (intro conjI allI impI)
    fix k assume "k < length (ts @ [p])"
    then consider "k < ?i" | "k = ?i" by fastforce
    note kc = this
    show "load32 ?m3 (d + of_nat (4 * k)) = (ts @ [p]) ! k OR ucast flags OR PAGING_IS_WRITEABLE"
      using kc by cases (use b dw in \<open>auto simp: built_def nth_append load32_store32_same\<close>)
    fix j :: nat assume j: "j < 1024"
    show "load32 ?m3 ((ts @ [p]) ! k + of_nat (4 * j)) = of_nat (4096 * (1024 * k + j)) OR ucast flags"
      using kc
    proof cases
      case 1
      then have "load32 m (ts ! k + of_nat (4 * j)) = of_nat (4096 * (1024 * k + j)) OR ucast flags"
        using b j by (simp add: built_def del: of_nat_mult)
      then show ?thesis using tw [OF 1 j] 1 by (simp only: nth_append if_True)
    next
      case 2
      then show ?thesis using pw [OF j] by (simp del: of_nat_mult)
    qed
  qed (use b live3 pnew in \<open>auto simp: built_def\<close>)
  moreover have "live_same L m ?m3"
    unfolding live_same_def
  proof (intro allI impI)
    fix q n a assume q: "L q = Some n" and a: "a \<in> block_region q n"
    then have nd: "q \<notin> set (d # ts)" using b by (auto simp: built_def)
    then have qL: "?L q = Some n" using q by simp
    have "?m3 a = ?m2 a" by (rule same_outsideD [OF f3]) (use dapart [OF qL] nd a in auto)
    also have "\<dots> = m a" by (rule same_outsideD [OF f02]) (use apart [OF qL] a in blast)
    finally show "?m3 a = m a" .
  qed
  ultimately show thesis using that p(1,5) g by simp
qed

lemma new_loop:
  assumes "built L flags d ts m" and "i = length ts" and "length ts \<le> 1024"
    and "1024 - length ts \<le> heap_avail kheap (grab L (d # ts))"
    and "u32_of_int offset = of_nat (4194304 * length ts)"
  shows "\<exists>ts'. built L flags d ts' (paging_new_4gb_loop kheap flags d i offset m) \<and> length ts' = 1024
    \<and> live_same L m (paging_new_4gb_loop kheap flags d i offset m)
    \<and> heap_avail kheap (grab L (d # ts')) = heap_avail kheap (grab L (d # ts)) - (1024 - length ts)"
  using assms
proof (induction "1024 - length ts" arbitrary: ts m i offset)
  case 0
  then have "paging_new_4gb_loop kheap flags d i offset m = m"
    by (subst paging_new_4gb_loop.simps) (simp add: PAGING_TOTAL_ENTRIES_PER_TABLE_def)
  then show ?case using 0 by (intro exI [of _ ts]) auto
next
  case (Suc n)
  have len: "length ts < 1024" using Suc.hyps(2) by simp
  have av0: "0 < heap_avail kheap (grab L (d # ts))" using Suc.prems(4) len by linarith
  obtain p m1 where p: "kzalloc kheap 4096 m = (p, m1)"
    and b: "built L flags d (ts @ [p]) (store32 (paging_fill_table p offset flags 0 m1)
          (d + of_nat (4 * length ts)) (p OR ucast flags OR PAGING_IS_WRITEABLE))"
    and s: "live_same L m (store32 (paging_fill_table p offset flags 0 m1)
          (d + of_nat (4 * length ts)) (p OR ucast flags OR PAGING_IS_WRITEABLE))"
    and av: "heap_avail kheap (grab L (d # ts @ [p])) = heap_avail kheap (grab L (d # ts)) - 1"
    by (rule built_step [OF Suc.prems(1) len av0 Suc.prems(5)])
  let ?m3 = "store32 (paging_fill_table p offset flags 0 m1)
    (d + of_nat (4 * length ts)) (p OR ucast flags OR PAGING_IS_WRITEABLE)"
  have e: "paging_new_4gb_loop kheap flags d i offset m =
      paging_new_4gb_loop kheap flags d (i + 1) (c_int (offset + 4194304)) ?m3"
    by (subst paging_new_4gb_loop.simps)
      (simp add: Suc.prems(2) len PAGING_TOTAL_ENTRIES_PER_TABLE_def p Let_def)
  have off: "u32_of_int (c_int (offset + 4194304)) = of_nat (4194304 * length (ts @ [p]))"
    using Suc.prems(5) by (simp add: u32_of_int_def algebra_simps)
  obtain ts' where "built L flags d ts' (paging_new_4gb_loop kheap flags d i offset m)" "length ts' = 1024"
    "live_same L ?m3 (paging_new_4gb_loop kheap flags d i offset m)"
    "heap_avail kheap (grab L (d # ts')) = heap_avail kheap (grab L (d # ts @ [p])) - (1024 - length (ts @ [p]))"
    using Suc.hyps(1) [of "ts @ [p]" ?m3 "i + 1"] Suc.hyps(2) Suc.prems(2-4) b off av unfolding e by fastforce
  then show ?case using live_same_trans [OF s] av len by (intro exI [of _ ts']) auto
qed

section \<open>The finished address space\<close>

text \<open>The chunk \<open>c\<close>, its directory and its 1024 tables, all live in the heap.\<close>

definition space :: "(u32 \<rightharpoonup> nat) \<Rightarrow> u8 \<Rightarrow> u32 \<Rightarrow> mem \<Rightarrow> bool" where
  "space L flags c m \<longleftrightarrow> L c = None \<and>
     (\<exists>d ts. built (L(c \<mapsto> 1)) flags d ts m \<and> length ts = 1024 \<and> load32 m c = d)"

lemma live_same_outside:
  assumes "heap_live kheap m L" "same_outside (table_region kheap \<union> region p (unat sz)) m m'"
    and "unat sz \<le> 4096" and "\<And>q k. L q = Some k \<Longrightarrow> block_region p 1 \<inter> block_region q k = {}"
  shows "live_same L m m'"
  unfolding live_same_def
proof (intro allI impI)
  fix q n a assume q: "L q = Some n" "a \<in> block_region q n"
  have "region p (unat sz) \<subseteq> block_region p 1"
    unfolding block_region_def using assms(3) by (intro region_mono) simp
  then have "region p (unat sz) \<inter> block_region q n = {}" using assms(4) [OF q(1)] by blast
  then show "m' a = m a" using kh.live_unchanged [OF assms(1) q(1) assms(2)] q(2) by blast
qed

lemma live_same_words:
  assumes "live_same L m m'" "L p = Some 1" "aligned 4096 p" "j < 1024"
  shows "load32 m' (p + of_nat (4 * j)) = load32 m (p + of_nat (4 * j))"
proof (rule words_kept [OF _ _ assms(3,4)])
  show "same_outside (- region p 4096) m m'"
    using assms(1,2) by (auto simp: same_outside_def live_same_def block_region_1)
qed simp

lemma live_same_sub: "live_same L' m m' \<Longrightarrow> (\<And>p n. L p = Some n \<Longrightarrow> L' p = Some n) \<Longrightarrow> live_same L m m'"
  by (auto simp: live_same_def)

lemma built_frame:
  assumes b: "built L flags d ts m" and len: "length ts \<le> 1024"
    and s: "live_same (grab L (d # ts)) m m'"
    and live: "heap_live kheap m' (grab L' (d # ts))" and new: "\<And>p. p \<in> set (d # ts) \<Longrightarrow> L' p = None"
  shows "built L' flags d ts m'"
  unfolding built_def
proof (intro conjI allI impI ballI)
  fix k assume k: "k < length ts"
  have "load32 m' (d + of_nat (4 * k)) = load32 m (d + of_nat (4 * k))"
    by (rule live_same_words [OF s]) (use k len built_aligned [OF b] in auto)
  then show "load32 m' (d + of_nat (4 * k)) = ts ! k OR ucast flags OR PAGING_IS_WRITEABLE"
    using b k by (simp add: built_def)
  fix j :: nat assume j: "j < 1024"
  have "load32 m' (ts ! k + of_nat (4 * j)) = load32 m (ts ! k + of_nat (4 * j))"
    by (rule live_same_words [OF s]) (use k j built_aligned [OF b] in auto)
  then show "load32 m' (ts ! k + of_nat (4 * j)) = of_nat (4096 * (1024 * k + j)) OR ucast flags"
    using b k j by (simp add: built_def)
qed (use live new b in \<open>auto simp: built_def\<close>)

lemma new_4gb_space:
  assumes live: "heap_live kheap m L" and av: "1026 \<le> heap_avail kheap L"
  obtains c m' where "paging_new_4gb kheap flags m = (c, m')" "space L flags c m'" "live_same L m m'"
proof -
  obtain d m1 where d: "kzalloc kheap 4096 m = (d, m1)" "L d = None" "heap_live kheap m1 (L(d \<mapsto> 1))"
      "heap_avail kheap (L(d \<mapsto> 1)) = heap_avail kheap L - 1"
      "same_outside (table_region kheap \<union> region d (unat (4096 :: u32))) m m1"
      "\<And>q k. L q = Some k \<Longrightarrow> block_region d 1 \<inter> block_region q k = {}"
    using kh.page_fresh [OF live, of 4096 thesis] av that
    unfolding kzalloc_zalloc unat_4096 by (simp del: One_nat_def fun_upd_apply)
  have s1: "live_same L m m1" by (rule live_same_outside [OF live d(5) _ d(6)]) simp_all
  have g: "grab L [d] = L(d \<mapsto> 1)" by (simp add: grab_upd [of _ _ "[]"])
  have av1: "1024 \<le> heap_avail kheap (L(d \<mapsto> 1))" using av unfolding d(4) by linarith
  have "built L flags d [] m1" using d(2,3) by (simp add: built_def g)
  then obtain ts where ts: "built L flags d ts (paging_new_4gb_loop kheap flags d 0 0 m1)" "length ts = 1024"
      "live_same L m1 (paging_new_4gb_loop kheap flags d 0 0 m1)"
      "heap_avail kheap (grab L (d # ts)) = heap_avail kheap (L(d \<mapsto> 1)) - 1024"
    using new_loop [of L flags d "[]" m1 0 0] av1 by (auto simp: g)
  let ?m2 = "paging_new_4gb_loop kheap flags d 0 0 m1" and ?G = "grab L (d # ts)"
  have live2: "heap_live kheap ?m2 ?G" using ts(1) by (simp add: built_def)
  have "0 < heap_avail kheap ?G" using ts(4) d(4) av by simp
  then obtain c m3 where c: "kzalloc kheap 4 ?m2 = (c, m3)" "aligned 4096 c" "?G c = None"
      "heap_live kheap m3 (?G(c \<mapsto> 1))"
      "same_outside (table_region kheap \<union> region c (unat (4 :: u32))) ?m2 m3"
      "\<And>q k. ?G q = Some k \<Longrightarrow> block_region c 1 \<inter> block_region q k = {}"
    using kh.page_fresh [OF live2, of 4 thesis] that unfolding kzalloc_zalloc
    by (simp del: One_nat_def fun_upd_apply)
  let ?m4 = "store32 m3 c d"
  have so: "same_outside (table_region kheap \<union> region c (unat (4 :: u32))) ?m2 ?m4"
    by (rule same_outside_trans1 [OF c(5) same_outside_mono [OF store32_frame]]) simp
  have s2: "live_same ?G ?m2 ?m4" by (rule live_same_outside [OF live2 so _ c(6)]) simp_all
  have cn: "c \<notin> set (d # ts)" "L c = None"
    using c(3) by (metis grab_simps(2) option.distinct(1), metis grab_simps(3) grab_simps(2) option.distinct(1))
  have "region c 4 \<subseteq> block_region c 1" unfolding block_region_def by (rule region_mono) simp
  then have "same_outside (block_region c 1) m3 ?m4"
    using store32_frame by (rule same_outside_mono [rotated])
  with c(4) have "heap_live kheap ?m4 (?G(c \<mapsto> 1))"
    by (rule kh.write_live [where p = c and n = 1, rotated 2, OF _ _ fun_upd_same, rotated])
  moreover have "grab (L(c \<mapsto> 1)) (d # ts) = ?G(c \<mapsto> 1)"
    using cn by (auto simp: grab_def map_add_def fun_eq_iff)
  ultimately have "built (L(c \<mapsto> 1)) flags d ts ?m4"
    using ts(1) cn ts(2) by (intro built_frame [OF ts(1) _ s2]) (auto simp: built_def)
  then have "space L flags c ?m4"
    using cn(2) ts(2) load32_store32_same unfolding space_def by blast
  moreover have "live_same L ?m2 ?m4"
    using s2 by (rule live_same_sub) (use ts(1) in \<open>auto simp: built_def grab_def map_add_def\<close>)
  moreover have "paging_new_4gb kheap flags m = (c, ?m4)"
    by (simp add: paging_new_4gb_def d(1) c(1))
  ultimately show thesis using that live_same_trans [OF s1] live_same_trans [OF ts(3)] by blast
qed

lemma flags_frame: "drop_bit 12 (ucast (flags :: u8) :: u32) = 0"
  by (rule bit_word_eqI) (auto simp: bit_simps dest: bit_imp_le_length)

lemma spaceE:
  assumes "space L flags c m"
  obtains d ts where "built (L(c \<mapsto> 1)) flags d ts m" "length ts = 1024" "directory_entry m c = d"
    "distinct (c # d # ts)" "\<And>p. p \<in> set (c # d # ts) \<Longrightarrow> L p = None"
    "heap_live kheap m (grab L (c # d # ts))"
    "\<And>k. k < 1024 \<Longrightarrow> pd_table m d k = ts ! k"
proof -
  obtain d ts where b: "built (L(c \<mapsto> 1)) flags d ts m" and len: "length ts = 1024"
    and d: "load32 m c = d" and c: "L c = None"
    using assms by (auto simp: space_def)
  have ne: "p \<noteq> c \<and> L p = None" if "p \<in> set (d # ts)" for p
    using b that by (cases "p = c") (auto simp: built_def)
  have "grab (L(c \<mapsto> 1)) (d # ts) = grab L (c # d # ts)"
    by (auto simp: grab_def map_add_def fun_eq_iff)
  then have live: "heap_live kheap m (grab L (c # d # ts))" using b by (simp add: built_def)
  have t: "pd_table m d k = ts ! k" if "k < 1024" for k
  proof -
    have "drop_bit 12 (ucast flags OR PAGING_IS_WRITEABLE) = (0 :: u32)"
      by (simp only: drop_bit_or flags_frame PAGING_IS_WRITEABLE_def) (simp add: drop_bit_eq_div)
    then show ?thesis
      using frame_of_or [of "ts ! k" "ucast flags OR PAGING_IS_WRITEABLE"] built_aligned [OF b] b that len
      by (simp add: pd_table_def built_def or.assoc)
  qed
  have "distinct (c # d # ts)" using b ne by (auto simp: built_def)
  moreover have "L p = None" if "p \<in> set (c # d # ts)" for p using that ne c by auto
  moreover have "directory_entry m c = d" using d by (simp add: directory_entry_def)
  ultimately show thesis using that [OF b len _ _ _ live t] by blast
qed

lemma space_chunk_wf: "space L flags c m \<Longrightarrow> chunk_wf c m"
proof -
  assume "space L flags c m"
  then obtain d ts where s: "length ts = 1024" "directory_entry m c = d" "distinct (c # d # ts)"
      "built (L(c \<mapsto> 1)) flags d ts m" "heap_live kheap m (grab L (c # d # ts))"
      and t: "\<And>k. k < 1024 \<Longrightarrow> pd_table m d k = ts ! k"
    by (rule spaceE) blast
  have inj: "inj_on (pd_table m d) {..<1024}"
    using s(1,3) t by (auto simp: inj_on_def nth_eq_iff_index_eq)
  have "region c 4 \<inter> region (ts ! k) 4096 = {}" if k: "k < 1024" for k
  proof -
    have "block_region c 1 \<inter> block_region (ts ! k) 1 = {}"
      using s k by (intro kh.live_disjoint [OF s(5)]) auto
    then show ?thesis using region_mono [of 4 4096 c] by (auto simp: block_region_1)
  qed
  then have "region c 4 \<inter> table_pages m d = {}" by (auto simp: table_pages_def t)
  moreover have "pd_table m d k \<noteq> d" if "k < 1024" for k using s(1,3) t that by auto
  ultimately show ?thesis
    using inj built_aligned [OF s(4)] by (simp add: chunk_wf_def page_wf_def s(2))
qed

lemma space_get:
  assumes "space L flags c m"
  shows "aligned 4096 v \<Longrightarrow> paging_get m (directory_entry m c) v = v OR ucast flags"
    and "pde_present m (directory_entry m c) v = bit flags 0"
proof -
  obtain d ts where s: "length ts = 1024" "directory_entry m c = d"
      "built (L(c \<mapsto> 1)) flags d ts m" and t: "\<And>k. k < 1024 \<Longrightarrow> pd_table m d k = ts ! k"
    using assms by (rule spaceE) blast
  have "load32 m (d + of_nat (4 * dir_index v)) = ts ! dir_index v OR ucast flags OR PAGING_IS_WRITEABLE"
    using s(1,3) index_less(1) [of v] by (simp add: built_def)
  moreover have "\<not> bit (ts ! dir_index v) 0"
  proof -
    have "take_bit 12 (ts ! dir_index v) = 0"
      using built_aligned [OF s(3)] index_less(1) [of v] s(1) by (simp add: aligned_page_iff [symmetric])
    then have "bit (take_bit 12 (ts ! dir_index v)) 0 = bit (0 :: u32) 0" by (rule arg_cong)
    then show ?thesis by (simp add: bit_simps)
  qed
  ultimately show "pde_present m (directory_entry m c) v = bit flags 0"
    by (simp add: pde_present_def s(2) bit_simps PAGING_IS_WRITEABLE_def)
  assume v: "aligned 4096 v"
  have "4096 * (1024 * dir_index v + tab_index v) = unat v"
  proof -
    obtain a where a: "unat v = 4096 * a" using v unfolding aligned_def by (elim dvdE)
    have "unat v mod (4096 * 1024) div 4096 = a mod 1024" by (simp add: a mod_mult2_eq [of _ 4096 1024, simplified])
    moreover have "unat v div (4096 * 1024) = a div 1024" by (simp add: a div_mult2_eq [of _ 4096 1024, simplified])
    ultimately show ?thesis by (simp add: dir_index_def tab_index_def a)
  qed
  then have "of_nat (4096 * (1024 * dir_index v + tab_index v)) = v" by simp
  moreover have "load32 m (ts ! dir_index v + of_nat (4 * tab_index v)) =
      of_nat (4096 * (1024 * dir_index v + tab_index v)) OR ucast flags"
    using s(3) index_less [of v] unfolding built_def s(1) by blast
  ultimately show "paging_get m (directory_entry m c) v = v OR ucast flags"
    using v index_less(1) [of v] by (simp add: paging_get_eq s(2) pte_addr_def t)
qed

lemma space_mmu:
  assumes "space L flags c m" and "bit flags 0"
  shows "mmu_translate m (directory_entry m c) v = Some v"
proof -
  have "aligned 4096 (directory_entry m c)"
    using space_chunk_wf [OF assms(1)] by (simp add: chunk_wf_def page_wf_def)
  moreover have "((v AND 0xFFFFF000) OR ucast flags) AND 0xFFFFF000 = v AND 0xFFFFF000"
    by (rule frame_of_or [OF frame_aligned flags_frame])
  moreover have "(v AND 0xFFFFF000) + take_bit 12 v = v"
    by (simp add: lower_page [symmetric] paging_align_to_lower_page_def word_mod_page)
  ultimately show ?thesis
    using space_get [OF assms(1)] assms(2) by (simp add: mmu_eq Let_def bit_simps)
qed

text \<open>
  C18. \<open>paging_new_4gb\<close>, with 1026 free blocks in the kernel heap and the present flag, yields
  an address space in which the processor maps every address to itself and every entry
  carries the flags asked for; no byte of another allocation changes.
\<close>

theorem paging_new_4gb_identity:
  assumes "heap_live kheap m L" and "1026 \<le> heap_avail kheap L" and "bit flags 0"
  shows "\<exists>c m'. paging_new_4gb kheap flags m = (c, m') \<and> chunk_wf c m' \<and> L c = None
    \<and> (\<forall>v. mmu_translate m' (directory_entry m' c) v = Some v)
    \<and> (\<forall>v. aligned 4096 v \<longrightarrow> paging_get m' (directory_entry m' c) v = v OR ucast flags)
    \<and> (\<forall>q n a. L q = Some n \<longrightarrow> a \<in> block_region q n \<longrightarrow> m' a = m a)"
proof -
  obtain c m' where "paging_new_4gb kheap flags m = (c, m')" "space L flags c m'" "live_same L m m'"
    using assms(1,2) by (rule new_4gb_space)
  moreover from this(2) have "L c = None" by (simp add: space_def)
  ultimately show ?thesis
    using space_chunk_wf space_get(1) space_mmu [OF _ assms(3)] by (auto simp: live_same_def)
qed

lemma kernel_space: obtains c m where "space Map.empty 7 c m"
proof (rule new_4gb_space)
  show "heap_live kheap (\<lambda>_. 0) Map.empty" "1026 \<le> heap_avail kheap Map.empty"
    by (simp_all add: kernel_empty)
qed

theorem paging_new_4gb_identity_witness:
  "\<exists>c m'. paging_new_4gb kheap 7 (\<lambda>_. 0) = (c, m') \<and> mmu_translate m' (directory_entry m' c) 0xB8123 = Some 0xB8123"
  using paging_new_4gb_identity [OF kernel_empty(1), of 7] by (auto simp: kernel_empty(2))

section \<open>Freeing an address space\<close>

lemma meta_kept:
  assumes "same_outside (table_region kheap) m m'" "heap_live kheap m L" "L p = Some 1" "j < 1024"
  shows "load32 m' (p + of_nat (4 * j)) = load32 m (p + of_nat (4 * j))"
  using assms(1) by (rule words_kept) (use kh.live_ok [OF assms(2,3)] assms(4) in \<open>simp_all add: block_region_1\<close>)

lemma free_loop_live:
  assumes "heap_live kheap m (grab L (c # d # drop i ts))" and "distinct (c # d # ts)"
    and "\<And>p. p \<in> set (c # d # ts) \<Longrightarrow> L p = None" and "length ts = 1024" and "i \<le> 1024"
    and "directory_entry m c = d" and "\<And>k. k < 1024 \<Longrightarrow> pd_table m d k = ts ! k"
  shows "heap_live kheap (paging_free_loop kheap c i m) (grab L [c, d])
    \<and> directory_entry (paging_free_loop kheap c i m) c = d
    \<and> same_outside (table_region kheap) m (paging_free_loop kheap c i m)"
  using assms
proof (induction "1024 - i" arbitrary: i m)
  case 0
  then have "paging_free_loop kheap c i m = m" by (subst paging_free_loop.simps) simp
  then show ?case using 0 by simp
next
  case (Suc n)
  let ?L = "grab L (c # d # drop i ts)" and ?m = "kfree kheap (ts ! i) m"
  have i: "i < 1024" using Suc.hyps(2) by simp
  have dr: "drop i ts = ts ! i # drop (i + 1) ts" using i Suc.prems(4) by (simp add: Cons_nth_drop_Suc)
  have t: "?L (ts ! i) = Some 1" by (simp add: dr)
  note f = kh.dealloc_ok [OF Suc.prems(1) t]
  have w: "load32 ?m (p + of_nat (4 * j)) = load32 m (p + of_nat (4 * j))" if "p = c \<or> p = d" "j < 1024" for p j
    by (rule meta_kept [OF conjunct2 [OF f] Suc.prems(1)]) (use that in auto)
  have de: "directory_entry ?m c = d" using w [of c 0] Suc.prems(6) by (simp add: directory_entry_def)
  have pt: "pd_table ?m d k = ts ! k" if "k < 1024" for k
    using Suc.prems(7) [OF that] w [of d k] that by (simp add: pd_table_def)
  have ni: "ts ! i \<notin> set (c # d # drop (i + 1) ts)" "L (ts ! i) = None"
  proof -
    have "distinct (c # d # drop i ts)"
      using Suc.prems(2) by (auto dest: in_set_dropD)
    then show "ts ! i \<notin> set (c # d # drop (i + 1) ts)" unfolding dr by auto
    show "L (ts ! i) = None" using Suc.prems(3,4) i by simp
  qed
  have "?L(ts ! i := None) = grab L (c # d # drop (i + 1) ts)"
    using ni unfolding dr by (auto simp: grab_def map_add_def fun_eq_iff)
  then have live: "heap_live kheap ?m (grab L (c # d # drop (i + 1) ts))" using f by simp
  have "paging_free_loop kheap c i m = paging_free_loop kheap c (i + 1) ?m"
    using i Suc.prems(6,7) by (subst paging_free_loop.simps) (simp add: pd_table_def)
  then show ?case using Suc.hyps(1) [OF _ live Suc.prems(2,3,4) _ de pt] Suc.hyps(2) i f
    by (auto intro: same_outside_trans1)
qed

lemma space_free:
  assumes "space L flags c m"
  shows "heap_live kheap (paging_free_4gb kheap c m) L
    \<and> same_outside (table_region kheap) m (paging_free_4gb kheap c m)"
proof -
  obtain d ts where s: "length ts = 1024" "directory_entry m c = d" "distinct (c # d # ts)"
      "\<And>p. p \<in> set (c # d # ts) \<Longrightarrow> L p = None" "heap_live kheap m (grab L (c # d # ts))"
      "\<And>k. k < 1024 \<Longrightarrow> pd_table m d k = ts ! k"
    using assms by (rule spaceE) blast
  let ?m1 = "paging_free_loop kheap c 0 m"
  have l: "heap_live kheap ?m1 (grab L [c, d])" "directory_entry ?m1 c = d"
      "same_outside (table_region kheap) m ?m1"
    using free_loop_live [of m L c d 0 ts] s by auto
  have g: "(grab L [c, d])(d := None) = L(c \<mapsto> 1)"
    using s(3,4) by (auto simp: grab_def map_add_def fun_eq_iff)
  have d1: "heap_live kheap (kfree kheap d ?m1) (L(c \<mapsto> 1))"
      "same_outside (table_region kheap) ?m1 (kfree kheap d ?m1)"
    using kh.dealloc_ok [OF l(1), of d 1] unfolding g by simp_all
  have "(L(c \<mapsto> 1))(c := None) = L" using s(4) by auto
  then have "heap_live kheap (kfree kheap c (kfree kheap d ?m1)) L
      \<and> same_outside (table_region kheap) (kfree kheap d ?m1) (kfree kheap c (kfree kheap d ?m1))"
    using kh.dealloc_ok [OF d1(1), of c 1] by simp
  then show ?thesis
    using l(2,3) d1(2) by (auto simp: paging_free_4gb_def Let_def intro: same_outside_trans1)
qed

text \<open>
  C27. \<open>paging_free_4gb\<close> gives back exactly the 1026 pages \<open>paging_new_4gb\<close> took: the live
  allocations afterwards are those from before, and their contents are unchanged.
\<close>

theorem paging_new_free_roundtrip:
  assumes "heap_live kheap m L" and "1026 \<le> heap_avail kheap L"
  shows "\<exists>c m'. paging_new_4gb kheap flags m = (c, m') \<and> L c = None
    \<and> heap_live kheap (paging_free_4gb kheap c m') L
    \<and> (\<forall>q n a. L q = Some n \<longrightarrow> a \<in> block_region q n \<longrightarrow> paging_free_4gb kheap c m' a = m a)"
proof -
  obtain c m' where n: "paging_new_4gb kheap flags m = (c, m')" "space L flags c m'" "live_same L m m'"
    using assms by (rule new_4gb_space)
  note f = space_free [OF n(2)]
  have "paging_free_4gb kheap c m' a = m a" if "L q = Some k" "a \<in> block_region q k" for q k a
  proof -
    have "paging_free_4gb kheap c m' a = m' a"
      using f kh.live_ok [OF assms(1) that(1)] that(2) by (intro same_outsideD [of "table_region kheap"]) auto
    then show ?thesis using n(3) that by (simp add: live_same_def)
  qed
  moreover have "L c = None" using n(2) by (simp add: space_def)
  ultimately show ?thesis using n(1) f by blast
qed

theorem paging_new_free_roundtrip_witness:
  "\<exists>c m'. paging_new_4gb kheap 7 (\<lambda>_. 0) = (c, m') \<and> heap_live kheap (paging_free_4gb kheap c m') Map.empty"
  using paging_new_free_roundtrip [OF kernel_empty(1), of 7] by (auto simp: kernel_empty(2))

text \<open>
  \<open>paging_map_to\<close> rejects, and changes nothing for, a virtual start, physical start or
  physical end that is not page aligned, and a physical end below the start; on aligned
  arguments in order it returns 0 for every directory.
\<close>

theorem paging_map_to_result:
  assumes "chunk_wf c m"
  shows "if aligned 4096 v \<and> aligned 4096 p \<and> aligned 4096 pe \<and> p \<le> pe
    then fst (paging_map_to c v p pe flags m) = 0
    else paging_map_to c v p pe flags m = (- EINVARG, m)"
  using map_to_eq [OF assms] by (auto simp: paging_map_to_def aligned_mod_page)

theorem paging_map_to_result_witness:
  "\<exists>c m. paging_map_to c 0x1000 0x2000 0x2800 7 m = (- 2, m)
    \<and> fst (paging_map_to c 0x1000 0x2000 0x3000 7 m) = 0"
proof -
  obtain c m where "space Map.empty 7 c m" by (rule kernel_space)
  then show ?thesis
    using paging_map_to_result [OF space_chunk_wf, of Map.empty 7 c m "0x1000" "0x2000" "0x2800" 7]
      paging_map_to_result [OF space_chunk_wf, of Map.empty 7 c m "0x1000" "0x2000" "0x3000" 7]
    by (auto simp: aligned_def)
qed

text \<open>The mapping theorem applies to a fresh address space.\<close>

theorem paging_map_to_translates_witness:
  "\<exists>c m m'. paging_map_to c 0x400000 0x1800000 0x1802000 7 m = (0, m')
    \<and> mmu_translate m' (directory_entry m c) 0x401234 = Some 0x1801234"
proof -
  obtain c m where s: "space Map.empty 7 c m" by (rule kernel_space)
  have "\<exists>m'. paging_map_to c 0x400000 0x1800000 0x1802000 7 m = (0, m') \<and> chunk_wf c m'
    \<and> directory_entry m' c = directory_entry m c
    \<and> same_outside (chunk_tables c m) m m'
    \<and> (\<forall>k. k < unat ((0x1802000 :: u32) - 0x1800000) \<longrightarrow>
         mmu_translate m' (directory_entry m c) (0x400000 + of_nat k) = Some (0x1800000 + of_nat k))
    \<and> (\<forall>w. w \<notin> region 0x400000 (unat ((0x1802000 :: u32) - 0x1800000)) \<longrightarrow>
         mmu_translate m' (directory_entry m c) w = mmu_translate m (directory_entry m c) w)"
  proof (rule paging_map_to_translates [OF space_chunk_wf [OF s]])
    show "drop_bit 12 (u32_of_int 7) = 0" by (simp add: drop_bit_eq_div)
    show "pde_present m (directory_entry m c) w" for w using space_get(2) [OF s] by simp
  qed (simp_all add: aligned_def)
  then obtain m' where m': "paging_map_to c 0x400000 0x1800000 0x1802000 7 m = (0, m')"
    and t: "\<forall>k. k < unat ((0x1802000 :: u32) - 0x1800000) \<longrightarrow>
         mmu_translate m' (directory_entry m c) (0x400000 + of_nat k) = Some (0x1800000 + of_nat k)"
    by blast
  have "mmu_translate m' (directory_entry m c) (0x400000 + of_nat 0x1234) = Some (0x1800000 + of_nat 0x1234)"
    by (rule t [rule_format]) simp
  then show ?thesis using m' by auto
qed

theorem paging_physical_address_mmu_witness:
  "\<exists>c m. mmu_translate m (directory_entry m c) 0x1234567 = Some 0x1234567
    \<and> paging_get_physical_address m (directory_entry m c) 0x1234567 = 0x1234567"
proof -
  obtain c m where s: "space Map.empty 7 c m" by (rule kernel_space)
  have "aligned 4096 (directory_entry m c)"
    using space_chunk_wf [OF s] by (simp add: chunk_wf_def page_wf_def)
  moreover have "mmu_translate m (directory_entry m c) 0x1234567 = Some 0x1234567"
    using s by (rule space_mmu) simp
  ultimately show ?thesis using paging_physical_address_mmu by blast
qed

end
