(* ===== verification/Task.thy ===== *)
theory Task
  imports Elf PagingNew
begin

text \<open>
  \<^verbatim>\<open>src/src/task/task.c\<close>: the doubly linked list of tasks, their saved registers, and the
  kernel's access to a task's memory through the task's own page directory.
  \<^verbatim>\<open>struct task\<close> (64 bytes): \<open>page_directory\<close> 0, \<open>registers\<close> 4 (\<open>edi esi ebp ebx edx ecx eax
  ip cs flags esp ss\<close>, 4 bytes each), \<open>process\<close> 52, \<open>next\<close> 56, \<open>prev\<close> 60.
  \<^verbatim>\<open>struct interrupt_frame\<close> (52 bytes): \<open>edi esi ebp reserved ebx edx ecx eax ip cs flags esp ss\<close>.

  The global variables are a record that extends the paging state; the data segment
  registers, which \<^verbatim>\<open>kernel_registers\<close> and \<^verbatim>\<open>user_registers\<close> set, are one selector of it.
  A kernel panic is None. \<^verbatim>\<open>task_return\<close> leaves the kernel for the user program: the functions
  that end in it give the address of the registers they hand over.
\<close>

section \<open>State and fields\<close>

record tasks = paging_state +
  current_task :: u32
  task_tail :: u32
  task_head :: u32
  kernel_chunk :: u32
  data_segment :: u16

definition USER_DATA_SEGMENT :: u32 where "USER_DATA_SEGMENT = 0x23"
definition USER_CODE_SEGMENT :: u32 where "USER_CODE_SEGMENT = 0x1b"
definition SIMPOS_PROGRAM_VIRTUAL_STACK_ADDRESS_START :: u32 where
  "SIMPOS_PROGRAM_VIRTUAL_STACK_ADDRESS_START = 0x3FF000"

definition task_page_directory :: "mem \<Rightarrow> u32 \<Rightarrow> u32" where "task_page_directory m task = load32 m task"
definition task_process :: "mem \<Rightarrow> u32 \<Rightarrow> u32" where "task_process m task = load32 m (task + 52)"
definition task_next_field :: "mem \<Rightarrow> u32 \<Rightarrow> u32" where "task_next_field m task = load32 m (task + 56)"
definition task_prev_field :: "mem \<Rightarrow> u32 \<Rightarrow> u32" where "task_prev_field m task = load32 m (task + 60)"
definition task_registers :: "u32 \<Rightarrow> u32" where "task_registers task = task + 4"

definition kernel_registers :: "'a tasks_scheme \<Rightarrow> 'a tasks_scheme" where
  "kernel_registers K = K\<lparr>data_segment := 0x10\<rparr>"
definition user_registers :: "'a tasks_scheme \<Rightarrow> 'a tasks_scheme" where
  "user_registers K = K\<lparr>data_segment := 0x23\<rparr>"
definition kernel_page :: "mem \<Rightarrow> 'a tasks_scheme \<Rightarrow> 'a tasks_scheme" where
  "kernel_page m K = (let K = kernel_registers K in paging_switch m (kernel_chunk K) K)"

section \<open>The list of tasks\<close>

definition task_current :: "'a tasks_scheme \<Rightarrow> u32" where "task_current K = current_task K"

definition task_get_next :: "mem \<Rightarrow> 'a tasks_scheme \<Rightarrow> u32" where
  "task_get_next m K =
     (if task_next_field m (current_task K) = 0 then task_head K else task_next_field m (current_task K))"

definition task_list_remove :: "u32 \<Rightarrow> 'a tasks_scheme \<Rightarrow> mem \<Rightarrow> 'a tasks_scheme \<times> mem" where
  "task_list_remove task K m =
     (let m = (if task_prev_field m task \<noteq> 0
               then store32 m (task_prev_field m task + 56) (task_next_field m task) else m);
          K = (if task = task_head K then K\<lparr>task_head := task_next_field m task\<rparr> else K);
          K = (if task = task_tail K then K\<lparr>task_tail := task_prev_field m task\<rparr> else K);
          K = (if task = current_task K then K\<lparr>current_task := task_get_next m K\<rparr> else K)
      in (K, m))"

definition task_free :: "heap \<Rightarrow> u32 \<Rightarrow> 'a tasks_scheme \<Rightarrow> mem \<Rightarrow> int \<times> 'a tasks_scheme \<times> mem" where
  "task_free h task K m =
     (let m = paging_free_4gb h (task_page_directory m task) m in
      case task_list_remove task K m of (K, m) \<Rightarrow> (0, K, kfree h task m))"

definition task_switch :: "u32 \<Rightarrow> mem \<Rightarrow> 'a tasks_scheme \<Rightarrow> 'a tasks_scheme" where
  "task_switch task m K =
     (let K = K\<lparr>current_task := task\<rparr> in paging_switch m (task_page_directory m task) K)"

text \<open>The result is the state and the registers handed to \<^verbatim>\<open>task_return\<close>.\<close>

definition task_next :: "mem \<Rightarrow> 'a tasks_scheme \<Rightarrow> ('a tasks_scheme \<times> u32) option" where
  "task_next m K =
     (let next_task = task_get_next m K in
      if next_task = 0 then None else Some (task_switch next_task m K, task_registers next_task))"

definition task_run_first_ever_task :: "mem \<Rightarrow> 'a tasks_scheme \<Rightarrow> ('a tasks_scheme \<times> u32) option" where
  "task_run_first_ever_task m K =
     (if current_task K = 0 then None
      else let K = task_switch (task_head K) m K in Some (K, task_registers (task_head K)))"

definition task_page :: "mem \<Rightarrow> 'a tasks_scheme \<Rightarrow> 'a tasks_scheme" where
  "task_page m K = (let K = user_registers K in task_switch (current_task K) m K)"

definition task_page_task :: "u32 \<Rightarrow> mem \<Rightarrow> 'a tasks_scheme \<Rightarrow> 'a tasks_scheme" where
  "task_page_task task m K = (let K = user_registers K in paging_switch m (task_page_directory m task) K)"

section \<open>Creating a task\<close>

text \<open>\<open>filetype\<close> is the byte at 8308 of \<^verbatim>\<open>struct process\<close>, \<open>elf_file\<close> the word at 8312.\<close>

definition process_filetype :: "mem \<Rightarrow> u32 \<Rightarrow> u8" where "process_filetype m process = m (process + 8308)"
definition process_elf_file :: "mem \<Rightarrow> u32 \<Rightarrow> u32" where "process_elf_file m process = load32 m (process + 8312)"
definition PROCESS_FILETYPE_ELF :: u8 where "PROCESS_FILETYPE_ELF = 0"

definition task_init :: "heap \<Rightarrow> u32 \<Rightarrow> u32 \<Rightarrow> mem \<Rightarrow> int \<times> mem" where
  "task_init h task process m =
     (let m = memset m task 0 64;
          (chunk, m) = paging_new_4gb h (ucast (PAGING_IS_PRESENT OR PAGING_ACCESS_FROM_ALL)) m;
          m = store32 m task chunk
      in if task_page_directory m task = 0 then (- EIO, m)
         else let m = store32 m (task + 32) SIMPOS_PROGRAM_VIRTUAL_ADDRESS;
                  m = (if process_filetype m process = PROCESS_FILETYPE_ELF
                       then store32 m (task + 32) (e_entry m (elf_header m (process_elf_file m process))) else m);
                  m = store32 m (task + 48) USER_DATA_SEGMENT;
                  m = store32 m (task + 36) USER_CODE_SEGMENT;
                  m = store32 m (task + 44) SIMPOS_PROGRAM_VIRTUAL_STACK_ADDRESS_START
              in (0, store32 m (task + 52) process))"

text \<open>The code behind the label \<^verbatim>\<open>out\<close>: on an error also a null \<open>task\<close> is passed to \<open>task_free\<close>.\<close>

definition task_new_out :: "heap \<Rightarrow> int \<Rightarrow> u32 \<Rightarrow> 'a tasks_scheme \<Rightarrow> mem \<Rightarrow> u32 \<times> 'a tasks_scheme \<times> mem" where
  "task_new_out h res task K m =
     (if res < 0 then case task_free h task K m of (_, K, m) \<Rightarrow> (u32_of_int res, K, m) else (task, K, m))"

definition task_new :: "heap \<Rightarrow> u32 \<Rightarrow> 'a tasks_scheme \<Rightarrow> mem \<Rightarrow> u32 \<times> 'a tasks_scheme \<times> mem" where
  "task_new h process K m =
     (case kzalloc h 64 m of (task, m) \<Rightarrow>
      if task = 0 then task_new_out h (- ENOMEM) task K m
      else case task_init h task process m of (res, m) \<Rightarrow>
      if res \<noteq> SIMPOS_ALL_OK then task_new_out h res task K m
      else if task_head K = 0
      then task_new_out h res task (K\<lparr>task_head := task, task_tail := task, current_task := task\<rparr>) m
      else let m = store32 m (task_tail K + 56) task;
               m = store32 m (task + 60) (task_tail K)
           in task_new_out h res task (K\<lparr>task_tail := task\<rparr>) m)"

section \<open>Saving the registers\<close>

definition task_save_state :: "u32 \<Rightarrow> u32 \<Rightarrow> mem \<Rightarrow> mem" where
  "task_save_state task frame m =
     (let m = store32 m (task + 32) (load32 m (frame + 32));
          m = store32 m (task + 36) (load32 m (frame + 36));
          m = store32 m (task + 40) (load32 m (frame + 40));
          m = store32 m (task + 44) (load32 m (frame + 44));
          m = store32 m (task + 48) (load32 m (frame + 48));
          m = store32 m (task + 28) (load32 m (frame + 28));
          m = store32 m (task + 12) (load32 m (frame + 8));
          m = store32 m (task + 16) (load32 m (frame + 16));
          m = store32 m (task + 24) (load32 m (frame + 24));
          m = store32 m (task + 4) (load32 m frame);
          m = store32 m (task + 20) (load32 m (frame + 20))
      in store32 m (task + 8) (load32 m (frame + 4)))"

definition task_current_save_state :: "u32 \<Rightarrow> 'a tasks_scheme \<Rightarrow> mem \<Rightarrow> mem option" where
  "task_current_save_state frame K m =
     (if task_current K = 0 then None else Some (task_save_state (task_current K) frame m))"

section \<open>Reading a task's memory\<close>

text \<open>
  While the task's directory is loaded every address goes through the page walk; an address
  that is not mapped faults (None).
\<close>

definition vload8 :: "mem \<Rightarrow> u32 \<Rightarrow> u32 \<Rightarrow> u8 option" where
  "vload8 m cr va = map_option m (mmu_translate m cr va)"

definition vload32 :: "mem \<Rightarrow> u32 \<Rightarrow> u32 \<Rightarrow> u32 option" where
  "vload32 m cr va =
     do { b0 \<leftarrow> vload8 m cr va; b1 \<leftarrow> vload8 m cr (va + 1); b2 \<leftarrow> vload8 m cr (va + 2); b3 \<leftarrow> vload8 m cr (va + 3);
          Some (ucast b0 OR push_bit 8 (ucast b1) OR push_bit 16 (ucast b2) OR push_bit 24 (ucast b3)) }"

definition vstore8 :: "mem \<Rightarrow> u32 \<Rightarrow> u32 \<Rightarrow> u8 \<Rightarrow> mem option" where
  "vstore8 m cr va b = map_option (\<lambda>pa. m(pa := b)) (mmu_translate m cr va)"

text \<open>\<open>strncpy\<close> on virtual addresses.\<close>

function vstrncpy_loop :: "mem \<Rightarrow> u32 \<Rightarrow> u32 \<Rightarrow> u32 \<Rightarrow> int \<Rightarrow> int \<Rightarrow> mem option" where
  "vstrncpy_loop m cr dest src count i =
     (if i < count - 1
      then do {
        c \<leftarrow> vload8 m cr (src + u32_of_int i);
        if c = 0 then vstore8 m cr (dest + u32_of_int i) 0
        else do { m \<leftarrow> vstore8 m cr (dest + u32_of_int i) c; vstrncpy_loop m cr dest src count (i + 1) } }
      else vstore8 m cr (dest + u32_of_int i) 0)"
  by auto
termination by (relation "measure (\<lambda>(_, _, _, _, count, i). nat (count - 1 - i))") auto

declare vstrncpy_loop.simps [simp del]

definition vstrncpy :: "mem \<Rightarrow> u32 \<Rightarrow> u32 \<Rightarrow> u32 \<Rightarrow> int \<Rightarrow> mem option" where
  "vstrncpy m cr dest src count = vstrncpy_loop m cr dest src count 0"

text \<open>The buffer \<open>tmp\<close> is freed only when \<open>paging_set\<close> fails.\<close>

definition copy_string_from_task ::
  "heap \<Rightarrow> u32 \<Rightarrow> u32 \<Rightarrow> u32 \<Rightarrow> int \<Rightarrow> 'a tasks_scheme \<Rightarrow> mem \<Rightarrow> (int \<times> 'a tasks_scheme \<times> mem) option" where
  "copy_string_from_task h task virtual phys max_len K m =
     (if max_len \<ge> uint PAGING_PAGE_SIZE then Some (- EINVARG, K, m)
      else case kzalloc h (u32_of_int max_len) m of (tmp, m) \<Rightarrow>
      if tmp = 0 then Some (- ENOMEM, K, m)
      else let task_directory = directory_entry m (task_page_directory m task);
               old_entry = paging_get m task_directory tmp;
               m = snd (paging_map (task_page_directory m task) tmp tmp
                     (uint (PAGING_IS_WRITEABLE OR PAGING_IS_PRESENT OR PAGING_ACCESS_FROM_ALL)) m);
               K = paging_switch m (task_page_directory m task) K
      in do {
        m \<leftarrow> vstrncpy m (cr3 K) tmp virtual max_len;
        let K = kernel_page m K in
        case paging_set task_directory tmp old_entry m of (res, m) \<Rightarrow>
        if res < 0 then Some (- EIO, K, kfree h tmp m)
        else Some (res, K, strncpy m phys tmp max_len) })"

definition task_get_stack_item :: "u32 \<Rightarrow> int \<Rightarrow> 'a tasks_scheme \<Rightarrow> mem \<Rightarrow> (u32 \<times> 'a tasks_scheme) option" where
  "task_get_stack_item task index K m =
     (let sp_ptr = load32 m (task + 44);
          K = task_page_task task m K
      in do { result \<leftarrow> vload32 m (cr3 K) (sp_ptr + u32_of_int (4 * index)); Some (result, kernel_page m K) })"

definition task_virtual_address_to_physical :: "u32 \<Rightarrow> u32 \<Rightarrow> mem \<Rightarrow> u32" where
  "task_virtual_address_to_physical task virtual_address m =
     paging_get_physical_address m (directory_entry m (task_page_directory m task)) virtual_address"

end
