(* ===== verification/Process.thy ===== *)
theory Process
  imports Task
begin

text \<open>
  \<^verbatim>\<open>src/src/task/process.c\<close>: loading, memory and termination of processes.
  \<^verbatim>\<open>struct process\<close> (9364 bytes): \<open>id\<close> 0 (16 bit), \<open>filename\<close> 2, \<open>task\<close> 112, \<open>allocations\<close> 116
  (1024 pairs of \<open>ptr\<close> and \<open>size\<close>), \<open>filetype\<close> 8308, the union of \<open>ptr\<close> and \<open>elf_file\<close> 8312,
  \<open>stack\<close> 8316, \<open>size\<close> 8320, the keyboard buffer 8324, its \<open>tail\<close> 9348 and \<open>head\<close> 9352,
  \<open>arguments.argc\<close> 9356 and \<open>arguments.argv\<close> 9360. \<^verbatim>\<open>struct command_argument\<close> (516 bytes):
  \<open>argument\<close> 0, \<open>next\<close> 512.
\<close>

section \<open>State and fields\<close>

record kernel = tasks +
  current_process :: u32
  processes :: "int \<Rightarrow> u32"

definition SIMPOS_MAX_PROCESSES :: int where "SIMPOS_MAX_PROCESSES = 12"
definition SIMPOS_MAX_PROGRAM_ALLOCATIONS :: int where "SIMPOS_MAX_PROGRAM_ALLOCATIONS = 1024"
definition SIMPOS_USER_PROGRAM_STACK_SIZE :: u32 where "SIMPOS_USER_PROGRAM_STACK_SIZE = 1024 * 16"
definition SIMPOS_PROGRAM_VIRTUAL_STACK_ADDRESS_END :: u32 where
  "SIMPOS_PROGRAM_VIRTUAL_STACK_ADDRESS_END =
     SIMPOS_PROGRAM_VIRTUAL_STACK_ADDRESS_START - SIMPOS_USER_PROGRAM_STACK_SIZE"
definition PROCESS_FILETYPE_BINARY :: u8 where "PROCESS_FILETYPE_BINARY = 1"
definition PF_W :: u32 where "PF_W = 0x02"

definition process_id :: "mem \<Rightarrow> u32 \<Rightarrow> int" where "process_id m process = uint (load16 m process)"
definition process_task :: "mem \<Rightarrow> u32 \<Rightarrow> u32" where "process_task m process = load32 m (process + 112)"
definition allocation_addr :: "u32 \<Rightarrow> int \<Rightarrow> u32" where
  "allocation_addr process i = process + 116 + u32_of_int (8 * i)"
definition allocation_ptr :: "mem \<Rightarrow> u32 \<Rightarrow> int \<Rightarrow> u32" where
  "allocation_ptr m process i = load32 m (allocation_addr process i)"
definition process_ptr :: "mem \<Rightarrow> u32 \<Rightarrow> u32" where "process_ptr m process = load32 m (process + 8312)"
definition process_stack :: "mem \<Rightarrow> u32 \<Rightarrow> u32" where "process_stack m process = load32 m (process + 8316)"
definition process_size :: "mem \<Rightarrow> u32 \<Rightarrow> u32" where "process_size m process = load32 m (process + 8320)"
definition process_argc :: "mem \<Rightarrow> u32 \<Rightarrow> u32" where "process_argc m process = load32 m (process + 9356)"
definition process_argv :: "mem \<Rightarrow> u32 \<Rightarrow> u32" where "process_argv m process = load32 m (process + 9360)"

definition flags_of :: "u32 \<Rightarrow> int" where "flags_of f = uint f"

definition process_init :: "u32 \<Rightarrow> mem \<Rightarrow> mem" where "process_init process m = memset m process 0 9364"

definition process_current :: "'a kernel_scheme \<Rightarrow> u32" where "process_current K = current_process K"

definition process_get :: "int \<Rightarrow> 'a kernel_scheme \<Rightarrow> u32" where
  "process_get n K = (if n < 0 \<or> n \<ge> SIMPOS_MAX_PROCESSES then 0 else processes K n)"

section \<open>The allocations of a process\<close>

function process_find_free_allocation_loop :: "mem \<Rightarrow> u32 \<Rightarrow> int \<Rightarrow> int" where
  "process_find_free_allocation_loop m process i =
     (if i < SIMPOS_MAX_PROGRAM_ALLOCATIONS
      then if allocation_ptr m process i = 0 then 1 else process_find_free_allocation_loop m process (i + 1)
      else - ENOMEM)"
  by auto
termination by (relation "measure (\<lambda>(_, _, i). nat (1024 - i))") (auto simp: SIMPOS_MAX_PROGRAM_ALLOCATIONS_def)

definition process_find_free_allocation_index :: "mem \<Rightarrow> u32 \<Rightarrow> int" where
  "process_find_free_allocation_index m process = process_find_free_allocation_loop m process 0"

function process_is_process_pointer_loop :: "mem \<Rightarrow> u32 \<Rightarrow> u32 \<Rightarrow> int \<Rightarrow> bool" where
  "process_is_process_pointer_loop m process ptr i =
     (if i < SIMPOS_MAX_PROGRAM_ALLOCATIONS
      then if allocation_ptr m process i = ptr then True else process_is_process_pointer_loop m process ptr (i + 1)
      else False)"
  by auto
termination by (relation "measure (\<lambda>(_, _, _, i). nat (1024 - i))") (auto simp: SIMPOS_MAX_PROGRAM_ALLOCATIONS_def)

definition process_is_process_pointer :: "mem \<Rightarrow> u32 \<Rightarrow> u32 \<Rightarrow> bool" where
  "process_is_process_pointer m process ptr = process_is_process_pointer_loop m process ptr 0"

function remove_process_allocation_loop :: "u32 \<Rightarrow> u32 \<Rightarrow> int \<Rightarrow> mem \<Rightarrow> mem" where
  "remove_process_allocation_loop process ptr i m =
     (if i < SIMPOS_MAX_PROGRAM_ALLOCATIONS
      then if allocation_ptr m process i = ptr
        then let m = store32 m (allocation_addr process i) 0x00
             in remove_process_allocation_loop process ptr (i + 1) (store32 m (allocation_addr process i + 4) 0)
        else remove_process_allocation_loop process ptr (i + 1) m
      else m)"
  by auto
termination by (relation "measure (\<lambda>(_, _, i, _). nat (1024 - i))") (auto simp: SIMPOS_MAX_PROGRAM_ALLOCATIONS_def)

definition remove_process_allocation :: "u32 \<Rightarrow> u32 \<Rightarrow> mem \<Rightarrow> mem" where
  "remove_process_allocation process ptr m = remove_process_allocation_loop process ptr 0 m"

function process_get_allocation_loop :: "mem \<Rightarrow> u32 \<Rightarrow> u32 \<Rightarrow> int \<Rightarrow> u32" where
  "process_get_allocation_loop m process addr i =
     (if i < SIMPOS_MAX_PROGRAM_ALLOCATIONS
      then if allocation_ptr m process i = addr then allocation_addr process i
        else process_get_allocation_loop m process addr (i + 1)
      else 0)"
  by auto
termination by (relation "measure (\<lambda>(_, _, _, i). nat (1024 - i))") (auto simp: SIMPOS_MAX_PROGRAM_ALLOCATIONS_def)

declare process_find_free_allocation_loop.simps [simp del] process_is_process_pointer_loop.simps [simp del]
  remove_process_allocation_loop.simps [simp del] process_get_allocation_loop.simps [simp del]

definition process_get_allocation_addr :: "mem \<Rightarrow> u32 \<Rightarrow> u32 \<Rightarrow> u32" where
  "process_get_allocation_addr m process addr = process_get_allocation_loop m process addr 0"

definition process_free :: "heap \<Rightarrow> u32 \<Rightarrow> u32 \<Rightarrow> mem \<Rightarrow> mem" where
  "process_free h process ptr m =
     (let allocation = process_get_allocation_addr m process ptr in
      if allocation = 0 then m
      else case paging_map_to (task_page_directory m (process_task m process)) (load32 m allocation) (load32 m allocation)
             (paging_align_address (load32 m allocation + load32 m (allocation + 4))) 0x00 m of (res, m) \<Rightarrow>
      if res < 0 then m
      else let m = remove_process_allocation process ptr m in kfree h ptr m)"

definition process_malloc_out_error :: "heap \<Rightarrow> u32 \<Rightarrow> mem \<Rightarrow> u32 \<times> mem" where
  "process_malloc_out_error h ptr m = (0, if ptr \<noteq> 0 then kfree h ptr m else m)"

definition process_malloc :: "heap \<Rightarrow> u32 \<Rightarrow> u32 \<Rightarrow> mem \<Rightarrow> u32 \<times> mem" where
  "process_malloc h process sz m =
     (case kzalloc h sz m of (ptr, m) \<Rightarrow>
      if ptr = 0 then process_malloc_out_error h ptr m
      else let index = process_find_free_allocation_index m process in
      if index < 0 then process_malloc_out_error h ptr m
      else case paging_map_to (task_page_directory m (process_task m process)) ptr ptr
             (paging_align_address (ptr + sz))
             (flags_of (PAGING_IS_WRITEABLE OR PAGING_IS_PRESENT OR PAGING_ACCESS_FROM_ALL)) m of (res, m) \<Rightarrow>
      if res < 0 then process_malloc_out_error h ptr m
      else let m = store32 m (allocation_addr process index) ptr
           in (ptr, store32 m (allocation_addr process index + 4) sz))"

definition process_switch :: "u32 \<Rightarrow> 'a kernel_scheme \<Rightarrow> int \<times> 'a kernel_scheme" where
  "process_switch process K = (0, K\<lparr>current_process := process\<rparr>)"

section \<open>Loading the file\<close>

text \<open>\<open>stat\<close> lies at \<open>sp - 8\<close>.\<close>

definition process_load_binary :: "sys \<Rightarrow> heap \<Rightarrow> u32 \<Rightarrow> u32 \<Rightarrow> u32 \<Rightarrow> mem \<Rightarrow> (int \<times> mem) option" where
  "process_load_binary S h sp filename process m =
     do { (fd, m) \<leftarrow> fopen S h (sp - 8) filename (literal_addr S [114]) m;
          if fd = 0 then Some (- EIO, m)
          else do {
            (res, m) \<leftarrow> fstat S fd (sp - 8) m;
            if res \<noteq> SIMPOS_ALL_OK then do { (_, m) \<leftarrow> fclose S h fd m; Some (res, m) }
            else case kzalloc h (load32 m (sp - 8 + 4)) m of (program_data_ptr, m) \<Rightarrow>
            if program_data_ptr = 0 then do { (_, m) \<leftarrow> fclose S h fd m; Some (- ENOMEM, m) }
            else do {
              (n, m) \<leftarrow> fread S (sp - 8) program_data_ptr (load32 m (sp - 8 + 4)) 1 fd m;
              if n \<noteq> 1 then do { (_, m) \<leftarrow> fclose S h fd m; Some (- EIO, kfree h program_data_ptr m) }
              else let m = m(process + 8308 := PROCESS_FILETYPE_BINARY);
                       m = store32 m (process + 8312) program_data_ptr;
                       m = store32 m (process + 8320) (load32 m (sp - 8 + 4))
                   in do { (_, m) \<leftarrow> fclose S h fd m; Some (res, m) } } } }"

definition process_load_elf :: "sys \<Rightarrow> heap \<Rightarrow> u32 \<Rightarrow> u32 \<Rightarrow> u32 \<Rightarrow> mem \<Rightarrow> (int \<times> mem) option" where
  "process_load_elf S h sp filename process m =
     do { (res, elf_file, m) \<leftarrow> elf_load S h sp filename 0 m;
          if res < 0 then Some (res, m)
          else let m = m(process + 8308 := PROCESS_FILETYPE_ELF)
               in Some (res, store32 m (process + 8312) elf_file) }"

definition process_load_data :: "sys \<Rightarrow> heap \<Rightarrow> u32 \<Rightarrow> u32 \<Rightarrow> u32 \<Rightarrow> mem \<Rightarrow> (int \<times> mem) option" where
  "process_load_data S h sp filename process m =
     do { (res, m) \<leftarrow> process_load_elf S h sp filename process m;
          if res = - EINFORMAT then process_load_binary S h sp filename process m else Some (res, m) }"

section \<open>Mapping it\<close>

definition process_map_binary :: "u32 \<Rightarrow> mem \<Rightarrow> int \<times> mem" where
  "process_map_binary process m =
     paging_map_to (task_page_directory m (process_task m process)) SIMPOS_PROGRAM_VIRTUAL_ADDRESS (process_ptr m process)
       (paging_align_address (process_ptr m process + process_size m process))
       (flags_of (PAGING_IS_PRESENT OR PAGING_ACCESS_FROM_ALL OR PAGING_IS_WRITEABLE)) m"

function process_map_elf_loop :: "u32 \<Rightarrow> u32 \<Rightarrow> u32 \<Rightarrow> u32 \<Rightarrow> int \<Rightarrow> int \<Rightarrow> mem \<Rightarrow> int \<times> mem" where
  "process_map_elf_loop process elf_file header phdrs i res m =
     (if i < e_phnum m header
      then let phdr = phdrs + u32_of_int (32 * i);
               phdr_phys_address = elf_phdr_phys_address m elf_file phdr;
               flags = PAGING_IS_PRESENT OR PAGING_ACCESS_FROM_ALL;
               flags = (if p_flags m phdr AND PF_W \<noteq> 0 then flags OR PAGING_IS_WRITEABLE else flags)
        in case paging_map_to (task_page_directory m (process_task m process)) (paging_align_to_lower_page (p_vaddr m phdr))
                  (paging_align_to_lower_page phdr_phys_address)
                  (paging_align_address (phdr_phys_address + p_memsz m phdr)) (flags_of flags) m of (res, m) \<Rightarrow>
          if res < 0 then (res, m) else process_map_elf_loop process elf_file header phdrs (i + 1) res m
      else (res, m))"
  by auto
termination
proof (relation "measure (\<lambda>(_, _, _, _, i, _, _). nat (65536 - i))")
  fix process elf_file header phdrs :: u32 and i res :: int and m :: mem and x xa xb xc xd xe y
  assume "i < e_phnum m header"
  moreover have "e_phnum m header < 65536" using uint_lt2p [of "load16 m (header + 44)"] by (simp add: e_phnum_def)
  ultimately show "((process, elf_file, header, phdrs, i + 1, xe, y), process, elf_file, header, phdrs, i, res, m)
    \<in> measure (\<lambda>(_, _, _, _, i, _, _). nat (65536 - i))" by simp
qed simp

declare process_map_elf_loop.simps [simp del]

definition process_map_elf :: "u32 \<Rightarrow> mem \<Rightarrow> int \<times> mem" where
  "process_map_elf process m =
     (let elf_file = process_elf_file m process; header = elf_header m elf_file; phdrs = elf_pheader m header
      in process_map_elf_loop process elf_file header phdrs 0 0 m)"

definition process_map_memory :: "u32 \<Rightarrow> mem \<Rightarrow> (int \<times> mem) option" where
  "process_map_memory process m =
     do { (res, m) \<leftarrow>
            (if process_filetype m process = PROCESS_FILETYPE_ELF then Some (process_map_elf process m)
             else if process_filetype m process = PROCESS_FILETYPE_BINARY then Some (process_map_binary process m)
             else None);
          if res < 0 then Some (res, m)
          else case paging_map_to (task_page_directory m (process_task m process)) SIMPOS_PROGRAM_VIRTUAL_STACK_ADDRESS_END
                 (process_stack m process)
                 (paging_align_address (process_stack m process + SIMPOS_USER_PROGRAM_STACK_SIZE))
                 (flags_of (PAGING_IS_PRESENT OR PAGING_ACCESS_FROM_ALL OR PAGING_IS_WRITEABLE)) m of (_, m) \<Rightarrow>
            Some (res, m) }"

section \<open>Termination\<close>

function process_switch_to_any_loop :: "int \<Rightarrow> 'a kernel_scheme \<Rightarrow> 'a kernel_scheme option" where
  "process_switch_to_any_loop i K =
     (if i < SIMPOS_MAX_PROCESSES
      then if processes K i \<noteq> 0 then Some (snd (process_switch (processes K i) K))
        else process_switch_to_any_loop (i + 1) K
      else None)"
  by auto
termination by (relation "measure (\<lambda>(i, _). nat (12 - i))") (auto simp: SIMPOS_MAX_PROCESSES_def)

declare process_switch_to_any_loop.simps [simp del]

definition process_switch_to_any :: "'a kernel_scheme \<Rightarrow> 'a kernel_scheme option" where
  "process_switch_to_any K = process_switch_to_any_loop 0 K"

definition process_unlink :: "u32 \<Rightarrow> 'a kernel_scheme \<Rightarrow> mem \<Rightarrow> 'a kernel_scheme option" where
  "process_unlink process K m =
     (let K = K\<lparr>processes := (processes K)(process_id m process := 0x00)\<rparr>
      in if current_process K = process then process_switch_to_any K else Some K)"

function process_terminate_allocations_loop :: "heap \<Rightarrow> u32 \<Rightarrow> int \<Rightarrow> mem \<Rightarrow> mem" where
  "process_terminate_allocations_loop h process i m =
     (if i < SIMPOS_MAX_PROGRAM_ALLOCATIONS
      then process_terminate_allocations_loop h process (i + 1)
        (if allocation_ptr m process i \<noteq> 0 then process_free h process (allocation_ptr m process i) m else m)
      else m)"
  by auto
termination by (relation "measure (\<lambda>(_, _, i, _). nat (1024 - i))") (auto simp: SIMPOS_MAX_PROGRAM_ALLOCATIONS_def)

declare process_terminate_allocations_loop.simps [simp del]

definition process_terminate_allocations :: "heap \<Rightarrow> u32 \<Rightarrow> mem \<Rightarrow> int \<times> mem" where
  "process_terminate_allocations h process m = (0, process_terminate_allocations_loop h process 0 m)"

definition process_free_binary_data :: "heap \<Rightarrow> u32 \<Rightarrow> mem \<Rightarrow> int \<times> mem" where
  "process_free_binary_data h process m =
     (0, if process_ptr m process \<noteq> 0 then kfree h (process_ptr m process) m else m)"

definition process_free_elf_data :: "heap \<Rightarrow> u32 \<Rightarrow> mem \<Rightarrow> int \<times> mem" where
  "process_free_elf_data h process m =
     (0, if process_elf_file m process \<noteq> 0 then elf_close h (process_elf_file m process) m else m)"

definition process_free_program_data :: "heap \<Rightarrow> u32 \<Rightarrow> mem \<Rightarrow> int \<times> mem" where
  "process_free_program_data h process m =
     (if process_filetype m process = PROCESS_FILETYPE_BINARY then process_free_binary_data h process m
      else if process_filetype m process = PROCESS_FILETYPE_ELF then process_free_elf_data h process m
      else (- EINVARG, m))"

definition process_free_process :: "heap \<Rightarrow> u32 \<Rightarrow> 'a kernel_scheme \<Rightarrow> mem \<Rightarrow> 'a kernel_scheme \<times> mem" where
  "process_free_process h process K m =
     (let m = snd (process_terminate_allocations h process m);
          m = snd (process_free_program_data h process m);
          m = (if process_stack m process \<noteq> 0
               then let m = kfree h (process_stack m process) m in store32 m (process + 8316) 0 else m);
          (K, m) = (if process_task m process \<noteq> 0
               then case task_free h (process_task m process) K m of (_, K, m) \<Rightarrow> (K, store32 m (process + 112) 0)
               else (K, m))
      in (K, kfree h process m))"

definition process_terminate :: "heap \<Rightarrow> u32 \<Rightarrow> 'a kernel_scheme \<Rightarrow> mem \<Rightarrow> ('a kernel_scheme \<times> mem) option" where
  "process_terminate h process K m =
     do { K \<leftarrow> process_unlink process K m; Some (process_free_process h process K m) }"

section \<open>Loading a process\<close>

function process_get_free_slot_loop :: "int \<Rightarrow> 'a kernel_scheme \<Rightarrow> int" where
  "process_get_free_slot_loop i K =
     (if i < SIMPOS_MAX_PROCESSES
      then if processes K i = 0 then i else process_get_free_slot_loop (i + 1) K
      else - EISTKN)"
  by auto
termination by (relation "measure (\<lambda>(i, _). nat (12 - i))") (auto simp: SIMPOS_MAX_PROCESSES_def)

declare process_get_free_slot_loop.simps [simp del]

definition process_get_free_slot :: "'a kernel_scheme \<Rightarrow> int" where
  "process_get_free_slot K = process_get_free_slot_loop 0 K"

text \<open>
  The code behind the label \<^verbatim>\<open>out\<close>. Results: the code, the value left in \<^verbatim>\<open>*process\<close>, the
  state and memory.
\<close>

definition process_load_for_slot_out ::
  "heap \<Rightarrow> int \<Rightarrow> u32 \<Rightarrow> u32 \<Rightarrow> 'a kernel_scheme \<Rightarrow> mem \<Rightarrow> int \<times> u32 \<times> 'a kernel_scheme \<times> mem" where
  "process_load_for_slot_out h res process' process_out K m =
     (if res < 0 \<and> process' \<noteq> 0 \<and> process_task m process' \<noteq> 0
      then case process_free_process h process' K m of (K, m) \<Rightarrow> (res, 0, K, m)
      else (res, process_out, K, m))"

text \<open>A slot that is taken gives the positive code \<^verbatim>\<open>EISTKN\<close>.\<close>

definition process_load_for_slot :: "sys \<Rightarrow> heap \<Rightarrow> u32 \<Rightarrow> u32 \<Rightarrow> u32 \<Rightarrow> int \<Rightarrow> 'a kernel_scheme \<Rightarrow> mem
    \<Rightarrow> (int \<times> u32 \<times> 'a kernel_scheme \<times> mem) option" where
  "process_load_for_slot S h sp filename process process_slot K m =
     (if process_get process_slot K \<noteq> 0 then Some (EISTKN, process, K, m)
      else case kzalloc h 9364 m of (process', m) \<Rightarrow>
      let out = (\<lambda>res K m. Some (process_load_for_slot_out h res process' process K m)) in
      if process' = 0 then out (- ENOMEM) K m
      else let m = process_init process' m in do {
        (res, m) \<leftarrow> process_load_data S h sp filename process' m;
        if res < 0 then out res K m
        else case kzalloc h SIMPOS_USER_PROGRAM_STACK_SIZE m of (stack_ptr, m) \<Rightarrow>
        let m = store32 m (process' + 8316) stack_ptr in
        if process_stack m process' = 0 then out (- ENOMEM) K m
        else let m = strncpy m (process' + 2) filename 108;
                 m = store16 m process' (word_of_int process_slot) in
        case task_new h process' K m of (task, K, m) \<Rightarrow>
        let m = store32 m (process' + 112) task in
        if int_of_u32 (process_task m process') = 0
        then out (int_of_u32 (process_task m process')) K (store32 m (process' + 112) 0)
        else do {
          (res, m) \<leftarrow> process_map_memory process' m;
          if res < 0 then out res K m
          else Some (process_load_for_slot_out h res process' process'
                 (K\<lparr>processes := (processes K)(process_slot := process')\<rparr>) m) } })"

definition process_load :: "sys \<Rightarrow> heap \<Rightarrow> u32 \<Rightarrow> u32 \<Rightarrow> u32 \<Rightarrow> 'a kernel_scheme \<Rightarrow> mem
    \<Rightarrow> (int \<times> u32 \<times> 'a kernel_scheme \<times> mem) option" where
  "process_load S h sp filename process K m =
     (let process_slot = process_get_free_slot K in
      if process_slot < 0 then Some (- EISTKN, process, K, m)
      else process_load_for_slot S h sp filename process process_slot K m)"

definition process_load_switch :: "sys \<Rightarrow> heap \<Rightarrow> u32 \<Rightarrow> u32 \<Rightarrow> u32 \<Rightarrow> 'a kernel_scheme \<Rightarrow> mem
    \<Rightarrow> (int \<times> u32 \<times> 'a kernel_scheme \<times> mem) option" where
  "process_load_switch S h sp filename process K m =
     do { (res, process, K, m) \<leftarrow> process_load S h sp filename process K m;
          if res = 0 then Some (res, process, snd (process_switch process K), m) else Some (res, process, K, m) }"

section \<open>Arguments\<close>

definition command_argument_next :: "mem \<Rightarrow> u32 \<Rightarrow> u32" where "command_argument_next m a = load32 m (a + 512)"

partial_function (option) process_count_loop :: "mem \<Rightarrow> int \<Rightarrow> u32 \<Rightarrow> int option" where
  "process_count_loop m i current =
     (if current \<noteq> 0 then process_count_loop m (c_int (i + 1)) (command_argument_next m current) else Some i)"

definition process_count_command_arguments :: "mem \<Rightarrow> u32 \<Rightarrow> int option" where
  "process_count_command_arguments m root_argument = process_count_loop m 0 root_argument"

partial_function (option) process_inject_loop :: "heap \<Rightarrow> u32 \<Rightarrow> u32 \<Rightarrow> u32 \<Rightarrow> int \<Rightarrow> mem \<Rightarrow> (int \<times> mem) option" where
  "process_inject_loop h process argv current i m =
     (if current \<noteq> 0
      then case process_malloc h process 512 m of (argument_str, m) \<Rightarrow>
        if argument_str = 0 then Some (- ENOMEM, m)
        else let m = strncpy m argument_str current 512;
                 m = store32 m (argv + u32_of_int (4 * i)) argument_str
             in process_inject_loop h process argv (command_argument_next m current) (c_int (i + 1)) m
      else Some (0, m))"

definition process_inject_arguments :: "heap \<Rightarrow> u32 \<Rightarrow> u32 \<Rightarrow> mem \<Rightarrow> (int \<times> mem) option" where
  "process_inject_arguments h process root_argument m =
     do { argc \<leftarrow> process_count_command_arguments m root_argument;
          if argc = 0 then Some (- EIO, m)
          else case process_malloc h process (u32_of_int (4 * argc)) m of (argv, m) \<Rightarrow>
          if argv = 0 then Some (- ENOMEM, m)
          else do {
            (res, m) \<leftarrow> process_inject_loop h process argv root_argument 0 m;
            if res < 0 then Some (res, m)
            else let m = store32 m (process + 9356) (u32_of_int argc)
                 in Some (res, store32 m (process + 9360) argv) } }"

text \<open>The two out-pointers are addresses.\<close>

definition process_get_arguments :: "u32 \<Rightarrow> u32 \<Rightarrow> u32 \<Rightarrow> mem \<Rightarrow> mem" where
  "process_get_arguments process argc_out argv_out m =
     (let m = store32 m argc_out (process_argc m process) in store32 m argv_out (process_argv m process))"

end
