(* ===== verification/Terminal.thy ===== *)
theory Terminal
  imports CString
begin

text \<open>
  \<^verbatim>\<open>src/src/terminal/terminal.c\<close>: the text screen. Its cells are 16 bit words in memory,
  the cursor is a pair of \<^verbatim>\<open>uint16_t\<close>s.
\<close>

section \<open>Operations\<close>

definition VGA_WIDTH :: int where "VGA_WIDTH = 80"
definition VGA_HEIGHT :: int where "VGA_HEIGHT = 20"
definition COLOR_WHITE :: u8 where "COLOR_WHITE = 15"
definition COLOR_BLACK :: u8 where "COLOR_BLACK = 0"

record terminal =
  video_mem :: u32
  terminal_row :: u16
  terminal_column :: u16

text \<open>Both parameters are signed \<^verbatim>\<open>char\<close>s, promoted with their sign.\<close>

definition terminal_make_char :: "u8 \<Rightarrow> u8 \<Rightarrow> u16" where
  "terminal_make_char c color = push_bit 8 (scast color) OR scast c"

definition terminal_putchar :: "terminal \<Rightarrow> int \<Rightarrow> int \<Rightarrow> u8 \<Rightarrow> u8 \<Rightarrow> mem \<Rightarrow> mem" where
  "terminal_putchar t x y c color m =
     store16 m (video_mem t + 2 * u32_of_int (y * VGA_WIDTH + x)) (terminal_make_char c color)"

text \<open>
  \<open>terminal_backspace\<close> prints a blank through \<open>terminal_writechar\<close>, which in turn handles
  the backspace character by calling it.
\<close>

function terminal_backspace :: "terminal \<Rightarrow> mem \<Rightarrow> terminal \<times> mem"
  and terminal_writechar :: "u8 \<Rightarrow> u8 \<Rightarrow> terminal \<Rightarrow> mem \<Rightarrow> terminal \<times> mem" where
  "terminal_backspace t m =
     (if terminal_row t = 0 \<and> terminal_column t = 0 then (t, m)
      else let t = (if terminal_column t = 0
                 then t\<lparr>terminal_row := terminal_row t - 1, terminal_column := word_of_int VGA_WIDTH\<rparr> else t);
               t = t\<lparr>terminal_column := terminal_column t - 1\<rparr>;
               (t, m) = terminal_writechar 32 15 t m
           in (t\<lparr>terminal_column := terminal_column t - 1\<rparr>, m))"
| "terminal_writechar c color t m =
     (if c = 10 then (t\<lparr>terminal_column := 0, terminal_row := terminal_row t + 1\<rparr>, m)
      else if c = 0x08 then terminal_backspace t m
      else let m = terminal_putchar t (uint (terminal_column t)) (uint (terminal_row t)) c color m;
               t = t\<lparr>terminal_column := terminal_column t + 1\<rparr>
           in if VGA_WIDTH \<le> uint (terminal_column t)
              then (t\<lparr>terminal_column := 0, terminal_row := terminal_row t + 1\<rparr>, m)
              else (t, m))"
  by pat_completeness auto
termination
  by (relation "measure (\<lambda>x. case x of Inl _ \<Rightarrow> 1 | Inr (c, _) \<Rightarrow> if c = 8 then 2 else 0)") auto

declare terminal_backspace.simps [simp del] terminal_writechar.simps [simp del]

text \<open>\<open>i < len\<close> compares as \<^verbatim>\<open>size_t\<close>; the string is read while it is printed.\<close>

function print_loop :: "u32 \<Rightarrow> u32 \<Rightarrow> u32 \<Rightarrow> terminal \<Rightarrow> mem \<Rightarrow> terminal \<times> mem" where
  "print_loop str len i t m =
     (if i < len
      then case terminal_writechar (m (str + i)) COLOR_WHITE t m of (t', m') \<Rightarrow>
        print_loop str len (i + 1) t' m'
      else (t, m))"
  by auto
termination
  by (relation "measure (\<lambda>(_, len, i, _, _). unat len - unat i)")
    (auto simp: unat_Suc_u32 word_less_nat_alt)

declare print_loop.simps [simp del]

definition print :: "u32 \<Rightarrow> terminal \<Rightarrow> mem \<Rightarrow> (terminal \<times> mem) option" where
  "print str t m = do { len \<leftarrow> strlen m str; Some (print_loop str (u32_of_int len) 0 t m) }"

function terminal_clear_row :: "terminal \<Rightarrow> int \<Rightarrow> int \<Rightarrow> mem \<Rightarrow> mem" where
  "terminal_clear_row t y x m =
     (if x < VGA_WIDTH then terminal_clear_row t y (x + 1) (terminal_putchar t x y 32 COLOR_BLACK m) else m)"
  by auto
termination by (relation "measure (\<lambda>(_, _, x, _). nat (VGA_WIDTH - x))") auto

function terminal_clear :: "terminal \<Rightarrow> int \<Rightarrow> mem \<Rightarrow> mem" where
  "terminal_clear t y m =
     (if y < VGA_HEIGHT then terminal_clear t (y + 1) (terminal_clear_row t y 0 m) else m)"
  by auto
termination by (relation "measure (\<lambda>(_, y, _). nat (VGA_HEIGHT - y))") auto

declare terminal_clear_row.simps [simp del] terminal_clear.simps [simp del]

definition terminal_initialize :: "mem \<Rightarrow> terminal \<times> mem" where
  "terminal_initialize m =
     (let t = \<lparr>video_mem = 0xB8000, terminal_row = 0, terminal_column = 0\<rparr>
      in (t, terminal_clear t 0 m))"

section \<open>The cursor as a position\<close>

definition position :: "terminal \<Rightarrow> nat" where
  "position t = 80 * unat (terminal_row t) + unat (terminal_column t)"

definition cell :: "terminal \<Rightarrow> nat \<Rightarrow> u32" where
  "cell t n = video_mem t + of_nat (2 * n)"

definition column_ok :: "terminal \<Rightarrow> bool" where
  "column_ok t \<longleftrightarrow> unat (terminal_column t) < 80"

lemma unat_Suc_u16: "unat (w :: u16) + 1 < 65536 \<Longrightarrow> unat (w + 1) = unat w + 1"
  by (simp add: unat_word_ariths)

lemma putchar_eq:
  "terminal_putchar t (uint (terminal_column t)) (uint (terminal_row t)) c color m =
     store16 m (cell t (position t)) (terminal_make_char c color)"
proof -
  have "uint (terminal_row t) * VGA_WIDTH + uint (terminal_column t) = int (position t)"
    unfolding uint_nat VGA_WIDTH_def position_def of_nat_add of_nat_mult by simp
  then have "u32_of_int (uint (terminal_row t) * VGA_WIDTH + uint (terminal_column t)) = of_nat (position t)"
    by (simp only: u32_of_int_of_nat)
  then show ?thesis by (simp add: terminal_putchar_def cell_def)
qed

definition plain :: "u8 \<Rightarrow> bool" where
  "plain c \<longleftrightarrow> c \<noteq> 10 \<and> c \<noteq> 8"

lemma writechar_plain:
  assumes "plain c" and "column_ok t" and "position t + 1 < 80 * 65536"
  obtains t' where "terminal_writechar c color t m = (t', store16 m (cell t (position t)) (terminal_make_char c color))"
    and "column_ok t'" and "position t' = position t + 1" and "video_mem t' = video_mem t"
proof -
  let ?c = "unat (terminal_column t)" and ?r = "unat (terminal_row t)"
  have c: "?c < 80" using assms(2) by (simp add: column_ok_def)
  have c1: "unat (terminal_column t + 1) = ?c + 1" using c by (intro unat_Suc_u16) simp
  have u: "VGA_WIDTH \<le> uint (terminal_column t + 1) \<longleftrightarrow> 80 \<le> ?c + 1"
    unfolding VGA_WIDTH_def uint_nat c1 by linarith
  show thesis
  proof (cases "?c + 1 = 80")
    case True
    then have r: "unat (terminal_row t + 1) = ?r + 1"
      using assms(3) by (intro unat_Suc_u16) (simp add: position_def)
    have "terminal_writechar c color t m = (t\<lparr>terminal_column := 0, terminal_row := terminal_row t + 1\<rparr>,
        store16 m (cell t (position t)) (terminal_make_char c color))"
      using assms(1) u True by (subst terminal_writechar.simps) (simp add: plain_def putchar_eq Let_def)
    then show thesis by (rule that) (use True r in \<open>simp_all add: column_ok_def position_def\<close>)
  next
    case False
    then have "\<not> 80 \<le> ?c + 1" using c by simp
    then have "terminal_writechar c color t m = (t\<lparr>terminal_column := terminal_column t + 1\<rparr>,
        store16 m (cell t (position t)) (terminal_make_char c color))"
      using assms(1) u by (subst terminal_writechar.simps) (simp add: plain_def putchar_eq Let_def)
    then show thesis by (rule that) (use c1 False c in \<open>simp_all add: column_ok_def position_def\<close>)
  qed
qed

section \<open>Backspace\<close>

lemma plain_32 [simp]: "plain 32" by (simp add: plain_def)

lemma terminal_eqI:
  "video_mem t = video_mem t' \<Longrightarrow> terminal_row t = terminal_row t' \<Longrightarrow> terminal_column t = terminal_column t'
    \<Longrightarrow> (t :: terminal) = t'"
  by simp

lemma unat_pred_u16: "(w :: u16) \<noteq> 0 \<Longrightarrow> unat (w - 1) = unat w - 1"
  by (rule unat_minus_one)

lemma writechar_no_wrap:
  assumes "plain c" and "unat (terminal_column t) < 79"
  shows "terminal_writechar c color t m =
    (t\<lparr>terminal_column := terminal_column t + 1\<rparr>, store16 m (cell t (position t)) (terminal_make_char c color))"
proof -
  have c: "unat (terminal_column t + 1) = unat (terminal_column t) + 1"
    using assms(2) by (intro unat_Suc_u16) simp
  have "\<not> VGA_WIDTH \<le> uint (terminal_column t + 1)"
    unfolding VGA_WIDTH_def uint_nat c using assms(2) by linarith
  then show ?thesis
    using assms(1) by (subst terminal_writechar.simps) (simp add: plain_def putchar_eq Let_def)
qed

lemma writechar_wrap:
  assumes "plain c" and "terminal_column t = 79"
  shows "terminal_writechar c color t m =
    (t\<lparr>terminal_column := 0, terminal_row := terminal_row t + 1\<rparr>,
     store16 m (cell t (position t)) (terminal_make_char c color))"
proof -
  have "VGA_WIDTH \<le> uint (terminal_column t + 1)" by (simp add: assms(2) VGA_WIDTH_def)
  then show ?thesis
    using assms(1) by (subst terminal_writechar.simps) (simp add: plain_def putchar_eq Let_def)
qed

text \<open>
  Inside a line a backspace blanks the character before the cursor in white and moves
  the cursor back onto it; at the origin it does nothing.
\<close>

theorem terminal_backspace_inside:
  "if terminal_row t = 0 \<and> terminal_column t = 0 then terminal_writechar 8 color t m = (t, m)
   else 0 < unat (terminal_column t) \<and> column_ok t \<longrightarrow>
     terminal_writechar 8 color t m =
       (t\<lparr>terminal_column := terminal_column t - 1\<rparr>,
        store16 m (cell t (position t - 1)) (terminal_make_char 32 15))"
proof -
  have e: "terminal_writechar 8 color t m = terminal_backspace t m"
    by (subst terminal_writechar.simps) simp
  show ?thesis
  proof (cases "0 < unat (terminal_column t) \<and> column_ok t")
    case False
    then show ?thesis unfolding e by (auto simp: terminal_backspace.simps [of t m])
  next
    case True
    let ?t = "t\<lparr>terminal_column := terminal_column t - 1\<rparr>"
    have nz: "terminal_column t \<noteq> 0" using True by auto
    then have c: "unat (terminal_column ?t) = unat (terminal_column t) - 1"
      by (simp add: unat_pred_u16)
    then have "unat (terminal_column ?t) < 79" using True unfolding column_ok_def by linarith
    note w = writechar_no_wrap [OF plain_32 this, of 15 m]
    have "position ?t = position t - 1" "cell ?t = cell t"
      using c True by (simp_all add: position_def cell_def [abs_def])
    then show ?thesis
      unfolding e using nz w by (subst terminal_backspace.simps) (simp add: Let_def)
  qed
qed

theorem terminal_backspace_inside_witness:
  "terminal_writechar 8 0 \<lparr>video_mem = 0xB8000, terminal_row = 1, terminal_column = 5\<rparr> (\<lambda>_. 0) =
    (\<lparr>video_mem = 0xB8000, terminal_row = 1, terminal_column = 4\<rparr>, store16 (\<lambda>_. 0) 0xB80A8 0x0F20)"
  using terminal_backspace_inside [of "\<lparr>video_mem = 0xB8000, terminal_row = 1, terminal_column = 5\<rparr>" 0 "\<lambda>_. 0"]
  by (simp add: column_ok_def position_def cell_def terminal_make_char_def)

text \<open>
  At the start of any line but the first a backspace breaks the cursor: printing the
  blank in the last column has already wrapped to the next line, so the column that is then
  decremented is 0 and becomes 65535.
\<close>

theorem terminal_backspace_line_start:
  assumes "terminal_column t = 0" and "terminal_row t \<noteq> 0"
  shows "\<exists>m'. terminal_writechar 8 color t m = (t\<lparr>terminal_column := 65535\<rparr>, m')"
proof -
  let ?t = "t\<lparr>terminal_row := terminal_row t - 1, terminal_column := 79\<rparr>"
  have w: "terminal_writechar 32 15 ?t m = (?t\<lparr>terminal_column := 0, terminal_row := terminal_row t\<rparr>,
      store16 m (cell ?t (position ?t)) (terminal_make_char 32 15))"
    using writechar_wrap [OF plain_32, of ?t 15 m] by simp
  have "terminal_writechar 8 color t m = terminal_backspace t m"
    by (subst terminal_writechar.simps) simp
  then show ?thesis
    using assms w by (subst (asm) terminal_backspace.simps) (simp add: VGA_WIDTH_def)
qed

theorem terminal_backspace_line_start_witness:
  "\<exists>m'. terminal_writechar 8 15 \<lparr>video_mem = 0xB8000, terminal_row = 3, terminal_column = 0\<rparr> (\<lambda>_. 0)
    = (\<lparr>video_mem = 0xB8000, terminal_row = 3, terminal_column = 65535\<rparr>, m')"
  using terminal_backspace_line_start [of "\<lparr>video_mem = 0xB8000, terminal_row = 3, terminal_column = 0\<rparr>" 15 "\<lambda>_. 0"]
  by simp

section \<open>Printing a string\<close>

lemma cell_add: "cell t (n + k) = cell t n + of_nat (2 * k)"
  by (simp add: cell_def algebra_simps)

text \<open>The bytes of \<open>n\<close> cells from position \<open>k\<close> on.\<close>

definition cells :: "terminal \<Rightarrow> nat \<Rightarrow> nat \<Rightarrow> u32 set" where
  "cells t k n = region (cell t k) (2 * n)"

lemma store16_region: "same_outside (region p 2) m (store16 m p v)"
  by (auto simp: same_outside_def store16_def region_def)

lemma load16_frame:
  assumes "same_outside A m m'" "region p 2 \<inter> A = {}"
  shows "load16 m' p = load16 m p"
proof -
  have "p \<in> region p 2" "p + 1 \<in> region p 2" by (simp_all add: region_def)
  then have "m' p = m p" "m' (p + 1) = m (p + 1)" using assms by (auto simp: same_outside_def)
  then show ?thesis by (simp only: load16_def)
qed

lemma cells_Suc:
  assumes "2 * Suc n < 2 ^ 32"
  shows "cells t k (Suc n) = region (cell t k) 2 \<union> cells t (k + 1) n"
    and "region (cell t k) 2 \<inter> cells t (k + 1) n = {}"
proof -
  have c: "cell t (k + 1) = cell t k + 1 + 1" by (simp add: cell_def algebra_simps)
  have "cells t k (Suc n) = region (cell t k) (Suc (Suc (2 * n)))" by (simp add: cells_def)
  moreover have e: "region q (Suc (Suc l)) = {q, q + 1} \<union> region (q + 1 + 1) l" for q l
    by (rule set_eqI) (simp only: region_Suc Un_iff insert_iff empty_iff, blast)
  ultimately show "cells t k (Suc n) = region (cell t k) 2 \<union> cells t (k + 1) n"
    using e [of "cell t k" 0] by (simp only: c cells_def numeral_2_eq_2 region_0 Un_empty_right)
  have two: "region (cell t k) 2 = {cell t k, cell t k + 1}"
    using e [of "cell t k" 0] by (simp only: numeral_2_eq_2 region_0 Un_empty_right)
  show "region (cell t k) 2 \<inter> cells t (k + 1) n = {}"
    using assms region_head [of "2 * n + 1" "cell t k + 1"] region_head [of "2 * n + 2" "cell t k"]
      region_shift_subset [of "cell t k + 1" "2 * n + 1"]
    unfolding two cells_def c by auto
qed

lemma print_loop_plain:
  assumes "\<forall>b \<in> set bs. plain b" and "column_ok t" and "position t + length bs < 80 * 65536"
    and "unat len = unat i + length bs" and "\<And>j. j < length bs \<Longrightarrow> m (str + i + of_nat j) = bs ! j"
    and "region (str + i) (length bs) \<inter> cells t (position t) (length bs) = {}"
  shows "\<exists>t' m'. print_loop str len i t m = (t', m') \<and> column_ok t' \<and> position t' = position t + length bs
    \<and> video_mem t' = video_mem t
    \<and> same_outside (cells t (position t) (length bs)) m m'
    \<and> (\<forall>j < length bs. load16 m' (cell t (position t + j)) = terminal_make_char (bs ! j) COLOR_WHITE)"
  using assms
proof (induction bs arbitrary: i t m)
  case Nil
  then have "\<not> i < len" by (simp add: word_less_nat_alt)
  then show ?case using Nil by (subst print_loop.simps) simp
next
  case (Cons b bs)
  let ?n = "length bs" and ?p = "position t"
  have il: "i < len" using Cons.prems(4) by (simp add: word_less_nat_alt)
  have mb: "m (str + i) = b" using Cons.prems(5) [of 0] by simp
  obtain t1 where w: "terminal_writechar b COLOR_WHITE t m =
      (t1, store16 m (cell t ?p) (terminal_make_char b COLOR_WHITE))" (is "_ = (_, ?m1)")
    and t1: "column_ok t1" "position t1 = ?p + 1" "video_mem t1 = video_mem t"
    using writechar_plain [of b t COLOR_WHITE m] Cons.prems(1-3) by auto
  have small: "2 * Suc ?n < 2 ^ 32" using Cons.prems(3) by simp
  have ct: "cell t1 k = cell t k" "cells t1 k l = cells t k l" for k l
    using t1(3) by (simp_all add: cell_def cells_def)
  note cs = cells_Suc [OF small, of t ?p]
  have so1: "same_outside (region (cell t ?p) 2) m ?m1" by (rule store16_region)
  have sub: "region (str + (i + 1)) ?n \<subseteq> region (str + i) (length (b # bs))"
    using region_shift_subset [of "str + i" "length (b # bs)"] by (simp add: add.assoc)
  have "?m1 (str + (i + 1) + of_nat j) = bs ! j" if j: "j < ?n" for j
  proof -
    have "str + (i + 1) + of_nat j \<in> region (str + (i + 1)) ?n"
      using j small by (intro in_region_offset) auto
    then have "str + (i + 1) + of_nat j \<notin> region (cell t ?p) 2"
      using sub Cons.prems(6) cs(1) by auto
    then have "?m1 (str + (i + 1) + of_nat j) = m (str + (i + 1) + of_nat j)"
      by (rule same_outsideD [OF so1])
    also have "\<dots> = bs ! j" using Cons.prems(5) [of "Suc j"] j by (simp add: algebra_simps)
    finally show ?thesis .
  qed
  moreover have "region (str + (i + 1)) ?n \<inter> cells t1 (position t1) ?n = {}"
    using sub Cons.prems(6) cs(1) unfolding ct t1(2) by auto
  moreover have "unat len = unat (i + 1) + ?n" using Cons.prems(4) unat_Suc_u32 [OF il] by simp
  ultimately obtain t' m' where IH: "print_loop str len (i + 1) t1 ?m1 = (t', m')" "column_ok t'"
      "position t' = position t1 + ?n" "video_mem t' = video_mem t1"
      "same_outside (cells t1 (position t1) ?n) ?m1 m'"
      "\<forall>j < ?n. load16 m' (cell t1 (position t1 + j)) = terminal_make_char (bs ! j) COLOR_WHITE"
    using Cons.IH [of t1 "i + 1" ?m1] t1(1,2) Cons.prems(1,3) by auto
  have "load16 m' (cell t ?p) = load16 ?m1 (cell t ?p)"
    by (rule load16_frame [OF IH(5)]) (use cs(2) in \<open>simp add: ct t1(2)\<close>)
  then have "load16 m' (cell t (?p + j)) = terminal_make_char ((b # bs) ! j) COLOR_WHITE"
    if "j < length (b # bs)" for j
    using IH(6) that by (cases j) (auto simp: load16_store16_same ct t1(2))
  moreover have "same_outside (cells t ?p (length (b # bs))) m m'"
    using same_outside_trans [OF so1 IH(5)] cs(1) by (simp add: ct t1(2))
  moreover have "print_loop str len i t m = (t', m')"
    by (subst print_loop.simps) (simp add: il mb w IH(1))
  ultimately show ?case using IH(2,3,4) t1(2,3) by simp
qed

lemma print_plain:
  assumes "cstr m str bs" and "\<forall>b \<in> set bs. plain b" and "column_ok t"
    and "position t + length bs < 80 * 65536"
    and "region str (length bs) \<inter> cells t (position t) (length bs) = {}"
  shows "\<exists>t' m'. print str t m = Some (t', m') \<and> column_ok t' \<and> position t' = position t + length bs
    \<and> same_outside (cells t (position t) (length bs)) m m'
    \<and> (\<forall>j < length bs. load16 m' (cell t (position t + j)) = terminal_make_char (bs ! j) COLOR_WHITE)"
proof -
  have "strlen m str = Some (int (length bs))"
    unfolding strlen_def using strlen_loop_cstr [OF assms(1)] assms(4) by simp
  moreover have "unat (u32_of_int (int (length bs))) = unat (0 :: u32) + length bs"
    using assms(4) by (simp add: u32_of_int_of_nat)
  ultimately show ?thesis
    using print_loop_plain [OF assms(2,3,4), where len = "u32_of_int (int (length bs))" and i = 0 and m = m and str = str] assms(5)
      cstr_nth [OF assms(1)]
    by (auto simp: print_def)
qed

text \<open>
  C34. Printing a string without newlines and backspaces that does not lie in video memory
  returns, puts its characters in white into the cells from the cursor on (wrapping lines),
  leaves the cursor behind the last one in a legal column, and changes no other byte.
\<close>

theorem print_text:
  assumes "cstr m str bs" and "\<forall>b \<in> set bs. plain b" and "column_ok t"
    and "position t + length bs < 80 * 65536"
    and "region str (length bs) \<inter> cells t (position t) (length bs) = {}"
  shows "\<exists>t' m'. print str t m = Some (t', m') \<and> column_ok t' \<and> position t' = position t + length bs
    \<and> same_outside (cells t (position t) (length bs)) m m'
    \<and> (\<forall>j < length bs. load16 m' (cell t (position t + j)) = terminal_make_char (bs ! j) COLOR_WHITE)"
  using assms by (rule print_plain)

theorem print_text_witness:
  "\<exists>t' m'. print 0x1000 \<lparr>video_mem = 0xB8000, terminal_row = 0, terminal_column = 79\<rparr>
      ((\<lambda>_. 0)(0x1000 := 72, 0x1001 := 105)) = Some (t', m')
    \<and> load16 m' 0xB809E = 0x0F48 \<and> load16 m' 0xB80A0 = 0x0F69"
proof -
  let ?t = "\<lparr>video_mem = 0xB8000, terminal_row = 0, terminal_column = 79\<rparr>"
  let ?m = "(\<lambda>_. 0)(0x1000 := 72, 0x1001 := 105)" and ?bs = "[72, 105] :: u8 list"
  have pos: "position ?t = 79" by (simp add: position_def)
  have "region 0x1000 (length ?bs) \<inter> cells ?t (position ?t) (length ?bs) = {}"
    by (auto simp: cells_def cell_def pos region_eq_range)
  then obtain t' m' where r: "print 0x1000 ?t ?m = Some (t', m')"
      "\<forall>j < length ?bs. load16 m' (cell ?t (position ?t + j)) = terminal_make_char (?bs ! j) COLOR_WHITE"
    using print_text [where m = ?m and str = "0x1000" and bs = ?bs and t = ?t]
    by (auto simp: column_ok_def plain_def pos)
  have "load16 m' (cell ?t (position ?t + 0)) = terminal_make_char 72 COLOR_WHITE"
    "load16 m' (cell ?t (position ?t + 1)) = terminal_make_char 105 COLOR_WHITE"
    using spec [OF r(2), of 0] spec [OF r(2), of 1] by simp_all
  then show ?thesis using r(1) by (simp add: pos cell_def terminal_make_char_def COLOR_WHITE_def)
qed

end
