(* ===== verification/Fifo.thy ===== *)
theory Fifo
  imports Main
begin

text \<open>
  The interface between the keyboard's interrupt side, which pushes characters, and the
  system call side, which pops them: a bounded queue. \<open>rel s q\<close> says that the concrete
  state \<open>s\<close> holds the elements \<open>q\<close>, oldest first; \<open>pop\<close> yields \<open>zero\<close> on the empty queue.
\<close>

locale fifo =
  fixes push :: "'a \<Rightarrow> 's \<Rightarrow> 's"
    and pop :: "'s \<Rightarrow> 'a \<times> 's"
    and rel :: "'s \<Rightarrow> 'a list \<Rightarrow> bool"
    and ok :: "'a \<Rightarrow> bool"
    and zero :: 'a
    and cap :: nat
  assumes push_ok: "rel s q \<Longrightarrow> ok c \<Longrightarrow> length q < cap \<Longrightarrow> rel (push c s) (q @ [c])"
    and pop_ok: "rel s (c # q) \<Longrightarrow> fst (pop s) = c \<and> rel (snd (pop s)) q"
    and pop_empty: "rel s [] \<Longrightarrow> pop s = (zero, s)"
begin

text \<open>Popping \<open>n\<close> times, collecting what comes out.\<close>

primrec pops :: "nat \<Rightarrow> 's \<Rightarrow> 'a list \<times> 's" where
  "pops 0 s = ([], s)"
| "pops (Suc n) s = (case pop s of (c, s') \<Rightarrow> case pops n s' of (cs, s'') \<Rightarrow> (c # cs, s''))"

lemma push_all:
  "rel s q \<Longrightarrow> \<forall>c \<in> set cs. ok c \<Longrightarrow> length q + length cs \<le> cap \<Longrightarrow> rel (fold push cs s) (q @ cs)"
proof (induction cs arbitrary: s q)
  case (Cons c cs)
  then have "rel (push c s) (q @ [c])" by (intro push_ok) auto
  then show ?case using Cons.IH [of "push c s" "q @ [c]"] Cons.prems by simp
qed simp

lemma pops_all: "rel s (cs @ q) \<Longrightarrow> fst (pops (length cs) s) = cs \<and> rel (snd (pops (length cs) s)) q"
proof (induction cs arbitrary: s)
  case (Cons c cs)
  then have "fst (pop s) = c" "rel (snd (pop s)) (cs @ q)" using pop_ok by auto
  then show ?case using Cons.IH [of "snd (pop s)"] by (simp add: case_prod_beta)
qed simp

text \<open>Whatever is pushed comes out in order, behind what was there.\<close>

lemma push_pops:
  assumes "rel s q" and "\<forall>c \<in> set cs. ok c" and "length q + length cs \<le> cap"
  shows "fst (pops (length q + length cs) (fold push cs s)) = q @ cs"
    and "rel (snd (pops (length q + length cs) (fold push cs s))) []"
  using pops_all [of "fold push cs s" "q @ cs" "[]"] push_all [OF assms] by simp_all

end

end
