(* ===== verification/Keyboard.thy ===== *)
theory Keyboard
  imports Base Fifo
begin

text \<open>
  \<^verbatim>\<open>src/src/keyboard/keyboard.c\<close> and \<^verbatim>\<open>src/src/keyboard/classic.c\<close>: the list of keyboards,
  the ring buffer of every process, and the PS/2 driver that translates scan codes.
\<close>

section \<open>The list of keyboards\<close>

text \<open>
  The only function the program ever stores in a keyboard's \<open>init\<close> field is
  \<open>classic_keyboard_init\<close>; a null pointer is None. Keyboards live in static memory at fixed
  addresses, \<open>keyboards\<close> maps an address to the structure.
\<close>

datatype KEYBOARD_INIT_FUNCTION = classic_keyboard_init_function

abbreviation KEYBOARD_CAPS_LOCK_ON :: int where "KEYBOARD_CAPS_LOCK_ON \<equiv> 1"
abbreviation KEYBOARD_CAPS_LOCK_OFF :: int where "KEYBOARD_CAPS_LOCK_OFF \<equiv> 0"

record keyboard =
  init :: "KEYBOARD_INIT_FUNCTION option"
  name :: string
  next_keyboard :: u32
  capslock_state :: int

record keyboard_state =
  keyboards :: "u32 \<Rightarrow> keyboard"
  keyboard_list_head :: u32
  keyboard_list_last :: u32
  keyboard_callback :: bool
  ports :: "(u16 \<times> u8) list"

definition ISR_KEYBOARD_INTERRUPT :: int where "ISR_KEYBOARD_INTERRUPT = 0x21"
definition PS2_COMMAND_PORT :: u16 where "PS2_COMMAND_PORT = 0x64"
definition PS2_COMMAND_ENABLE_FIRST_PORT :: u8 where "PS2_COMMAND_ENABLE_FIRST_PORT = 0xAE"
definition CLASSIC_KEYBOARD_KEY_RELEASE :: u8 where "CLASSIC_KEYBOARD_KEY_RELEASE = 0x80"
definition CLASSIC_KEYBOARD_CAPSLOCK :: u8 where "CLASSIC_KEYBOARD_CAPSLOCK = 0x3A"

definition keyboard_set_capslock :: "u32 \<Rightarrow> int \<Rightarrow> keyboard_state \<Rightarrow> keyboard_state" where
  "keyboard_set_capslock kb state s =
     s\<lparr>keyboards := (keyboards s)(kb := (keyboards s kb)\<lparr>capslock_state := state\<rparr>)\<rparr>"

definition keyboard_get_capslock_state :: "u32 \<Rightarrow> keyboard_state \<Rightarrow> int" where
  "keyboard_get_capslock_state kb s = capslock_state (keyboards s kb)"

text \<open>
  \<open>classic\<close> is the address of \<open>classic_keyboard\<close>. Registering the callback sets the flag,
  a port write is recorded.
\<close>

definition classic_keyboard_init :: "u32 \<Rightarrow> keyboard_state \<Rightarrow> int \<times> keyboard_state" where
  "classic_keyboard_init classic s =
     (0, keyboard_set_capslock classic KEYBOARD_CAPS_LOCK_OFF
           (s\<lparr>keyboard_callback := True, ports := ports s @ [(PS2_COMMAND_PORT, PS2_COMMAND_ENABLE_FIRST_PORT)]\<rparr>))"

definition keyboard_insert :: "u32 \<Rightarrow> u32 \<Rightarrow> keyboard_state \<Rightarrow> int \<times> keyboard_state" where
  "keyboard_insert classic kb s =
     (case init (keyboards s kb) of
        None \<Rightarrow> (- EINVARG, s)
      | Some classic_keyboard_init_function \<Rightarrow>
          let s = (if keyboard_list_last s \<noteq> 0
                then s\<lparr>keyboards := (keyboards s)(keyboard_list_last s :=
                         (keyboards s (keyboard_list_last s))\<lparr>next_keyboard := kb\<rparr>),
                       keyboard_list_last := kb\<rparr>
                else s\<lparr>keyboard_list_head := kb, keyboard_list_last := kb\<rparr>)
          in classic_keyboard_init classic s)"

definition classic_init :: "u32 \<Rightarrow> u32" where
  "classic_init classic = classic"

definition keyboard_init :: "u32 \<Rightarrow> keyboard_state \<Rightarrow> keyboard_state" where
  "keyboard_init classic s = snd (keyboard_insert classic (classic_init classic) s)"

section \<open>The ring buffer\<close>

text \<open>
  \<open>SIMPOS_BUFFER_SIZE\<close> is 1024. The remainder is taken by an unsigned \<open>sizeof\<close>, so a
  negative or wrapped index still gives a position in the buffer.
\<close>

record keyboard_buffer =
  buffer :: "u8 list"
  tail :: int
  head :: int

definition keyboard_get_tail_index :: "keyboard_buffer \<Rightarrow> nat" where
  "keyboard_get_tail_index kb = unat (u32_of_int (tail kb) mod 1024)"

definition keyboard_backspace :: "keyboard_buffer \<Rightarrow> keyboard_buffer" where
  "keyboard_backspace kb =
     (let kb = kb\<lparr>tail := c_int (tail kb - 1)\<rparr>; real_index = keyboard_get_tail_index kb
      in kb\<lparr>buffer := (buffer kb)[real_index := 0]\<rparr>)"

text \<open>The option is the current process: without one a push is dropped and a pop yields 0.\<close>

definition push_char :: "u8 \<Rightarrow> keyboard_buffer \<Rightarrow> keyboard_buffer" where
  "push_char c kb =
     (if c = 0 then kb
      else let real_index = keyboard_get_tail_index kb
           in kb\<lparr>buffer := (buffer kb)[real_index := c], tail := c_int (tail kb + 1)\<rparr>)"

definition keyboard_push :: "u8 \<Rightarrow> keyboard_buffer option \<Rightarrow> keyboard_buffer option" where
  "keyboard_push c process = (case process of None \<Rightarrow> None | Some kb \<Rightarrow> Some (push_char c kb))"

definition pop_char :: "keyboard_buffer \<Rightarrow> u8 \<times> keyboard_buffer" where
  "pop_char kb =
     (let real_index = unat (u32_of_int (head kb) mod 1024); c = buffer kb ! real_index
      in if c = 0 then (0, kb)
         else (c, kb\<lparr>buffer := (buffer kb)[real_index := 0], head := c_int (head kb + 1)\<rparr>))"

definition keyboard_pop :: "keyboard_buffer option \<Rightarrow> u8 \<times> keyboard_buffer option" where
  "keyboard_pop process = (case process of None \<Rightarrow> (0, None) | Some kb \<Rightarrow> (case pop_char kb of (c, kb') \<Rightarrow> (c, Some kb')))"

section \<open>The PS/2 driver\<close>

definition keyboard_scan_set_one :: "u8 list" where
  "keyboard_scan_set_one =
    [0x00, 0x1B, 49, 50, 51, 52, 53,
     54, 55, 56, 57, 48, 45, 61,
     0x08, 9, 81, 87, 69, 82, 84,
     89, 85, 73, 79, 80, 91, 93,
     0x0d, 0x00, 65, 83, 68, 70, 71,
     72, 74, 75, 76, 59, 39, 96,
     0x00, 92, 90, 88, 67, 86, 66,
     78, 77, 44, 46, 47, 0x00, 42,
     0x00, 0x20, 0x00, 0x00, 0x00, 0x00,
     0x00, 0x00, 0x00, 0x00, 0x00, 0x00,
     0x00, 55, 56, 57, 45, 52, 53,
     54, 43, 49, 50, 51, 48, 46]"

text \<open>
  \<open>beyond\<close> is the byte of static memory behind the table, which the scan code equal to the
  table's length reads.
\<close>

definition classic_keyboard_scancode_to_char :: "u8 \<Rightarrow> u32 \<Rightarrow> u8 \<Rightarrow> keyboard_state \<Rightarrow> u8" where
  "classic_keyboard_scancode_to_char beyond classic scancode s =
     (let size_of_keyboard_set_one = length keyboard_scan_set_one in
      if size_of_keyboard_set_one < unat scancode then 0
      else let c = (keyboard_scan_set_one @ [beyond]) ! unat scancode
        in if keyboard_get_capslock_state classic s = KEYBOARD_CAPS_LOCK_OFF
              \<and> 65 \<le> sint c \<and> sint c \<le> 90 then c + 32 else c)"

text \<open>
  The handler reads the port twice and keeps the first byte. Its page switches do not touch
  this state: \<open>interrupt_handler\<close> switches back to the task's page in every case.
\<close>

definition classic_keyboard_handle_interrupt ::
  "u8 \<Rightarrow> u32 \<Rightarrow> u8 \<Rightarrow> keyboard_state \<times> keyboard_buffer option \<Rightarrow> keyboard_state \<times> keyboard_buffer option" where
  "classic_keyboard_handle_interrupt beyond classic scancode sp =
     (case sp of (s, process) \<Rightarrow>
       if scancode AND CLASSIC_KEYBOARD_KEY_RELEASE \<noteq> 0 then (s, process)
       else let s = (if scancode = CLASSIC_KEYBOARD_CAPSLOCK
                  then if keyboard_get_capslock_state classic s = KEYBOARD_CAPS_LOCK_ON
                       then keyboard_set_capslock classic KEYBOARD_CAPS_LOCK_OFF s
                       else keyboard_set_capslock classic KEYBOARD_CAPS_LOCK_ON s
                  else s);
                c = classic_keyboard_scancode_to_char beyond classic scancode s
            in if c \<noteq> 0 then (s, keyboard_push c process) else (s, process))"

section \<open>The ring buffer is a queue of 1024 characters\<close>

definition kb_rel :: "keyboard_buffer \<Rightarrow> u8 list \<Rightarrow> bool" where
  "kb_rel kb q \<longleftrightarrow> length (buffer kb) = 1024 \<and> length q \<le> 1024 \<and> 0 \<notin> set q
    \<and> u32_of_int (tail kb) = u32_of_int (head kb) + of_nat (length q)
    \<and> (\<forall>i < 1024. buffer kb ! ((unat (u32_of_int (head kb)) + i) mod 1024) =
         (if i < length q then q ! i else 0))"

lemma ring_index: "unat ((w + of_nat i) mod (1024 :: u32)) = (unat w + i) mod 1024"
proof -
  have "unat ((w + of_nat i) mod (1024 :: u32)) = unat (w + of_nat i) mod 1024" by (simp add: unat_mod)
  also have "\<dots> = (unat w + unat (of_nat i :: u32)) mod 1024"
    by (simp add: unat_word_ariths mod_mod_cancel)
  also have "\<dots> = (unat w + unat (of_nat i :: u32) mod 1024) mod 1024" by (simp only: mod_add_right_eq)
  also have "unat (of_nat i :: u32) mod 1024 = i mod 1024" by (simp add: unat_of_nat mod_mod_cancel)
  finally show ?thesis by (simp only: mod_add_right_eq)
qed

lemma ring_index_0: "unat (w mod (1024 :: u32)) = unat w mod 1024"
  by (simp add: unat_mod)

lemma ring_inj: "(h + i) mod 1024 = (h + j) mod 1024 \<Longrightarrow> i < 1024 \<Longrightarrow> j < 1024 \<Longrightarrow> i = (j :: nat)"
proof -
  assume e: "(h + i) mod 1024 = (h + j) mod 1024" and b: "i < 1024" "j < 1024"
  have "h + i = 1024 * ((h + i) div 1024) + (h + j) mod 1024" unfolding e [symmetric] by simp
  moreover have "h + j = 1024 * ((h + j) div 1024) + (h + j) mod 1024" by simp
  moreover have "(h + i) div 1024 = (h + j) div 1024 \<or> (h + i) div 1024 + 1 \<le> (h + j) div 1024
      \<or> (h + j) div 1024 + 1 \<le> (h + i) div 1024" by linarith
  ultimately show "i = j" using b by linarith
qed

lemma u32_of_c_int_Suc: "u32_of_int (c_int (x + 1)) = u32_of_int x + 1"
  by (simp add: u32_of_int_def)

lemma kb_relD:
  assumes "kb_rel kb q" and "i < 1024"
  shows "buffer kb ! ((unat (u32_of_int (head kb)) + i) mod 1024) = (if i < length q then q ! i else 0)"
  using assms by (simp add: kb_rel_def)

lemma tail_index: "kb_rel kb q \<Longrightarrow> keyboard_get_tail_index kb = (unat (u32_of_int (head kb)) + length q) mod 1024"
  by (simp add: kb_rel_def keyboard_get_tail_index_def ring_index)

lemma push_rel:
  assumes rel: "kb_rel kb q" and c: "c \<noteq> 0" and len: "length q < 1024"
  shows "kb_rel (push_char c kb) (q @ [c])"
proof -
  let ?h = "unat (u32_of_int (head kb))" and ?n = "length q"
  let ?kb = "push_char c kb"
  have b: "length (buffer kb) = 1024" using rel by (simp add: kb_rel_def)
  have kb: "?kb = kb\<lparr>buffer := (buffer kb)[(?h + ?n) mod 1024 := c], tail := c_int (tail kb + 1)\<rparr>"
    using c by (simp add: push_char_def tail_index [OF rel])
  have "buffer ?kb ! ((?h + i) mod 1024) = (if i < Suc ?n then (q @ [c]) ! i else 0)" if i: "i < 1024" for i
  proof (cases "i = ?n")
    case True
    then show ?thesis by (simp add: kb b)
  next
    case False
    then have "(?h + i) mod 1024 \<noteq> (?h + ?n) mod 1024" using ring_inj i len by blast
    then show ?thesis using kb_relD [OF rel i] False by (simp add: kb nth_append)
  qed
  moreover have "u32_of_int (tail ?kb) = u32_of_int (head ?kb) + of_nat (Suc ?n)"
    using rel by (simp add: kb kb_rel_def u32_of_c_int_Suc del: u32_of_c_int)
  ultimately show ?thesis using rel c len by (auto simp: kb_rel_def kb)
qed

lemma pop_rel:
  assumes rel: "kb_rel kb (c # q)"
  shows "fst (pop_char kb) = c \<and> kb_rel (snd (pop_char kb)) q"
proof -
  let ?h = "unat (u32_of_int (head kb))"
  have b: "length (buffer kb) = 1024" and c: "c \<noteq> 0" and q: "length q < 1024" "0 \<notin> set q"
    using rel by (auto simp: kb_rel_def)
  have r: "buffer kb ! (?h mod 1024) = c" using kb_relD [OF rel, of 0] by simp
  let ?kb = "kb\<lparr>buffer := (buffer kb)[?h mod 1024 := 0], head := c_int (head kb + 1)\<rparr>"
  have p: "pop_char kb = (c, ?kb)" using r c by (simp add: pop_char_def Let_def ring_index_0)
  have h: "u32_of_int (head ?kb) = u32_of_int (head kb) + 1"
    by (simp add: u32_of_c_int_Suc del: u32_of_c_int)
  have hi: "(unat (u32_of_int (head ?kb)) + i) mod 1024 = (?h + Suc i) mod 1024" for i
  proof -
    have "(unat (u32_of_int (head ?kb)) + i) mod 1024 = unat ((u32_of_int (head ?kb) + of_nat i) mod 1024)"
      by (rule ring_index [symmetric])
    also have "u32_of_int (head ?kb) + of_nat i = u32_of_int (head kb) + of_nat (Suc i)"
      unfolding h by simp
    finally show ?thesis by (simp only: ring_index)
  qed
  have "buffer ?kb ! ((?h + Suc i) mod 1024) = (if i < length q then q ! i else 0)" if i: "i < 1024" for i
  proof (cases "i = 1023")
    case True
    then have "(?h + Suc i) mod 1024 = ?h mod 1024" by simp
    then show ?thesis using True q b by simp
  next
    case False
    then have i': "Suc i < 1024" using i by simp
    then have "(?h + Suc i) mod 1024 \<noteq> (?h + 0) mod 1024" using ring_inj [of ?h "Suc i" 0] by auto
    then show ?thesis using kb_relD [OF rel i'] by simp
  qed
  moreover have "u32_of_int (tail ?kb) = u32_of_int (head ?kb) + of_nat (length q)"
    using rel unfolding h by (simp add: kb_rel_def)
  ultimately have "kb_rel ?kb q" unfolding kb_rel_def hi using q b by simp
  then show ?thesis by (simp add: p)
qed

lemma pop_rel_empty: "kb_rel kb [] \<Longrightarrow> pop_char kb = (0, kb)"
  using kb_relD [of kb "[]" 0] by (simp add: pop_char_def Let_def ring_index_0)

text \<open>The option of the code, the current process, is fixed to a process here.\<close>

definition kb_some_rel :: "keyboard_buffer option \<Rightarrow> u8 list \<Rightarrow> bool" where
  "kb_some_rel p q \<longleftrightarrow> (\<exists>kb. p = Some kb \<and> kb_rel kb q)"

interpretation kbq: fifo keyboard_push keyboard_pop kb_some_rel "\<lambda>c. c \<noteq> 0" "0 :: u8" 1024
  by unfold_locales
    (auto simp: kb_some_rel_def keyboard_push_def keyboard_pop_def push_rel pop_rel pop_rel_empty
      case_prod_beta dest: pop_rel)

text \<open>
  C21. The keyboard buffer is a queue: as long as it holds at most 1024 characters, whatever
  is pushed is popped in the order it was pushed, behind what was waiting, and then the
  buffer is empty again. This holds across the wrap-around of the indexes.
\<close>

theorem keyboard_fifo:
  assumes "kb_rel kb q" and "0 \<notin> set cs" and "length q + length cs \<le> 1024"
  shows "\<exists>kb'. kbq.pops (length q + length cs) (fold keyboard_push cs (Some kb)) = (q @ cs, Some kb')
    \<and> kb_rel kb' [] \<and> keyboard_pop (Some kb') = (0, Some kb')"
proof -
  have r: "kb_some_rel (Some kb) q" using assms(1) by (simp add: kb_some_rel_def)
  have cs: "\<forall>c \<in> set cs. c \<noteq> 0" using assms(2) by auto
  show ?thesis
    using kbq.push_pops [OF r cs assms(3)] kbq.pop_empty
    by (cases "kbq.pops (length q + length cs) (fold keyboard_push cs (Some kb))")
      (auto simp: kb_some_rel_def)
qed

definition empty_buffer :: keyboard_buffer where
  "empty_buffer = \<lparr>buffer = replicate 1024 0, tail = 0, head = 0\<rparr>"

lemma empty_buffer_rel: "kb_rel empty_buffer []"
  by (simp add: kb_rel_def empty_buffer_def)

theorem keyboard_fifo_witness:
  "\<exists>kb. kbq.pops 2 (keyboard_push 105 (keyboard_push 104 (Some empty_buffer))) = ([104, 105], Some kb)"
proof -
  have n: "length ([] :: u8 list) + length [104, 105 :: u8] = 2" by simp
  have f: "fold keyboard_push [104, 105] (Some empty_buffer) =
      keyboard_push 105 (keyboard_push 104 (Some empty_buffer))" by simp
  show ?thesis
    using keyboard_fifo [OF empty_buffer_rel, of "[104, 105]"] unfolding n f by auto
qed

text \<open>
  When 1024 characters are waiting, a further push overwrites the oldest one: the next
  pop returns the new character, and the overwritten one is lost.
\<close>

theorem keyboard_overflow:
  assumes "kb_rel kb (x # q)" and "length q = 1023" and "c \<noteq> 0"
  shows "fst (keyboard_pop (keyboard_push c (Some kb))) = c"
proof -
  let ?h = "unat (u32_of_int (head kb))"
  have "keyboard_get_tail_index kb = ?h mod 1024"
    using tail_index [OF assms(1)] assms(2) by simp
  moreover have "length (buffer kb) = 1024" using assms(1) by (simp add: kb_rel_def)
  ultimately show ?thesis using assms(3)
    by (simp add: keyboard_push_def keyboard_pop_def push_char_def pop_char_def Let_def ring_index_0)
qed

theorem keyboard_overflow_witness:
  "\<exists>kb. kb_rel kb (replicate 1024 97) \<and> fst (keyboard_pop (keyboard_push 98 (Some kb))) = 98"
proof -
  let ?kb = "\<lparr>buffer = replicate 1024 97, tail = 1024, head = 0\<rparr> :: keyboard_buffer"
  have "kb_rel ?kb (replicate 1024 97)" by (simp add: kb_rel_def)
  moreover have "replicate 1024 (97 :: u8) = 97 # replicate 1023 97"
    using replicate_Suc [of 1023 "97 :: u8"] by simp
  ultimately show ?thesis using keyboard_overflow [of ?kb 97 "replicate 1023 97" 98] by auto
qed

section \<open>Scan codes\<close>

lemma sint_of_int_8: "sint (word_of_int k :: u8) = signed_take_bit 7 k"
  by (simp add: signed_of_int)

text \<open>
  C35. A key release changes nothing; a key press pushes at most the one character of its
  scan code, for a letter in the case the caps lock state after the press selects, and
  only the caps lock key changes that state, by toggling it.
\<close>

theorem classic_interrupt:
  assumes "classic_keyboard_handle_interrupt beyond classic scancode (s, p) = (s', p')"
  shows "if scancode AND CLASSIC_KEYBOARD_KEY_RELEASE \<noteq> 0 then s' = s \<and> p' = p
    else keyboard_get_capslock_state classic s' =
           (if scancode = CLASSIC_KEYBOARD_CAPSLOCK
            then if keyboard_get_capslock_state classic s = 1 then 0 else 1
            else keyboard_get_capslock_state classic s)
      \<and> (let c = classic_keyboard_scancode_to_char beyond classic scancode s'
         in p' = (if c = 0 then p else keyboard_push c p)
            \<and> (keyboard_get_capslock_state classic s' = 0 \<longrightarrow> \<not> (65 \<le> sint c \<and> sint c \<le> 90)))"
proof -
  have low: "\<not> (65 \<le> sint (c + 32) \<and> sint (c + 32) \<le> 90)" if "65 \<le> sint c" "sint c \<le> 90" for c :: u8
  proof -
    have "c + 32 = word_of_int (sint c + 32)" by simp
    then have "sint (c + 32) = signed_take_bit 7 (sint c + 32)" by (simp only: sint_of_int_8)
    also have "\<dots> = sint c + 32" using that by (intro signed_take_bit_int_eq_self) simp_all
    finally show ?thesis using that by simp
  qed
  show ?thesis
    using assms low
    by (auto simp: classic_keyboard_handle_interrupt_def keyboard_get_capslock_state_def Let_def
        keyboard_set_capslock_def classic_keyboard_scancode_to_char_def split: if_splits)
qed

text \<open>
  The bound check of the scan code table is off by one: every code but 82 is translated
  independently of the memory behind the table, and code 82 (the keypad's 0 key) is
  translated to the byte that happens to lie there.
\<close>

theorem classic_scancode_overread:
  "(scancode \<noteq> 82 \<longrightarrow> classic_keyboard_scancode_to_char b classic scancode s
      = classic_keyboard_scancode_to_char b' classic scancode s)
    \<and> (\<not> (65 \<le> sint b \<and> sint b \<le> 90) \<longrightarrow> classic_keyboard_scancode_to_char b classic 82 s = b)"
proof -
  have len: "length keyboard_scan_set_one = 82" by (simp add: keyboard_scan_set_one_def)
  have "(keyboard_scan_set_one @ [b]) ! 82 = b"
    using nth_append_length [of keyboard_scan_set_one b "[]"] by (simp only: len)
  moreover have "unat scancode < 82" if "scancode \<noteq> 82" "\<not> 82 < unat scancode"
  proof -
    have "unat scancode \<noteq> unat (82 :: u8)" using that(1) by (simp only: word_unat_eq_iff [symmetric] not_False_eq_True)
    then show ?thesis using that(2) by simp
  qed
  ultimately show ?thesis
    by (auto simp: classic_keyboard_scancode_to_char_def len Let_def nth_append)
qed

theorem classic_scancode_overread_witness:
  "\<forall>classic s. classic_keyboard_scancode_to_char 0 classic 2 s = classic_keyboard_scancode_to_char 33 classic 2 s
    \<and> classic_keyboard_scancode_to_char 33 classic 82 s = 33"
proof (intro allI)
  fix classic s
  show "classic_keyboard_scancode_to_char 0 classic 2 s = classic_keyboard_scancode_to_char 33 classic 2 s
    \<and> classic_keyboard_scancode_to_char 33 classic 82 s = 33"
    using classic_scancode_overread [of 2 0 classic s 33] classic_scancode_overread [of 2 33 classic s 0] by simp
qed

definition one_keyboard :: keyboard_state where
  "one_keyboard = \<lparr>keyboards = (\<lambda>_. \<lparr>init = Some classic_keyboard_init_function, name = ''Classic'',
       next_keyboard = 0, capslock_state = 0\<rparr>),
     keyboard_list_head = 0, keyboard_list_last = 0, keyboard_callback = True, ports = []\<rparr>"

theorem classic_interrupt_witness:
  "\<exists>s' p'. classic_keyboard_handle_interrupt 0 0x5000 0x3A (one_keyboard, None) = (s', p')
    \<and> keyboard_get_capslock_state 0x5000 s' = 1"
proof -
  obtain s' p' where r: "classic_keyboard_handle_interrupt 0 0x5000 0x3A (one_keyboard, None) = (s', p')"
    by (cases "classic_keyboard_handle_interrupt 0 0x5000 0x3A (one_keyboard, None)")
  moreover have "keyboard_get_capslock_state 0x5000 one_keyboard = 0"
    by (simp add: keyboard_get_capslock_state_def one_keyboard_def)
  ultimately show ?thesis
    using classic_interrupt [OF r] by (auto simp: CLASSIC_KEYBOARD_KEY_RELEASE_def CLASSIC_KEYBOARD_CAPSLOCK_def)
qed

end
