(* ===== verification/Syscall.thy ===== *)
theory Syscall
  imports Process Terminal Keyboard
begin

text \<open>
  \<^verbatim>\<open>src/src/idt/idt.c\<close> and \<^verbatim>\<open>src/src/isr80h/\<close>: the interrupt descriptor table, the dispatch of
  interrupts to callbacks and of \<^verbatim>\<open>int 0x80\<close> to the ten system calls. Function pointers are
  values of a datatype with one constructor for each function the program ever registers.

  The locals whose address is taken lie below \<open>sp\<close> in the order of their declarations. A
  handler ends in one of two ways: it returns a value to the assembly stub, or it leaves the
  kernel through \<^verbatim>\<open>task_return\<close> with the registers at an address.
\<close>

section \<open>State\<close>

datatype interrupt_callback = idt_handle_exception_callback | classic_keyboard_callback

datatype isr80h_command =
    isr80h_command0_sum_function | isr80h_command1_print_function | isr80h_command2_getkey_function
  | isr80h_command3_putchar_function | isr80h_command4_malloc_function | isr80h_command5_free_function
  | isr80h_command6_process_load_start_function | isr80h_command7_invoke_system_command_function
  | isr80h_command8_get_program_arguments_function | isr80h_command9_exit_function

record system = kernel +
  screen :: terminal
  keyboard_list :: keyboard_state
  interrupt_callbacks :: "int \<Rightarrow> interrupt_callback option"
  isr80h_commands :: "int \<Rightarrow> isr80h_command option"
  idtr :: "u16 \<times> u32"
  port_writes :: "(u16 \<times> u8) list"

datatype outcome = Returned u32 | Entered_user u32

text \<open>What the linker fixes: the table of descriptors, the assembly stubs, the PS/2 keyboard.\<close>

record statics = sys +
  idt_descriptors :: u32
  interrupt_pointer_table :: "int \<Rightarrow> u32"
  isr80h_wrapper :: u32
  classic_keyboard :: u32
  classic_beyond :: u8
  tss_addr :: u32
  gdt_real :: u32

definition SIMPOS_TOTAL_INTERRUPTS :: int where "SIMPOS_TOTAL_INTERRUPTS = 512"
definition SIMPOS_MAX_ISR80H_COMMANDS :: int where "SIMPOS_MAX_ISR80H_COMMANDS = 1024"
definition KERNEL_CODE_SELECTOR :: u16 where "KERNEL_CODE_SELECTOR = 0x08"

definition outb :: "u16 \<Rightarrow> u8 \<Rightarrow> system \<Rightarrow> system" where
  "outb port val s = s\<lparr>port_writes := port_writes s @ [(port, val)]\<rparr>"

text \<open>The files below take the part of the linker's record they know.\<close>

definition sys_of :: "statics \<Rightarrow> sys" where
  "sys_of S = \<lparr>controller = controller S, disk_addr = disk_addr S, fat16_fs_addr = fat16_fs_addr S,
     filesystems_addr = filesystems_addr S, file_descriptors_addr = file_descriptors_addr S,
     literal_addr = literal_addr S\<rparr>"

section \<open>The descriptor table\<close>

definition idt_set :: "statics \<Rightarrow> int \<Rightarrow> u32 \<Rightarrow> mem \<Rightarrow> mem" where
  "idt_set S interrupt_no address m =
     (let desc = idt_descriptors S + u32_of_int (8 * interrupt_no);
          m = store16 m desc (ucast (address AND 0x0000ffff));
          m = store16 m (desc + 2) KERNEL_CODE_SELECTOR;
          m = m(desc + 4 := 0x00);
          m = m(desc + 5 := 0xEE)
      in store16 m (desc + 6) (ucast (drop_bit 16 address)))"

definition idt_register_interrupt_callback :: "int \<Rightarrow> interrupt_callback \<Rightarrow> system \<Rightarrow> int \<times> system" where
  "idt_register_interrupt_callback interrupt callback s =
     (if interrupt < 0 \<or> interrupt \<ge> SIMPOS_TOTAL_INTERRUPTS then (- EINVARG, s)
      else (0, s\<lparr>interrupt_callbacks := (interrupt_callbacks s)(interrupt := Some callback)\<rparr>))"

function idt_fill_loop :: "statics \<Rightarrow> int \<Rightarrow> mem \<Rightarrow> mem" where
  "idt_fill_loop S i m =
     (if i < SIMPOS_TOTAL_INTERRUPTS
      then idt_fill_loop S (i + 1) (idt_set S i (interrupt_pointer_table S i) m) else m)"
  by auto
termination by (relation "measure (\<lambda>(_, i, _). nat (512 - i))") (auto simp: SIMPOS_TOTAL_INTERRUPTS_def)

function idt_exceptions_loop :: "int \<Rightarrow> system \<Rightarrow> system" where
  "idt_exceptions_loop i s =
     (if i < 0x20
      then idt_exceptions_loop (i + 1) (snd (idt_register_interrupt_callback i idt_handle_exception_callback s)) else s)"
  by auto
termination by (relation "measure (\<lambda>(i, _). nat (32 - i))") auto

declare idt_fill_loop.simps [simp del] idt_exceptions_loop.simps [simp del]

definition idt_init :: "statics \<Rightarrow> system \<Rightarrow> mem \<Rightarrow> system \<times> mem" where
  "idt_init S s m =
     (let m = memset m (idt_descriptors S) 0 4096;
          m = idt_fill_loop S 0 m;
          m = idt_set S 0x80 (isr80h_wrapper S) m;
          s = idt_exceptions_loop 0 s
      in (s\<lparr>idtr := (4096 - 1, idt_descriptors S)\<rparr>, m))"

section \<open>System calls\<close>

definition current_stack_item :: "int \<Rightarrow> system \<Rightarrow> mem \<Rightarrow> (u32 \<times> system) option" where
  "current_stack_item index s m = task_get_stack_item (task_current s) index s m"

definition isr80h_command0_sum :: "u32 \<Rightarrow> system \<Rightarrow> mem \<Rightarrow> (outcome \<times> system \<times> mem) option" where
  "isr80h_command0_sum frame s m =
     do { (value1, s) \<leftarrow> current_stack_item 0 s m;
          (value2, s) \<leftarrow> current_stack_item 1 s m;
          Some (Returned (value1 + value2), s, m) }"

definition isr80h_command1_print :: "heap \<Rightarrow> u32 \<Rightarrow> u32 \<Rightarrow> system \<Rightarrow> mem \<Rightarrow> (outcome \<times> system \<times> mem) option" where
  "isr80h_command1_print h sp frame s m =
     (let buf = sp - 1024 in do {
        (user_space_msg_buffer, s) \<leftarrow> current_stack_item 0 s m;
        (_, s, m) \<leftarrow> copy_string_from_task h (task_current s) user_space_msg_buffer buf 1024 s m;
        (t, m) \<leftarrow> print buf (screen s) m;
        Some (Returned 0, s\<lparr>screen := t\<rparr>, m) })"

text \<open>The ring buffer of a process in memory.\<close>

definition load_keyboard :: "mem \<Rightarrow> u32 \<Rightarrow> keyboard_buffer" where
  "load_keyboard m process = \<lparr>buffer = load_bytes m (process + 8324) 1024,
     tail = int_of_u32 (load32 m (process + 9348)), head = int_of_u32 (load32 m (process + 9352))\<rparr>"

definition store_keyboard :: "keyboard_buffer \<Rightarrow> u32 \<Rightarrow> mem \<Rightarrow> mem" where
  "store_keyboard kb process m =
     (let m = store_bytes m (process + 8324) (buffer kb);
          m = store32 m (process + 9348) (u32_of_int (tail kb))
      in store32 m (process + 9352) (u32_of_int (head kb)))"

text \<open>\<open>keyboard_pop\<close> uses the process of the current task.\<close>

definition isr80h_command2_getkey :: "u32 \<Rightarrow> system \<Rightarrow> mem \<Rightarrow> (outcome \<times> system \<times> mem) option" where
  "isr80h_command2_getkey frame s m =
     (if task_current s = 0 then Some (Returned (scast (fst (keyboard_pop None))), s, m)
      else let process = task_process m (task_current s) in
        case keyboard_pop (Some (load_keyboard m process)) of (c, kb) \<Rightarrow>
          Some (Returned (scast c), s, case kb of None \<Rightarrow> m | Some kb \<Rightarrow> store_keyboard kb process m))"

definition isr80h_command3_putchar :: "u32 \<Rightarrow> system \<Rightarrow> mem \<Rightarrow> (outcome \<times> system \<times> mem) option" where
  "isr80h_command3_putchar frame s m =
     do { (c, s) \<leftarrow> current_stack_item 0 s m;
          case terminal_writechar (ucast c) COLOR_WHITE (screen s) m of (t, m) \<Rightarrow>
          Some (Returned 0, s\<lparr>screen := t\<rparr>, m) }"

definition isr80h_command4_malloc :: "heap \<Rightarrow> u32 \<Rightarrow> system \<Rightarrow> mem \<Rightarrow> (outcome \<times> system \<times> mem) option" where
  "isr80h_command4_malloc h frame s m =
     do { (sz, s) \<leftarrow> current_stack_item 0 s m;
          case process_malloc h (task_process m (task_current s)) sz m of (ptr, m) \<Rightarrow> Some (Returned ptr, s, m) }"

definition isr80h_command5_free :: "heap \<Rightarrow> u32 \<Rightarrow> system \<Rightarrow> mem \<Rightarrow> (outcome \<times> system \<times> mem) option" where
  "isr80h_command5_free h frame s m =
     do { (ptr_to_free, s) \<leftarrow> current_stack_item 0 s m;
          Some (Returned 0, s, process_free h (task_process m (task_current s)) ptr_to_free m) }"

text \<open>\<open>filename\<close> lies at \<open>sp - 108\<close>, \<open>path\<close> at \<open>sp - 216\<close>.\<close>

definition isr80h_command6_process_load_start ::
  "statics \<Rightarrow> heap \<Rightarrow> u32 \<Rightarrow> u32 \<Rightarrow> system \<Rightarrow> mem \<Rightarrow> (outcome \<times> system \<times> mem) option" where
  "isr80h_command6_process_load_start S h sp frame s m =
     (let filename = sp - 108; path = sp - 216 in do {
        (filename_user_ptr, s) \<leftarrow> current_stack_item 0 s m;
        (res, s, m) \<leftarrow> copy_string_from_task h (task_current s) filename_user_ptr filename 108 s m;
        if res < 0 then Some (Returned 0, s, m)
        else do {
          m \<leftarrow> strcpy m path (literal_addr S [48, 58, 47]);
          m \<leftarrow> strcpy m (path + 3) filename;
          (res, process, s, m) \<leftarrow> process_load_switch (sys_of S) h path path 0 s m;
          if res < 0 then Some (Returned 0, s, m)
          else let s = task_switch (process_task m process) m s
               in Some (Entered_user (task_registers (process_task m process)), s, m) } })"

text \<open>\<open>path\<close> lies at \<open>sp - 108\<close>; the copy behind its first three bytes may take 108 bytes.\<close>

definition isr80h_command7_path :: "statics \<Rightarrow> u32 \<Rightarrow> u32 \<Rightarrow> mem \<Rightarrow> mem option" where
  "isr80h_command7_path S path program_name m =
     do { m \<leftarrow> strcpy m path (literal_addr S [48, 58, 47]); Some (strncpy m (path + 3) program_name 108) }"

definition isr80h_command7_invoke_system_command ::
  "statics \<Rightarrow> heap \<Rightarrow> u32 \<Rightarrow> u32 \<Rightarrow> system \<Rightarrow> mem \<Rightarrow> (outcome \<times> system \<times> mem) option" where
  "isr80h_command7_invoke_system_command S h sp frame s m =
     (let path = sp - 108 in do {
        (item, s) \<leftarrow> current_stack_item 0 s m;
        let arguments = task_virtual_address_to_physical (task_current s) item m in
        if arguments = 0 then Some (Returned (u32_of_int (- EINVARG)), s, m)
        else do {
          len \<leftarrow> strlen m arguments;
          if len = 0 then Some (Returned (u32_of_int (- EINVARG)), s, m)
          else do {
            m \<leftarrow> isr80h_command7_path S path arguments m;
            (res, process, s, m) \<leftarrow> process_load_switch (sys_of S) h path path 0 s m;
            if res < 0 then Some (Returned (u32_of_int res), s, m)
            else do {
              (res, m) \<leftarrow> process_inject_arguments h process arguments m;
              if res < 0 then Some (Returned (u32_of_int res), s, m)
              else let s = task_switch (process_task m process) m s
                   in Some (Entered_user (task_registers (process_task m process)), s, m) } } } })"

definition isr80h_command8_get_program_arguments ::
  "u32 \<Rightarrow> system \<Rightarrow> mem \<Rightarrow> (outcome \<times> system \<times> mem) option" where
  "isr80h_command8_get_program_arguments frame s m =
     (let process = task_process m (task_current s) in do {
        (item, s) \<leftarrow> current_stack_item 0 s m;
        let arguments = task_virtual_address_to_physical (task_current s) item m in
        Some (Returned 0, s, process_get_arguments process arguments (arguments + 4) m) })"

definition isr80h_command9_exit :: "heap \<Rightarrow> u32 \<Rightarrow> system \<Rightarrow> mem \<Rightarrow> (outcome \<times> system \<times> mem) option" where
  "isr80h_command9_exit h frame s m =
     (let process = task_process m (task_current s) in do {
        (s, m) \<leftarrow> process_terminate h process s m;
        (s, regs) \<leftarrow> task_next m s;
        Some (Entered_user regs, s, m) })"

section \<open>Dispatch\<close>

text \<open>A command that is out of bounds or registered twice panics.\<close>

definition isr80h_register_command :: "int \<Rightarrow> isr80h_command \<Rightarrow> system \<Rightarrow> system option" where
  "isr80h_register_command command_id cmd s =
     (if command_id < 0 \<or> command_id \<ge> SIMPOS_MAX_ISR80H_COMMANDS then None
      else if isr80h_commands s command_id \<noteq> None then None
      else Some (s\<lparr>isr80h_commands := (isr80h_commands s)(command_id := Some cmd)\<rparr>))"

definition isr80h_register_commands :: "system \<Rightarrow> system option" where
  "isr80h_register_commands s =
     do { s \<leftarrow> isr80h_register_command 0 isr80h_command0_sum_function s;
          s \<leftarrow> isr80h_register_command 1 isr80h_command1_print_function s;
          s \<leftarrow> isr80h_register_command 2 isr80h_command2_getkey_function s;
          s \<leftarrow> isr80h_register_command 3 isr80h_command3_putchar_function s;
          s \<leftarrow> isr80h_register_command 4 isr80h_command4_malloc_function s;
          s \<leftarrow> isr80h_register_command 5 isr80h_command5_free_function s;
          s \<leftarrow> isr80h_register_command 6 isr80h_command6_process_load_start_function s;
          s \<leftarrow> isr80h_register_command 7 isr80h_command7_invoke_system_command_function s;
          s \<leftarrow> isr80h_register_command 8 isr80h_command8_get_program_arguments_function s;
          isr80h_register_command 9 isr80h_command9_exit_function s }"

definition isr80h_call ::
  "statics \<Rightarrow> heap \<Rightarrow> u32 \<Rightarrow> isr80h_command \<Rightarrow> u32 \<Rightarrow> system \<Rightarrow> mem \<Rightarrow> (outcome \<times> system \<times> mem) option" where
  "isr80h_call S h sp cmd frame s m =
     (case cmd of
        isr80h_command0_sum_function \<Rightarrow> isr80h_command0_sum frame s m
      | isr80h_command1_print_function \<Rightarrow> isr80h_command1_print h sp frame s m
      | isr80h_command2_getkey_function \<Rightarrow> isr80h_command2_getkey frame s m
      | isr80h_command3_putchar_function \<Rightarrow> isr80h_command3_putchar frame s m
      | isr80h_command4_malloc_function \<Rightarrow> isr80h_command4_malloc h frame s m
      | isr80h_command5_free_function \<Rightarrow> isr80h_command5_free h frame s m
      | isr80h_command6_process_load_start_function \<Rightarrow> isr80h_command6_process_load_start S h sp frame s m
      | isr80h_command7_invoke_system_command_function \<Rightarrow> isr80h_command7_invoke_system_command S h sp frame s m
      | isr80h_command8_get_program_arguments_function \<Rightarrow> isr80h_command8_get_program_arguments frame s m
      | isr80h_command9_exit_function \<Rightarrow> isr80h_command9_exit h frame s m)"

definition isr80h_handle_command ::
  "statics \<Rightarrow> heap \<Rightarrow> u32 \<Rightarrow> int \<Rightarrow> u32 \<Rightarrow> system \<Rightarrow> mem \<Rightarrow> (outcome \<times> system \<times> mem) option" where
  "isr80h_handle_command S h sp cmd frame s m =
     (if cmd < 0 \<or> cmd \<ge> SIMPOS_MAX_ISR80H_COMMANDS then Some (Returned 0, s, m)
      else case isr80h_commands s cmd of
          None \<Rightarrow> Some (Returned 0, s, m)
        | Some command_func \<Rightarrow> isr80h_call S h sp command_func frame s m)"

text \<open>A handler that has left the kernel does not come back to \<open>task_page\<close>.\<close>

definition isr80h_handler ::
  "statics \<Rightarrow> heap \<Rightarrow> u32 \<Rightarrow> int \<Rightarrow> u32 \<Rightarrow> system \<Rightarrow> mem \<Rightarrow> (outcome \<times> system \<times> mem) option" where
  "isr80h_handler S h sp cmd frame s m =
     (let s = kernel_page m s in do {
        m \<leftarrow> task_current_save_state frame s m;
        (res, s, m) \<leftarrow> isr80h_handle_command S h sp cmd frame s m;
        case res of Returned v \<Rightarrow> Some (Returned v, task_page m s, m) | Entered_user r \<Rightarrow> Some (Entered_user r, s, m) })"

definition no_interrupt_handler :: "system \<Rightarrow> system" where "no_interrupt_handler s = outb 0x20 0x20 s"

definition idt_handle_exception :: "heap \<Rightarrow> system \<Rightarrow> mem \<Rightarrow> (outcome \<times> system \<times> mem) option" where
  "idt_handle_exception h s m =
     do { (s, m) \<leftarrow> process_terminate h (task_process m (task_current s)) s m;
          (s, regs) \<leftarrow> task_next m s;
          Some (Entered_user regs, s, m) }"

text \<open>
  The keyboard callback: \<open>scancode\<close> is the byte the port delivers. \<open>keyboard_push\<close> uses the
  current process, which may be none.
\<close>

definition keyboard_interrupt :: "statics \<Rightarrow> u8 \<Rightarrow> system \<Rightarrow> mem \<Rightarrow> (outcome \<times> system \<times> mem) option" where
  "keyboard_interrupt S scancode s m =
     (let s = kernel_page m s;
          process = process_current s in
      case classic_keyboard_handle_interrupt (classic_beyond S) (classic_keyboard S) scancode
             (keyboard_list s, if process = 0 then None else Some (load_keyboard m process)) of (ks, kb) \<Rightarrow>
      let s = s\<lparr>keyboard_list := ks\<rparr>;
          m = (case kb of None \<Rightarrow> m | Some kb \<Rightarrow> store_keyboard kb process m);
          s = (if scancode AND CLASSIC_KEYBOARD_KEY_RELEASE \<noteq> 0 then s else task_page m s)
      in Some (Returned 0, s, m))"

definition interrupt_handler ::
  "statics \<Rightarrow> heap \<Rightarrow> u8 \<Rightarrow> int \<Rightarrow> u32 \<Rightarrow> system \<Rightarrow> mem \<Rightarrow> (outcome \<times> system \<times> mem) option" where
  "interrupt_handler S h scancode interrupt frame s m =
     (let s = kernel_page m s;
          return = (\<lambda>s m. Some (Returned 0, outb 0x20 0x20 (task_page m s), m)) in
      case interrupt_callbacks s interrupt of
        None \<Rightarrow> return s m
      | Some callback \<Rightarrow> do {
          m \<leftarrow> task_current_save_state frame s m;
          (res, s, m) \<leftarrow> (case callback of
               idt_handle_exception_callback \<Rightarrow> idt_handle_exception h s m
             | classic_keyboard_callback \<Rightarrow> keyboard_interrupt S scancode s m);
          case res of Returned _ \<Rightarrow> return s m | Entered_user r \<Rightarrow> Some (Entered_user r, s, m) })"

end
