(* ===== verification/Gdt.thy ===== *)
theory Gdt
  imports Base
begin

text \<open>
  \<^verbatim>\<open>src/src/gdt/gdt.c\<close> and the table of \<^verbatim>\<open>src/src/kernel.c\<close>: segment descriptors,
  packed into the eight bytes the processor reads, and the processor's reading of them.
\<close>

section \<open>Operations\<close>

record gdt_structured =
  base :: u32
  limit :: u32
  type :: u8

text \<open>The result is \<open>None\<close> where the code panics.\<close>

definition encodeGdtEntry :: "u32 \<Rightarrow> gdt_structured \<Rightarrow> mem \<Rightarrow> mem option" where
  "encodeGdtEntry target source m =
     (if limit source > 65536 \<and> (limit source AND 0xFFF) \<noteq> 0xFFF then None
      else
        let m = m(target + 6 := 0x40);
            (source, m) = (if limit source > 65536
              then (source\<lparr>limit := drop_bit 12 (limit source)\<rparr>, m(target + 6 := 0xC0))
              else (source, m));
            m = m(target + 0 := ucast (limit source AND 0xFF));
            m = m(target + 1 := ucast (drop_bit 8 (limit source) AND 0xFF));
            m = m(target + 6 := m (target + 6) OR ucast (drop_bit 16 (limit source) AND 0x0F));
            m = m(target + 2 := ucast (base source AND 0xFF));
            m = m(target + 3 := ucast (drop_bit 8 (base source) AND 0xFF));
            m = m(target + 4 := ucast (drop_bit 16 (base source) AND 0xFF));
            m = m(target + 7 := ucast (drop_bit 24 (base source) AND 0xFF));
            m = m(target + 5 := type source)
        in Some m)"

text \<open>\<open>gdt[i]\<close> is eight bytes wide; the list is the array from index \<open>i\<close> on.\<close>

primrec gdt_structured_to_gdt_loop :: "u32 \<Rightarrow> nat \<Rightarrow> gdt_structured list \<Rightarrow> mem \<Rightarrow> mem option" where
  "gdt_structured_to_gdt_loop gdt i [] m = Some m"
| "gdt_structured_to_gdt_loop gdt i (s # ss) m =
     do { m' \<leftarrow> encodeGdtEntry (gdt + of_nat (8 * i)) s m; gdt_structured_to_gdt_loop gdt (i + 1) ss m' }"

definition gdt_structured_to_gdt :: "u32 \<Rightarrow> gdt_structured list \<Rightarrow> int \<Rightarrow> mem \<Rightarrow> mem option" where
  "gdt_structured_to_gdt gdt structured_gdt total_entries m =
     gdt_structured_to_gdt_loop gdt 0 (take (nat total_entries) structured_gdt) m"

text \<open>The kernel's table; \<open>tss\<close> is the address of the task state segment, 108 bytes long.\<close>

definition gdt_table :: "u32 \<Rightarrow> gdt_structured list" where
  "gdt_table tss =
    [\<lparr>base = 0x00, limit = 0x00, type = 0x00\<rparr>,
     \<lparr>base = 0x00, limit = 0xffffffff, type = 0x9a\<rparr>,
     \<lparr>base = 0x00, limit = 0xffffffff, type = 0x92\<rparr>,
     \<lparr>base = 0x00, limit = 0xffffffff, type = 0xf8\<rparr>,
     \<lparr>base = 0x00, limit = 0xffffffff, type = 0xf2\<rparr>,
     \<lparr>base = tss, limit = 108, type = 0xE9\<rparr>]"

section \<open>The processor's view of a descriptor\<close>

text \<open>
  The manual's layout: base in bytes 2, 3, 4 and 7, the 20 bit limit in bytes 0, 1 and the
  low half of 6, the access byte in 5; with the granularity bit the limit counts 4 KB pages.
\<close>

definition descriptor_base :: "mem \<Rightarrow> u32 \<Rightarrow> u32" where
  "descriptor_base m p = ucast (m (p + 2)) OR push_bit 8 (ucast (m (p + 3)))
     OR push_bit 16 (ucast (m (p + 4))) OR push_bit 24 (ucast (m (p + 7)))"

definition descriptor_limit :: "mem \<Rightarrow> u32 \<Rightarrow> u32" where
  "descriptor_limit m p =
     (let raw = ucast (m p) OR push_bit 8 (ucast (m (p + 1))) OR push_bit 16 (ucast (m (p + 6) AND 0x0F))
      in if bit (m (p + 6)) 7 then push_bit 12 raw OR 0xFFF else raw)"

definition descriptor :: "mem \<Rightarrow> u32 \<Rightarrow> gdt_structured" where
  "descriptor m p = \<lparr>base = descriptor_base m p, limit = descriptor_limit m p, type = m (p + 5)\<rparr>"

definition encodable :: "gdt_structured \<Rightarrow> bool" where
  "encodable s \<longleftrightarrow> limit s \<le> 65536 \<or> (limit s AND 0xFFF) = 0xFFF"

lemma encode_bytes:
  assumes "encodable s" and "encodeGdtEntry p s m = Some m'"
  defines "l \<equiv> if limit s > 65536 then drop_bit 12 (limit s) else limit s"
  shows "m' p = ucast l" "m' (p + 1) = ucast (drop_bit 8 l)"
    "m' (p + 6) = (if limit s > 65536 then 0xC0 else 0x40) OR ucast (drop_bit 16 l AND 0x0F)"
    "m' (p + 2) = ucast (base s)" "m' (p + 3) = ucast (drop_bit 8 (base s))"
    "m' (p + 4) = ucast (drop_bit 16 (base s))" "m' (p + 7) = ucast (drop_bit 24 (base s))"
    "m' (p + 5) = type s"
proof -
  have f: "(0xFF :: u32) = mask 8" by (simp add: mask_eq_exp_minus_1)
  have b: "(ucast (w AND 0xFF) :: u8) = ucast w" for w :: u32
    unfolding f by (rule bit_word_eqI) (auto simp: bit_simps)
  show "m' p = ucast l" "m' (p + 1) = ucast (drop_bit 8 l)"
    "m' (p + 6) = (if limit s > 65536 then 0xC0 else 0x40) OR ucast (drop_bit 16 l AND 0x0F)"
    "m' (p + 2) = ucast (base s)" "m' (p + 3) = ucast (drop_bit 8 (base s))"
    "m' (p + 4) = ucast (drop_bit 16 (base s))" "m' (p + 7) = ucast (drop_bit 24 (base s))"
    "m' (p + 5) = type s"
    using assms(2) by (auto simp: encodeGdtEntry_def Let_def l_def b split: if_splits)
qed

lemma encode_frame:
  "encodeGdtEntry p s m = Some m' \<Longrightarrow> same_outside (region p 8) m m'"
proof -
  have "p + of_nat i \<in> region p 8" if "i < 8" for i
    using that by (intro in_region_offset) simp_all
  from this [of 0] this [of 1] this [of 2] this [of 3] this [of 4] this [of 5] this [of 6] this [of 7]
  have r: "p \<in> region p 8" "p + 1 \<in> region p 8" "p + 2 \<in> region p 8" "p + 3 \<in> region p 8"
      "p + 4 \<in> region p 8" "p + 5 \<in> region p 8" "p + 6 \<in> region p 8" "p + 7 \<in> region p 8"
    by simp_all
  show "encodeGdtEntry p s m = Some m' \<Longrightarrow> same_outside (region p 8) m m'"
    using r by (auto simp: encodeGdtEntry_def Let_def same_outside_def split: if_splits)
qed

lemma encode_Some: "(encodeGdtEntry p s m = None) = (\<not> encodable s)"
  by (auto simp: encodeGdtEntry_def encodable_def Let_def not_le)

lemma bytes_of_u32:
  "(ucast (ucast w :: u8) OR push_bit 8 (ucast (ucast (drop_bit 8 w) :: u8))
     OR push_bit 16 (ucast (ucast (drop_bit 16 w) :: u8)) OR push_bit 24 (ucast (ucast (drop_bit 24 w) :: u8)))
   = (w :: u32)"
  using load32_store32_same [of "\<lambda>_. 0" 0 w] by (simp add: load32_def store32_def)

lemma limit_20:
  assumes "drop_bit 20 w = (0 :: u32)"
  shows "ucast (ucast w :: u8) OR push_bit 8 (ucast (ucast (drop_bit 8 w) :: u8))
     OR push_bit 16 (ucast (ucast (drop_bit 16 w AND 0x0F) :: u8)) = (w :: u32)"
proof (rule bit_word_eqI)
  fix n assume "n < LENGTH(32)"
  have m: "(0x0F :: u32) = mask 4" by (simp add: mask_eq_exp_minus_1)
  have "bit (drop_bit 20 w) (n - 20) = bit (0 :: u32) (n - 20)" by (simp only: assms)
  then have h: "20 \<le> n \<Longrightarrow> \<not> bit w n" by (simp add: bit_simps)
  consider "n < 8" | "8 \<le> n" "n < 16" | "16 \<le> n" "n < 20" | "20 \<le> n" by linarith
  then show "bit (ucast (ucast w :: u8) OR push_bit 8 (ucast (ucast (drop_bit 8 w) :: u8))
     OR push_bit 16 (ucast (ucast (drop_bit 16 w AND 0x0F) :: u8)) :: u32) n = bit w n"
    unfolding m using h by cases (auto simp: bit_simps)
qed

lemma encodeGdtEntry_facts:
  "case encodeGdtEntry p s m of
     None \<Rightarrow> limit s > 65536 \<and> (limit s AND 0xFFF) \<noteq> 0xFFF
   | Some m' \<Rightarrow> encodable s \<and> descriptor m' p = s \<and> same_outside (region p 8) m m'"
proof (cases "encodeGdtEntry p s m")
  case None
  then show ?thesis using encode_Some [of p s m] by (auto simp: encodable_def not_le)
next
  case (Some m')
  have enc: "encodable s" using encode_Some [of p s m] Some by auto
  note b = encode_bytes [OF enc Some]
  define l where "l = (if limit s > 65536 then drop_bit 12 (limit s) else limit s)"
  have l20: "drop_bit 20 l = 0"
  proof (cases "limit s > 65536")
    case True
    have "drop_bit 20 (drop_bit 12 (limit s)) = 0"
      by (rule bit_word_eqI) (auto simp: bit_simps dest: bit_imp_le_length)
    then show ?thesis using True by (simp add: l_def)
  next
    case False
    then have "limit s \<le> 65536" by simp
    then have "limit s < 1048576" by (rule order_le_less_trans) simp
    then have "unat (limit s) < 1048576" by (simp add: word_less_nat_alt)
    then have "limit s div 1048576 = 0" by (simp add: word_unat_eq_iff unat_div)
    moreover have "(1048576 :: u32) = 2 ^ 20" by simp
    ultimately have "limit s div 2 ^ 20 = 0" by (simp only:)
    then show ?thesis using False by (simp only: l_def if_False drop_bit_eq_div)
  qed
  have hi: "(m' (p + 6) AND 0x0F) = ucast (drop_bit 16 l AND 0x0F)"
    "bit (m' (p + 6)) 7 = (limit s > 65536)"
  proof -
    have m: "(0x0F :: u32) = mask 4" "(0x0F :: u8) = mask 4" by (simp_all add: mask_eq_exp_minus_1)
    have c: "(0xC0 :: u8) AND mask 4 = 0" "(0x40 :: u8) AND mask 4 = 0" by (simp_all add: mask_eq_exp_minus_1)
    have "(ucast (drop_bit 16 l AND mask 4) :: u8) AND mask 4 = ucast (drop_bit 16 l AND mask 4)"
      by (rule bit_word_eqI) (auto simp: bit_simps)
    then show "(m' (p + 6) AND 0x0F) = ucast (drop_bit 16 l AND 0x0F)"
      unfolding b(3) [folded l_def] m by (simp only: bit.conj_disj_distrib2 c or.left_neutral if_distrib [of "\<lambda>x. x AND mask 4"] if_cancel)
    show "bit (m' (p + 6)) 7 = (limit s > 65536)"
      unfolding b(3) [folded l_def] m by (auto simp: bit_simps)
  qed
  have raw: "ucast (m' p) OR push_bit 8 (ucast (m' (p + 1))) OR push_bit 16 (ucast (m' (p + 6) AND 0x0F)) = l"
    unfolding b(1,2) [folded l_def] hi(1) using l20 by (rule limit_20)
  have "(if limit s > 65536 then push_bit 12 l OR 0xFFF else l) = limit s"
  proof (cases "limit s > 65536")
    case True
    have m: "(0xFFF :: u32) = mask 12" by (simp add: mask_eq_exp_minus_1)
    have "limit s AND mask 12 = mask 12" using enc True by (auto simp: encodable_def m not_le [symmetric])
    moreover have "push_bit 12 (drop_bit 12 (limit s)) OR (limit s AND mask 12) = limit s"
      by (rule bit_word_eqI) (auto simp: bit_simps)
    ultimately show ?thesis using True by (simp only: l_def m if_True)
  qed (simp add: l_def)
  then have "descriptor_limit m' p = limit s" by (simp only: descriptor_limit_def Let_def raw hi(2))
  moreover have "descriptor_base m' p = base s"
    unfolding descriptor_base_def b by (rule bytes_of_u32)
  ultimately show ?thesis
    using Some enc encode_frame [OF Some] by (simp add: descriptor_def b(8))
qed

text \<open>
  C36. Packing a segment and reading it back as the processor does yields the same base,
  limit and access byte, whenever the code accepts the segment; it panics on exactly the
  limits that exceed 64 KB and are not of the form 4 KB * n - 1.
\<close>

theorem encodeGdtEntry_roundtrip:
  "case encodeGdtEntry p s m of
     None \<Rightarrow> limit s > 65536 \<and> (limit s AND 0xFFF) \<noteq> 0xFFF
   | Some m' \<Rightarrow> encodable s \<and> descriptor m' p = s \<and> same_outside (region p 8) m m'"
  by (rule encodeGdtEntry_facts)

lemma region_8: "i < 8 \<Longrightarrow> p + of_nat i \<in> region p 8"
  by (rule in_region_offset) simp_all

lemma descriptor_frame:
  assumes "same_outside A m m'" and "region p 8 \<inter> A = {}"
  shows "descriptor m' p = descriptor m p"
proof -
  have "m' (p + of_nat i) = m (p + of_nat i)" if "i < 8" for i
    using region_8 [OF that, of p] assms(2) by (intro same_outsideD [OF assms(1)]) auto
  from this [of 0] this [of 1] this [of 2] this [of 3] this [of 4] this [of 5] this [of 6] this [of 7]
  show ?thesis by (simp add: descriptor_def descriptor_base_def descriptor_limit_def)
qed

lemma entry_split: "region gdt (8 * Suc n) = region gdt 8 \<union> region (gdt + 8) (8 * n)" if "8 * Suc n < 2 ^ 32"
proof
  show "region gdt (8 * Suc n) \<subseteq> region gdt 8 \<union> region (gdt + 8) (8 * n)"
  proof
    fix a assume "a \<in> region gdt (8 * Suc n)"
    then obtain i where i: "i < 8 * Suc n" "a = gdt + of_nat i" by (rule region_offsetE)
    show "a \<in> region gdt 8 \<union> region (gdt + 8) (8 * n)"
    proof (cases "i < 8")
      case False
      then have "a = gdt + 8 + of_nat (i - 8)" using i(2) by (simp add: of_nat_diff)
      then show ?thesis using in_region_offset [of "i - 8" "8 * n" "gdt + 8"] False i(1) that by auto
    qed (use i region_8 in simp)
  qed
  show "region gdt 8 \<union> region (gdt + 8) (8 * n) \<subseteq> region gdt (8 * Suc n)"
  proof -
    have "a \<in> region gdt (8 * Suc n)" if a: "a \<in> region (gdt + 8) (8 * n)" for a
    proof -
      obtain i where "i < 8 * n" "a = gdt + 8 + of_nat i" using a by (rule region_offsetE)
      then have "a = gdt + of_nat (8 + i)" "8 + i < 8 * Suc n" by (simp_all add: add.assoc)
      then show ?thesis using in_region_offset [of "8 + i" "8 * Suc n" gdt] \<open>8 * Suc n < 2 ^ 32\<close> by simp
    qed
    then show ?thesis using region_mono [of 8 "8 * Suc n" gdt] by auto
  qed
qed

lemma entry_disjoint: "8 * Suc n < 2 ^ 32 \<Longrightarrow> region gdt 8 \<inter> region (gdt + 8) (8 * n) = {}"
proof (rule ccontr)
  assume n: "8 * Suc n < 2 ^ 32" and "region gdt 8 \<inter> region (gdt + 8) (8 * n) \<noteq> {}"
  then obtain i j where i: "i < 8" "j < 8 * n" "gdt + of_nat i = gdt + 8 + (of_nat j :: u32)"
    by (blast elim: region_offsetE)
  then have "(of_nat i :: u32) = of_nat (8 + j)" by (simp add: add.assoc)
  then have "i = 8 + j" by (rule of_nat_u32_inj) (use i n in auto)
  then show False using i by simp
qed

lemma gdt_loop:
  assumes "\<forall>s \<in> set ss. encodable s" and "8 * (length ss + 1) < 2 ^ 32"
  shows "\<exists>m'. gdt_structured_to_gdt_loop gdt i ss m = Some m'
    \<and> same_outside (region (gdt + of_nat (8 * i)) (8 * length ss)) m m'
    \<and> (\<forall>k < length ss. descriptor m' (gdt + of_nat (8 * (i + k))) = ss ! k)"
  using assms
proof (induction ss arbitrary: i m)
  case (Cons s ss)
  let ?p = "gdt + of_nat (8 * i)"
  have enc: "encodable s" using Cons.prems(1) by simp
  then obtain m1 where m1: "encodeGdtEntry ?p s m = Some m1"
    using encode_Some [of ?p s m] by (cases "encodeGdtEntry ?p s m") auto
  have d1: "descriptor m1 ?p = s" "same_outside (region ?p 8) m m1"
    using encodeGdtEntry_facts [where p = ?p and s = s and m = m] m1 by simp_all
  have sh: "gdt + of_nat (8 * (i + 1)) = ?p + 8" by (simp add: algebra_simps)
  obtain m' where m': "gdt_structured_to_gdt_loop gdt (i + 1) ss m1 = Some m'"
      "same_outside (region (?p + 8) (8 * length ss)) m1 m'"
      "\<forall>k < length ss. descriptor m' (gdt + of_nat (8 * (i + 1 + k))) = ss ! k"
    using Cons.IH [of "i + 1" m1] Cons.prems unfolding sh by auto
  have n: "8 * Suc (length ss) < 2 ^ 32" using Cons.prems(2) by simp
  have "descriptor m' ?p = s"
    using descriptor_frame [OF m'(2) entry_disjoint [OF n]] d1(1) by simp
  then have "descriptor m' (gdt + of_nat (8 * (i + k))) = (s # ss) ! k" if "k < length (s # ss)" for k
    using m'(3) that by (cases k) auto
  moreover have "same_outside (region ?p (8 * length (s # ss))) m m'"
    using same_outside_trans [OF d1(2) m'(2)] entry_split [OF n, of ?p] by simp
  ultimately show ?case using m1 m'(1) by simp
qed simp

text \<open>
  Loading the kernel's own segment table never panics, and afterwards the processor
  reads from every one of its six entries exactly the segment the table lists.
\<close>

theorem gdt_table_loaded:
  "\<exists>m'. gdt_structured_to_gdt gdt (gdt_table tss) 6 m = Some m'
    \<and> map (\<lambda>i. descriptor m' (gdt + of_nat (8 * i))) [0..<6] = gdt_table tss"
proof -
  have "(0xFFFFFFFF AND 0xFFF) = (0xFFF :: u32)" by simp
  then have "\<forall>s \<in> set (gdt_table tss). encodable s"
    by (simp add: gdt_table_def encodable_def word_le_nat_alt)
  moreover have len: "length (gdt_table tss) = 6" by (simp add: gdt_table_def)
  ultimately obtain m' where m': "gdt_structured_to_gdt_loop gdt 0 (gdt_table tss) m = Some m'"
      "\<forall>k < 6. descriptor m' (gdt + of_nat (8 * k)) = gdt_table tss ! k"
    using gdt_loop [of "gdt_table tss" gdt 0 m] by (auto simp del: of_nat_mult)
  have "map (\<lambda>i. descriptor m' (gdt + of_nat (8 * i))) [0..<6] = map ((!) (gdt_table tss)) [0..<6]"
    using m'(2) by (intro map_cong) simp_all
  also have "\<dots> = gdt_table tss" using map_nth [of "gdt_table tss"] by (simp only: len)
  finally show ?thesis using m'(1) len by (simp add: gdt_structured_to_gdt_def)
qed

end
