(* ===== verification/Boot.thy ===== *)
theory Boot
  imports Syscall Gdt
begin

text \<open>
  \<^verbatim>\<open>src/src/kernel.c\<close>: \<open>kernel_main\<close> initialises the parts of the kernel in order and starts
  the shell. It ends by handing the registers of the first task to \<^verbatim>\<open>task_return\<close>, or panics
  (None). The stack of the kernel starts at \<open>0x200000\<close> (\<^verbatim>\<open>kernel.asm\<close>).
\<close>

record machine = system +
  gdtr :: "u16 \<times> u32"
  task_register :: u16
  paging_enabled :: bool

definition SIMPOS_TOTAL_GDT_SEGMENTS :: int where "SIMPOS_TOTAL_GDT_SEGMENTS = 6"
definition KERNEL_DATA_SELECTOR :: u32 where "KERNEL_DATA_SELECTOR = 0x10"

text \<open>What the processor registers and the static variables hold before \<open>kernel_main\<close>.\<close>

definition power_on :: "keyboard_state \<Rightarrow> system" where
  "power_on ks =
     \<lparr>cr3 = 0, current_directory = 0, current_task = 0, task_tail = 0, task_head = 0, kernel_chunk = 0,
      data_segment = 0x10, current_process = 0, processes = (\<lambda>_. 0),
      screen = \<lparr>video_mem = 0, terminal_row = 0, terminal_column = 0\<rparr>, keyboard_list = ks,
      interrupt_callbacks = (\<lambda>_. None), isr80h_commands = (\<lambda>_. None), idtr = (0, 0), port_writes = []\<rparr>"

text \<open>The offsets of \<open>esp0\<close> and \<open>ss0\<close> in \<^verbatim>\<open>struct tss\<close> are 4 and 8.\<close>

definition kernel_tss :: "u32 \<Rightarrow> mem \<Rightarrow> mem" where
  "kernel_tss tss m =
     (let m = memset m tss 0 108; m = store32 m (tss + 4) 0x600000 in store32 m (tss + 8) KERNEL_DATA_SELECTOR)"

definition kernel_main :: "statics \<Rightarrow> heap \<Rightarrow> keyboard_state \<Rightarrow> u32 \<Rightarrow> mem
    \<Rightarrow> (u32 \<times> machine \<times> heap \<times> mem) option" where
  "kernel_main S h ks sp m =
     (let s = power_on ks;
          (t, m) = terminal_initialize m;
          s = s\<lparr>screen := t\<rparr>;
          m = memset m (gdt_real S) 0x00 48 in do {
        m \<leftarrow> gdt_structured_to_gdt (gdt_real S) (gdt_table (tss_addr S)) SIMPOS_TOTAL_GDT_SEGMENTS m;
        let gdtr_value = (48 - 1, gdt_real S);
            (_, h, m) = kernel_heap_init h m in do {
        m \<leftarrow> fs_init (sys_of S) m;
        m \<leftarrow> disk_init (sys_of S) (fs_resolve (sys_of S) h sp) m;
        let (s, m) = idt_init S s m;
            m = kernel_tss (tss_addr S) m;
            (chunk, m) = paging_new_4gb h
              (ucast (PAGING_IS_WRITEABLE OR PAGING_IS_PRESENT OR PAGING_ACCESS_FROM_ALL)) m;
            s = s\<lparr>kernel_chunk := chunk\<rparr>;
            s = paging_switch m (kernel_chunk s) s in do {
        s \<leftarrow> isr80h_register_commands s;
        let ks = keyboard_init (classic_keyboard S) (keyboard_list s);
            s = s\<lparr>keyboard_list := ks\<rparr>;
            s = (if keyboard_callback ks
                 then snd (idt_register_interrupt_callback ISR_KEYBOARD_INTERRUPT classic_keyboard_callback s)
                 else s) in do {
        (res, process, s, m) \<leftarrow> process_load_switch (sys_of S) h sp
            (literal_addr S [48, 58, 47, 115, 104, 101, 108, 108, 46, 101, 108, 102]) 0 s m;
        if res \<noteq> SIMPOS_ALL_OK then None
        else do {
          (s, regs) \<leftarrow> task_run_first_ever_task m s;
          Some (regs, system.extend s \<lparr>gdtr = gdtr_value, task_register = 0x28, paging_enabled = True\<rparr>, h, m) } } } } })"

end
