(* ===== verification/UserLib.thy ===== *)
theory UserLib
  imports CString
begin

text \<open>
  The C library of the user programs (\<^verbatim>\<open>src/programs/stdlib/src\<close>) and the shell
  (\<^verbatim>\<open>src/programs/shell\<close>). Its memory and string routines repeat the kernel's (theories Mem and
  CString); here are \<open>strtok\<close>, \<open>itoa\<close>, \<open>printf\<close>, reading a line, and parsing and running a
  command. \<open>usp\<close> is the user stack pointer below which address-taken locals lie.

  The system calls (\<^verbatim>\<open>simpos.asm\<close>) are parameters that act on an arbitrary world \<open>'w\<close>: the
  kernel, as the program sees it.
\<close>

record 'w syscalls =
  sys_print :: "u32 \<Rightarrow> mem \<Rightarrow> 'w \<Rightarrow> 'w"
  sys_getkey :: "'w \<Rightarrow> int \<times> 'w"
  sys_putchar :: "u8 \<Rightarrow> 'w \<Rightarrow> 'w"
  sys_malloc :: "u32 \<Rightarrow> mem \<Rightarrow> 'w \<Rightarrow> u32 \<times> mem \<times> 'w"
  sys_free :: "u32 \<Rightarrow> mem \<Rightarrow> 'w \<Rightarrow> mem \<times> 'w"
  sys_system :: "u32 \<Rightarrow> mem \<Rightarrow> 'w \<Rightarrow> int \<times> mem \<times> 'w"
  sys_get_arguments :: "u32 \<Rightarrow> mem \<Rightarrow> 'w \<Rightarrow> mem \<times> 'w"

section \<open>strtok\<close>

text \<open>The index of the delimiter equal to \<open>c\<close>, or \<open>len\<close>.\<close>

function strtok_match :: "mem \<Rightarrow> u8 \<Rightarrow> u32 \<Rightarrow> int \<Rightarrow> int \<Rightarrow> int" where
  "strtok_match m c delimiters len i =
     (if i < len then if c = m (delimiters + u32_of_int i) then i else strtok_match m c delimiters len (i + 1)
      else i)"
  by auto
termination by (relation "measure (\<lambda>(_, _, _, len, i). nat (len - i))") auto

declare strtok_match.simps [simp del]

partial_function (option) strtok_skip :: "mem \<Rightarrow> u32 \<Rightarrow> int \<Rightarrow> u32 \<Rightarrow> u32 option" where
  "strtok_skip m delimiters len p_start =
     (if strtok_match m (m p_start) delimiters len 0 = len then Some p_start
      else strtok_skip m delimiters len (p_start + 1))"

partial_function (option) strtok_end :: "u32 \<Rightarrow> int \<Rightarrow> u32 \<Rightarrow> mem \<Rightarrow> (u32 \<times> mem) option" where
  "strtok_end delimiters len sp m =
     (if m sp \<noteq> 0
      then let i = strtok_match m (m sp) delimiters len 0 in
        if i < len then Some (sp + 1, m(sp := 0)) else strtok_end delimiters len (sp + 1) m
      else Some (sp, m))"

text \<open>The global \<open>sp\<close> is passed and returned: result, new \<open>sp\<close>, memory.\<close>

definition strtok :: "u32 \<Rightarrow> u32 \<Rightarrow> u32 \<Rightarrow> mem \<Rightarrow> (u32 \<times> u32 \<times> mem) option" where
  "strtok str delimiters sp m =
     do { len \<leftarrow> strlen m delimiters;
          if str = 0 \<and> sp = 0 then Some (0, sp, m)
          else let sp = (if str \<noteq> 0 \<and> sp = 0 then str else sp) in do {
            p_start \<leftarrow> strtok_skip m delimiters len sp;
            let sp = p_start in
            if m sp = 0 then Some (0, 0, m)
            else do { (sp, m) \<leftarrow> strtok_end delimiters len sp m; Some (p_start, sp, m) } } }"

section \<open>itoa\<close>

text \<open>\<open>text\<close> is the address of the static buffer of 12 bytes.\<close>

function itoa_loop :: "u32 \<Rightarrow> int \<Rightarrow> int \<Rightarrow> mem \<Rightarrow> int \<times> mem" where
  "itoa_loop text loc i m =
     (if i \<noteq> 0
      then let loc = loc - 1; m = m(text + u32_of_int loc := word_of_int (48 - (i smod 10)))
           in itoa_loop text loc (i sdiv 10) m
      else (loc, m))"
  by auto
termination
proof (relation "measure (\<lambda>(_, _, i, _). nat \<bar>i\<bar>)")
  fix txt_addr :: u32 and loc i :: int and m :: mem and x xa
  assume i: "i \<noteq> 0"
  have e: "\<bar>i sdiv 10\<bar> = \<bar>i\<bar> div 10" using i by (simp add: signed_divide_int_def abs_mult)
  have "\<bar>i\<bar> div 10 < \<bar>i\<bar>" using i by (simp add: int_div_less_self)
  then have "\<bar>i sdiv 10\<bar> < \<bar>i\<bar>" unfolding e .
  then show "((txt_addr, x, i sdiv 10, xa), txt_addr, loc, i, m) \<in> measure (\<lambda>(_, _, i, _). nat \<bar>i\<bar>)" by simp
qed simp

declare itoa_loop.simps [simp del]

text \<open>The number is made negative, so that the smallest \<open>int\<close> needs no special case.\<close>

definition itoa :: "u32 \<Rightarrow> int \<Rightarrow> mem \<Rightarrow> u32 \<times> mem" where
  "itoa text i m =
     (let loc = 11;
          m = m(text + u32_of_int 11 := 0);
          (neg, i) = (if i \<ge> 0 then (False, c_int (- i)) else (True, i));
          (loc, m) = itoa_loop text loc i m;
          (loc, m) = (if loc = 11 then (loc - 1, m(text + u32_of_int (loc - 1) := 48)) else (loc, m));
          (loc, m) = (if neg then (loc - 1, m(text + u32_of_int (loc - 1) := 45)) else (loc, m))
      in (text + u32_of_int loc, m))"

section \<open>stdio and stdlib\<close>

definition putchar :: "'w syscalls \<Rightarrow> int \<Rightarrow> 'w \<Rightarrow> int \<times> 'w" where
  "putchar C c w = (0, sys_putchar C (word_of_int c) w)"

text \<open>
  The variable arguments are words on the stack behind \<open>format\<close>; \<open>ap\<close> is the address of the
  next one. The character after \<open>%\<close> is not tested for the terminator.
\<close>

partial_function (option) printf_loop :: "'w syscalls \<Rightarrow> u32 \<Rightarrow> u32 \<Rightarrow> u32 \<Rightarrow> mem \<Rightarrow> 'w \<Rightarrow> (mem \<times> 'w) option" where
  "printf_loop C text p ap m w =
     (if m p = 0 then Some (m, w)
      else if m p \<noteq> 37 then printf_loop C text (p + 1) ap m (snd (putchar C (sint (m p)) w))
      else let p = p + 1 in
        if m p = 100
        then case itoa text (int_of_u32 (load32 m ap)) m of (str, m) \<Rightarrow>
          printf_loop C text (p + 1) (ap + 4) m (sys_print C str m w)
        else if m p = 115 then printf_loop C text (p + 1) (ap + 4) m (sys_print C (load32 m ap) m w)
        else printf_loop C text (p + 1) ap m (snd (putchar C (sint (m p)) w)))"

definition printf :: "'w syscalls \<Rightarrow> u32 \<Rightarrow> u32 \<Rightarrow> u32 \<Rightarrow> mem \<Rightarrow> 'w \<Rightarrow> (int \<times> mem \<times> 'w) option" where
  "printf C text format args m w =
     do { (m, w) \<leftarrow> printf_loop C text format args m w; Some (0, m, w) }"

definition malloc :: "'w syscalls \<Rightarrow> u32 \<Rightarrow> mem \<Rightarrow> 'w \<Rightarrow> u32 \<times> mem \<times> 'w" where
  "malloc C sz m w = sys_malloc C sz m w"

definition free :: "'w syscalls \<Rightarrow> u32 \<Rightarrow> mem \<Rightarrow> 'w \<Rightarrow> mem \<times> 'w" where
  "free C ptr m w = sys_free C ptr m w"

section \<open>Reading a line\<close>

partial_function (option) simpos_getkeyblock :: "'w syscalls \<Rightarrow> 'w \<Rightarrow> (int \<times> 'w) option" where
  "simpos_getkeyblock C w =
     (case sys_getkey C w of (val, w) \<Rightarrow> if val = 0 then simpos_getkeyblock C w else Some (val, w))"

partial_function (option) readline_loop ::
  "'w syscalls \<Rightarrow> u32 \<Rightarrow> int \<Rightarrow> bool \<Rightarrow> int \<Rightarrow> mem \<Rightarrow> 'w \<Rightarrow> (int \<times> mem \<times> 'w) option" where
  "readline_loop C out max_len output_while_typing i m w =
     (if i < max_len - 1
      then do {
        (val, w) \<leftarrow> simpos_getkeyblock C w;
        let key = (word_of_int val :: u8) in
        if key = 13 then Some (i, m, w)
        else let w = (if output_while_typing then sys_putchar C key w else w) in
        if key = 8 \<and> i \<ge> 1
        then readline_loop C out max_len output_while_typing (i - 2 + 1) (m(out + u32_of_int (i - 1) := 0)) w
        else readline_loop C out max_len output_while_typing (i + 1) (m(out + u32_of_int i := key)) w }
      else Some (i, m, w))"

definition simpos_terminal_readline ::
  "'w syscalls \<Rightarrow> u32 \<Rightarrow> int \<Rightarrow> bool \<Rightarrow> mem \<Rightarrow> 'w \<Rightarrow> (mem \<times> 'w) option" where
  "simpos_terminal_readline C out max_len output_while_typing m w =
     do { (i, m, w) \<leftarrow> readline_loop C out max_len output_while_typing 0 m w;
          Some (m(out + u32_of_int i := 0), w) }"

section \<open>Commands\<close>

text \<open>
  \<^verbatim>\<open>struct command_argument\<close> (516 bytes): \<open>argument\<close> 0, \<open>next\<close> 512. \<open>space\<close> is the address of
  the literal \<^verbatim>\<open>" "\<close>.
\<close>

partial_function (option) parse_command_loop ::
  "'w syscalls \<Rightarrow> u32 \<Rightarrow> u32 \<Rightarrow> u32 \<Rightarrow> u32 \<Rightarrow> mem \<Rightarrow> 'w \<Rightarrow> (u32 \<times> mem \<times> 'w) option" where
  "parse_command_loop C space token current tok_sp m w =
     (if token \<noteq> 0
      then case sys_malloc C 516 m w of (new_command, m, w) \<Rightarrow>
        if new_command = 0 then Some (tok_sp, m, w)
        else let m = strncpy m new_command token 512;
                 m = store32 m (new_command + 512) 0;
                 m = store32 m (current + 512) new_command
             in do { (token, tok_sp, m) \<leftarrow> strtok 0 space tok_sp m;
                     parse_command_loop C space token new_command tok_sp m w }
      else Some (tok_sp, m, w))"

text \<open>\<open>scommand\<close> lies at \<open>usp - 1025\<close>. Results: the list, \<open>strtok\<close>'s global, memory, world.\<close>

definition simpos_parse_command ::
  "'w syscalls \<Rightarrow> u32 \<Rightarrow> u32 \<Rightarrow> u32 \<Rightarrow> int \<Rightarrow> u32 \<Rightarrow> mem \<Rightarrow> 'w \<Rightarrow> (u32 \<times> u32 \<times> mem \<times> 'w) option" where
  "simpos_parse_command C space usp cmd max_len tok_sp m w =
     (if max_len \<ge> 1025 then Some (0, tok_sp, m, w)
      else let scommand = usp - 1025; m = strncpy m scommand cmd 1025 in do {
        (token, tok_sp, m) \<leftarrow> strtok scommand space tok_sp m;
        if token = 0 then Some (0, tok_sp, m, w)
        else case sys_malloc C 516 m w of (root_command, m, w) \<Rightarrow>
        if root_command = 0 then Some (0, tok_sp, m, w)
        else let m = strncpy m root_command token 512;
                 m = store32 m (root_command + 512) 0 in do {
          (token, tok_sp, m) \<leftarrow> strtok 0 space tok_sp m;
          (tok_sp, m, w) \<leftarrow> parse_command_loop C space token root_command tok_sp m w;
          Some (root_command, tok_sp, m, w) } })"

text \<open>\<open>buf\<close> lies at \<open>usp - 1024\<close>.\<close>

definition simpos_system_run ::
  "'w syscalls \<Rightarrow> u32 \<Rightarrow> u32 \<Rightarrow> u32 \<Rightarrow> u32 \<Rightarrow> mem \<Rightarrow> 'w \<Rightarrow> (int \<times> u32 \<times> mem \<times> 'w) option" where
  "simpos_system_run C space usp cmd tok_sp m w =
     (let buf = usp - 1024; m = strncpy m buf cmd 1024 in do {
        (root_command_argument, tok_sp, m, w) \<leftarrow> simpos_parse_command C space buf buf 1024 tok_sp m w;
        if root_command_argument = 0 then Some (- 1, tok_sp, m, w)
        else case sys_system C root_command_argument m w of (res, m, w) \<Rightarrow> Some (res, tok_sp, m, w) })"

text \<open>
  \<open>c_start\<close> hands the arguments, two words at \<open>usp - 8\<close>, to \<open>main\<close>. One round of the shell's
  endless loop; the literals are at the addresses \<open>prompt\<close> and \<open>newline\<close>.
\<close>

definition c_start :: "'w syscalls \<Rightarrow> (int \<Rightarrow> u32 \<Rightarrow> mem \<Rightarrow> 'w \<Rightarrow> 'r) \<Rightarrow> u32 \<Rightarrow> mem \<Rightarrow> 'w \<Rightarrow> 'r" where
  "c_start C main usp m w =
     (case sys_get_arguments C (usp - 8) m w of (m, w) \<Rightarrow>
        main (int_of_u32 (load32 m (usp - 8))) (load32 m (usp - 8 + 4)) m w)"

definition shell_round ::
  "'w syscalls \<Rightarrow> u32 \<Rightarrow> u32 \<Rightarrow> u32 \<Rightarrow> u32 \<Rightarrow> u32 \<Rightarrow> mem \<Rightarrow> 'w \<Rightarrow> (u32 \<times> mem \<times> 'w) option" where
  "shell_round C prompt newline space usp tok_sp m w =
     (let w = sys_print C prompt m w; buf = usp - 1024 in do {
        (m, w) \<leftarrow> simpos_terminal_readline C buf 1024 True m w;
        let w = sys_print C newline m w in do {
        (_, tok_sp, m, w) \<leftarrow> simpos_system_run C space buf buf tok_sp m w;
        Some (tok_sp, m, sys_print C newline m w) } })"

end
