(* ===== verification/UserSpec.thy ===== *)
theory UserSpec
  imports UserLib Bytes
begin

text \<open>
  The user library's number conversion: \<open>itoa\<close> writes the decimal representation of every
  \<^verbatim>\<open>int\<close>, the smallest one included, inside its buffer of 12 bytes.
\<close>

section \<open>Decimal digits\<close>

fun decimal :: "nat \<Rightarrow> nat list" where
  "decimal n = (if n < 10 then [n] else decimal (n div 10) @ [n mod 10])"

declare decimal.simps [simp del]

definition value_of :: "nat list \<Rightarrow> nat" where
  "value_of ds = foldl (\<lambda>v d. 10 * v + d) 0 ds"

lemma value_decimal: "value_of (decimal n) = n"
proof (induction n rule: decimal.induct)
  case (1 n)
  then show ?case by (subst decimal.simps) (simp add: value_of_def)
qed

lemma decimal_digits: "d \<in> set (decimal n) \<Longrightarrow> d < 10"
proof (induction n rule: decimal.induct)
  case (1 n)
  then show ?case by (subst (asm) decimal.simps) (auto split: if_splits)
qed

lemma decimal_no_leading_zero: "0 < n \<Longrightarrow> hd (decimal n) \<noteq> 0"
proof (induction n rule: decimal.induct)
  case (1 n)
  have "decimal (n div 10) \<noteq> []" by (subst decimal.simps) simp
  then show ?case using 1 by (subst decimal.simps) (auto simp: hd_append)
qed

lemma length_decimal: "n < 10 ^ Suc k \<Longrightarrow> length (decimal n) \<le> Suc k"
proof (induction k arbitrary: n)
  case 0
  then show ?case by (subst decimal.simps) simp
next
  case (Suc k)
  have "n < 10 ^ Suc k * 10" using Suc.prems by simp
  then have "n div 10 < 10 ^ Suc k" by (rule less_mult_imp_div_less)
  then show ?case using Suc.IH by (subst decimal.simps) simp
qed

definition digit_char :: "nat \<Rightarrow> u8" where
  "digit_char d = 48 + of_nat d"

lemma digit_char_nonzero: "d < 10 \<Longrightarrow> digit_char d \<noteq> 0"
proof -
  assume d: "d < 10"
  have "unat (digit_char d) = 48 + d" unfolding digit_char_def using d by (subst unat_word_ariths) (simp add: unat_of_nat)
  then show ?thesis by auto
qed

section \<open>itoa\<close>

lemma cstr_prepend:
  assumes "cstr m (buf + of_nat (l + 1)) s" and "b \<noteq> 0" and "l + 1 + length s < 2 ^ 31"
  shows "cstr (m(buf + of_nat l := b)) (buf + of_nat l) (b # s)"
proof -
  have e: "buf + of_nat l + 1 = buf + of_nat (l + 1)" by (simp add: algebra_simps)
  have "buf + of_nat l \<notin> region (buf + of_nat l + 1) (Suc (length s))"
  proof
    assume "buf + of_nat l \<in> region (buf + of_nat l + 1) (Suc (length s))"
    then show False using assms(3) by (simp add: region_def)
  qed
  then have d: "region (buf + of_nat (l + 1)) (Suc (length s)) \<inter> {buf + of_nat l} = {}" unfolding e by blast
  have f: "same_outside {buf + of_nat l} m (m(buf + of_nat l := b))" by (simp add: same_outside_def)
  have "length s < 2 ^ 32 - 1" using assms(3) by simp
  then have "cstr (m(buf + of_nat l := b)) (buf + of_nat (l + 1)) s" by (rule cstr_frame [OF assms(1) f d])
  then have "cstr (m(buf + of_nat l := b)) (buf + of_nat l + 1) s" unfolding e .
  then show ?thesis using assms(2) by simp
qed

lemma digit_step:
  assumes "0 < n"
  shows "(word_of_int (48 - (- int n) smod 10) :: u8) = digit_char (n mod 10)"
    and "(- int n) sdiv 10 = - int (n div 10)"
proof -
  have "(- int n) smod 10 = - int (n mod 10)"
    using assms by (simp add: signed_modulo_int_def zmod_int sgn_mult)
  then show "(word_of_int (48 - (- int n) smod 10) :: u8) = digit_char (n mod 10)"
    by (simp add: digit_char_def)
  show "(- int n) sdiv 10 = - int (n div 10)" using assms by (simp add: signed_divide_int_def zdiv_int)
qed

lemma itoa_loop_digits:
  assumes "0 < n" and "length (decimal n) \<le> l" and "l + length s < 2 ^ 30" and "cstr m (buf + of_nat l) s"
  shows "\<exists>m'. itoa_loop buf (int l) (- int n) m = (int (l - length (decimal n)), m')
    \<and> cstr m' (buf + of_nat (l - length (decimal n))) (map digit_char (decimal n) @ s)
    \<and> same_outside (region buf l) m m'"
  using assms
proof (induction n arbitrary: l s m rule: decimal.induct)
  case (1 n)
  define k where "k = l - 1"
  have "0 < length (decimal n)" by (subst decimal.simps) simp
  then have l: "l = k + 1" using "1.prems"(2) unfolding k_def by linarith
  let ?c = "digit_char (n mod 10)" and ?m = "m(buf + of_nat k := digit_char (n mod 10))"
  have c: "cstr ?m (buf + of_nat k) (?c # s)"
    using "1.prems" unfolding l by (intro cstr_prepend) (simp_all add: digit_char_nonzero)
  have f: "same_outside (region buf l) m ?m"
    unfolding l using "1.prems"(3) l by (intro same_outside_upd in_region_offset) simp_all
  have step: "itoa_loop buf (int l) (- int n) m = itoa_loop buf (int k) (- int (n div 10)) ?m"
  proof -
    have "- int n \<noteq> 0" "int l - 1 = int k" using "1.prems"(1) l by simp_all
    then show ?thesis
      by (subst itoa_loop.simps) (simp only: digit_step [OF "1.prems"(1)] u32_of_int_of_nat Let_def not_False_eq_True if_True)
  qed
  show ?case
  proof (cases "n < 10")
    case True
    then have d: "decimal n = [n]" by (subst decimal.simps) simp
    have "itoa_loop buf (int k) (- int (n div 10)) ?m = (int k, ?m)"
      using True by (subst itoa_loop.simps) simp
    then show ?thesis using step c f True d by (simp add: l)
  next
    case False
    let ?q = "n div 10"
    have d: "decimal n = decimal ?q @ [n mod 10]" using False by (subst decimal.simps) simp
    have "0 < ?q" "length (decimal ?q) \<le> k" "k + length (?c # s) < 2 ^ 30"
      using False "1.prems"(2,3) d l by simp_all
    from "1.IH" [OF False this c] obtain m' where m':
        "itoa_loop buf (int k) (- int ?q) ?m = (int (k - length (decimal ?q)), m')"
        "cstr m' (buf + of_nat (k - length (decimal ?q))) (map digit_char (decimal ?q) @ ?c # s)"
        "same_outside (region buf k) ?m m'"
      by blast
    have e: "l - length (decimal n) = k - length (decimal ?q)" using d l by simp
    have "same_outside (region buf l) ?m m'" by (rule same_outside_mono [OF m'(3) region_mono]) (simp add: l)
    then show ?thesis using step m'(1,2) f d unfolding e by (simp add: same_outside_trans1)
  qed
qed

text \<open>The digits of a number at the end of the buffer.\<close>

lemma itoa_digits:
  fixes m buf and n :: nat
  defines "m0 \<equiv> m(buf + of_nat 11 := 0)"
  assumes len: "length (decimal n) \<le> 10"
  obtains l m1 where "(case itoa_loop buf 11 (- int n) m0 of (loc, m) \<Rightarrow>
        if loc = 11 then (loc - 1, m(buf + u32_of_int (loc - 1) := 48)) else (loc, m)) = (int l, m1)"
      "cstr m1 (buf + of_nat l) (map digit_char (decimal n))" "l + length (decimal n) = 11"
      "same_outside (region buf 12) m0 m1"
proof -
  have u: "u32_of_int 11 = of_nat 11" "u32_of_int (int k) = of_nat k" for k
    by (simp_all add: u32_of_int_of_nat)
  have c0: "cstr m0 (buf + of_nat 11) []" by (simp add: m0_def)
  show thesis
  proof (cases "n = 0")
    case True
    have d: "decimal n = [0]" using True by (subst decimal.simps) simp
    have "itoa_loop buf 11 (- int n) m0 = (11, m0)" using True by (subst itoa_loop.simps) simp
    moreover have "cstr (m0(buf + of_nat 10 := 48)) (buf + of_nat 10) [48]"
      using c0 by (intro cstr_prepend) simp_all
    moreover have "same_outside (region buf 12) m0 (m0(buf + of_nat 10 := 48))"
      by (intro same_outside_upd in_region_offset) simp_all
    ultimately show thesis using that [of 10] u(2) [of 10] d by (simp add: digit_char_def del: fun_upd_apply)
  next
    case False
    then obtain m1 where m1: "itoa_loop buf (int 11) (- int n) m0 = (int (11 - length (decimal n)), m1)"
        "cstr m1 (buf + of_nat (11 - length (decimal n))) (map digit_char (decimal n) @ [])"
        "same_outside (region buf 11) m0 m1"
      using itoa_loop_digits [of n 11 "[]" m0 buf] len c0 by auto
    have "decimal n \<noteq> []" by (subst decimal.simps) simp
    moreover have "same_outside (region buf 12) m0 m1" by (rule same_outside_mono [OF m1(3) region_mono]) simp
    ultimately show thesis using that [of "11 - length (decimal n)"] m1(1,2) len by (cases "decimal n") auto
  qed
qed

text \<open>The text of a number.\<close>

definition int_text :: "int \<Rightarrow> u8 list" where
  "int_text i = (if i < 0 then [45] else []) @ map digit_char (decimal (nat \<bar>i\<bar>))"

text \<open>
  C38. \<open>itoa\<close> returns for every \<^verbatim>\<open>int\<close>, also for the smallest one whose negation overflows, the
  address of its decimal text with a minus sign for negative numbers and without leading
  zeros, terminated, and writes only its buffer of 12 bytes.
\<close>

theorem itoa_decimal:
  assumes "- (2 ^ 31) \<le> i" and "i < 2 ^ 31"
  shows "case itoa buf i m of (r, m') \<Rightarrow> cstr m' r (int_text i) \<and> same_outside (region buf 12) m m'
    \<and> r + of_nat (length (int_text i)) = buf + 11"
proof -
  define n where "n = nat \<bar>i\<bar>"
  let ?m = "m(buf + of_nat 11 := 0)"
  have n: "n \<le> 2 ^ 31" using assms by (simp add: n_def)
  then have len: "length (decimal n) \<le> 10" using length_decimal [of n 9] by simp
  have neg: "(if i \<ge> 0 then (False, c_int (- i)) else (True, i)) = (i < 0, - int n)"
    using assms by (auto simp: n_def c_int_id)
  have u: "u32_of_int 11 = of_nat 11" "u32_of_int (int k) = of_nat k" for k
    by (simp_all add: u32_of_int_of_nat)
  have f0: "same_outside (region buf 12) m ?m" by (intro same_outside_upd in_region_offset) simp_all
  obtain l m1 where l: "(case itoa_loop buf 11 (- int n) ?m of (loc, m) \<Rightarrow>
        if loc = 11 then (loc - 1, m(buf + u32_of_int (loc - 1) := 48)) else (loc, m)) = (int l, m1)"
      "cstr m1 (buf + of_nat l) (map digit_char (decimal n))" "l + length (decimal n) = 11"
      "same_outside (region buf 12) ?m m1"
    using len by (rule itoa_digits) blast
  have it: "itoa buf i m = (if i < 0 then (buf + u32_of_int (int l - 1), m1(buf + u32_of_int (int l - 1) := 45))
      else (buf + of_nat l, m1))"
  proof -
    obtain a b where ab: "itoa_loop buf 11 (- int n) ?m = (a, b)" by (rule prod.exhaust)
    have r: "(if a = 11 then (a - 1, b(buf + u32_of_int (a - 1) := 48)) else (a, b)) = (int l, m1)"
      using l(1) unfolding ab prod.case .
    show ?thesis
      unfolding itoa_def Let_def neg prod.case u(1) ab r by (simp add: u(2) del: of_nat_numeral)
  qed
  have l1: "1 \<le> l" using l(3) len by simp
  have k: "u32_of_int (int l - 1) = of_nat (l - 1)" using u(2) [of "l - 1"] l1 by (simp add: of_nat_diff)
  have c2: "cstr (m1(buf + of_nat (l - 1) := 45)) (buf + of_nat (l - 1)) (45 # map digit_char (decimal n))"
    using l(2,3) l1 by (intro cstr_prepend) simp_all
  have f2: "same_outside (region buf 12) m1 (m1(buf + of_nat (l - 1) := 45))"
    using l(3) by (intro same_outside_upd in_region_offset) simp_all
  have pos: "buf + of_nat k + of_nat j = buf + 11" if "k + j = 11" for k j
    using arg_cong [OF that, of "of_nat :: nat \<Rightarrow> u32"] by (simp add: add.assoc)
  show ?thesis
  proof (cases "i < 0")
    case False
    then show ?thesis
      using l(2,3) pos same_outside_trans1 [OF f0 l(4)] unfolding it by (simp add: int_text_def n_def)
  next
    case True
    have "l - 1 + Suc (length (decimal n)) = 11" using l(3) l1 by simp
    then have "buf + of_nat (l - 1) + of_nat (Suc (length (decimal n))) = buf + 11" by (rule pos)
    then show ?thesis
      using True c2 same_outside_trans1 [OF same_outside_trans1 [OF f0 l(4)] f2]
      unfolding it k by (simp add: int_text_def n_def del: fun_upd_apply)
  qed
qed

theorem itoa_decimal_witness:
  "case itoa 0x500000 (- 2147483648) (\<lambda>_. 1) of (r, m') \<Rightarrow>
     cstr m' r [45, 50, 49, 52, 55, 52, 56, 51, 54, 52, 56] \<and> r = 0x500000"
proof -
  have "decimal 2147483648 = [2, 1, 4, 7, 4, 8, 3, 6, 4, 8]" by (simp add: decimal.simps)
  then have "int_text (- 2147483648) = [45, 50, 49, 52, 55, 52, 56, 51, 54, 52, 56]"
    by (simp add: int_text_def digit_char_def)
  then show ?thesis using itoa_decimal [of "- 2147483648" "0x500000" "\<lambda>_. 1"] by (auto split: prod.splits simp del: cstr.simps)
qed

end
