(* ===== verification/CommandSpec.thy ===== *)
theory CommandSpec
  imports UserLib Bytes
begin

text \<open>
  The commands of the shell: \<open>strtok\<close> cuts a line at its spaces, \<open>simpos_parse_command\<close> makes
  the list of arguments in fresh memory, \<open>simpos_system_run\<close> hands it to the kernel.
\<close>

section \<open>Words of a line\<close>

definition skip_spaces :: "u8 list \<Rightarrow> u8 list" where
  "skip_spaces s = dropWhile (\<lambda>c. c = 32) s"

definition word_of :: "u8 list \<Rightarrow> u8 list" where
  "word_of s = takeWhile (\<lambda>c. c \<noteq> 32) s"

definition after_word :: "u8 list \<Rightarrow> u8 list" where
  "after_word s = drop 1 (dropWhile (\<lambda>c. c \<noteq> 32) s)"

lemma after_word_shorter: "s \<noteq> [] \<Longrightarrow> length (after_word s) < length s"
  using length_dropWhile_le [of "\<lambda>c. c \<noteq> 32" s] by (cases s) (auto simp: after_word_def)

lemma skip_spaces_le: "length (skip_spaces s) \<le> length s"
  by (simp add: skip_spaces_def length_dropWhile_le)

function line_words :: "u8 list \<Rightarrow> u8 list list" where
  "line_words s = (if skip_spaces s = [] then []
     else word_of (skip_spaces s) # line_words (after_word (skip_spaces s)))"
  by auto
termination
proof (relation "measure length")
  fix s :: "u8 list"
  assume "skip_spaces s \<noteq> []"
  then have "length (after_word (skip_spaces s)) < length s"
    using after_word_shorter skip_spaces_le [of s] by (meson less_le_trans)
  then show "(after_word (skip_spaces s), s) \<in> measure length" by simp
qed simp

declare line_words.simps [simp del]

text \<open>The words are what is left of the line between its spaces.\<close>

lemma line_words_space: "line_words (32 # s) = line_words s"
  by (subst (1 2) line_words.simps) (simp add: skip_spaces_def)

lemma line_words_word:
  assumes "w \<noteq> []" "32 \<notin> set w"
  shows "line_words w = [w]" "line_words (w @ 32 # s) = w # line_words s"
proof -
  have p: "skip_spaces (w @ t) = w @ t" "word_of (w @ 32 # t) = w" "word_of w = w"
    "after_word (w @ 32 # t) = t" "after_word w = []" for t
  proof -
    have a: "\<forall>x \<in> set w. x \<noteq> 32" using assms(2) by auto
    show "skip_spaces (w @ t) = w @ t" using assms by (cases w) (auto simp: skip_spaces_def)
    show "word_of (w @ 32 # t) = w" "word_of w = w"
      using a by (simp_all add: word_of_def takeWhile_append2 takeWhile_eq_all_conv)
    show "after_word (w @ 32 # t) = t" "after_word w = []"
      using a iffD2 [OF dropWhile_eq_Nil_conv a] by (simp_all only: after_word_def dropWhile_append2) simp_all
  qed
  have "line_words [] = []" by (subst line_words.simps) (simp add: skip_spaces_def)
  then show "line_words w = [w]"
    using assms(1) p(1) [of "[]"] by (subst line_words.simps) (simp add: p)
  show "line_words (w @ 32 # s) = w # line_words s"
    by (subst line_words.simps) (simp add: p)
qed

section \<open>strtok with a space as delimiter\<close>

lemma match_space:
  assumes "cstr m space [32]"
  shows "strtok_match m c space 1 0 = (if c = 32 then 0 else 1)"
proof -
  have "strtok_match m c space 1 1 = 1" by (subst strtok_match.simps) simp
  then show ?thesis using assms by (subst strtok_match.simps) simp
qed

lemma strtok_skip_space:
  assumes "cstr m space [32]"
  shows "cstr m p s \<Longrightarrow> strtok_skip m space 1 p = Some (p + of_nat (length s - length (skip_spaces s)))"
proof (induction s arbitrary: p)
  case Nil
  then show ?case using match_space [OF assms, of 0] by (subst strtok_skip.simps) (simp add: skip_spaces_def)
next
  case (Cons c s)
  then show ?case
    using match_space [OF assms, of c] skip_spaces_le [of s]
    by (subst strtok_skip.simps) (auto simp: skip_spaces_def Suc_diff_le)
qed

lemma cstr_drop: "cstr m p (s @ t) \<Longrightarrow> cstr m (p + of_nat (length s)) t"
  by (induction s arbitrary: p) (auto simp flip: add.assoc)

lemma cstr_skip:
  assumes "cstr m p s"
  obtains q where "q = p + of_nat (length s - length (skip_spaces s))" "cstr m q (skip_spaces s)"
    "length s < 2 ^ 31 \<Longrightarrow> region q (Suc (length (skip_spaces s))) \<subseteq> region p (Suc (length s))"
proof -
  have "s = takeWhile (\<lambda>c. c = 32) s @ skip_spaces s" by (simp add: skip_spaces_def)
  moreover from this have "length s - length (skip_spaces s) = length (takeWhile (\<lambda>c. c = 32) s)"
    by (metis add_diff_cancel_right' length_append)
  ultimately have "cstr m (p + of_nat (length s - length (skip_spaces s))) (skip_spaces s)"
    using assms cstr_drop [of m p "takeWhile (\<lambda>c. c = 32) s" "skip_spaces s"] by simp
  moreover have "region (p + of_nat (length s - length (skip_spaces s))) (Suc (length (skip_spaces s)))
      \<subseteq> region p (Suc (length s))" if l: "length s < 2 ^ 31"
  proof (rule sub_region)
    have "unat (of_nat (length s - length (skip_spaces s)) :: u32) = length s - length (skip_spaces s)"
      using l by (intro unat_of_nat_u32) simp
    then show "unat (of_nat (length s - length (skip_spaces s)) :: u32) + Suc (length (skip_spaces s)) \<le> Suc (length s)"
      using skip_spaces_le [of s] by linarith
    show "Suc (length s) \<le> 2 ^ 32" using l by simp
  qed
  ultimately show thesis using that by blast
qed

text \<open>The word is cut off: it is a string of its own, and so is what follows.\<close>

lemma strtok_end_space:
  assumes "cstr m space [32]"
  shows "cstr m p s \<Longrightarrow> length s < 2 ^ 31 \<Longrightarrow> region p (Suc (length s)) \<inter> region space 2 = {} \<Longrightarrow>
    \<exists>sp m'. strtok_end space 1 p m = Some (sp, m') \<and> cstr m' p (word_of s) \<and> cstr m' sp (after_word s)
      \<and> region sp (Suc (length (after_word s))) \<subseteq> region p (Suc (length s))
      \<and> same_outside (region p (Suc (length s))) m m'"
proof (induction s arbitrary: p)
  case Nil
  have "strtok_end space 1 p m = Some (p, m)" using Nil by (subst strtok_end.simps) simp
  then show ?case using Nil by (auto simp: word_of_def after_word_def)
next
  case (Cons c s)
  show ?case
  proof (cases "c = 32")
    case True
    have "strtok_end space 1 p m = Some (p + 1, m(p := 0))"
      using Cons.prems match_space [OF assms, of 32] True by (subst strtok_end.simps) simp
    moreover have "cstr (m(p := 0)) (p + 1) s"
    proof (rule cstr_frame)
      show "cstr m (p + 1) s" using Cons.prems(1) by simp
      show "same_outside {p} m (m(p := 0))" by (simp add: same_outside_upd)
      show "region (p + 1) (Suc (length s)) \<inter> {p} = {}"
        using region_head [of "Suc (Suc (length s))" p] Cons.prems(2) by simp
      show "length s < 2 ^ 32 - 1" using Cons.prems(2) by simp
    qed
    moreover have "same_outside (region p (Suc (length (c # s)))) m (m(p := 0))"
      by (intro same_outside_upd in_region_self) simp
    ultimately show ?thesis
      using True region_shift_subset [of p "Suc (Suc (length s))"] by (simp add: word_of_def after_word_def)
  next
    case False
    have e: "strtok_end space 1 p m = strtok_end space 1 (p + 1) m"
      using Cons.prems match_space [OF assms, of c] False by (subst strtok_end.simps) simp
    have sub: "region (p + 1) (Suc (length s)) \<subseteq> region p (Suc (length (c # s)))"
      using region_shift_subset [of p "Suc (Suc (length s))"] by simp
    have "cstr m (p + 1) s" "length s < 2 ^ 31" "region (p + 1) (Suc (length s)) \<inter> region space 2 = {}"
      using Cons.prems sub by auto
    from Cons.IH [OF this] obtain sp m' where r: "strtok_end space 1 (p + 1) m = Some (sp, m')"
        "cstr m' (p + 1) (word_of s)" "cstr m' sp (after_word s)"
        "region sp (Suc (length (after_word s))) \<subseteq> region (p + 1) (Suc (length s))"
        "same_outside (region (p + 1) (Suc (length s))) m m'"
      by blast
    have "p \<notin> region (p + 1) (Suc (length s))"
      using region_head [of "Suc (Suc (length s))" p] Cons.prems(2) by simp
    then have "m' p = c" using same_outsideD [OF r(5)] Cons.prems(1) by simp
    moreover have "word_of (c # s) = c # word_of s" "after_word (c # s) = after_word s"
      using False by (simp_all add: word_of_def after_word_def)
    ultimately show ?thesis
      using r(1-4) same_outside_mono [OF r(5) sub] Cons.prems(1) sub unfolding e by auto
  qed
qed

text \<open>
  Between two calls the next word, if there is one, lies cut off in the buffer \<open>B\<close> and
  \<open>strtok\<close>'s global points to the rest of the line.
\<close>

definition tokens :: "u32 set \<Rightarrow> mem \<Rightarrow> u32 \<Rightarrow> u32 \<Rightarrow> u8 list list \<Rightarrow> bool" where
  "tokens B m token sp ws \<longleftrightarrow> (case ws of
      [] \<Rightarrow> token = 0 \<and> sp = 0
    | w # vs \<Rightarrow> token \<noteq> 0 \<and> sp \<noteq> 0 \<and> cstr m token w \<and> region token (Suc (length w)) \<subseteq> B \<and> length w < 2 ^ 31
        \<and> (\<exists>s. cstr m sp s \<and> region sp (Suc (length s)) \<subseteq> B \<and> length s < 2 ^ 31 \<and> line_words s = vs))"

lemma word_of_le: "length (word_of s) \<le> length s"
  by (simp add: word_of_def length_takeWhile_le)

lemma after_word_le: "length (after_word s) \<le> length s"
  using after_word_shorter [of s] by (cases "s = []") (auto simp: after_word_def)

lemma strtok_tokens:
  assumes "cstr m space [32]" and "str = 0 \<and> sp \<noteq> 0 \<and> p = sp \<or> str \<noteq> 0 \<and> sp = 0 \<and> p = str"
    and "cstr m p s" and "length s < 2 ^ 31" and "region p (Suc (length s)) \<subseteq> B"
    and "region space 2 \<inter> B = {}" and "0 \<notin> B"
  shows "\<exists>token sp' m'. strtok str space sp m = Some (token, sp', m')
    \<and> tokens B m' token sp' (line_words s) \<and> same_outside B m m'"
proof -
  obtain q where q: "q = p + of_nat (length s - length (skip_spaces s))" "cstr m q (skip_spaces s)"
      "region q (Suc (length (skip_spaces s))) \<subseteq> region p (Suc (length s))"
    using cstr_skip [OF assms(3)] assms(4) by blast
  have len: "strlen m space = Some 1" using strlen_cstr [OF assms(1)] by simp
  have s: "(if str \<noteq> 0 \<and> sp = 0 then str else sp) = p" "\<not> (str = 0 \<and> sp = 0)" using assms(2) by auto
  have skip: "strtok_skip m space 1 p = Some q" using strtok_skip_space [OF assms(1,3)] q(1) by simp
  show ?thesis
  proof (cases "skip_spaces s")
    case Nil
    have "strtok str space sp m = Some (0, 0, m)"
      using q(2) Nil unfolding strtok_def len s(1) by (simp add: skip s(2))
    moreover have "line_words s = []" using Nil by (subst line_words.simps) simp
    ultimately show ?thesis by (simp add: tokens_def)
  next
    case (Cons c t)
    let ?t = "skip_spaces s"
    have l: "length ?t < 2 ^ 31" using assms(4) skip_spaces_le [of s] by linarith
    have B: "region q (Suc (length ?t)) \<subseteq> B" using q(3) assms(5) by blast
    then have "region q (Suc (length ?t)) \<inter> region space 2 = {}" using assms(6) by blast
    from strtok_end_space [OF assms(1) q(2) l this] obtain sp' m' where e:
        "strtok_end space 1 q m = Some (sp', m')" "cstr m' q (word_of ?t)" "cstr m' sp' (after_word ?t)"
        "region sp' (Suc (length (after_word ?t))) \<subseteq> region q (Suc (length ?t))"
        "same_outside (region q (Suc (length ?t))) m m'"
      by blast
    have "m q \<noteq> 0" using q(2) Cons by simp
    then have r: "strtok str space sp m = Some (q, sp', m')"
      unfolding strtok_def len s(1) by (simp add: skip s(2) e(1))
    have "q \<noteq> 0" "sp' \<noteq> 0"
      using B e(4) assms(7) in_region_self [of "Suc (length ?t)" q] in_region_self [of "Suc (length (after_word ?t))" sp']
      by auto
    moreover have "region q (Suc (length (word_of ?t))) \<subseteq> B"
      using B region_mono [of "Suc (length (word_of ?t))" "Suc (length ?t)" q] word_of_le [of ?t] by auto
    moreover have "length (word_of ?t) < 2 ^ 31" "length (after_word ?t) < 2 ^ 31"
      using l word_of_le [of ?t] after_word_le [of ?t] by linarith+
    moreover have "line_words s = word_of ?t # line_words (after_word ?t)"
      using Cons by (subst line_words.simps) simp
    ultimately have "tokens B m' q sp' (line_words s)"
      using e(2-4) B unfolding tokens_def by auto
    then show ?thesis using r same_outside_mono [OF e(5) B] by blast
  qed
qed

lemma tokens_frame:
  assumes "tokens B m token sp ws" and "same_outside A m m'" and "A \<inter> B = {}"
  shows "tokens B m' token sp ws"
proof (cases ws)
  case (Cons w vs)
  have f: "cstr m' p s" if "cstr m p s" "region p (Suc (length s)) \<subseteq> B" "length s < 2 ^ 31" for p s
    using that assms(3) by (intro cstr_frame [OF that(1) assms(2)]) auto
  then show ?thesis using assms(1) Cons by (auto simp: tokens_def)
qed (use assms(1) in \<open>simp add: tokens_def\<close>)

lemma space_frame:
  assumes "cstr m space [32]" and "same_outside D m m'" and "region space 2 \<inter> D = {}"
  shows "cstr m' space [32]"
proof (rule cstr_frame [OF assms(1,2)])
  have "Suc (length [32 :: u8]) = 2" by simp
  then show "region space (Suc (length [32 :: u8])) \<inter> D = {}" using assms(3) by (simp only:)
qed simp

section \<open>The list of arguments\<close>

primrec arg_list :: "mem \<Rightarrow> u32 \<Rightarrow> u8 list list \<Rightarrow> bool" where
  "arg_list m p [] \<longleftrightarrow> p = 0"
| "arg_list m p (a # as) \<longleftrightarrow> p \<noteq> 0 \<and> cstr m p a \<and> arg_list m (load32 m (p + 512)) as"

text \<open>
  What the library relies on of the allocation system call: in a state \<open>I k A w\<close>, where the
  program uses the memory \<open>A\<close> and \<open>k\<close> more arguments can be had, it returns the address of
  unused memory and changes no other.
\<close>

definition allocates :: "'w syscalls \<Rightarrow> (nat \<Rightarrow> u32 set \<Rightarrow> 'w \<Rightarrow> bool) \<Rightarrow> bool" where
  "allocates C I \<longleftrightarrow> (\<forall>k A w m. I (Suc k) A w \<longrightarrow> (\<exists>p m' w'. sys_malloc C 516 m w = (p, m', w') \<and> p \<noteq> 0
     \<and> region p 516 \<inter> A = {} \<and> same_outside (region p 516) m m' \<and> I k (A \<union> region p 516) w'))"

lemma argument_parts: "region p 512 \<subseteq> region p 516" "region (p + 512) 4 \<subseteq> region p 516"
  "region p 512 \<inter> region (p + 512) 4 = {}"
  using region_mono [of 512 516 p] region_split_disjoint [of 512 4 p] sub_region [of 512 4 516 p] by simp_all

lemma new_argument:
  assumes "allocates C I" "I (Suc n) A w" "cstr m token v" "region token (Suc (length v)) \<subseteq> A" "length v < 2 ^ 31"
  obtains p m1 w1 m3 where "sys_malloc C 516 m w = (p, m1, w1)" "p \<noteq> 0"
    "m3 = store32 (strncpy m1 p token 512) (p + 512) 0" "cstr m3 p (take 511 v)" "load32 m3 (p + 512) = 0"
    "region p 516 \<inter> A = {}" "same_outside (region p 516) m m3" "I n (A \<union> region p 516) w1"
proof -
  obtain p m1 w1 where a: "sys_malloc C 516 m w = (p, m1, w1)" "p \<noteq> 0" "region p 516 \<inter> A = {}"
      "same_outside (region p 516) m m1" "I n (A \<union> region p 516) w1"
    using assms(1,2) unfolding allocates_def by blast
  let ?m2 = "strncpy m1 p token 512" and ?m3 = "store32 (strncpy m1 p token 512) (p + 512) 0"
  have d: "region p 516 \<inter> region token (Suc (length v)) = {}" using a(3) assms(4) by blast
  then have "cstr m1 token v" using assms(5) by (intro cstr_frame [OF assms(3) a(4)]) auto
  moreover have "region p (nat 512) \<inter> region token (Suc (length v)) = {}" using d argument_parts(1) [of p] by auto
  ultimately have c: "cstr ?m2 p (take (nat (512 - 1)) v)" "same_outside (region p (nat 512)) m1 ?m2"
    using strncpy_cstr [of m1 token v 512 p] assms(5) by auto
  have f3: "same_outside (region (p + 512) 4) ?m2 ?m3" by (rule store32_frame)
  have "region p (Suc (length (take 511 v))) \<subseteq> region p 512" by (rule region_mono) simp
  then have "region p (Suc (length (take 511 v))) \<inter> region (p + 512) 4 = {}" using argument_parts(3) by blast
  then have c3: "cstr ?m3 p (take 511 v)" using c(1) by (intro cstr_frame [OF _ f3]) auto
  have "same_outside (region p 516) ?m2 ?m3" "same_outside (region p 516) m1 ?m2"
    using same_outside_mono [OF f3 argument_parts(2)] same_outside_mono [OF c(2)] argument_parts(1) by auto
  then have f: "same_outside (region p 516) m ?m3" using a(4) by (blast intro: same_outside_trans1)
  show thesis by (rule that [OF a(1,2) refl c3 load32_store32_same a(3) f a(5)])
qed

text \<open>
  One round: the word goes into a new argument, then the next word is cut off. Between the two
  the caller may change memory \<open>E\<close> elsewhere.
\<close>

lemma argument_step:
  assumes alloc: "allocates C I" "I (Suc n) A w" and tok: "tokens B m token sp (v # vs)"
    and B: "B \<union> region space 2 \<subseteq> A" "0 \<notin> B" "region space 2 \<inter> B = {}" and space: "cstr m space [32]"
  obtains p m1 w1 m3 where "sys_malloc C 516 m w = (p, m1, w1)" "p \<noteq> 0"
    "m3 = store32 (strncpy m1 p token 512) (p + 512) 0"
    "region p 516 \<inter> A = {}" "same_outside (region p 516) m m3" "I n (A \<union> region p 516) w1"
    "\<forall>E m4. same_outside E m3 m4 \<longrightarrow> E \<inter> (region p 516 \<union> B \<union> region space 2) = {} \<longrightarrow>
       (\<exists>token' sp' m5. strtok 0 space sp m4 = Some (token', sp', m5) \<and> tokens B m5 token' sp' vs
         \<and> same_outside B m4 m5 \<and> cstr m5 space [32] \<and> cstr m5 p (take 511 v) \<and> load32 m5 (p + 512) = 0)"
proof -
  obtain s where t: "sp \<noteq> 0" "cstr m token v" "region token (Suc (length v)) \<subseteq> B" "length v < 2 ^ 31"
      "cstr m sp s" "region sp (Suc (length s)) \<subseteq> B" "length s < 2 ^ 31" "line_words s = vs"
    using tok by (auto simp: tokens_def)
  have "region token (Suc (length v)) \<subseteq> A" using B(1) t(3) by auto
  then obtain p m1 w1 m3 where n: "sys_malloc C 516 m w = (p, m1, w1)" "p \<noteq> 0"
      "m3 = store32 (strncpy m1 p token 512) (p + 512) 0" "cstr m3 p (take 511 v)" "load32 m3 (p + 512) = 0"
      "region p 516 \<inter> A = {}" "same_outside (region p 516) m m3" "I n (A \<union> region p 516) w1"
    by (rule new_argument [OF alloc t(2) _ t(4)]) blast
  let ?P = "region p 516"
  have P: "?P \<inter> B = {}" "region space 2 \<inter> ?P = {}" "?P \<inter> region sp (Suc (length s)) = {}" using n(6) B(1) t(6) by blast+
  have str: "region p (Suc (length (take 511 v))) \<subseteq> ?P" by (rule region_mono) simp
  have "\<exists>token' sp' m5. strtok 0 space sp m4 = Some (token', sp', m5) \<and> tokens B m5 token' sp' vs
      \<and> same_outside B m4 m5 \<and> cstr m5 space [32] \<and> cstr m5 p (take 511 v) \<and> load32 m5 (p + 512) = 0"
    if E: "same_outside E m3 m4" "E \<inter> (?P \<union> B \<union> region space 2) = {}" for E m4
  proof -
    have f: "same_outside (?P \<union> E) m m4" by (rule same_outside_trans [OF n(7) E(1)])
    have s4: "cstr m4 space [32]" by (rule space_frame [OF space f]) (use P(2) E(2) in blast)
    have "region sp (Suc (length s)) \<inter> (?P \<union> E) = {}" using P(3) E(2) t(6) by blast
    then have c4: "cstr m4 sp s" using t(7) by (intro cstr_frame [OF t(5) f]) auto
    obtain token' sp' m5 where r: "strtok 0 space sp m4 = Some (token', sp', m5)" "tokens B m5 token' sp' vs"
        "same_outside B m4 m5"
      using strtok_tokens [OF s4 _ c4 t(7,6) B(3,2), of 0 sp] t(1,8) by auto
    have g: "same_outside (E \<union> B) m3 m5" by (rule same_outside_trans [OF E(1) r(3)])
    have "?P \<inter> (E \<union> B) = {}" using P(1) E(2) by blast
    then have "region p (Suc (length (take 511 v))) \<inter> (E \<union> B) = {}" "region (p + 512) 4 \<inter> (E \<union> B) = {}"
      using str argument_parts(2) by blast+
    then have "cstr m5 p (take 511 v)" "load32 m5 (p + 512) = 0"
      using n(5) by (simp_all add: cstr_frame [OF n(4) g] load32_same_outside [OF g])
    then show ?thesis using r space_frame [OF s4 r(3) B(3)] by blast
  qed
  then show thesis using that [OF n(1,2,3,6,7,8)] by blast
qed

text \<open>The rest of the list is linked behind an argument without touching its text.\<close>

lemma argument_kept:
  assumes "cstr m p (take 511 v)" and "same_outside (B \<union> region (p + 512) 4 \<union> N) m m'"
    and "region p 516 \<inter> (B \<union> N) = {}"
  shows "cstr m' p (take 511 v)"
proof (rule cstr_frame [OF assms(1,2)])
  have "region p (Suc (length (take 511 v))) \<subseteq> region p 512" by (rule region_mono) simp
  then show "region p (Suc (length (take 511 v))) \<inter> (B \<union> region (p + 512) 4 \<union> N) = {}"
    using assms(3) argument_parts(1,3) [of p] by blast
qed simp

lemma parse_loop:
  assumes alloc: "allocates C I" and B: "0 \<notin> B" "region space 2 \<inter> B = {}"
  shows "I (length ws) A w \<Longrightarrow> tokens B m token sp ws \<Longrightarrow> B \<union> region space 2 \<union> region current 516 \<subseteq> A
    \<Longrightarrow> region current 516 \<inter> (B \<union> region space 2) = {} \<Longrightarrow> cstr m space [32] \<Longrightarrow> load32 m (current + 512) = 0
    \<Longrightarrow> \<exists>m' w' N. parse_command_loop C space token current sp m w = Some (0, m', w')
      \<and> arg_list m' (load32 m' (current + 512)) (map (take 511) ws) \<and> N \<inter> A = {}
      \<and> same_outside (B \<union> region (current + 512) 4 \<union> N) m m'"
proof (induction ws arbitrary: A w m token sp current)
  case Nil
  then have "parse_command_loop C space token current sp m w = Some (0, m, w)"
    by (subst parse_command_loop.simps) (simp add: tokens_def)
  then show ?case using Nil.prems(6) by (auto intro!: exI [of _ "{}"])
next
  case (Cons v vs)
  let ?c4 = "region (current + 512) 4"
  have inv: "I (Suc (length vs)) A w" "B \<union> region space 2 \<subseteq> A" using Cons.prems(1,3) by auto
  obtain p m1 w1 m3 where n:
      "sys_malloc C 516 m w = (p, m1, w1)" "p \<noteq> 0" "m3 = store32 (strncpy m1 p token 512) (p + 512) 0"
      "region p 516 \<inter> A = {}" "same_outside (region p 516) m m3" "I (length vs) (A \<union> region p 516) w1"
      "\<forall>E m4. same_outside E m3 m4 \<longrightarrow> E \<inter> (region p 516 \<union> B \<union> region space 2) = {} \<longrightarrow>
         (\<exists>token' sp' m5. strtok 0 space sp m4 = Some (token', sp', m5) \<and> tokens B m5 token' sp' vs
           \<and> same_outside B m4 m5 \<and> cstr m5 space [32] \<and> cstr m5 p (take 511 v) \<and> load32 m5 (p + 512) = 0)"
    by (rule argument_step [OF alloc inv(1) Cons.prems(2) inv(2) B Cons.prems(5)]) blast
  let ?P = "region p 516" and ?m4 = "store32 m3 (current + 512) p"
  have dis: "?P \<inter> (B \<union> region space 2) = {}" "?c4 \<inter> (?P \<union> B \<union> region space 2) = {}" "?c4 \<subseteq> A"
    using n(4) Cons.prems(3,4) argument_parts(2) [of current] by blast+
  have f4: "same_outside ?c4 m3 ?m4" by (rule store32_frame)
  obtain token' sp' m5 where t: "strtok 0 space sp ?m4 = Some (token', sp', m5)" "tokens B m5 token' sp' vs"
      "same_outside B ?m4 m5" "cstr m5 space [32]" "cstr m5 p (take 511 v)" "load32 m5 (p + 512) = 0"
    using mp [OF mp [OF spec [OF spec [OF n(7)]] f4] dis(2)] by blast
  have "B \<union> region space 2 \<union> ?P \<subseteq> A \<union> ?P" using Cons.prems(3) by blast
  from Cons.IH [OF n(6) t(2) this dis(1) t(4,6)] obtain m' w' N where r:
      "parse_command_loop C space token' p sp' m5 w1 = Some (0, m', w')"
      "arg_list m' (load32 m' (p + 512)) (map (take 511) vs)" "N \<inter> (A \<union> ?P) = {}"
      "same_outside (B \<union> region (p + 512) 4 \<union> N) m5 m'" by blast
  have "token \<noteq> 0" using Cons.prems(2) by (simp add: tokens_def)
  then have run: "parse_command_loop C space token current sp m w = Some (0, m', w')"
    using n(2) t(1) r(1) by (subst parse_command_loop.simps) (simp add: n(1) Let_def flip: n(3))
  have f: "same_outside (B \<union> region (p + 512) 4 \<union> N) ?m4 m'"
    using same_outside_trans [OF t(3) r(4)] by (simp add: Un_assoc Un_left_absorb)
  have "?c4 \<inter> (B \<union> region (p + 512) 4 \<union> N) = {}" using dis argument_parts(2) [of p] r(3) by blast
  then have link: "load32 m' (current + 512) = p" using load32_same_outside [OF f] load32_store32_same by metis
  have "cstr m' p (take 511 v)" by (rule argument_kept [OF t(5) r(4)]) (use dis(1) r(3) in blast)
  then have "arg_list m' (load32 m' (current + 512)) (map (take 511) (v # vs))" using r(2) n(2) by (simp add: link)
  moreover have "same_outside (B \<union> ?c4 \<union> (?P \<union> N)) m m'"
    by (rule same_outside_mono [OF same_outside_trans [OF same_outside_trans [OF n(5) f4] f]])
      (use argument_parts(2) [of p] in blast)
  moreover have "(?P \<union> N) \<inter> A = {}" using n(4) r(3) by blast
  ultimately show ?case using run by blast
qed

text \<open>The buffer \<open>scommand\<close> of \<open>simpos_parse_command\<close>.\<close>

abbreviation scommand :: "u32 \<Rightarrow> u32 set" where
  "scommand usp \<equiv> region (usp - 1025) 1025"

text \<open>The copied line and its first word.\<close>

lemma first_token:
  assumes "cstr m cmd s" "length s < 2 ^ 31" "region cmd (Suc (length s)) \<inter> scommand usp = {}"
    and "cstr m space [32]" "region space 2 \<inter> scommand usp = {}" and low: "1025 < unat usp"
  obtains token sp m2 where "strtok (usp - 1025) space 0 (strncpy m (usp - 1025) cmd 1025) = Some (token, sp, m2)"
    "tokens (scommand usp) m2 token sp (line_words (take 1024 s))" "same_outside (scommand usp) m m2"
    "cstr m2 space [32]" "0 \<notin> scommand usp"
proof -
  let ?b = "usp - 1025" and ?B = "scommand usp" and ?s = "take 1024 s"
  let ?m1 = "strncpy m ?b cmd 1025"
  have ub: "unat ?b = unat usp - 1025" using low unat_sub [of 1025 usp] by (simp add: word_le_nat_alt)
  then have "?b \<noteq> 0" using low by auto
  have zero: "0 \<notin> ?B" using low ub unat_u32_less [of usp] region_eq_range [of ?b 1025 0] by simp
  have c: "cstr ?m1 ?b ?s" "same_outside ?B m ?m1"
    using strncpy_cstr [OF assms(1), of 1025 ?b] assms(2,3) by (auto simp: Int_commute)
  have sp1: "cstr ?m1 space [32]" by (rule space_frame [OF assms(4) c(2) assms(5)])
  have B: "region ?b (Suc (length ?s)) \<subseteq> ?B" "length ?s < 2 ^ 31" by (rule region_mono) simp_all
  obtain token sp m2 where t: "strtok ?b space 0 ?m1 = Some (token, sp, m2)" "tokens ?B m2 token sp (line_words ?s)"
      "same_outside ?B ?m1 m2"
    using strtok_tokens [OF sp1 _ c(1) B(2,1) assms(5) zero, of ?b 0] \<open>?b \<noteq> 0\<close> by auto
  show thesis
    by (rule that [OF t(1,2) same_outside_trans1 [OF c(2) t(3)] space_frame [OF sp1 t(3) assms(5)] zero])
qed

lemma parse_command:
  assumes alloc: "allocates C I" "I (length (line_words (take 1024 s))) A w"
    and cmd: "cstr m cmd s" "length s < 2 ^ 31" "region cmd (Suc (length s)) \<inter> scommand usp = {}"
    and space: "cstr m space [32]" "region space 2 \<inter> scommand usp = {}"
    and A: "scommand usp \<union> region space 2 \<subseteq> A" and low: "1025 < unat usp" and mx: "max_len < 1025"
  shows "\<exists>r m' w' N. simpos_parse_command C space usp cmd max_len 0 m w = Some (r, 0, m', w')
    \<and> arg_list m' r (map (take 511) (line_words (take 1024 s)))
    \<and> N \<inter> A = {} \<and> same_outside (scommand usp \<union> N) m m' \<and> (line_words (take 1024 s) = [] \<longrightarrow> w' = w \<and> N = {})"
proof -
  let ?B = "scommand usp" and ?s = "take 1024 s"
  obtain token sp m2 where t: "strtok (usp - 1025) space 0 (strncpy m (usp - 1025) cmd 1025) = Some (token, sp, m2)"
      "tokens ?B m2 token sp (line_words ?s)" "same_outside ?B m m2" "cstr m2 space [32]" "0 \<notin> ?B"
    by (rule first_token [OF cmd space low]) blast
  show ?thesis
  proof (cases "line_words ?s")
    case Nil
    then have "simpos_parse_command C space usp cmd max_len 0 m w = Some (0, 0, m2, w)"
      using t(2) mx by (simp add: simpos_parse_command_def Let_def t(1) tokens_def)
    then show ?thesis using Nil t(3) by (auto intro!: exI [of _ "{}"])
  next
    case (Cons v vs)
    have tok: "tokens ?B m2 token sp (v # vs)" "I (Suc (length vs)) A w" "token \<noteq> 0"
      using t(2) alloc(2) Cons by (auto simp: tokens_def)
    obtain p m1 w1 m3 where n:
        "sys_malloc C 516 m2 w = (p, m1, w1)" "p \<noteq> 0" "m3 = store32 (strncpy m1 p token 512) (p + 512) 0"
        "region p 516 \<inter> A = {}" "same_outside (region p 516) m2 m3" "I (length vs) (A \<union> region p 516) w1"
        "\<forall>E m4. same_outside E m3 m4 \<longrightarrow> E \<inter> (region p 516 \<union> ?B \<union> region space 2) = {} \<longrightarrow>
           (\<exists>token' sp' m5. strtok 0 space sp m4 = Some (token', sp', m5) \<and> tokens ?B m5 token' sp' vs
             \<and> same_outside ?B m4 m5 \<and> cstr m5 space [32] \<and> cstr m5 p (take 511 v) \<and> load32 m5 (p + 512) = 0)"
      by (rule argument_step [OF alloc(1) tok(2,1) A t(5) space(2) t(4)]) blast
    let ?P = "region p 516"
    obtain token' sp' m5 where r5: "strtok 0 space sp m3 = Some (token', sp', m5)" "tokens ?B m5 token' sp' vs"
        "same_outside ?B m3 m5" "cstr m5 space [32]" "cstr m5 p (take 511 v)" "load32 m5 (p + 512) = 0"
      using spec [OF spec [OF n(7), of "{}"], of m3] by auto
    have dis: "?P \<inter> (?B \<union> region space 2) = {}" "?B \<union> region space 2 \<union> ?P \<subseteq> A \<union> ?P" using n(4) A by blast+
    from parse_loop [OF alloc(1) t(5) space(2) n(6) r5(2) dis(2,1) r5(4,6)] obtain m' w' N where r:
        "parse_command_loop C space token' p sp' m5 w1 = Some (0, m', w')"
        "arg_list m' (load32 m' (p + 512)) (map (take 511) vs)" "N \<inter> (A \<union> ?P) = {}"
        "same_outside (?B \<union> region (p + 512) 4 \<union> N) m5 m'" by blast
    have run: "simpos_parse_command C space usp cmd max_len 0 m w = Some (p, 0, m', w')"
      using mx tok(3) n(2) by (simp add: simpos_parse_command_def Let_def t(1) n(1) r5(1) r(1) flip: n(3))
    have "cstr m' p (take 511 v)" by (rule argument_kept [OF r5(5) r(4)]) (use dis(1) r(3) in blast)
    then have args: "arg_list m' p (map (take 511) (line_words ?s))" using r(2) n(2) Cons by simp
    have frame: "same_outside (?B \<union> (?P \<union> N)) m m'"
      by (rule same_outside_mono [OF same_outside_trans [OF same_outside_trans [OF same_outside_trans [OF t(3) n(5)] r5(3)] r(4)]])
        (use argument_parts(2) [of p] in blast)
    have fresh: "(?P \<union> N) \<inter> A = {}" using n(4) r(3) by blast
    show ?thesis by (intro exI conjI, rule run, rule args, rule fresh, rule frame) (simp add: Cons)
  qed
qed

section \<open>Running a command\<close>


text \<open>
  A kernel that gives out one page after the other and answers a command with 7, keeping the
  list it was handed.
\<close>

definition page_kernel :: "(u32 \<times> u32) syscalls" where
  "page_kernel = \<lparr>sys_print = (\<lambda>_ _ w. w), sys_getkey = (\<lambda>w. (0, w)), sys_putchar = (\<lambda>_ w. w),
     sys_malloc = (\<lambda>_ m (top, r). (top, m, top + 4096, r)), sys_free = (\<lambda>_ m w. (m, w)),
     sys_system = (\<lambda>p m (top, r). (7, m, top, p)), sys_get_arguments = (\<lambda>_ m w. (m, w))\<rparr>"

definition below :: "nat \<Rightarrow> u32 set \<Rightarrow> u32 \<times> u32 \<Rightarrow> bool" where
  "below k A w \<longleftrightarrow> (\<forall>a \<in> A. unat a < unat (fst w)) \<and> 0 < unat (fst w) \<and> unat (fst w) + 4096 * k < 2 ^ 32"

lemma page_kernel_allocates: "allocates page_kernel below"
  unfolding allocates_def
proof (intro allI impI)
  fix k A w m
  assume b: "below (Suc k) A w"
  let ?p = "fst w"
  have r: "a \<in> region ?p 516 \<longleftrightarrow> unat ?p \<le> unat a \<and> unat a < unat ?p + 516" for a
    using b by (intro region_eq_range) (simp add: below_def)
  have u: "unat (?p + 4096) = unat ?p + 4096" using b unat_add_of_nat [of ?p 4096] by (simp add: below_def)
  have "region ?p 516 \<inter> A = {}" "below k (A \<union> region ?p 516) (?p + 4096, snd w)" "?p \<noteq> 0"
    using b u by (auto simp: below_def r)
  then show "\<exists>p m' w'. sys_malloc page_kernel 516 m w = (p, m', w') \<and> p \<noteq> 0
     \<and> region p 516 \<inter> A = {} \<and> same_outside (region p 516) m m' \<and> below k (A \<union> region p 516) w'"
    by (cases w) (auto simp: page_kernel_def)
qed

text \<open>The line \<^verbatim>\<open>" a bc"\<close> at \<open>0x500000\<close>, the literal \<^verbatim>\<open>" "\<close> at \<open>0x400000\<close>.\<close>

definition demo_line :: mem where
  "demo_line = (\<lambda>_. 0)(0x400000 := 32, 0x500000 := 32, 0x500001 := 97, 0x500002 := 32, 0x500003 := 98, 0x500004 := 99)"


end
