(* ===== verification/PathSpec.thy ===== *)
theory PathSpec
  imports PathParser HeapClient
begin

text \<open>
  What the path parser computes: the abstract list of parts of a path, its representation
  as a list on the kernel heap, and the proof that parsing builds exactly this list and
  that \<open>pathparser_free\<close> returns everything it took.
\<close>

section \<open>The parts of a path\<close>

text \<open>
  The parts are separated by slashes; the parser stops at the first empty one, so what
  follows a double slash is ignored.
\<close>

function path_parts :: "u8 list \<Rightarrow> u8 list list" where
  "path_parts s =
     (let p = takeWhile (\<lambda>c. c \<noteq> 47) s
      in if p = [] then [] else p # path_parts (tl (dropWhile (\<lambda>c. c \<noteq> 47) s)))"
  by pat_completeness (simp only:)
termination
proof (relation "measure length")
  fix s :: "u8 list" and x
  assume x: "x = takeWhile (\<lambda>c. c \<noteq> 47) s" "x \<noteq> []"
  have "length (takeWhile (\<lambda>c. c \<noteq> 47) s @ dropWhile (\<lambda>c. c \<noteq> 47) s) = length s"
    by (simp only: takeWhile_dropWhile_id)
  then have "length (dropWhile (\<lambda>c. c \<noteq> 47) s) + length x = length s"
    by (simp only: x(1) length_append add.commute)
  then have "length (tl (dropWhile (\<lambda>c. c \<noteq> 47) s)) < length s" using x(2) by (cases x) auto
  then show "(tl (dropWhile (\<lambda>c. c \<noteq> 47) s), s) \<in> measure length" by simp
qed simp

declare path_parts.simps [simp del]

lemma path_parts_Nil: "takeWhile (\<lambda>c. c \<noteq> 47) s = [] \<Longrightarrow> path_parts s = []"
  by (subst path_parts.simps) simp

lemma path_parts_Cons: "takeWhile (\<lambda>c. c \<noteq> 47) s \<noteq> [] \<Longrightarrow>
    path_parts s = takeWhile (\<lambda>c. c \<noteq> 47) s # path_parts (tl (dropWhile (\<lambda>c. c \<noteq> 47) s))"
  by (subst path_parts.simps) (simp add: Let_def)

text \<open>
  The list of parts at \<open>p\<close>; \<open>qs\<close> are its pages in the order of allocation, for every part
  first the string and then the node.
\<close>

fun path_at :: "mem \<Rightarrow> u32 \<Rightarrow> u8 list list \<Rightarrow> u32 list \<Rightarrow> bool" where
  "path_at m p [] [] \<longleftrightarrow> p = 0"
| "path_at m p (s # ps) (q # n # qs) \<longleftrightarrow> n = p \<and> p \<noteq> 0 \<and> path_part_part m p = q \<and> cstr m q s
     \<and> path_at m (path_part_next m p) ps qs"
| "path_at _ _ _ _ \<longleftrightarrow> False"

section \<open>One part\<close>

lemma cstr_append: "cstr m p (a @ b) \<Longrightarrow> cstr m (p + of_nat (length a)) b"
  by (induction a arbitrary: p) (auto simp flip: add.assoc)

lemma cstr_0: "cstr m p s \<Longrightarrow> (m p = 0) = (s = [])"
  by (cases s) auto

text \<open>What reading the path must not see overwritten.\<close>

abbreviation path_bytes :: "u32 \<Rightarrow> u8 list \<Rightarrow> u32 set" where
  "path_bytes path s \<equiv> region path (Suc (length s))"

lemma copy_part:
  assumes "cstr m path s" and "0 \<le> i" "i + int (length s) < 2 ^ 31"
    and "path_bytes path s \<inter> region (r + u32_of_int i) (length (takeWhile (\<lambda>c. c \<noteq> 47) s)) = {}"
  shows "pathparser_copy_part r i path m =
    Some (path + of_nat (length (takeWhile (\<lambda>c. c \<noteq> 47) s)), i + int (length (takeWhile (\<lambda>c. c \<noteq> 47) s)),
      store_bytes m (r + u32_of_int i) (takeWhile (\<lambda>c. c \<noteq> 47) s))"
  using assms
proof (induction s arbitrary: path i m)
  case Nil
  then show ?case by (subst pathparser_copy_part.simps) simp
next
  case (Cons c s)
  show ?case
  proof (cases "c = 47")
    case True
    then show ?thesis using Cons.prems(1) by (subst pathparser_copy_part.simps) simp
  next
    case False
    let ?t = "takeWhile (\<lambda>c. c \<noteq> 47) s" and ?m = "m(r + u32_of_int i := c)"
    have c: "m path = c" "c \<noteq> 0" "cstr m (path + 1) s" using Cons.prems(1) by auto
    have w: "r + u32_of_int (i + 1) = r + u32_of_int i + 1" by (simp add: u32_of_int_def)
    have reg: "region (r + u32_of_int i) (length (takeWhile (\<lambda>c. c \<noteq> 47) (c # s))) =
        insert (r + u32_of_int i) (region (r + u32_of_int i + 1) (length ?t))"
      using False by (auto simp: region_Suc)
    have pre: "path_bytes path (c # s) = insert path (path_bytes (path + 1) s)" by (auto simp: region_Suc)
    have dis: "r + u32_of_int i \<notin> path_bytes (path + 1) s"
        "path_bytes (path + 1) s \<inter> region (r + u32_of_int (i + 1)) (length ?t) = {}"
      using Cons.prems(4) unfolding reg pre w by blast+
    have "length s < 2 ^ 32 - 1" using Cons.prems(2,3) by simp
    then have cs: "cstr ?m (path + 1) s"
      using dis(1) by (intro cstr_frame [OF c(3), of "{r + u32_of_int i}"]) (auto simp: same_outside_def)
    have i: "c_int (i + 1) = i + 1" using Cons.prems(2,3) by (intro c_int_id) simp_all
    have "pathparser_copy_part r i path m = pathparser_copy_part r (i + 1) (path + 1) ?m"
      using c(1,2) False by (subst pathparser_copy_part.simps) (simp add: i)
    also have "\<dots> = Some (path + 1 + of_nat (length ?t), i + 1 + int (length ?t),
        store_bytes ?m (r + u32_of_int (i + 1)) ?t)"
      using Cons.prems(2,3) dis(2) by (intro Cons.IH [OF cs]) simp_all
    finally show ?thesis using False by (simp add: w add.assoc del: fun_upd_apply)
  qed
qed

lemma zeroed_cstr:
  assumes "\<And>a. a \<in> region r 108 \<Longrightarrow> m a = 0" and "length t < 108" "0 \<notin> set t"
  shows "cstr (store_bytes m r t) r t"
proof (rule cstrI)
  show "store_bytes m r t (r + of_nat i) = t ! i" if "i < length t" for i
    using that assms(2) by (intro store_bytes_at) simp_all
  have "r + of_nat (length t) \<notin> region r (length t)"
    using assms(2) by (simp add: region_def)
  then have "store_bytes m r t (r + of_nat (length t)) = m (r + of_nat (length t))"
    by (rule same_outsideD [OF store_bytes_frame])
  also have "\<dots> = 0" using assms(2) by (intro assms(1) in_region_offset) simp_all
  finally show "store_bytes m r t (r + of_nat (length t)) = 0" .
qed (rule assms(3))

lemma path_rest:
  assumes "cstr m path s"
  defines "t \<equiv> takeWhile (\<lambda>c. c \<noteq> 47) s" and "rest \<equiv> tl (dropWhile (\<lambda>c. c \<noteq> 47) s)"
    and "next \<equiv> path + of_nat (length (takeWhile (\<lambda>c. c \<noteq> 47) s))"
  shows "cstr m (if m next = 47 then next + 1 else next) rest"
    and "length s < 2 ^ 32 - 1 \<Longrightarrow> path_bytes (if m next = 47 then next + 1 else next) rest \<subseteq> path_bytes path s"
    and "length t + length rest \<le> length s"
proof -
  let ?d = "dropWhile (\<lambda>c. c \<noteq> 47) s"
  have s: "s = t @ ?d" by (simp add: t_def)
  have c: "cstr m next ?d" using cstr_append [of m path t ?d] assms(1) s by (simp add: next_def t_def)
  have d: "?d = [] \<and> rest = [] \<or> ?d = 47 # rest"
  proof (cases ?d)
    case Nil
    then show ?thesis by (simp add: rest_def del: dropWhile_eq_Nil_conv)
  next
    case (Cons x xs)
    then have "x = 47" using hd_dropWhile [of "\<lambda>c. c \<noteq> 47" s] by simp
    then show ?thesis using Cons by (simp add: rest_def)
  qed
  show "cstr m (if m next = 47 then next + 1 else next) rest"
    using d
  proof
    assume "?d = [] \<and> rest = []"
    then have "?d = []" "rest = []" by blast+
    then show ?thesis using c by (simp only: cstr.simps) simp
  next
    assume e: "?d = 47 # rest"
    show ?thesis using c unfolding e by simp
  qed
  have l: "length s = length t + length ?d" by (metis length_append s)
  show "length t + length rest \<le> length s" using d by (elim disjE conjE) (simp_all only: l list.size)
  show "path_bytes (if m next = 47 then next + 1 else next) rest \<subseteq> path_bytes path s" if "length s < 2 ^ 32 - 1"
  proof -
    have sub: "region (path + of_nat a) b \<subseteq> path_bytes path s" if "a + b \<le> Suc (length s)" for a b
    proof -
      have "region path (a + b) = region path a \<union> region (path + of_nat a) b"
        using \<open>length s < 2 ^ 32 - 1\<close> that by (intro region_split) simp
      then show ?thesis using region_mono [OF that, of path] by blast
    qed
    have nx: "next = path + of_nat (length t)" by (simp add: next_def t_def)
    show ?thesis
      using d
    proof
      assume "?d = [] \<and> rest = []"
      then have e: "?d = []" "rest = []" by blast+
      then have "m next = 0" using c by (simp only: cstr.simps)
      then show ?thesis using sub [of "length t" "Suc (length rest)"] l e(2) by (simp add: nx)
    next
      assume e: "?d = 47 # rest"
      then have "m next = 47" "length s = length t + Suc (length rest)"
        using c unfolding l by (simp_all only: cstr.simps list.size)
      then show ?thesis using sub [of "length t + 1" "Suc (length rest)"]
        by (simp add: nx add.assoc add.commute [of 1])
    qed
  qed
qed

lemma get_part:
  assumes live: "heap_live kheap m L" and av: "0 < heap_avail kheap L"
    and str: "cstr m path s" and off: "off_heap (path_bytes path s)" and len: "length s < 2 ^ 31"
  defines "t \<equiv> takeWhile (\<lambda>c. c \<noteq> 47) s" and "rest \<equiv> tl (dropWhile (\<lambda>c. c \<noteq> 47) s)"
  assumes small: "length t < 108"
  obtains r path' m' where "pathparser_get_path_part kheap path m = Some (r, path', m')"
    "cstr m' path' rest" "path_bytes path' rest \<subseteq> path_bytes path s" "length t + length rest \<le> length s"
    "same_outside (heap_scratch L) m m'"
    "if t = [] then r = 0 \<and> heap_live kheap m' L
     else r \<noteq> 0 \<and> L r = None \<and> heap_live kheap m' (L(r \<mapsto> 1)) \<and> cstr m' r t
       \<and> heap_avail kheap (L(r \<mapsto> 1)) = heap_avail kheap L - 1"
proof -
  have sz: "u32_of_int SIMPOS_MAX_PATH = 108" "unat (108 :: u32) = 108" by (simp_all add: SIMPOS_MAX_PATH_def)
  obtain r m1 where r: "kzalloc kheap 108 m = (r, m1)" "r \<noteq> 0" "L r = None" "heap_live kheap m1 (L(r \<mapsto> 1))"
      "heap_avail kheap (L(r \<mapsto> 1)) = heap_avail kheap L - 1" "\<And>a. a \<in> region r 108 \<Longrightarrow> m1 a = 0"
      "region r 4096 \<subseteq> heap_scratch L" "same_outside (heap_scratch L) m m1"
    using kzalloc_page [OF live _ _ av, of 108 thesis] that unfolding sz(2)
    by (simp del: One_nat_def fun_upd_apply)
  let ?next = "path + of_nat (length t)" and ?m2 = "store_bytes m1 r t"
  have ps: "path_bytes path s \<inter> heap_scratch L = {}" using off by (rule off_heap_scratch)
  have str1: "cstr m1 path s" using len by (intro cstr_frame [OF str r(8) ps]) simp
  have rt: "region r (length t) \<subseteq> region r 4096" using small by (intro region_mono) simp
  have f2: "same_outside (region r 4096) m1 ?m2" using store_bytes_frame rt by (rule same_outside_mono)
  have dis: "path_bytes path s \<inter> region r 4096 = {}" using ps r(7) by blast
  have cp: "pathparser_copy_part r 0 path m1 = Some (?next, int (length t), ?m2)"
    using copy_part [OF str1, of 0 r] dis rt len unfolding t_def by auto
  have str2: "cstr ?m2 path s" using len by (intro cstr_frame [OF str1 f2 dis]) simp
  let ?p = "if ?m2 ?next = 47 then ?next + 1 else ?next"
  have l32: "length s < 2 ^ 32 - 1" using len by simp
  note rest = path_rest [OF str2, folded t_def rest_def]
  have live2: "heap_live kheap ?m2 (L(r \<mapsto> 1))" by (rule write_page [OF r(4) _ f2]) simp
  have f02: "same_outside (heap_scratch L) m ?m2"
    by (rule same_outside_trans1 [OF r(8) same_outside_mono [OF f2 r(7)]])
  show thesis
  proof (cases "t = []")
    case False
    have "0 \<notin> set t" using cstr_nonzero [OF str] by (auto simp: t_def dest: set_takeWhileD)
    then have "cstr ?m2 r t" using zeroed_cstr [of r m1 t] r(6) small by blast
    moreover have "pathparser_get_path_part kheap path m = Some (r, ?p, ?m2)"
      using False by (simp add: pathparser_get_path_part_def sz r(1,2) cp Let_def)
    ultimately show ?thesis
      using False r(2,3,5) live2 f02 by (intro that [OF _ rest(1) rest(2) [OF l32] rest(3)]) auto
  next
    case True
    let ?m3 = "kfree kheap r ?m2"
    have "(L(r \<mapsto> 1))(r := None) = L" using r(3) by auto
    then have k: "heap_live kheap ?m3 L" "same_outside (heap_scratch L) ?m2 ?m3"
      using kfree_live_page [OF live2, of r 1] by simp_all
    have "pathparser_get_path_part kheap path m = Some (0, ?p, ?m3)"
      using True by (simp add: pathparser_get_path_part_def sz r(1,2) cp Let_def)
    moreover have "cstr ?m3 ?p rest"
    proof (rule cstr_frame [OF rest(1) k(2)])
      show "path_bytes ?p rest \<inter> heap_scratch L = {}" using rest(2) [OF l32] ps by blast
      show "length rest < 2 ^ 32 - 1" using rest(3) l32 by simp
    qed
    ultimately show ?thesis
      using True k same_outside_trans1 [OF f02 k(2)] rest(2) [OF l32] rest(3) by (intro that) auto
  qed
qed

section \<open>Appending a node\<close>

text \<open>The word behind \<open>prv\<close> that appending writes, if there is a prv node.\<close>

abbreviation next_word :: "u32 \<Rightarrow> u32 set" where
  "next_word prv \<equiv> if prv = 0 then {} else region (prv + 4) 4"

lemma node_words: "region p 4 \<subseteq> region p 4096" "region (p + 4) 4 \<subseteq> region p 4096"
  using region_mono [of 4 4096 p] page_bytes [of 4 4 p] by simp_all

lemma link_node:
  assumes live: "heap_live kheap m (L(q \<mapsto> 1))" "heap_live kheap m2 (L(q \<mapsto> 1, n \<mapsto> 1))"
    and new: "L q = None" "(L(q \<mapsto> 1)) n = None" and fr: "same_outside (heap_scratch (L(q \<mapsto> 1))) m m2"
    and prv: "prv = 0 \<or> L prv = Some 1"
    and q: "cstr m q t" "length t < 108"
  defines "m' \<equiv> (let m = store32 m2 n q; m = store32 m (n + 4) 0
     in if prv \<noteq> 0 then store32 m (prv + 4) n else m)"
  shows "path_part_part m' n = q" "path_part_next m' n = 0" "cstr m' q t" "heap_live kheap m' (L(q \<mapsto> 1, n \<mapsto> 1))"
    "prv \<noteq> 0 \<Longrightarrow> path_part_next m' prv = n" "same_outside (heap_scratch (L(q \<mapsto> 1)) \<union> next_word prv) m m'"
proof -
  let ?L1 = "L(q \<mapsto> 1)" and ?L2 = "L(q \<mapsto> 1, n \<mapsto> 1)"
  let ?m3 = "store32 m2 n q" let ?m4 = "store32 ?m3 (n + 4) 0"
  have qn: "q \<noteq> n" using new by auto
  have lq: "prv \<noteq> 0 \<Longrightarrow> prv \<noteq> q \<and> prv \<noteq> n" using prv new by (auto split: if_splits)
  have apart: "region a 4096 \<inter> region b 4096 = {}" if "?L2 a = Some 1" "?L2 b = Some 1" "a \<noteq> b" for a b
    using kh.live_disjoint [OF live(2) that] by (simp add: block_region_1)
  have L2: "?L2 n = Some 1" "?L2 q = Some 1" "prv \<noteq> 0 \<Longrightarrow> ?L2 prv = Some 1" using prv lq qn by auto
  have f3: "same_outside (region n 4096) m2 ?m4"
    by (rule same_outside_trans1 [OF same_outside_mono [OF store32_frame] same_outside_mono [OF store32_frame]])
      (rule node_words)+
  have f5: "same_outside (next_word prv) ?m4 m'" unfolding m'_def Let_def by (auto intro: store32_frame)
  have lw: "next_word prv \<subseteq> region prv 4096" "prv \<noteq> 0 \<Longrightarrow> region prv 4096 \<inter> region n 4096 = {}"
      "prv \<noteq> 0 \<Longrightarrow> region prv 4096 \<inter> region q 4096 = {}"
    using node_words(2) [of prv] apart L2 lq by auto
  have nn: "region x 4 \<inter> next_word prv = {}" if "region x 4 \<subseteq> region n 4096" for x
    using lw that by (cases "prv = 0") auto
  have w: "load32 m' n = load32 ?m4 n" "load32 m' (n + 4) = load32 ?m4 (n + 4)"
    using nn node_words [of n] by (auto intro: load32_same_outside [OF f5])
  show "path_part_part m' n = q" "path_part_next m' n = 0"
    by (simp_all add: path_part_part_def path_part_next_def w off_simps)
  have l1: "heap_live kheap ?m4 ?L2" by (rule write_page [OF live(2) L2(1) f3])
  show "heap_live kheap m' ?L2"
  proof (cases "prv = 0")
    case False
    then show ?thesis by (intro write_page [OF l1 L2(3) same_outside_mono [OF f5 lw(1)]])
  qed (use l1 in \<open>simp add: m'_def\<close>)
  show "prv \<noteq> 0 \<Longrightarrow> path_part_next m' prv = n" by (simp add: m'_def path_part_next_def off_simps)
  have sc: "region n 4096 \<subseteq> heap_scratch ?L1" by (rule new_page_scratch [OF live(2) new(2)])
  have all: "same_outside (heap_scratch ?L1 \<union> next_word prv) m m'"
    by (rule same_outside_trans [OF same_outside_trans1 [OF fr same_outside_mono [OF f3 sc]] f5])
  then show "same_outside (heap_scratch ?L1 \<union> next_word prv) m m'" .
  have "region q 4096 \<inter> heap_scratch ?L1 = {}" by (rule page_scratch [OF live(1)]) simp
  then have "region q 4096 \<inter> (heap_scratch ?L1 \<union> next_word prv) = {}" using lw by (cases "prv = 0") auto
  then have "region q (Suc (length t)) \<inter> (heap_scratch ?L1 \<union> next_word prv) = {}"
    using region_mono [of "Suc (length t)" 4096 q] q(2) by auto
  then show "cstr m' q t" using q(2) by (intro cstr_frame [OF q(1) all]) simp_all
qed

lemma parse_part_none:
  assumes "heap_live kheap m L" "0 < heap_avail kheap L" "cstr m path s" "off_heap (path_bytes path s)"
    "length s < 2 ^ 31" and t: "takeWhile (\<lambda>c. c \<noteq> 47) s = []"
  shows "\<exists>path' m'. pathparser_parse_path_part kheap prv path m = Some (0, path', m')
    \<and> heap_live kheap m' L \<and> same_outside (heap_scratch L) m m'"
proof -
  obtain r path' m' where "pathparser_get_path_part kheap path m = Some (r, path', m')"
      "same_outside (heap_scratch L) m m'" "r = 0 \<and> heap_live kheap m' L"
    using get_part [OF assms(1-5)] t by (metis (no_types) list.size(3) zero_less_numeral)
  then show ?thesis by (auto simp: pathparser_parse_path_part_def)
qed

lemma parse_part_some:
  assumes live: "heap_live kheap m L" and av: "2 \<le> heap_avail kheap L"
    and str: "cstr m path s" "off_heap (path_bytes path s)" "length s < 2 ^ 31"
    and prv: "prv = 0 \<or> L prv = Some 1"
  defines "t \<equiv> takeWhile (\<lambda>c. c \<noteq> 47) s" and "rest \<equiv> tl (dropWhile (\<lambda>c. c \<noteq> 47) s)"
  assumes t: "t \<noteq> []" "length t < 108"
  obtains q n path' m' where "pathparser_parse_path_part kheap prv path m = Some (n, path', m')" "n \<noteq> 0"
    "L q = None" "(L(q \<mapsto> 1)) n = None" "heap_live kheap m' (L(q \<mapsto> 1, n \<mapsto> 1))"
    "heap_avail kheap (L(q \<mapsto> 1, n \<mapsto> 1)) = heap_avail kheap L - 2"
    "path_part_part m' n = q" "path_part_next m' n = 0" "cstr m' q t" "prv \<noteq> 0 \<Longrightarrow> path_part_next m' prv = n"
    "same_outside (heap_scratch L \<union> next_word prv) m m'"
    "cstr m' path' rest" "path_bytes path' rest \<subseteq> path_bytes path s" "length t + length rest \<le> length s"
proof -
  have av0: "0 < heap_avail kheap L" using av by simp
  obtain q path' m1 where q: "pathparser_get_path_part kheap path m = Some (q, path', m1)"
      "cstr m1 path' rest" "path_bytes path' rest \<subseteq> path_bytes path s" "length t + length rest \<le> length s"
      "same_outside (heap_scratch L) m m1"
      "q \<noteq> 0 \<and> L q = None \<and> heap_live kheap m1 (L(q \<mapsto> 1)) \<and> cstr m1 q t
       \<and> heap_avail kheap (L(q \<mapsto> 1)) = heap_avail kheap L - 1"
    using get_part [OF live av0 str t(2) [unfolded t_def]] t(1) unfolding t_def rest_def by (metis (no_types, lifting))
  let ?L1 = "L(q \<mapsto> 1)"
  have live1: "heap_live kheap m1 ?L1" and av1: "0 < heap_avail kheap ?L1" using q(6) av by auto
  obtain n m2 where n: "kzalloc kheap 8 m1 = (n, m2)" "n \<noteq> 0" "?L1 n = None" "heap_live kheap m2 (?L1(n \<mapsto> 1))"
      "heap_avail kheap (?L1(n \<mapsto> 1)) = heap_avail kheap ?L1 - 1" "same_outside (heap_scratch ?L1) m1 m2"
    using kzalloc_page [OF live1 _ _ av1, of 8 thesis] that by (simp del: One_nat_def fun_upd_apply)
  define m' where "m' = (let m = store32 m2 n q; m = store32 m (n + 4) 0
     in if prv \<noteq> 0 then store32 m (prv + 4) n else m)"
  have qn: "L q = None" "cstr m1 q t" using q(6) by blast+
  note link = link_node [OF live1 n(4) qn(1) n(3,6) prv qn(2) t(2), folded m'_def]
  have sub: "heap_scratch ?L1 \<union> next_word prv \<subseteq> heap_scratch L \<union> next_word prv"
    using heap_scratch_upd [of L q 1] qn(1) by blast
  have fr: "same_outside (heap_scratch L \<union> next_word prv) m m'"
    using same_outside_mono [OF q(5), of "heap_scratch L \<union> next_word prv"] same_outside_mono [OF link(6) sub]
    by (auto intro: same_outside_trans1)
  have "path_bytes path' rest \<inter> (heap_scratch ?L1 \<union> next_word prv) = {}"
  proof -
    have "path_bytes path s \<inter> next_word prv = {}"
      using off_heap_live [OF str(2) live, of prv 1] prv node_words(2) [of prv]
      by (cases "prv = 0") (auto simp: block_region_1)
    then show ?thesis using q(3) off_heap_scratch [OF str(2)] by blast
  qed
  then have "cstr m' path' rest" using q(4) str(3) by (intro cstr_frame [OF q(2) link(6)]) simp_all
  moreover have "pathparser_parse_path_part kheap prv path m = Some (n, path', m')"
    using q(6) n(2) by (simp add: pathparser_parse_path_part_def q(1) n(1) m'_def Let_def)
  moreover have "heap_avail kheap (?L1(n \<mapsto> 1)) = heap_avail kheap L - 2" using n(5) q(6) by simp
  ultimately show thesis using that [OF _ n(2) qn(1) n(3) link(4) _ link(1-3) link(5) fr _ q(3,4)] by blast
qed

section \<open>The whole path\<close>

lemma grab_Cons: "grab (L(p \<mapsto> 1)) ps = grab L (p # ps)"
  by (auto simp: grab_def map_add_def fun_eq_iff)

text \<open>What parsing and then looping does behind the node \<open>prv\<close>.\<close>

definition parse_rest :: "u32 \<Rightarrow> u32 \<Rightarrow> mem \<Rightarrow> mem option" where
  "parse_rest prv path m =
     do { (part, path, m) \<leftarrow> pathparser_parse_path_part kheap prv path m; pathparser_parse_loop kheap part path m }"

text \<open>A node linked to the rest of the list, seen after the rest has been built.\<close>

lemma path_at_Cons:
  assumes live: "heap_live kheap m1 (L(q \<mapsto> 1, n \<mapsto> 1))" and n: "n \<noteq> 0" "L q = None" "(L(q \<mapsto> 1)) n = None"
    and nd: "path_part_part m1 n = q" "cstr m1 q t" "length t < 108"
    and fr: "same_outside (heap_scratch (L(q \<mapsto> 1, n \<mapsto> 1)) \<union> next_word n) m1 m'"
    and tl: "path_at m' (path_part_next m' n) ps qs"
  shows "path_at m' n (t # ps) (q # n # qs)"
    and "L p = Some 1 \<Longrightarrow> region p 4096 \<inter> (heap_scratch (L(q \<mapsto> 1, n \<mapsto> 1)) \<union> next_word n) = {}"
proof -
  let ?L = "L(q \<mapsto> 1, n \<mapsto> 1)"
  have qn: "q \<noteq> n" using n(2,3) by auto
  have apart: "region a 4096 \<inter> (heap_scratch ?L \<union> next_word n) = {}" if "?L a = Some 1" "a \<noteq> n" for a
  proof -
    have "region a 4096 \<inter> region n 4096 = {}"
      using kh.live_disjoint [OF live that(1), of n 1] that(2) by (simp add: block_region_1)
    then show ?thesis
      using page_scratch [OF live that(1)] node_words(2) [of n] unfolding if_not_P [OF n(1)] by blast
  qed
  show "region p 4096 \<inter> (heap_scratch ?L \<union> next_word n) = {}" if p: "L p = Some 1"
  proof (rule apart)
    show "?L p = Some 1" using p by simp
    show "p \<noteq> n" using p n(3) by (auto split: if_splits)
  qed
  have pw: "region n 4 \<inter> (heap_scratch ?L \<union> next_word n) = {}"
  proof -
    have "region n 4096 \<inter> heap_scratch ?L = {}" by (rule page_scratch [OF live]) simp
    moreover have "region n 4 \<inter> region (n + 4) 4 = {}" by (rule region_offsets_disjoint) simp_all
    ultimately show ?thesis using node_words(1) [of n] unfolding if_not_P [OF n(1)] by blast
  qed
  have "path_part_part m' n = q"
    using nd(1) load32_same_outside [OF fr pw] by (simp add: path_part_part_def)
  moreover have "cstr m' q t"
  proof (rule cstr_frame [OF nd(2) fr])
    have "region q (Suc (length t)) \<subseteq> region q 4096" using nd(3) by (intro region_mono) simp
    then show "region q (Suc (length t)) \<inter> (heap_scratch ?L \<union> next_word n) = {}"
      using apart [of q] qn by auto
  qed (use nd(3) in simp)
  ultimately show "path_at m' n (t # ps) (q # n # qs)" using n(1) tl by simp
qed

lemma parse_rest_spec:
  assumes "heap_live kheap m L" "2 * length (path_parts s) + 1 \<le> heap_avail kheap L"
    "cstr m path s" "off_heap (path_bytes path s)" "length s < 2 ^ 31"
    "L prv = Some 1" "prv \<noteq> 0" "path_part_next m prv = 0" "\<forall>p \<in> set (path_parts s). length p < 108"
  shows "\<exists>qs m'. parse_rest prv path m = Some m' \<and> heap_live kheap m' (grab L qs) \<and> distinct qs
    \<and> (\<forall>q \<in> set qs. L q = None) \<and> path_at m' (path_part_next m' prv) (path_parts s) qs
    \<and> same_outside (heap_scratch L \<union> next_word prv) m m'"
  using assms
proof (induction "length s" arbitrary: s L m path prv rule: less_induct)
  case less
  note live = less.prems(1) and str = less.prems(3,4,5) and prv = less.prems(6,7)
  let ?t = "takeWhile (\<lambda>c. c \<noteq> 47) s" and ?rest = "tl (dropWhile (\<lambda>c. c \<noteq> 47) s)"
  have pd: "region (prv + 4) 4 \<inter> heap_scratch L = {}"
    using page_scratch [OF live prv(1)] node_words(2) [of prv] by blast
  show ?case
  proof (cases "?t = []")
    case True
    obtain path' m' where p: "pathparser_parse_path_part kheap prv path m = Some (0, path', m')"
        "heap_live kheap m' L" "same_outside (heap_scratch L) m m'"
      using parse_part_none [OF live _ str True, of prv] less.prems(2) by auto
    have "path_part_next m' prv = 0"
      using less.prems(8) load32_same_outside [OF p(3) pd] by (simp add: path_part_next_def)
    moreover have "parse_rest prv path m = Some m'"
      by (simp add: parse_rest_def p(1) pathparser_parse_loop.simps)
    ultimately show ?thesis
      using p(2,3) path_parts_Nil [OF True] by (intro exI [of _ "[]"] exI [of _ m']) (auto intro: same_outside_mono)
  next
    case False
    have parts: "path_parts s = ?t # path_parts ?rest" using False by (rule path_parts_Cons)
    have t: "length ?t < 108" "2 \<le> heap_avail kheap L" using less.prems(2,9) by (simp_all add: parts)
    obtain q n path' m1 where n: "pathparser_parse_path_part kheap prv path m = Some (n, path', m1)" "n \<noteq> 0"
        "L q = None" "(L(q \<mapsto> 1)) n = None" "heap_live kheap m1 (L(q \<mapsto> 1, n \<mapsto> 1))"
        "heap_avail kheap (L(q \<mapsto> 1, n \<mapsto> 1)) = heap_avail kheap L - 2"
        "path_part_part m1 n = q" "path_part_next m1 n = 0" "cstr m1 q ?t" "path_part_next m1 prv = n"
        "same_outside (heap_scratch L \<union> next_word prv) m m1"
        "cstr m1 path' ?rest" "path_bytes path' ?rest \<subseteq> path_bytes path s" "length ?t + length ?rest \<le> length s"
      using parse_part_some [OF live t(2) str disjI2 [OF prv(1)] False t(1), of thesis] that prv(2)
      by (simp del: One_nat_def fun_upd_apply dropWhile_eq_Nil_conv takeWhile_eq_Nil_iff)
    let ?L = "L(q \<mapsto> 1, n \<mapsto> 1)"
    have lr: "length ?rest < length s" using n(14) False by (cases ?t) auto
    have "\<exists>qs m'. parse_rest n path' m1 = Some m' \<and> heap_live kheap m' (grab ?L qs) \<and> distinct qs
      \<and> (\<forall>q \<in> set qs. ?L q = None) \<and> path_at m' (path_part_next m' n) (path_parts ?rest) qs
      \<and> same_outside (heap_scratch ?L \<union> next_word n) m1 m'"
    proof (rule less.hyps [OF lr n(5) _ n(12) _ _ _ n(2,8)])
      show "2 * length (path_parts ?rest) + 1 \<le> heap_avail kheap ?L" using less.prems(2) n(6) by (simp add: parts)
      show "off_heap (path_bytes path' ?rest)" using n(13) str(2) by (auto simp: off_heap_def)
      show "length ?rest < 2 ^ 31" using lr str(3) by simp
      show "\<forall>p \<in> set (path_parts ?rest). length p < 108" using less.prems(9) by (simp add: parts)
    qed simp
    then obtain qs m' where qs: "parse_rest n path' m1 = Some m'" "heap_live kheap m' (grab ?L qs)" "distinct qs"
        "\<forall>q \<in> set qs. ?L q = None" "path_at m' (path_part_next m' n) (path_parts ?rest) qs"
        "same_outside (heap_scratch ?L \<union> next_word n) m1 m'" by blast
    have e: "parse_rest prv path m = Some m'"
      using n(2) qs(1) by (subst parse_rest_def)
        (simp add: n(1) pathparser_parse_loop.simps [of _ n] parse_rest_def)
    have g: "grab ?L qs = grab L (q # n # qs)" by (simp only: grab_Cons)
    have qn: "q \<noteq> n" "prv \<noteq> q" "prv \<noteq> n" using n(3,4) prv(1) by (auto split: if_splits)
    note link = path_at_Cons [OF n(5,2,3,4,7,9) t(1) qs(6,5)]
    have "path_part_next m' prv = n"
      using n(10) load32_same_outside [OF qs(6), of "prv + 4"] link(2) [OF prv(1)] node_words(2) [of prv]
      by (simp add: path_part_next_def) blast
    then have "path_at m' (path_part_next m' prv) (path_parts s) (q # n # qs)" using link(1) by (simp add: parts)
    moreover have "same_outside (heap_scratch L \<union> next_word prv) m m'"
    proof (rule same_outside_trans1 [OF n(11) same_outside_mono [OF qs(6)]])
      have "heap_scratch ?L \<subseteq> heap_scratch L" using n(3,4) by (intro heap_scratch_mono) (auto split: if_splits)
      moreover have "region n 4096 \<subseteq> heap_scratch (L(q \<mapsto> 1))" using new_page_scratch [OF n(5,4)] .
      moreover have "heap_scratch (L(q \<mapsto> 1)) \<subseteq> heap_scratch L" using n(3) by (rule heap_scratch_upd)
      ultimately show "heap_scratch ?L \<union> next_word n \<subseteq> heap_scratch L \<union> next_word prv"
        using node_words(2) [of n] by auto
    qed
    moreover have "distinct (q # n # qs)" "\<forall>p \<in> set (q # n # qs). L p = None"
      using qs(3,4) n(3,4) qn(1) by (auto split: if_splits)
    ultimately show ?thesis using e qs(2) unfolding g by blast
  qed
qed

lemma digit_char:
  assumes "m path = d" "48 \<le> d" "d \<le> 57"
  shows "isdigit (m path)" "tonumericdigit (m path) = uint d - 48" "0 \<le> uint d - 48" "uint d - 48 < 2 ^ 31"
proof -
  have u: "48 \<le> uint d" "uint d \<le> 57" using assms by (simp_all add: word_le_def)
  then have "sint d = uint d" by (simp add: sint_uint signed_take_bit_int_eq_self)
  then show "isdigit (m path)" "tonumericdigit (m path) = uint d - 48" "0 \<le> uint d - 48" "uint d - 48 < 2 ^ 31"
    using assms(1) u by (simp_all add: isdigit_def tonumericdigit_def)
qed

text \<open>The two characters behind the digit are not looked at: the comparison always succeeds.\<close>

lemma drive_number:
  assumes "m path = d" "48 \<le> d" "d \<le> 57"
  shows "pathparser_get_drive_number S path m = (uint d - 48, path + 3)"
proof -
  have "0 \<le> strnlen_loop m path n i" if "0 \<le> i" for n i
    using that by (induction m path n i rule: strnlen_loop.induct) (subst strnlen_loop.simps, simp)
  then show ?thesis
    by (simp add: pathparser_get_drive_number_def pathparser_path_valid_format_def digit_char [of m path d, OF assms]
        strnlen_def memcmp_def memcmp_loop_0)
qed

lemma parse_path_spec:
  assumes live: "heap_live kheap m L" and av: "2 * length (path_parts s) + 2 \<le> heap_avail kheap L"
    and str: "cstr m path (d # c1 # c2 # s)" and d: "48 \<le> d" "d \<le> 57"
    and off: "off_heap (path_bytes path (d # c1 # c2 # s))" and len: "length s < 2 ^ 31"
    and ne: "path_parts s \<noteq> []" and small: "\<forall>p \<in> set (path_parts s). length p < 108"
  shows "\<exists>root qs m'. pathparser_parse S kheap path cur m = Some (root, m')
    \<and> path_root_drive_no m' root = uint d - 48 \<and> path_at m' (path_root_first m' root) (path_parts s) qs
    \<and> root \<noteq> 0 \<and> heap_live kheap m' (grab L (root # qs)) \<and> distinct (root # qs)
    \<and> (\<forall>q \<in> set (root # qs). L q = None) \<and> same_outside (heap_scratch L) m m'"
proof -
  let ?t = "takeWhile (\<lambda>c. c \<noteq> 47) s" and ?rest = "tl (dropWhile (\<lambda>c. c \<noteq> 47) s)"
  have tne: "?t \<noteq> []" using ne path_parts_Nil by blast
  then have parts: "path_parts s = ?t # path_parts ?rest" by (rule path_parts_Cons)
  note dig = digit_char [OF _ d, of m path] and drive = drive_number [OF _ d, of m path S]
  have md: "m path = d" using str by simp
  have c3: "cstr m (path + 3) s" using str by (simp add: add.assoc)
  have sub3: "path_bytes (path + 3) s \<subseteq> path_bytes path (d # c1 # c2 # s)"
  proof -
    have "Suc (length (d # c1 # c2 # s)) = 3 + Suc (length s)" by simp
    then show ?thesis using region_split [of 3 "Suc (length s)" path] len by (simp only:) simp
  qed
  have off3: "off_heap (path_bytes (path + 3) s)" using off sub3 by (auto simp: off_heap_def)
  have av0: "0 < heap_avail kheap L" using av by simp
  obtain r m1 where r: "kzalloc kheap 8 m = (r, m1)" "r \<noteq> 0" "L r = None" "heap_live kheap m1 (L(r \<mapsto> 1))"
      "heap_avail kheap (L(r \<mapsto> 1)) = heap_avail kheap L - 1" "region r 4096 \<subseteq> heap_scratch L"
      "same_outside (heap_scratch L) m m1"
    using kzalloc_page [OF live _ _ av0, of 8 thesis] that by (simp del: One_nat_def fun_upd_apply)
  let ?Lr = "L(r \<mapsto> 1)" and ?m2 = "store32 (store32 m1 r (u32_of_int (uint d - 48))) (r + 4) 0"
  have f2: "same_outside (region r 4096) m1 ?m2"
    by (rule same_outside_trans1 [OF same_outside_mono [OF store32_frame] same_outside_mono [OF store32_frame]])
      (rule node_words)+
  have live2: "heap_live kheap ?m2 ?Lr" by (rule write_page [OF r(4) _ f2]) simp
  have f02: "same_outside (heap_scratch L) m ?m2"
    by (rule same_outside_trans1 [OF r(7) same_outside_mono [OF f2 r(6)]])
  have c32: "cstr ?m2 (path + 3) s"
    using off_heap_scratch [OF off3] len by (intro cstr_frame [OF c3 f02]) simp_all
  have t: "length ?t < 108" "2 \<le> heap_avail kheap ?Lr" using small av r(5) by (simp_all add: parts)
  obtain q n path' m3 where n: "pathparser_parse_path_part kheap 0 (path + 3) ?m2 = Some (n, path', m3)" "n \<noteq> 0"
      "?Lr q = None" "(?Lr(q \<mapsto> 1)) n = None" "heap_live kheap m3 (?Lr(q \<mapsto> 1, n \<mapsto> 1))"
      "heap_avail kheap (?Lr(q \<mapsto> 1, n \<mapsto> 1)) = heap_avail kheap ?Lr - 2"
      "path_part_part m3 n = q" "path_part_next m3 n = 0" "cstr m3 q ?t"
      "same_outside (heap_scratch ?Lr) ?m2 m3"
      "cstr m3 path' ?rest" "path_bytes path' ?rest \<subseteq> path_bytes (path + 3) s" "length ?t + length ?rest \<le> length s"
    using parse_part_some [OF live2 t(2) c32 off3 len disjI1 [OF refl] tne t(1), of thesis] that
    by (simp del: One_nat_def fun_upd_apply dropWhile_eq_Nil_conv takeWhile_eq_Nil_iff)
  let ?L = "?Lr(q \<mapsto> 1, n \<mapsto> 1)" and ?m4 = "store32 m3 (r + 4) n"
  have rL: "?L r = Some 1" "r \<noteq> n" "r \<noteq> q" using n(3,4) by (auto split: if_splits)
  have f4: "same_outside (region r 4096) m3 ?m4"
    by (rule same_outside_mono [OF store32_frame node_words(2)])
  have live4: "heap_live kheap ?m4 ?L" by (rule write_page [OF n(5) rL(1) f4])
  have apart: "region a 4096 \<inter> region r 4096 = {}" if "?L a = Some 1" "a \<noteq> r" for a
    using kh.live_disjoint [OF live4 that(1) rL(1) that(2)] by (simp add: block_region_1)
  have keep4: "load32 ?m4 x = load32 m3 x" if "region x 4 \<subseteq> region n 4096" for x
    using apart [of n] rL(2) that by (intro load32_same_outside [OF f4]) auto
  have n4: "path_part_part ?m4 n = q" "path_part_next ?m4 n = 0" "cstr ?m4 q ?t" "cstr ?m4 path' ?rest"
  proof -
    show "path_part_part ?m4 n = q" "path_part_next ?m4 n = 0"
      using n(7,8) keep4 node_words [of n] by (simp_all add: path_part_part_def path_part_next_def)
    have "region q (Suc (length ?t)) \<subseteq> region q 4096" using t(1) by (intro region_mono) simp
    moreover have "region q 4096 \<inter> region r 4096 = {}" using rL(3) by (intro apart) auto
    ultimately show "cstr ?m4 q ?t" using t(1) by (intro cstr_frame [OF n(9) f4]) (blast, simp)
    have "path_bytes path' ?rest \<inter> region r 4096 = {}"
      using off_heap_live [OF off3 live4 rL(1)] n(12) unfolding block_region_1 by blast
    then show "cstr ?m4 path' ?rest" using n(13) len by (intro cstr_frame [OF n(11) f4]) simp_all
  qed
  have "\<exists>qs m'. parse_rest n path' ?m4 = Some m' \<and> heap_live kheap m' (grab ?L qs) \<and> distinct qs
    \<and> (\<forall>q \<in> set qs. ?L q = None) \<and> path_at m' (path_part_next m' n) (path_parts ?rest) qs
    \<and> same_outside (heap_scratch ?L \<union> next_word n) ?m4 m'"
  proof (rule parse_rest_spec [OF live4 _ n4(4) _ _ _ n(2) n4(2)])
    show "2 * length (path_parts ?rest) + 1 \<le> heap_avail kheap ?L" using av n(6) r(5) by (simp add: parts)
    show "off_heap (path_bytes path' ?rest)" using n(12) off3 by (auto simp: off_heap_def)
    show "length ?rest < 2 ^ 31" using n(13) len by simp
    show "\<forall>p \<in> set (path_parts ?rest). length p < 108" using small by (simp add: parts)
  qed simp
  then obtain qs m' where qs: "parse_rest n path' ?m4 = Some m'" "heap_live kheap m' (grab ?L qs)" "distinct qs"
      "\<forall>q \<in> set qs. ?L q = None" "path_at m' (path_part_next m' n) (path_parts ?rest) qs"
      "same_outside (heap_scratch ?L \<union> next_word n) ?m4 m'" by blast
  note link = path_at_Cons [OF live4 n(2,3,4) n4(1,3) t(1) qs(6,5)]
  have rf: "region r 4096 \<inter> (heap_scratch ?L \<union> next_word n) = {}" by (rule link(2)) simp
  have fst: "path_root_first m' r = n"
  proof -
    have "load32 m' (r + 4) = load32 ?m4 (r + 4)"
      using rf node_words(2) [of r] by (intro load32_same_outside [OF qs(6)]) blast
    then show ?thesis by (simp add: path_root_first_def off_simps)
  qed
  have drv: "path_root_drive_no m' r = uint d - 48"
  proof -
    have "load32 m' r = load32 ?m4 r"
      using rf node_words(1) [of r] by (intro load32_same_outside [OF qs(6)]) blast
    also have "\<dots> = load32 m3 r" by (simp add: off_simps)
    also have "\<dots> = load32 ?m2 r"
    proof (rule load32_same_outside [OF n(10)])
      have "region r 4096 \<inter> heap_scratch ?Lr = {}" by (rule page_scratch [OF live2]) simp
      then show "region r 4 \<inter> heap_scratch ?Lr = {}" using node_words(1) [of r] by blast
    qed
    also have "\<dots> = u32_of_int (uint d - 48)" by (simp add: off_simps)
    finally show ?thesis using dig(3,4) [OF md] by (simp add: path_root_drive_no_def int_of_u32_of_int c_int_id)
  qed
  have "same_outside (heap_scratch L) m m'"
  proof -
    have s1: "heap_scratch ?Lr \<subseteq> heap_scratch L" using r(3) by (rule heap_scratch_upd)
    have "heap_scratch (?Lr(q \<mapsto> 1)) \<subseteq> heap_scratch ?Lr" using n(3) by (rule heap_scratch_upd)
    moreover have "region n 4096 \<subseteq> heap_scratch (?Lr(q \<mapsto> 1))" by (rule new_page_scratch [OF n(5,4)])
    moreover have "heap_scratch ?L \<subseteq> heap_scratch (?Lr(q \<mapsto> 1))" using n(4) by (rule heap_scratch_upd)
    ultimately have "heap_scratch ?L \<union> next_word n \<subseteq> heap_scratch L"
      using s1 node_words(2) [of n] unfolding if_not_P [OF n(2)] by blast
    then have "same_outside (heap_scratch L) ?m4 m'" using qs(6) by (rule same_outside_mono [rotated])
    then show ?thesis
      using same_outside_trans1 [OF f02 same_outside_trans1 [OF same_outside_mono [OF n(10) s1]
        same_outside_trans1 [OF same_outside_mono [OF f4 r(6)]]]] by blast
  qed
  moreover have "pathparser_parse S kheap path cur m = Some (r, m')"
  proof -
    obtain part path'' m5 where "pathparser_parse_path_part kheap n path' ?m4 = Some (part, path'', m5)"
        "pathparser_parse_loop kheap part path'' m5 = Some m'"
      using qs(1) by (auto simp: parse_rest_def bind_eq_Some_conv)
    then show ?thesis
      using dig(3) [OF md] r(2) n(2)
      by (simp add: pathparser_parse_def drive [OF md] pathparser_create_root_def r(1) n(1) Let_def
          pathparser_parse_out_def)
  qed
  moreover have "path_at m' (path_root_first m' r) (path_parts s) (q # n # qs)"
    using link(1) by (simp add: fst parts)
  moreover have "heap_live kheap m' (grab L (r # q # n # qs))"
    using qs(2) unfolding grab_Cons .
  moreover have "distinct (r # q # n # qs)" "\<forall>p \<in> set (r # q # n # qs). L p = None"
    using qs(3,4) n(3,4) r(3) rL by (auto split: if_splits)
  ultimately show ?thesis using drv r(2) by blast
qed

section \<open>Freeing\<close>

lemma path_at_ConsE:
  assumes "path_at m p (s # ps) qs"
  obtains q qs' where "qs = q # p # qs'" "p \<noteq> 0" "path_part_part m p = q" "cstr m q s"
    "path_at m (path_part_next m p) ps qs'"
  using assms by (cases "(m, p, s # ps, qs)" rule: path_at.cases) auto

lemma path_at_NilD: "path_at m p [] qs \<Longrightarrow> p = 0 \<and> qs = []"
  by (cases qs) auto

lemma path_at_frame:
  assumes "same_outside A m m'"
  shows "path_at m p ps qs \<Longrightarrow> (\<And>q. q \<in> set qs \<Longrightarrow> region q 4096 \<inter> A = {})
    \<Longrightarrow> \<forall>s \<in> set ps. length s < 108 \<Longrightarrow> path_at m' p ps qs"
proof (induction ps arbitrary: p qs)
  case Nil
  then show ?case using path_at_NilD by fastforce
next
  case (Cons s ps)
  obtain q qs' where q: "qs = q # p # qs'" "p \<noteq> 0" "path_part_part m p = q" "cstr m q s"
      "path_at m (path_part_next m p) ps qs'"
    using Cons.prems(1) by (rule path_at_ConsE)
  have "region p 4096 \<inter> A = {}" "region q 4096 \<inter> A = {}" using Cons.prems(2) q(1) by auto
  then have d: "region p 4 \<inter> A = {}" "region (p + 4) 4 \<inter> A = {}" "region q (Suc (length s)) \<inter> A = {}"
    using node_words [of p] region_mono [of "Suc (length s)" 4096 q] Cons.prems(3) by auto
  have "path_part_part m' p = q" "path_part_next m' p = path_part_next m p"
    using q(3) load32_same_outside [OF assms] d by (simp_all add: path_part_part_def path_part_next_def)
  moreover have "cstr m' q s" using Cons.prems(3) by (intro cstr_frame [OF q(4) assms d(3)]) auto
  moreover have "path_at m' (path_part_next m p) ps qs'"
    using Cons.prems(2,3) q(1) by (intro Cons.IH [OF q(5)]) auto
  ultimately show ?case using q(1,2) by simp
qed

lemma free_loop_spec:
  assumes "path_at m p ps qs" "heap_live kheap m (grab L qs)" "distinct qs" "\<forall>q \<in> set qs. L q = None"
    "\<forall>s \<in> set ps. length s < 108"
  shows "\<exists>m'. pathparser_free_loop kheap p m = Some m' \<and> heap_live kheap m' L
    \<and> same_outside (table_region kheap) m m'"
  using assms
proof (induction ps arbitrary: p qs m)
  case Nil
  then have "p = 0" "qs = []" using path_at_NilD by blast+
  then show ?case using Nil.prems(2) by (subst pathparser_free_loop.simps) simp
next
  case (Cons s ps)
  obtain q qs' where q: "qs = q # p # qs'" "p \<noteq> 0" "path_part_part m p = q" "cstr m q s"
      "path_at m (path_part_next m p) ps qs'"
    using Cons.prems(1) by (rule path_at_ConsE)
  let ?m1 = "kfree kheap q m" let ?m2 = "kfree kheap p ?m1"
  have g: "grab L (q # p # qs') q = Some 1" "(grab L (q # p # qs'))(q := None) = grab L (p # qs')"
      "grab L (p # qs') p = Some 1" "(grab L (p # qs'))(p := None) = grab L qs'"
    using Cons.prems(3,4) q(1) by (auto intro: grab_drop)
  have k1: "heap_live kheap ?m1 (grab L (p # qs'))" "same_outside (table_region kheap) m ?m1"
    using kh.dealloc_ok [OF Cons.prems(2) [unfolded q(1)] g(1)] unfolding g(2) by blast+
  have k2: "heap_live kheap ?m2 (grab L qs')" "same_outside (table_region kheap) ?m1 ?m2"
    using kh.dealloc_ok [OF k1(1) g(3)] unfolding g(4) by blast+
  have f: "same_outside (table_region kheap) m ?m2" by (rule same_outside_trans1 [OF k1(2) k2(2)])
  have "path_at ?m2 (path_part_next m p) ps qs'"
  proof (rule path_at_frame [OF f q(5)])
    fix x assume "x \<in> set qs'"
    then show "region x 4096 \<inter> table_region kheap = {}"
      using kh.live_ok [OF k2(1), of x 1] by (simp add: block_region_1)
  qed (use Cons.prems(5) in simp)
  moreover have "distinct qs'" "\<forall>q \<in> set qs'. L q = None" "\<forall>s \<in> set ps. length s < 108"
    using Cons.prems(3-5) q(1) by simp_all
  ultimately obtain m' where m': "pathparser_free_loop kheap (path_part_next m p) ?m2 = Some m'"
      "heap_live kheap m' L" "same_outside (table_region kheap) ?m2 m'"
    using Cons.IH [OF _ k2(1)] by blast
  have "pathparser_free_loop kheap p m = Some m'"
    using m'(1) q(2,3) by (subst pathparser_free_loop.simps) simp
  then show ?case using m'(2) same_outside_trans1 [OF f m'(3)] by blast
qed

lemma free_path_spec:
  assumes "path_at m (path_root_first m root) ps qs" "heap_live kheap m (grab L (root # qs))"
    "distinct (root # qs)" "\<forall>q \<in> set (root # qs). L q = None" "\<forall>s \<in> set ps. length s < 108"
  shows "\<exists>m'. pathparser_free kheap root m = Some m' \<and> heap_live kheap m' L \<and> same_outside (table_region kheap) m m'"
proof -
  have "\<forall>q \<in> set qs. (L(root \<mapsto> 1)) q = None" using assms(3,4) by auto
  then obtain m1 where m1: "pathparser_free_loop kheap (path_root_first m root) m = Some m1"
      "heap_live kheap m1 (L(root \<mapsto> 1))" "same_outside (table_region kheap) m m1"
    using free_loop_spec [of m "path_root_first m root" ps qs "L(root \<mapsto> 1)"] assms unfolding grab_Cons by auto
  have "(L(root \<mapsto> 1))(root := None) = L" using assms(4) by auto
  then have "heap_live kheap (kfree kheap root m1) L" "same_outside (table_region kheap) m1 (kfree kheap root m1)"
    using kh.dealloc_ok [OF m1(2), of root 1] by simp_all
  then show ?thesis using m1(1) same_outside_trans1 [OF m1(3)] by (simp add: pathparser_free_def)
qed

section \<open>What the parser guarantees\<close>

text \<open>
  C19. A path that starts with a digit, two characters of any kind and at least one part, all
  parts shorter than 108 characters, is parsed into its drive number and exactly its list of
  parts, each in newly allocated pages; no other allocation and no byte outside the heap changes.
\<close>

theorem pathparser_parse_parts:
  assumes "heap_live kheap m L" and "2 * length (path_parts s) + 2 \<le> heap_avail kheap L"
    and "cstr m path (d # c1 # c2 # s)" and "48 \<le> d" "d \<le> 57"
    and "off_heap (region path (length s + 4))" and "length s < 2 ^ 31"
    and "path_parts s \<noteq> []" and "\<forall>p \<in> set (path_parts s). length p < 108"
  shows "\<exists>root qs m'. pathparser_parse S kheap path cur m = Some (root, m')
    \<and> path_root_drive_no m' root = uint d - 48 \<and> path_at m' (path_root_first m' root) (path_parts s) qs
    \<and> heap_live kheap m' (grab L (root # qs)) \<and> distinct (root # qs) \<and> (\<forall>q \<in> set (root # qs). L q = None)
    \<and> same_outside (heap_scratch L) m m'"
proof -
  have "Suc (length (d # c1 # c2 # s)) = length s + 4" by simp
  then have "off_heap (path_bytes path (d # c1 # c2 # s))" using assms(6) by (simp only:)
  then show ?thesis using parse_path_spec [OF assms(1-5) _ assms(7-9), of S cur] by blast
qed

text \<open>
  C28. Freeing a parsed path gives back every page parsing took: the live allocations are
  again those from before, and all of them keep their contents.
\<close>

theorem pathparser_parse_free_roundtrip:
  assumes "heap_live kheap m L" and "2 * length (path_parts s) + 2 \<le> heap_avail kheap L"
    and "cstr m path (d # c1 # c2 # s)" and "48 \<le> d" "d \<le> 57"
    and "off_heap (region path (length s + 4))" and "length s < 2 ^ 31"
    and "path_parts s \<noteq> []" and "\<forall>p \<in> set (path_parts s). length p < 108"
  shows "\<exists>m'. do { (root, m) \<leftarrow> pathparser_parse S kheap path cur m; pathparser_free kheap root m } = Some m'
    \<and> heap_live kheap m' L \<and> same_outside (heap_scratch L) m m'"
proof -
  have "Suc (length (d # c1 # c2 # s)) = length s + 4" by simp
  then have "off_heap (path_bytes path (d # c1 # c2 # s))" using assms(6) by (simp only:)
  then obtain root qs m1 where p: "pathparser_parse S kheap path cur m = Some (root, m1)"
      "path_at m1 (path_root_first m1 root) (path_parts s) qs" "heap_live kheap m1 (grab L (root # qs))"
      "distinct (root # qs)" "\<forall>q \<in> set (root # qs). L q = None" "same_outside (heap_scratch L) m m1"
    using parse_path_spec [OF assms(1-5) _ assms(7-9), of S cur] by blast
  obtain m' where f: "pathparser_free kheap root m1 = Some m'" "heap_live kheap m' L"
      "same_outside (table_region kheap) m1 m'"
    using free_path_spec [OF p(2-5) assms(9)] by blast
  have "same_outside (heap_scratch L) m1 m'" using f(3) by (rule same_outside_mono) (simp add: heap_scratch_def)
  then show ?thesis using p(1) f(1,2) same_outside_trans1 [OF p(6)] by auto
qed

text \<open>The path \<^verbatim>\<open>0:/a/b\<close> on the stack of the kernel.\<close>

definition demo_path :: mem where
  "demo_path = store_bytes (\<lambda>_. 0) 0x500000 [48, 58, 47, 97, 47, 98]"

lemma demo_path_cstr: "cstr demo_path 0x500000 [48, 58, 47, 97, 47, 98]"
  by (simp add: demo_path_def)

lemma demo_path_live: "heap_live kheap demo_path Map.empty"
proof (rule empty_heap_outside)
  have "length [48, 58, 47, 97, 47, 98 :: u8] = 6" by simp
  then show "same_outside (region 0x500000 6) (\<lambda>_. 0) demo_path"
    using store_bytes_frame [of "0x500000" "[48, 58, 47, 97, 47, 98]" "\<lambda>_. 0"] unfolding demo_path_def
    by (simp only:)
  show "region 0x500000 6 \<inter> table_region kheap = {}"
    using off_heapI [of "0x500000" 6] by (simp add: off_heap_def)
qed

lemma demo_parts: "path_parts [97, 47, 98] = [[97], [98]]"
  by (simp add: path_parts.simps)

theorem pathparser_parse_parts_witness:
  "\<exists>root qs m'. pathparser_parse (demo_sys of_nat) kheap 0x500000 0 demo_path = Some (root, m')
    \<and> path_at m' (path_root_first m' root) [[97], [98]] qs"
  using pathparser_parse_parts [OF demo_path_live _ demo_path_cstr, of "demo_sys of_nat" 0] off_heapI [of "0x500000" 7]
  by (auto simp: demo_parts kernel_empty(2))

theorem pathparser_parse_free_roundtrip_witness:
  "\<exists>m'. do { (root, m) \<leftarrow> pathparser_parse (demo_sys of_nat) kheap 0x500000 0 demo_path; pathparser_free kheap root m } = Some m'
    \<and> heap_live kheap m' Map.empty"
  using pathparser_parse_free_roundtrip [OF demo_path_live _ demo_path_cstr, of "demo_sys of_nat" 0] off_heapI [of "0x500000" 7]
  by (auto simp: demo_parts kernel_empty(2))

end
