(* ===== verification/TaskSpec.thy ===== *)
theory TaskSpec
  imports Task
begin

text \<open>
  What the scheduler guarantees: an interrupted task resumes with exactly the registers it
  was interrupted with, the next task is taken round robin, and removing a task keeps the
  forward chain of the list but not the backward links.
\<close>

section \<open>Saving and resuming\<close>

text \<open>
  The register file of the processor: \<open>interrupted\<close> is what the interrupt stub pushed,
  \<open>restored\<close> what \<^verbatim>\<open>task_return\<close> and \<^verbatim>\<open>restore_general_purpose_registers\<close> (\<^verbatim>\<open>task.asm\<close>) load
  from the registers they are given; the interrupt flag is always set.
\<close>

record cpu =
  reg_edi :: u32
  reg_esi :: u32
  reg_ebp :: u32
  reg_ebx :: u32
  reg_edx :: u32
  reg_ecx :: u32
  reg_eax :: u32
  reg_eip :: u32
  reg_cs :: u32
  reg_eflags :: u32
  reg_esp :: u32
  reg_ss :: u32

definition restored :: "mem \<Rightarrow> u32 \<Rightarrow> cpu" where
  "restored m r =
     \<lparr>reg_edi = load32 m r, reg_esi = load32 m (r + 4), reg_ebp = load32 m (r + 8), reg_ebx = load32 m (r + 12),
      reg_edx = load32 m (r + 16), reg_ecx = load32 m (r + 20), reg_eax = load32 m (r + 24),
      reg_eip = load32 m (r + 28), reg_cs = load32 m (r + 32), reg_eflags = load32 m (r + 36) OR 0x200,
      reg_esp = load32 m (r + 40), reg_ss = load32 m (r + 44)\<rparr>"

definition interrupted :: "mem \<Rightarrow> u32 \<Rightarrow> cpu" where
  "interrupted m f =
     \<lparr>reg_edi = load32 m f, reg_esi = load32 m (f + 4), reg_ebp = load32 m (f + 8), reg_ebx = load32 m (f + 16),
      reg_edx = load32 m (f + 20), reg_ecx = load32 m (f + 24), reg_eax = load32 m (f + 28),
      reg_eip = load32 m (f + 32), reg_cs = load32 m (f + 36), reg_eflags = load32 m (f + 40),
      reg_esp = load32 m (f + 44), reg_ss = load32 m (f + 48)\<rparr>"

lemma load_other:
  assumes "region a 64 \<inter> region b 52 = {}" "unat j + 4 \<le> 64" "unat k + 4 \<le> 52"
  shows "load32 (store32 m (a + j) v) (b + k) = load32 m (b + k)"
  using sub_region [OF assms(2), of a] sub_region [OF assms(3), of b] assms(1)
  by (intro load32_same_outside [OF store32_frame]) auto

lemma load_other_0:
  assumes "region a 64 \<inter> region b 52 = {}" "unat j + 4 \<le> 64"
  shows "load32 (store32 m (a + j) v) b = load32 m b"
  using load_other [OF assms, of 0] by simp

lemma save_frame:
  "4 \<le> unat j \<Longrightarrow> unat j + 4 \<le> 52 \<Longrightarrow> same_outside (region (p + 4) 48) m (store32 m (p + j) v)"
proof -
  assume a: "4 \<le> unat j" "unat j + 4 \<le> 52"
  have u: "unat (j - 4) = unat j - 4" using a by (subst unat_sub) (simp_all add: word_le_nat_alt)
  then have "region (p + 4 + (j - 4)) 4 \<subseteq> region (p + 4) 48" using a by (intro sub_region) simp_all
  then show ?thesis using same_outside_mono [OF store32_frame [of "p + j"]] by simp
qed

lemma save_state_frame: "same_outside (region (task + 4) 48) m (task_save_state task frame m)"
  unfolding task_save_state_def Let_def
  by (rule same_outside_trans1 [OF _ save_frame],
      rule same_outside_trans1 [OF _ save_frame], rule same_outside_trans1 [OF _ save_frame],
      rule same_outside_trans1 [OF _ save_frame], rule same_outside_trans1 [OF _ save_frame],
      rule same_outside_trans1 [OF _ save_frame], rule same_outside_trans1 [OF _ save_frame],
      rule same_outside_trans1 [OF _ save_frame], rule same_outside_trans1 [OF _ save_frame],
      rule same_outside_trans1 [OF _ save_frame], rule same_outside_trans1 [OF _ save_frame],
      rule save_frame) simp_all

lemma save_resume:
  assumes "region task 64 \<inter> region frame 52 = {}"
  shows "restored (task_save_state task frame m) (task_registers task) =
      (interrupted m frame)\<lparr>reg_eflags := reg_eflags (interrupted m frame) OR 0x200\<rparr>
    \<and> same_outside (region (task + 4) 48) m (task_save_state task frame m)"
proof
  note keep = load_other [OF assms] load_other_0 [OF assms]
  show "restored (task_save_state task frame m) (task_registers task) =
      (interrupted m frame)\<lparr>reg_eflags := reg_eflags (interrupted m frame) OR 0x200\<rparr>"
    by (simp add: restored_def interrupted_def task_save_state_def Let_def task_registers_def add.assoc
        off_simps keep)
  show "same_outside (region (task + 4) 48) m (task_save_state task frame m)" by (rule save_state_frame)
qed

text \<open>
  C26. An interrupt saves the registers of the task where \<^verbatim>\<open>task_return\<close> finds them: the task
  resumes with every register as it was interrupted, and interrupts enabled. Nothing else in
  memory changes.
\<close>

theorem task_save_resume:
  assumes "region task 64 \<inter> region frame 52 = {}"
  shows "restored (task_save_state task frame m) (task_registers task) =
      (interrupted m frame)\<lparr>reg_eflags := reg_eflags (interrupted m frame) OR 0x200\<rparr>
    \<and> same_outside (region (task + 4) 48) m (task_save_state task frame m)"
  using assms by (rule save_resume)

theorem task_save_resume_witness:
  "restored (task_save_state 0x1000000 0x5FFFCC (store32 (\<lambda>_. 0) 0x5FFFE8 7)) (task_registers 0x1000000)
    = (interrupted (store32 (\<lambda>_. 0) 0x5FFFE8 7) 0x5FFFCC)
        \<lparr>reg_eflags := reg_eflags (interrupted (store32 (\<lambda>_. 0) 0x5FFFE8 7) 0x5FFFCC) OR 0x200\<rparr>"
proof -
  have "region 0x1000000 64 \<inter> region 0x5FFFCC 52 = ({} :: u32 set)" by (auto simp: region_eq_range)
  then show ?thesis using task_save_resume by blast
qed

section \<open>The list of tasks\<close>

text \<open>
  \<open>linked m p ts e\<close>: the tasks \<open>ts\<close> follow each other in both directions, the first one's
  \<open>prev\<close> is \<open>p\<close> and the last one's \<open>next\<close> is \<open>e\<close>. \<open>chained\<close> is the forward half.
\<close>

definition first :: "u32 list \<Rightarrow> u32 \<Rightarrow> u32" where
  "first ts e = (case ts of [] \<Rightarrow> e | t # _ \<Rightarrow> t)"

lemma first_simps [simp]: "first [] e = e" "first (t # ts) e = t" "first (as @ bs) e = first as (first bs e)"
  by (simp_all add: first_def split: list.split)

lemma first_in: "ts \<noteq> [] \<Longrightarrow> first ts e \<in> set ts"
  by (cases ts) simp_all

fun chained :: "mem \<Rightarrow> u32 list \<Rightarrow> u32 \<Rightarrow> bool" where
  "chained m [] e = True"
| "chained m (t # ts) e = (task_next_field m t = first ts e \<and> chained m ts e)"

fun linked :: "mem \<Rightarrow> u32 \<Rightarrow> u32 list \<Rightarrow> u32 \<Rightarrow> bool" where
  "linked m p [] e = True"
| "linked m p (t # ts) e = (task_prev_field m t = p \<and> task_next_field m t = first ts e \<and> linked m t ts e)"

definition apart :: "u32 list \<Rightarrow> bool" where
  "apart ts \<longleftrightarrow> distinct ts \<and> 0 \<notin> set ts
     \<and> (\<forall>a\<in>set ts. \<forall>b\<in>set ts. a \<noteq> b \<longrightarrow> region a 64 \<inter> region b 64 = {})"

definition runnable :: "u32 list \<Rightarrow> 'a tasks_scheme \<Rightarrow> mem \<Rightarrow> bool" where
  "runnable ts K m \<longleftrightarrow> apart ts \<and> chained m ts 0 \<and> current_task K \<in> set ts \<and> task_head K = hd ts"

lemma linked_chained: "linked m p ts e \<Longrightarrow> chained m ts e"
  by (induction ts arbitrary: p) auto

lemma chained_append: "chained m (as @ bs) e \<longleftrightarrow> chained m as (first bs e) \<and> chained m bs e"
  by (induction as) auto

lemma linked_append: "linked m p (as @ bs) e \<longleftrightarrow> linked m p as (first bs e) \<and> linked m (last (p # as)) bs e"
  by (induction as arbitrary: p) auto

lemma chained_next: "chained m ts e \<Longrightarrow> i < length ts \<Longrightarrow>
  task_next_field m (ts ! i) = (if i + 1 < length ts then ts ! (i + 1) else e)"
proof (induction ts arbitrary: i)
  case (Cons t ts)
  then show ?case by (cases i; cases ts) auto
qed simp

lemma apart_nth: "apart ts \<Longrightarrow> i < length ts \<Longrightarrow> ts ! i \<noteq> 0"
  using nth_mem [of i ts] by (auto simp: apart_def simp del: nth_mem)

text \<open>The links lie behind the registers: saving a task's registers keeps every list.\<close>

lemma save_keeps_next:
  assumes "t = u \<or> region t 64 \<inter> region u 64 = {}"
  shows "task_next_field (task_save_state t frame m) u = task_next_field m u"
proof -
  note s = save_state_frame [of t m frame]
  have "region (u + 56) 4 \<inter> region (t + 4) 48 = {}"
  proof (cases "t = u")
    case True
    have e: "u + 56 = (u + 4) + of_nat 52" by simp
    have "region (u + 4) 48 \<subseteq> region (u + 4) 52" by (rule region_mono) simp
    then show ?thesis using region_split_disjoint [of 52 4 "u + 4"] True unfolding e by auto
  next
    case False
    have "region (u + 56) 4 \<subseteq> region u 64" "region (t + 4) 48 \<subseteq> region t 64"
      by (rule sub_region; simp)+
    then show ?thesis using assms False by auto
  qed
  then show ?thesis unfolding task_next_field_def by (rule load32_same_outside [OF s])
qed

lemma save_keeps_chained:
  assumes "apart ts" "t \<in> set ts" "chained m ts e"
  shows "chained (task_save_state t frame m) ts e"
proof -
  have "task_next_field (task_save_state t frame m) u = task_next_field m u" if "u \<in> set ts" for u
    using assms that by (intro save_keeps_next) (auto simp: apart_def)
  then have "chained (task_save_state t frame m) us e" if "chained m us e" "set us \<subseteq> set ts" for us
    using that by (induction us) auto
  then show ?thesis using assms(3) by simp
qed

section \<open>Round robin\<close>

text \<open>
  One tick of the timer, as \<^verbatim>\<open>interrupt_handler\<close> and \<^verbatim>\<open>idt_clock\<close> have it: the interrupted task's
  registers are saved from the frame, then the next task is loaded.
\<close>

definition tick :: "u32 \<Rightarrow> 'a tasks_scheme \<times> mem \<Rightarrow> ('a tasks_scheme \<times> mem) option" where
  "tick frame = (\<lambda>(K, m). do { m \<leftarrow> task_current_save_state frame K m; (K, _) \<leftarrow> task_next m K; Some (K, m) })"

primrec ticks :: "u32 list \<Rightarrow> 'a tasks_scheme \<times> mem \<Rightarrow> ('a tasks_scheme \<times> mem) option" where
  "ticks [] s = Some s"
| "ticks (f # fs) s = do { s \<leftarrow> tick f s; ticks fs s }"

lemma task_switch_simps [simp]:
  "current_task (task_switch t m K) = t" "task_head (task_switch t m K) = task_head K"
  "task_tail (task_switch t m K) = task_tail K"
  by (simp_all add: task_switch_def Let_def paging_switch_def paging_load_directory_def)

lemma runnable_next:
  assumes "runnable ts K m" "i < length ts" "current_task K = ts ! i"
  shows "task_get_next m K = ts ! ((i + 1) mod length ts)"
proof -
  have n: "task_next_field m (ts ! i) = (if i + 1 < length ts then ts ! (i + 1) else 0)"
    using assms by (intro chained_next) (auto simp: runnable_def)
  show ?thesis
  proof (cases "i + 1 < length ts")
    case True
    then have "ts ! (i + 1) \<noteq> 0" using assms(1) by (simp add: runnable_def apart_nth)
    then show ?thesis using n True assms(3) by (simp add: task_get_next_def)
  next
    case False
    then have "i + 1 = length ts" using assms(2) by simp
    then show ?thesis using n assms by (cases ts) (auto simp: task_get_next_def runnable_def)
  qed
qed

lemma tick_next:
  assumes "runnable ts K m" "i < length ts" "current_task K = ts ! i"
  shows "\<exists>K' m'. tick f (K, m) = Some (K', m') \<and> runnable ts K' m'
    \<and> current_task K' = ts ! ((i + 1) mod length ts)"
proof -
  let ?m = "task_save_state (ts ! i) f m" and ?u = "ts ! ((i + 1) mod length ts)"
  have j: "(i + 1) mod length ts < length ts" using assms(2) by (intro mod_less_divisor) linarith
  then have t: "ts ! i \<in> set ts" "?u \<in> set ts" using assms(2) by simp_all
  then have z: "ts ! i \<noteq> 0" "?u \<noteq> 0" using assms(1,2) j by (simp_all add: runnable_def apart_nth)
  have r: "runnable ts K ?m"
    using assms t save_keeps_chained [of ts "ts ! i" m 0 f] by (simp add: runnable_def)
  have "tick f (K, m) = Some (task_switch ?u ?m K, ?m)"
    using assms(3) z runnable_next [OF r assms(2,3)]
    by (simp add: tick_def task_current_save_state_def task_current_def task_next_def Let_def)
  moreover have "runnable ts (task_switch ?u ?m K) ?m" using r t by (simp add: runnable_def)
  ultimately show ?thesis by simp
qed

lemma ticks_round_robin:
  assumes "runnable ts K m" "i < length ts" "current_task K = ts ! i"
  shows "\<exists>K' m'. ticks fs (K, m) = Some (K', m') \<and> runnable ts K' m'
    \<and> current_task K' = ts ! ((i + length fs) mod length ts)"
  using assms
proof (induction fs arbitrary: K m i)
  case Nil
  then show ?case by simp
next
  case (Cons f fs)
  obtain K' m' where t: "tick f (K, m) = Some (K', m')" "runnable ts K' m'"
      "current_task K' = ts ! ((i + 1) mod length ts)"
    using tick_next [OF Cons.prems] by blast
  have "(i + 1) mod length ts < length ts" using Cons.prems(2) by (intro mod_less_divisor) linarith
  from Cons.IH [OF t(2) this t(3)] t(1) show ?case
    by (simp add: mod_simps algebra_simps)
qed


section \<open>Removing a task\<close>

lemma field_other:
  assumes "t \<noteq> a \<longrightarrow> region t 64 \<inter> region a 64 = {}"
  shows "t \<noteq> a \<Longrightarrow> task_next_field (store32 m (a + 56) v) t = task_next_field m t"
    and "task_prev_field (store32 m (a + 56) v) t = task_prev_field m t"
proof -
  have other: "region (t + j) 4 \<inter> region (a + 56) 4 = {}" if "t \<noteq> a" "unat j + 4 \<le> 64" for j
    using sub_region [OF that(2), of t] sub_region [of 56 4 64 a] assms that(1) by auto
  show "task_next_field (store32 m (a + 56) v) t = task_next_field m t" if "t \<noteq> a"
    unfolding task_next_field_def using that other by (intro load32_same_outside [OF store32_frame]) simp
  show "task_prev_field (store32 m (a + 56) v) t = task_prev_field m t"
  proof (cases "t = a")
    case True
    then show ?thesis by (simp add: task_prev_field_def off_simps)
  next
    case False
    then show ?thesis
      unfolding task_prev_field_def using other by (intro load32_same_outside [OF store32_frame]) simp
  qed
qed

lemma next_same [simp]: "task_next_field (store32 m (a + 56) v) a = v"
  by (simp add: task_next_field_def off_simps)

lemma chained_other:
  "apart (a # ts) \<Longrightarrow> chained (store32 m (a + 56) v) ts e = chained m ts e"
proof (induction ts)
  case (Cons t ts)
  have "apart (a # ts)" "t \<noteq> a" "region t 64 \<inter> region a 64 = {}" using Cons.prems by (auto simp: apart_def)
  then show ?case using Cons.IH field_other(1) [of t a m v] by simp
qed simp

lemma linked_other:
  "apart (a # ts) \<Longrightarrow> linked (store32 m (a + 56) v) p ts e = linked m p ts e"
proof (induction ts arbitrary: p)
  case (Cons t ts)
  have "apart (a # ts)" "t \<noteq> a" "region t 64 \<inter> region a 64 = {}" using Cons.prems by (auto simp: apart_def)
  then show ?case using Cons.IH field_other [of t a m v] by simp
qed simp

definition task_list :: "u32 list \<Rightarrow> 'a tasks_scheme \<Rightarrow> mem \<Rightarrow> bool" where
  "task_list ts K m \<longleftrightarrow> apart ts \<and> linked m 0 ts 0 \<and> task_head K = first ts 0
     \<and> task_tail K = last (0 # ts)"

lemma apart_sub: "apart ts \<Longrightarrow> set us \<subseteq> set ts \<Longrightarrow> distinct us \<Longrightarrow> apart us"
  by (auto simp: apart_def)

text \<open>Bridging over a task in the middle.\<close>

lemma bridge:
  assumes "apart (xs @ a # t # bs)" "linked m 0 (xs @ a # t # bs) 0"
  shows "chained (store32 m (a + 56) (first bs 0)) (xs @ a # bs) 0"
    and "linked (store32 m (a + 56) (first bs 0)) t bs 0"
proof -
  have l: "linked m 0 xs a" "linked m t bs 0" using assms(2) by (simp_all add: linked_append)
  have ap: "apart (a # xs)" "apart (a # bs)"
    by (rule apart_sub [OF assms(1)]; use assms(1) in \<open>auto simp: apart_def\<close>)+
  show "linked (store32 m (a + 56) (first bs 0)) t bs 0" using l(2) ap(2) by (simp add: linked_other)
  show "chained (store32 m (a + 56) (first bs 0)) (xs @ a # bs) 0"
    using linked_chained [OF l(1)] linked_chained [OF l(2)] ap by (simp add: chained_append chained_other)
qed

lemma remove_fields:
  assumes n: "task_next_field m' t = nx" "task_next_field m t = nx"
    and p: "task_prev_field m' t = pv" "task_prev_field m t = pv"
    and m': "m' = (if pv \<noteq> 0 then store32 m (pv + 56) nx else m)"
  shows "task_list_remove t K m =
    (K\<lparr>task_head := if t = task_head K then nx else task_head K,
       task_tail := if t = task_tail K then pv else task_tail K,
       current_task := if t = current_task K
         then if nx = 0 then if t = task_head K then nx else task_head K else nx else current_task K\<rparr>, m')"
  using assms(1-4) unfolding task_list_remove_def Let_def p(2) n(2) m' [symmetric]
  by (auto simp: task_get_next_def)

lemma list_remove_eq:
  assumes l: "task_list (as @ t # bs) K m" and rem: "task_list_remove t K m = (K', m')"
  shows "m' = (if as = [] then m else store32 m (last as + 56) (first bs 0))
    \<and> chained m' (as @ bs) 0 \<and> linked m' t bs 0
    \<and> task_head K' = first (as @ bs) 0 \<and> task_tail K' = last (0 # as @ bs)
    \<and> current_task K' = (if current_task K = t then first bs (first as 0) else current_task K)"
proof -
  have ap: "apart (as @ t # bs)" and lk: "linked m 0 (as @ t # bs) 0"
    and hd: "task_head K = first as t" and tl: "task_tail K = last (t # bs)"
    using l by (auto simp: task_list_def)
  have f: "task_next_field m t = first bs 0" "task_prev_field m t = last (0 # as)" "linked m t bs 0"
    using lk by (simp_all add: linked_append)
  have t: "t \<noteq> 0" "t \<notin> set as" "t \<notin> set bs" "0 \<notin> set as" "0 \<notin> set bs" using ap by (auto simp: apart_def)
  have fb: "first bs 0 = 0 \<longleftrightarrow> bs = []" using t(5) by (cases bs) auto
  have la: "last (0 # as) = 0 \<longleftrightarrow> as = []" using t(4) by (metis last.simps last_in_set)
  have ft: "t = first as t \<longleftrightarrow> as = []" using t(2) by (cases as) auto
  have lt: "t = last (t # bs) \<longleftrightarrow> bs = []" using t(3) last_in_set [of bs] by auto
  have lt': "t \<noteq> last (0 # as)" using t(1,2) last_in_set [of as] by auto
  let ?m = "if last (0 # as) \<noteq> 0 then store32 m (last (0 # as) + 56) (first bs 0) else m"
  have pn: "task_next_field ?m t = first bs 0" "task_prev_field ?m t = last (0 # as)"
    and lists: "chained ?m (as @ bs) 0" "linked ?m t bs 0"
  proof -
    show "task_next_field ?m t = first bs 0" "task_prev_field ?m t = last (0 # as)"
      using field_other [of t "last (0 # as)" m "first bs 0"] f ap t la lt' by (auto simp: apart_def)
    show "chained ?m (as @ bs) 0" "linked ?m t bs 0"
    proof (atomize (full), cases as rule: rev_cases)
      case Nil
      then show "chained ?m (as @ bs) 0 \<and> linked ?m t bs 0" using f(3) linked_chained by simp
    next
      case (snoc xs a)
      then have "apart (xs @ a # t # bs)" "linked m 0 (xs @ a # t # bs) 0" "a \<noteq> 0"
        using ap lk t(4) by simp_all
      then show "chained ?m (as @ bs) 0 \<and> linked ?m t bs 0"
        using bridge [of xs a t bs m] snoc by simp
    qed
  qed
  have K': "K' = K\<lparr>task_head := if as = [] then first bs 0 else first as t,
       task_tail := if bs = [] then last (0 # as) else last (t # bs),
       current_task := if t = current_task K
         then if bs = [] then if as = [] then first bs 0 else first as t else first bs 0 else current_task K\<rparr>"
    and m': "m' = ?m"
    using remove_fields [OF pn(1) f(1) pn(2) f(2) refl, of K] rem unfolding hd tl
    by (simp_all only: ft lt fb prod.inject)
  have "first as t = first as 0" "first as (first bs 0) = first as 0" if "as \<noteq> []"
    using that by (cases as; simp)+
  moreover have "first bs (first as 0) = first bs 0" if "bs \<noteq> []" using that by (cases bs) simp_all
  ultimately show ?thesis using lists la lt' unfolding K' m' by (cases "bs = []"; cases "as = []"; simp)
qed

text \<open>
  C32. Removing a task unlinks it: following \<^verbatim>\<open>next\<close> from the head visits exactly the other tasks
  in their order, head and tail are the first and last of them, and if the removed task was
  running its successor (or the head, or null for the last task) becomes current.
\<close>

theorem task_list_remove_unlinks:
  assumes "task_list (as @ t # bs) K m"
  shows "\<exists>K' m'. task_list_remove t K m = (K', m') \<and> chained m' (as @ bs) 0
    \<and> task_head K' = first (as @ bs) 0 \<and> task_tail K' = last (0 # as @ bs)
    \<and> current_task K' = (if current_task K = t then first bs (first as 0) else current_task K)"
  using list_remove_eq [OF assms] by (cases "task_list_remove t K m") simp

text \<open>Three tasks in a row, for the witnesses.\<close>

definition demo_tasks :: mem where
  "demo_tasks = store32 (store32 (store32 (store32 (\<lambda>_. 0) 0x1000038 0x1001000) 0x1001038 0x1002000)
     0x100103C 0x1000000) 0x100203C 0x1001000"

definition demo_list :: tasks where
  "demo_list = \<lparr>cr3 = 0, current_directory = 0, current_task = 0x1001000, task_tail = 0x1002000,
     task_head = 0x1000000, kernel_chunk = 0, data_segment = 0\<rparr>"

lemma demo_task_list: "task_list [0x1000000, 0x1001000, 0x1002000] demo_list demo_tasks"
proof -
  have "apart [0x1000000, 0x1001000, 0x1002000]" by (auto simp: apart_def region_eq_range)
  then show ?thesis
    by (simp add: task_list_def demo_list_def demo_tasks_def task_next_field_def task_prev_field_def off_simps)
qed

theorem task_list_remove_unlinks_witness:
  "\<exists>K' m'. task_list_remove 0x1001000 demo_list demo_tasks = (K', m') \<and> chained m' [0x1000000, 0x1002000] 0
    \<and> current_task K' = 0x1002000"
  using task_list_remove_unlinks [of "[0x1000000]" "0x1001000" "[0x1002000]" demo_list demo_tasks]
    demo_task_list by (auto simp: demo_list_def)

text \<open>
  The successor's \<open>prev\<close> is not updated: when the task behind a removed one is removed too,
  the task in front of both still points to it, so the list keeps a task that is gone.
\<close>

theorem task_list_remove_keeps_stale:
  assumes "task_list (as @ a # t # u # bs) K m"
  shows "case task_list_remove t K m of (K1, m1) \<Rightarrow> case task_list_remove u K1 m1 of (K2, m2) \<Rightarrow>
    task_prev_field m1 u = t \<and> task_next_field m2 a = u"
proof -
  obtain K1 m1 K2 m2 where r: "task_list_remove t K m = (K1, m1)" "task_list_remove u K1 m1 = (K2, m2)"
    by (metis surj_pair)
  have l: "task_list ((as @ [a]) @ t # u # bs) K m" using assms by simp
  have ap: "apart (as @ a # t # u # bs)" using assms by (simp add: task_list_def)
  then have ne: "t \<noteq> 0" "t \<noteq> a" "region a 64 \<inter> region t 64 = {}" by (auto simp: apart_def)
  note e = list_remove_eq [OF l r(1)]
  have p: "task_prev_field m1 u = t" and n: "task_next_field m1 a = u"
    using conjunct1 [OF conjunct2 [OF e]] conjunct1 [OF conjunct2 [OF conjunct2 [OF e]]]
    by (simp_all add: chained_append)
  have "m2 = store32 m1 (t + 56) (task_next_field m1 u)"
    using r(2) p ne(1) by (auto simp: task_list_remove_def Let_def)
  then have "task_next_field m2 a = u" using n ne field_other(1) [of a t m1] by simp
  then show ?thesis using r p by simp
qed

theorem task_list_remove_keeps_stale_witness:
  "case task_list_remove 0x1001000 demo_list demo_tasks of (K1, m1) \<Rightarrow>
    case task_list_remove 0x1002000 K1 m1 of (K2, m2) \<Rightarrow> task_next_field m2 0x1000000 = 0x1002000"
  using task_list_remove_keeps_stale [of "[]" "0x1000000" "0x1001000" "0x1002000" "[]" demo_list demo_tasks]
    demo_task_list by (simp add: split_beta)


end
