(* ===== verification/FileSpec.thy ===== *)
theory FileSpec
  imports File HeapClient
begin

text \<open>
  The file descriptor table: in every reachable state each open descriptor is a live heap page
  that holds its own number, opening takes the first free slot, and closing releases exactly
  that descriptor. The last slot can be given out but not used.
\<close>

section \<open>The table\<close>

definition descriptor :: "sys \<Rightarrow> mem \<Rightarrow> nat \<Rightarrow> u32" where
  "descriptor S m i = load32 m (file_descriptors_slot S (int i))"

definition descriptors_apart :: "sys \<Rightarrow> bool" where
  "descriptors_apart S \<longleftrightarrow> off_heap (region (file_descriptors_addr S) 2048)"

definition descriptors_ok :: "sys \<Rightarrow> (u32 \<rightharpoonup> nat) \<Rightarrow> mem \<Rightarrow> bool" where
  "descriptors_ok S L m \<longleftrightarrow> heap_live kheap m L \<and>
     (\<forall>i < 512. descriptor S m i \<noteq> 0 \<longrightarrow>
        L (descriptor S m i) = Some 1 \<and> load32 m (descriptor S m i) = of_nat (i + 1))"

lemma slot_nat: "file_descriptors_slot S (int i) = file_descriptors_addr S + of_nat (4 * i)"
  using u32_of_int_of_nat [of "4 * i"] by (simp add: file_descriptors_slot_def)

lemma slot_region: "i < 512 \<Longrightarrow>
  region (file_descriptors_slot S (int i)) 4 \<subseteq> region (file_descriptors_addr S) 2048"
proof
  fix a assume i: "i < 512" and "a \<in> region (file_descriptors_slot S (int i)) 4"
  then obtain k where "k < 4" "a = file_descriptors_addr S + of_nat (4 * i) + of_nat k"
    unfolding slot_nat by (elim region_offsetE)
  then show "a \<in> region (file_descriptors_addr S) 2048"
    using i in_region_offset [of "4 * i + k" 2048 "file_descriptors_addr S"] by (simp add: add.assoc)
qed

lemma slot_off_heap: "descriptors_apart S \<Longrightarrow> i < 512 \<Longrightarrow> off_heap (region (file_descriptors_slot S (int i)) 4)"
  using slot_region [of i S] by (auto simp: descriptors_apart_def off_heap_def)

lemma slot_other:
  assumes "i < 512" "j < 512" "i \<noteq> j"
  shows "descriptor S (store32 m (file_descriptors_slot S (int i)) v) j = descriptor S m j"
  unfolding descriptor_def slot_nat
  by (rule load32_store32_nat) (use assms in auto)

lemma slot_same: "descriptor S (store32 m (file_descriptors_slot S (int i)) v) i = v"
  by (simp add: descriptor_def off_simps)

text \<open>What an allocation or the write to a page just allocated leaves alone.\<close>

lemma descriptors_frame:
  assumes "descriptors_ok S L m" "descriptors_apart S" "same_outside (heap_scratch L) m m'" "i < 512"
  shows "descriptor S m' i = descriptor S m i"
    and "descriptor S m i \<noteq> 0 \<Longrightarrow> load32 m' (descriptor S m i) = load32 m (descriptor S m i)"
proof -
  show "descriptor S m' i = descriptor S m i"
    unfolding descriptor_def
    by (rule load32_same_outside [OF assms(3)]) (rule off_heap_scratch [OF slot_off_heap [OF assms(2,4)]])
  assume nz: "descriptor S m i \<noteq> 0"
  then have "region (descriptor S m i) 4096 \<inter> heap_scratch L = {}"
    using assms(1,4) by (intro page_scratch [of m]) (auto simp: descriptors_ok_def)
  then have "region (descriptor S m i) 4 \<inter> heap_scratch L = {}"
    using region_mono [of 4 4096 "descriptor S m i"] by auto
  then show "load32 m' (descriptor S m i) = load32 m (descriptor S m i)"
    by (rule load32_same_outside [OF assms(3)])
qed

section \<open>Opening\<close>

lemma new_descriptor_full:
  assumes "\<And>k. i \<le> k \<Longrightarrow> k < 512 \<Longrightarrow> descriptor S m k \<noteq> 0"
  shows "new_file_descriptor_loop S h (int i) d m = (- ENOMEM, d, m)"
  using assms
proof (induction "512 - i" arbitrary: i)
  case 0
  then show ?case by (subst new_file_descriptor_loop.simps) (simp add: SIMPOS_MAX_FILE_DESCRIPTORS_def)
next
  case (Suc n)
  have "load32 m (file_descriptors_slot S (int i)) \<noteq> 0"
    using Suc.prems [of i] Suc.hyps(2) by (simp add: descriptor_def)
  then show ?case using Suc.hyps(1) [of "i + 1"] Suc.hyps(2) Suc.prems
    by (subst new_file_descriptor_loop.simps) (simp add: SIMPOS_MAX_FILE_DESCRIPTORS_def add.commute)
qed

lemma new_descriptor_free:
  assumes "i \<le> j" "j < 512" "descriptor S m j = 0" "\<And>k. i \<le> k \<Longrightarrow> k < j \<Longrightarrow> descriptor S m k \<noteq> 0"
    and "kzalloc h 16 m = (desc, m1)"
  shows "new_file_descriptor_loop S h (int i) d m =
    (0, desc, store32 (store32 m1 desc (of_nat (j + 1))) (file_descriptors_slot S (int j)) desc)"
  using assms
proof (induction "j - i" arbitrary: i)
  case 0
  then have "i = j" by simp
  moreover have "u32_of_int (int j + 1) = of_nat (j + 1)" using u32_of_int_of_nat [of "j + 1"] by (simp add: add.commute)
  ultimately show ?case using 0
    by (subst new_file_descriptor_loop.simps) (simp add: SIMPOS_MAX_FILE_DESCRIPTORS_def descriptor_def)
next
  case (Suc n)
  then have ij: "i < j" by simp
  have "load32 m (file_descriptors_slot S (int i)) \<noteq> 0"
    using Suc.prems(4) [of i] ij by (simp add: descriptor_def)
  then show ?case using Suc.hyps(1) [of "i + 1"] Suc.hyps(2) Suc.prems ij
    by (subst new_file_descriptor_loop.simps) (simp add: SIMPOS_MAX_FILE_DESCRIPTORS_def add.commute)
qed

lemma first_freeE:
  assumes "\<exists>k < 512. descriptor S m k = 0"
  obtains j where "j < 512" "descriptor S m j = 0" "\<And>k. k < j \<Longrightarrow> descriptor S m k \<noteq> 0"
proof -
  define j where "j = (LEAST k. k < 512 \<and> descriptor S m k = 0)"
  have j: "j < 512 \<and> descriptor S m j = 0" unfolding j_def using assms by (rule LeastI_ex)
  have "descriptor S m k \<noteq> 0" if "k < j" for k
    using not_less_Least [of k "\<lambda>k. k < 512 \<and> descriptor S m k = 0"] that j unfolding j_def [symmetric] by simp
  then show thesis using that j by blast
qed

lemma new_descriptor_ok:
  assumes ok: "descriptors_ok S L m" and ap: "descriptors_apart S" and av: "0 < heap_avail kheap L"
    and j: "j < 512" "descriptor S m j = 0" "\<And>k. k < j \<Longrightarrow> descriptor S m k \<noteq> 0"
  obtains desc m' where "new_file_descriptor S kheap d m = (0, desc, m')" "desc \<noteq> 0" "L desc = None"
    "descriptors_ok S (L(desc \<mapsto> 1)) m'"
    "\<And>k. k < 512 \<Longrightarrow> descriptor S m' k = (if k = j then desc else descriptor S m k)"
    "load32 m' desc = of_nat (j + 1)" "same_outside (heap_scratch L \<union> region (file_descriptors_slot S (int j)) 4) m m'"
proof -
  have live: "heap_live kheap m L" using ok by (simp add: descriptors_ok_def)
  obtain desc m1 where z: "kzalloc kheap 16 m = (desc, m1)" "desc \<noteq> 0" "L desc = None"
      "heap_live kheap m1 (L(desc \<mapsto> 1))" "region desc 4096 \<subseteq> heap_scratch L" "same_outside (heap_scratch L) m m1"
    by (rule kzalloc_page [OF live, of 16]) (use av in auto)
  let ?m2 = "store32 m1 desc (of_nat (j + 1))"
  let ?m3 = "store32 ?m2 (file_descriptors_slot S (int j)) desc"
  note so = slot_off_heap [OF ap j(1)]
  have w: "same_outside (region desc 4096) m1 ?m2" using page_word [of 0 desc m1] by simp
  have l2: "heap_live kheap ?m2 (L(desc \<mapsto> 1))" by (rule write_page [OF z(4) _ w]) simp
  have l3: "heap_live kheap ?m3 (L(desc \<mapsto> 1))"
    by (rule kh.rel_frame [OF l2 store32_frame]) (use so in \<open>simp add: off_heap_def\<close>)
  have s2: "same_outside (heap_scratch L) m ?m2"
    by (rule same_outside_trans1 [OF z(6)]) (rule same_outside_mono [OF w z(5)])
  have dk: "descriptor S ?m3 k = (if k = j then desc else descriptor S m k)" if "k < 512" for k
    using slot_other [OF j(1) that] slot_same [of S ?m2 j desc] descriptors_frame(1) [OF ok ap s2 that] by auto
  have keep: "load32 ?m3 q = load32 ?m2 q" if "(L(desc \<mapsto> 1)) q = Some 1" for q
  proof (rule load32_same_outside [OF store32_frame])
    have "region (file_descriptors_slot S (int j)) 4 \<inter> region q 4096 = {}"
      using off_heap_live [OF so l2 that] by (simp only: block_region_1)
    then show "region q 4 \<inter> region (file_descriptors_slot S (int j)) 4 = {}"
      using region_mono [of 4 4096 q] by auto
  qed
  have ix: "load32 ?m3 desc = of_nat (j + 1)" using keep [of desc] by (simp add: off_simps del: of_nat_Suc of_nat_add)
  have "descriptors_ok S (L(desc \<mapsto> 1)) ?m3"
    unfolding descriptors_ok_def
  proof (intro conjI allI impI l3)
    fix k assume k: "k < 512" and nz: "descriptor S ?m3 k \<noteq> 0"
    have o: "L (descriptor S m k) = Some 1" "load32 m (descriptor S m k) = of_nat (k + 1)" if "k \<noteq> j"
      using ok k nz that dk [OF k] by (auto simp: descriptors_ok_def)
    show "(L(desc \<mapsto> 1)) (descriptor S ?m3 k) = Some 1" using o dk [OF k] by simp
    show "load32 ?m3 (descriptor S ?m3 k) = of_nat (k + 1)"
    proof (cases "k = j")
      case True
      then show ?thesis using ix dk [OF k] by simp
    next
      case False
      have "load32 ?m3 (descriptor S m k) = load32 ?m2 (descriptor S m k)" using o False by (intro keep) simp
      then show ?thesis
        using descriptors_frame(2) [OF ok ap s2 k] nz o False dk [OF k] by simp
    qed
  qed
  moreover have "new_file_descriptor S kheap d m = (0, desc, ?m3)"
    using new_descriptor_free [OF _ j(1,2) _ z(1), of 0] j(3) by (simp add: new_file_descriptor_def)
  moreover have "same_outside (heap_scratch L \<union> region (file_descriptors_slot S (int j)) 4) m ?m3"
    by (rule same_outside_trans1 [OF same_outside_mono [OF s2 Un_upper1] same_outside_mono [OF store32_frame Un_upper2]])
  ultimately show thesis using that z(2,3) dk ix by blast
qed

section \<open>Closing\<close>

lemma fd_index_slot: "i < 512 \<Longrightarrow> load32 m d = of_nat (i + 1) \<Longrightarrow> fd_index m d = int i + 1"
proof -
  assume a: "i < 512" "load32 m d = of_nat (i + 1)"
  have "unat (of_nat (i + 1) :: u32) = i + 1" using a(1) by (intro unat_of_nat_u32) simp
  then show ?thesis
    unfolding fd_index_def a(2) using a(1)
    by (subst int_of_u32_small) (simp_all del: of_nat_unat of_nat_Suc of_nat_add)
qed

lemma page_slot:
  assumes "heap_live kheap m L" "descriptors_apart S" "L q = Some 1" "j < 512"
  shows "region q 4 \<inter> region (file_descriptors_slot S (int j)) 4 = {}"
proof -
  have "region (file_descriptors_slot S (int j)) 4 \<inter> region q 4096 = {}"
    using off_heap_live [OF slot_off_heap [OF assms(2,4)] assms(1,3)] by (simp only: block_region_1)
  then show ?thesis using region_mono [of 4 4096 q] by auto
qed

lemma get_descriptor: "0 < fd \<Longrightarrow> fd < 512 \<Longrightarrow> file_get_descriptor S (int fd) m = descriptor S m (fd - 1)"
  by (auto simp: file_get_descriptor_def SIMPOS_MAX_FILE_DESCRIPTORS_def descriptor_def of_nat_diff Let_def)

lemma get_descriptorE:
  assumes "file_get_descriptor S fd m \<noteq> 0"
  obtains i where "i < 511" "fd = int i + 1" "file_get_descriptor S fd m = descriptor S m i"
proof
  have b: "0 < fd" "fd < 512"
    using assms by (auto simp: file_get_descriptor_def SIMPOS_MAX_FILE_DESCRIPTORS_def split: if_splits)
  then show "nat (fd - 1) < 511" "fd = int (nat (fd - 1)) + 1" by simp_all
  show "file_get_descriptor S fd m = descriptor S m (nat (fd - 1))"
    using b by (simp add: file_get_descriptor_def SIMPOS_MAX_FILE_DESCRIPTORS_def descriptor_def Let_def)
qed

lemma descriptor_inj: "descriptors_ok S L m \<Longrightarrow> i < 512 \<Longrightarrow> k < 512 \<Longrightarrow> descriptor S m i \<noteq> 0 \<Longrightarrow>
  descriptor S m k = descriptor S m i \<Longrightarrow> k = i"
proof -
  assume a: "descriptors_ok S L m" "i < 512" "k < 512" "descriptor S m i \<noteq> 0" "descriptor S m k = descriptor S m i"
  then have "(of_nat (k + 1) :: u32) = of_nat (i + 1)" unfolding descriptors_ok_def by metis
  then have "k + 1 = i + 1" by (rule of_nat_u32_inj) (use a in simp_all)
  then show "k = i" by simp
qed

lemma free_descriptor_ok:
  assumes ok: "descriptors_ok S L m" and ap: "descriptors_apart S" and i: "i < 512"
    and d: "descriptor S m i = d" "d \<noteq> 0" and m': "file_free_descriptor S kheap d m = m'"
  shows "descriptors_ok S (L(d := None)) m'"
    and "k < 512 \<Longrightarrow> descriptor S m' k = (if k = i then 0 else descriptor S m k)"
proof -
  have live: "heap_live kheap m L" and Ld: "L d = Some 1" and ix: "load32 m d = of_nat (i + 1)"
    using ok i d by (auto simp: descriptors_ok_def)
  have fi: "fd_index m d = int i + 1" using i ix by (rule fd_index_slot)
  let ?m1 = "store32 m (file_descriptors_slot S (int i)) 0"
  have m': "m' = kfree kheap d ?m1" using m' fi by (simp add: file_free_descriptor_def Let_def)
  have l1: "heap_live kheap ?m1 L"
    by (rule kh.rel_frame [OF live store32_frame]) (use slot_off_heap [OF ap i] in \<open>simp add: off_heap_def\<close>)
  note f = kfree_live_page [OF l1 Ld]
  have dk: "descriptor S m' k = (if k = i then 0 else descriptor S m k)" if k: "k < 512" for k
  proof -
    have "descriptor S m' k = descriptor S ?m1 k"
      unfolding descriptor_def m'
      by (rule load32_same_outside [OF f(2)]) (rule off_heap_scratch [OF slot_off_heap [OF ap k]])
    then show ?thesis using slot_same [of S m i 0] slot_other [OF i k] by auto
  qed
  show "k < 512 \<Longrightarrow> descriptor S m' k = (if k = i then 0 else descriptor S m k)" by (rule dk)
  show "descriptors_ok S (L(d := None)) m'"
    unfolding descriptors_ok_def
  proof (intro conjI allI impI)
    show "heap_live kheap m' (L(d := None))" using f(1) m' by simp
    fix k assume k: "k < 512" and nz: "descriptor S m' k \<noteq> 0"
    then have ki: "k \<noteq> i" "descriptor S m' k = descriptor S m k" "descriptor S m k \<noteq> 0"
      using dk [OF k] by (auto split: if_splits)
    have o: "L (descriptor S m k) = Some 1" "load32 m (descriptor S m k) = of_nat (k + 1)"
      using ok k ki(3) by (auto simp: descriptors_ok_def)
    have "descriptor S m k \<noteq> d" using descriptor_inj [OF ok i k] d ki(1) by auto
    then show "(L(d := None)) (descriptor S m' k) = Some 1" using o(1) ki(2) by simp
    have "region (descriptor S m k) 4 \<inter> heap_scratch L = {}"
      using page_scratch [OF live o(1)] region_mono [of 4 4096 "descriptor S m k"] by auto
    then have "load32 m' (descriptor S m k) = load32 ?m1 (descriptor S m k)"
      unfolding m' by (rule load32_same_outside [OF f(2)])
    then show "load32 m' (descriptor S m' k) = of_nat (k + 1)"
      using load32_same_outside [OF store32_frame page_slot [OF live ap o(1) i]] o(2) ki(2) by simp
  qed
qed

section \<open>Reachable states\<close>

text \<open>
  Where the linker puts the globals of the file layer: outside the heap, and not over each
  other.
\<close>

definition file_layout :: "sys \<Rightarrow> bool" where
  "file_layout S \<longleftrightarrow> descriptors_apart S \<and> off_heap (region (filesystems_addr S) 48)
     \<and> off_heap (region (fat16_fs_addr S + 24) 6)
     \<and> region (file_descriptors_addr S) 2048 \<inter> region (filesystems_addr S) 48 = {}
     \<and> region (file_descriptors_addr S) 2048 \<inter> region (fat16_fs_addr S + 24) 6 = {}"

lemma fs_free_slot: "fs_free_loop S i m = s \<Longrightarrow> s \<noteq> 0 \<Longrightarrow> 0 \<le> i \<Longrightarrow>
  \<exists>k. 0 \<le> k \<and> k < 12 \<and> s = filesystems_slot S k"
proof (induction "nat (12 - i)" arbitrary: i)
  case 0
  then show ?case by (subst (asm) fs_free_loop.simps) (auto simp: SIMPOS_MAX_FILESYSTEMS_def)
next
  case (Suc n)
  show ?case
  proof (cases "load32 m (filesystems_slot S i) = 0")
    case True
    then have "s = filesystems_slot S i"
      using Suc by (subst (asm) fs_free_loop.simps) (auto simp: SIMPOS_MAX_FILESYSTEMS_def split: if_splits)
    then show ?thesis using Suc.hyps(2) Suc.prems(3) by auto
  next
    case False
    then have "fs_free_loop S (i + 1) m = s"
      using Suc.prems Suc.hyps(2) by (subst (asm) fs_free_loop.simps) (auto simp: SIMPOS_MAX_FILESYSTEMS_def split: if_splits)
    then show ?thesis using Suc.hyps(1) [of "i + 1"] Suc.hyps(2) Suc.prems by simp
  qed
qed

lemma fs_slot_region:
  assumes "0 \<le> k" "k < 12"
  shows "region (filesystems_slot S k) 4 \<subseteq> region (filesystems_addr S) 48"
proof -
  have "unat (u32_of_int (4 * k)) = nat (4 * k)" using assms by (intro unat_u32_of_int) simp_all
  then have "unat (u32_of_int (4 * k)) + 4 \<le> 48" using assms by simp
  then show ?thesis
    unfolding filesystems_slot_def
    using region_split [of "unat (u32_of_int (4 * k))" 4 "filesystems_addr S"]
      region_mono [of "unat (u32_of_int (4 * k)) + 4" 48 "filesystems_addr S"] by auto
qed

lemma fs_init_ok:
  assumes lay: "file_layout S" and live: "heap_live kheap m L" and init: "fs_init S m = Some m'"
  shows "descriptors_ok S L m'" and "i < 512 \<Longrightarrow> descriptor S m' i = 0"
proof -
  let ?F = "region (filesystems_addr S) 48" and ?D = "region (file_descriptors_addr S) 2048"
    and ?N = "region (fat16_fs_addr S + 24) 6"
  define m1 where "m1 = memset m (filesystems_addr S) 0 48"
  define m2 where "m2 = memset m1 (file_descriptors_addr S) 0 2048"
  define m3 where "m3 = store_bytes m2 (fat16_fs_addr S + 24) [70, 65, 84, 49, 54, 0]"
  have six: "length [70, 65, 84, 49, 54, 0 :: u8] = 6" by simp
  obtain s where s: "fs_free_loop S 0 m3 = s" "s \<noteq> 0" "m' = store32 m3 s (fat16_fs_addr S)"
    using init by (auto simp: fs_init_def fs_static_load_def fat16_init_def fs_insert_filesystem_def
        fs_get_free_filesystem_def m1_def m2_def m3_def Let_def split: if_splits)
  obtain k where "0 \<le> k" "k < 12" "s = filesystems_slot S k" using fs_free_slot [OF s(1,2)] by auto
  then have sf: "region s 4 \<subseteq> ?F" using fs_slot_region by simp
  have f3: "same_outside ?N m2 m3"
    using store_bytes_frame [of "fat16_fs_addr S + 24" "[70, 65, 84, 49, 54, 0]" m2] unfolding m3_def six .
  have f4: "same_outside ?F m3 m'" unfolding s(3) by (rule same_outside_mono [OF store32_frame sf])
  have zero: "descriptor S m' i = 0" if "i < 512" for i
  proof -
    note sub = slot_region [OF that, of S]
    have "load32 m2 (file_descriptors_slot S (int i)) = 0"
      unfolding m2_def using sub by (intro load32_memset_0) simp
    moreover have "load32 m3 (file_descriptors_slot S (int i)) = load32 m2 (file_descriptors_slot S (int i))"
      by (rule load32_same_outside [OF f3]) (use sub lay in \<open>auto simp: file_layout_def\<close>)
    moreover have "load32 m' (file_descriptors_slot S (int i)) = load32 m3 (file_descriptors_slot S (int i))"
      by (rule load32_same_outside [OF f4]) (use sub lay in \<open>auto simp: file_layout_def\<close>)
    ultimately show ?thesis by (simp add: descriptor_def)
  qed
  show "i < 512 \<Longrightarrow> descriptor S m' i = 0" by (rule zero)
  have f1: "same_outside ?F m m1" using memset_frame [of "filesystems_addr S" 48 m 0] by (simp add: m1_def)
  have f2: "same_outside ?D m1 m2" using memset_frame [of "file_descriptors_addr S" 2048 m1 0] by (simp add: m2_def)
  have o: "?F \<inter> table_region kheap = {}" "?D \<inter> table_region kheap = {}" "?N \<inter> table_region kheap = {}"
    using lay by (auto simp: file_layout_def descriptors_apart_def off_heap_def)
  have "heap_live kheap m' L"
    by (rule kh.rel_frame [OF _ f4 o(1)], rule kh.rel_frame [OF _ f3 o(3)],
        rule kh.rel_frame [OF _ f2 o(2)], rule kh.rel_frame [OF live f1 o(1)])
  then show "descriptors_ok S L m'" using zero by (simp add: descriptors_ok_def)
qed

text \<open>
  The steps of the file layer on the table. \<open>other\<close> is anything else the kernel does: it may
  take and release pages and write memory, but leaves the table and the number in each open
  descriptor alone (as \<open>fopen\<close>, \<open>fread\<close> and \<open>fseek\<close> do, which write the other fields).
\<close>

inductive fd_reachable :: "sys \<Rightarrow> (u32 \<rightharpoonup> nat) \<Rightarrow> mem \<Rightarrow> bool" for S where
  start: "heap_live kheap m L \<Longrightarrow> fs_init S m = Some m' \<Longrightarrow> fd_reachable S L m'"
| opens: "fd_reachable S L m \<Longrightarrow> 0 < heap_avail kheap L \<Longrightarrow> new_file_descriptor S kheap 0 m = (res, desc, m') \<Longrightarrow>
    fd_reachable S (if res = 0 then L(desc \<mapsto> 1) else L) m'"
| closes: "fd_reachable S L m \<Longrightarrow> file_get_descriptor S fd m = desc \<Longrightarrow> desc \<noteq> 0 \<Longrightarrow>
    fd_reachable S (L(desc := None)) (file_free_descriptor S kheap desc m)"
| other: "fd_reachable S L m \<Longrightarrow> heap_live kheap m' L' \<Longrightarrow>
    (\<And>i. i < 512 \<Longrightarrow> descriptor S m' i = descriptor S m i) \<Longrightarrow>
    (\<And>i. i < 512 \<Longrightarrow> descriptor S m i \<noteq> 0 \<Longrightarrow> L' (descriptor S m i) = L (descriptor S m i)
       \<and> load32 m' (descriptor S m i) = load32 m (descriptor S m i)) \<Longrightarrow>
    fd_reachable S L' m'"

inductive_cases fd_reachableE: "fd_reachable S L m"

lemma reachable_ok: "fd_reachable S L m \<Longrightarrow> file_layout S \<Longrightarrow> descriptors_ok S L m"
proof (induction rule: fd_reachable.induct)
  case (start m L m')
  then show ?case using fs_init_ok(1) by blast
next
  case (opens L m res desc m')
  have ok: "descriptors_ok S L m" and ap: "descriptors_apart S"
    using opens by (simp_all add: file_layout_def)
  show ?case
  proof (cases "\<exists>k < 512. descriptor S m k = 0")
    case True
    then obtain j where "j < 512" "descriptor S m j = 0" "\<And>k. k < j \<Longrightarrow> descriptor S m k \<noteq> 0"
      by (rule first_freeE) blast
    from new_descriptor_ok [OF ok ap opens.hyps(2) this, of 0] show ?thesis using opens.hyps(3) by auto
  next
    case False
    then have "new_file_descriptor_loop S kheap (int 0) 0 m = (- ENOMEM, 0, m)"
      by (intro new_descriptor_full) blast
    then show ?thesis using ok opens.hyps(3) by (simp add: new_file_descriptor_def)
  qed
next
  case (closes L m fd desc)
  have ok: "descriptors_ok S L m" and ap: "descriptors_apart S"
    using closes by (simp_all add: file_layout_def)
  obtain i where "i < 511" "desc = descriptor S m i"
    using closes.hyps(2,3) get_descriptorE by metis
  then show ?case using free_descriptor_ok(1) [OF ok ap, of i desc] closes.hyps(3) by (simp del: fun_upd_apply)
next
  case (other L m m' L')
  then show ?case by (auto simp: descriptors_ok_def)
qed


text \<open>The layout the examples use: the globals lie in the kernel's image.\<close>

definition kernel_sys :: sys where
  "kernel_sys = (demo_sys of_nat)\<lparr>disk_addr := 0x130000, fat16_fs_addr := 0x130100,
     filesystems_addr := 0x130200, file_descriptors_addr := 0x130300, literal_addr := (\<lambda>_. 0x130F00)\<rparr>"

lemma kernel_sys_layout: "file_layout kernel_sys"
  by (auto simp: file_layout_def descriptors_apart_def kernel_sys_def region_eq_range intro!: off_heapI)

lemma kernel_sys_init: "\<exists>m'. fs_init kernel_sys (\<lambda>_. 0) = Some m'"
proof -
  let ?m = "memset (memset (\<lambda>_. 0) 0x130200 0 48) 0x130300 0 2048"
  let ?m3 = "store_bytes ?m 0x130118 [70, 65, 84, 49, 54, 0]"
  have six: "length [70, 65, 84, 49, 54, 0 :: u8] = 6" by simp
  have "load32 ?m3 0x130200 = load32 ?m 0x130200"
    by (rule load32_same_outside [OF store_bytes_frame]) (auto simp only: six region_eq_range, auto simp: region_eq_range)
  also have "\<dots> = 0" by (simp add: memset_eq load32_def)
  finally have "fs_free_loop kernel_sys 0 ?m3 = 0x130200"
    by (subst fs_free_loop.simps) (simp add: SIMPOS_MAX_FILESYSTEMS_def filesystems_slot_def kernel_sys_def)
  then show ?thesis
    by (simp add: fs_init_def fs_static_load_def fat16_init_def fs_insert_filesystem_def
        fs_get_free_filesystem_def kernel_sys_def Let_def)
qed

text \<open>A state in which the first \<open>n\<close> slots are taken.\<close>

lemma kernel_sys_opened: "n \<le> 512 \<Longrightarrow> \<exists>L m. fd_reachable kernel_sys L m \<and> heap_avail kheap L = 25600 - n
    \<and> (\<forall>i < 512. descriptor kernel_sys m i \<noteq> 0 \<longleftrightarrow> i < n)"
proof (induction n)
  case 0
  obtain m where m: "fs_init kernel_sys (\<lambda>_. 0) = Some m" using kernel_sys_init by blast
  then have "fd_reachable kernel_sys Map.empty m" by (rule start [OF kernel_empty(1)])
  then show ?case using fs_init_ok(2) [OF kernel_sys_layout kernel_empty(1) m] kernel_empty(2) by auto
next
  case (Suc n)
  then obtain L m where r: "fd_reachable kernel_sys L m" and av: "heap_avail kheap L = 25600 - n"
    and d: "\<And>i. i < 512 \<Longrightarrow> descriptor kernel_sys m i \<noteq> 0 \<longleftrightarrow> i < n" by auto
  have ok: "descriptors_ok kernel_sys L m" by (rule reachable_ok [OF r kernel_sys_layout])
  have av': "0 < heap_avail kheap L" using av Suc.prems by simp
  obtain desc m' where n: "new_file_descriptor kernel_sys kheap 0 m = (0, desc, m')" "desc \<noteq> 0" "L desc = None"
      "descriptors_ok kernel_sys (L(desc \<mapsto> 1)) m'"
      "\<And>k. k < 512 \<Longrightarrow> descriptor kernel_sys m' k = (if k = n then desc else descriptor kernel_sys m k)"
  proof (rule new_descriptor_ok [OF ok _ av', of n 0])
    show "descriptors_apart kernel_sys" using kernel_sys_layout by (simp add: file_layout_def)
    show "n < 512" using Suc.prems by simp
    then show "descriptor kernel_sys m n = 0" using d [of n] by simp
    show "descriptor kernel_sys m k \<noteq> 0" if "k < n" for k using d [of k] that Suc.prems by simp
  qed blast
  have "fd_reachable kernel_sys (L(desc \<mapsto> 1)) m'" using opens [OF r av' n(1)] by simp
  moreover have "heap_avail kheap (L(desc \<mapsto> 1)) = 25600 - Suc n"
    using kh.avail_alloc [of m L desc m' 1] n(3,4) ok av by (simp add: descriptors_ok_def)
  moreover have "\<forall>i < 512. descriptor kernel_sys m' i \<noteq> 0 \<longleftrightarrow> i < Suc n"
    using n(2,5) d by auto
  ultimately show ?case by blast
qed


section \<open>Opening and closing as operations on numbers\<close>

text \<open>The open descriptors as a finite map from slots to pages.\<close>

definition open_fds :: "sys \<Rightarrow> mem \<Rightarrow> (nat \<rightharpoonup> u32)" where
  "open_fds S m i = (if i < 512 \<and> descriptor S m i \<noteq> 0 then Some (descriptor S m i) else None)"

text \<open>
  Opening refines taking the first free slot of the table: with a page free it fills exactly
  that slot, and fails, changing nothing, exactly when all 512 slots are taken.
\<close>

theorem new_file_descriptor_first_free:
  assumes "fd_reachable S L m" and "file_layout S" and "0 < heap_avail kheap L"
  shows "if \<exists>k < 512. open_fds S m k = None
    then \<exists>desc m' j. new_file_descriptor S kheap 0 m = (0, desc, m') \<and> L desc = None
      \<and> open_fds S m j = None \<and> (\<forall>k < j. open_fds S m k \<noteq> None)
      \<and> open_fds S m' = (open_fds S m)(j \<mapsto> desc) \<and> fd_index m' desc = int j + 1
    else new_file_descriptor S kheap 0 m = (- ENOMEM, 0, m)"
proof (cases "\<exists>k < 512. open_fds S m k = None")
  case True
  have ok: "descriptors_ok S L m" by (rule reachable_ok [OF assms(1,2)])
  have "\<exists>k < 512. descriptor S m k = 0" using True by (auto simp: open_fds_def split: if_splits)
  then obtain j where j: "j < 512" "descriptor S m j = 0" "\<And>k. k < j \<Longrightarrow> descriptor S m k \<noteq> 0"
    by (rule first_freeE) blast
  have ap: "descriptors_apart S" using assms(2) by (simp add: file_layout_def)
  obtain desc m' where n: "new_file_descriptor S kheap 0 m = (0, desc, m')" "desc \<noteq> 0" "L desc = None"
      "\<And>k. k < 512 \<Longrightarrow> descriptor S m' k = (if k = j then desc else descriptor S m k)"
      "load32 m' desc = of_nat (j + 1)"
    using new_descriptor_ok [OF ok ap assms(3) j, of 0] by metis
  have "open_fds S m' = (open_fds S m)(j \<mapsto> desc)"
    using n(2,4) j(1) by (fastforce simp: open_fds_def fun_eq_iff)
  moreover have "fd_index m' desc = int j + 1" using j(1) n(5) by (rule fd_index_slot)
  moreover have "open_fds S m j = None" "\<forall>k < j. open_fds S m k \<noteq> None"
    using j by (auto simp: open_fds_def)
  ultimately show ?thesis using True n(1,3) by auto
next
  case False
  then have "descriptor S m k \<noteq> 0" if "k < 512" for k using that by (auto simp: open_fds_def split: if_splits)
  then have "new_file_descriptor_loop S kheap (int 0) 0 m = (- ENOMEM, 0, m)"
    by (intro new_descriptor_full) blast
  then show ?thesis using False by (simp add: new_file_descriptor_def)
qed

theorem new_file_descriptor_first_free_witness:
  "\<exists>m desc m'. new_file_descriptor kernel_sys kheap 0 m = (0, desc, m')
    \<and> open_fds kernel_sys m' = (open_fds kernel_sys m)(5 \<mapsto> desc)"
proof -
  obtain L m where r: "fd_reachable kernel_sys L m" and av: "heap_avail kheap L = 25595"
    and d: "\<And>i. i < 512 \<Longrightarrow> descriptor kernel_sys m i \<noteq> 0 \<longleftrightarrow> i < 5"
    using kernel_sys_opened [of 5] by auto
  have o: "open_fds kernel_sys m i = None \<longleftrightarrow> 5 \<le> i" if "i < 512" for i
    using d [OF that] that by (auto simp: open_fds_def)
  have "\<exists>k < 512. open_fds kernel_sys m k = None" using o [of 5] by (intro exI [of _ 5]) simp
  then obtain desc m' j where j: "new_file_descriptor kernel_sys kheap 0 m = (0, desc, m')"
      "open_fds kernel_sys m j = None" "\<forall>k < j. open_fds kernel_sys m k \<noteq> None"
      "open_fds kernel_sys m' = (open_fds kernel_sys m)(j \<mapsto> desc)"
    using new_file_descriptor_first_free [OF r kernel_sys_layout] av by auto
  have "j = 5"
  proof (rule ccontr)
    assume "j \<noteq> 5"
    then consider "j < 5" | "5 < j" by linarith
    then show False using o [of j] o [of 5] j(2,3) by cases auto
  qed
  then show ?thesis using j by blast
qed

text \<open>
  The last slot is lost: the descriptor opened when the other 511 slots are taken gets the
  number 512, which no file operation accepts, so it can be neither read nor closed.
\<close>

theorem fd_512_unusable:
  assumes "fd_reachable S L m" and "file_layout S" and "0 < heap_avail kheap L"
    and "\<And>k. k < 511 \<Longrightarrow> open_fds S m k \<noteq> None" and "open_fds S m 511 = None"
  shows "\<exists>desc m'. new_file_descriptor S kheap 0 m = (0, desc, m') \<and> fd_index m' desc = 512
    \<and> fclose S kheap 512 m' = Some (- EIO, m') \<and> fread S sp ptr 1 1 512 m' = Some (- EINVARG, m')"
proof -
  have ok: "descriptors_ok S L m" by (rule reachable_ok [OF assms(1,2)])
  have ap: "descriptors_apart S" using assms(2) by (simp add: file_layout_def)
  have full: "descriptor S m k \<noteq> 0" if "k < 511" for k
    using assms(4) [OF that] by (auto simp: open_fds_def split: if_splits)
  have z: "descriptor S m 511 = 0" using assms(5) by (simp add: open_fds_def split: if_splits)
  obtain desc m' where n: "new_file_descriptor S kheap 0 m = (0, desc, m')" "load32 m' desc = of_nat (511 + 1)"
    by (rule new_descriptor_ok [OF ok ap assms(3) _ z full, of 0]) simp_all
  have "fd_index m' desc = 512" by (simp add: fd_index_def n(2) int_of_u32_def)
  then show ?thesis using n(1)
    by (simp add: fclose_def fread_def file_get_descriptor_def SIMPOS_MAX_FILE_DESCRIPTORS_def)
qed

theorem fd_512_unusable_witness:
  "\<exists>m desc m'. new_file_descriptor kernel_sys kheap 0 m = (0, desc, m') \<and> fd_index m' desc = 512
    \<and> fclose kernel_sys kheap 512 m' = Some (- EIO, m')"
proof -
  obtain L m where r: "fd_reachable kernel_sys L m" and av: "heap_avail kheap L = 25089"
    and d: "\<And>i. i < 512 \<Longrightarrow> descriptor kernel_sys m i \<noteq> 0 \<longleftrightarrow> i < 511"
    using kernel_sys_opened [of 511] by auto
  have "open_fds kernel_sys m k \<noteq> None" if "k < 511" for k using d [of k] that by (auto simp: open_fds_def)
  moreover have "open_fds kernel_sys m 511 = None" using d [of 511] by (auto simp: open_fds_def)
  ultimately show ?thesis using fd_512_unusable [OF r kernel_sys_layout] av by fastforce
qed

end
