(* ===== verification/FatSpec.thy ===== *)
theory FatSpec
  imports Fat16
begin

text \<open>
  What the FAT16 driver delivers: an entry of the allocation table is read as the disk has it,
  the chain of clusters is followed as the table says, and reading a file from the start of a
  cluster gives exactly the bytes of the clusters of its chain. Counting the entries of a
  directory is right while one of the first sixteen is unused, and never ends otherwise.
\<close>

section \<open>A mounted volume\<close>

text \<open>
  The structures a mounted disk has in memory: \<open>private\<close> is its \<^verbatim>\<open>struct fat_private\<close>, \<open>fs\<close> and
  \<open>cs\<close> are the streams for the table and for the clusters.
\<close>

definition volume :: "sys \<Rightarrow> u32 \<Rightarrow> u32 \<Rightarrow> u32 \<Rightarrow> u32 \<Rightarrow> mem \<Rightarrow> bool" where
  "volume S disk private fs cs m \<longleftrightarrow> disk_fs_private m disk = private \<and> disk_sector_size m disk = 512
     \<and> fat_read_stream m private = fs \<and> cluster_read_stream m private = cs \<and> fs \<noteq> 0
     \<and> stream_disk m fs = disk_addr S \<and> stream_disk m cs = disk_addr S"

text \<open>The bytes the driver reads its parameters from, and the bytes a read writes.\<close>

definition fields :: "u32 \<Rightarrow> u32 \<Rightarrow> u32 \<Rightarrow> u32 \<Rightarrow> u32 set" where
  "fields disk private fs cs = region disk 20 \<union> region private 92 \<union> region (fs + 4) 4 \<union> region (cs + 4) 4"

definition scratch :: "u32 \<Rightarrow> u32 \<Rightarrow> u32 \<Rightarrow> u32 \<Rightarrow> nat \<Rightarrow> nat \<Rightarrow> u32 set" where
  "scratch sp fs cs out n need = region fs 4 \<union> region cs 4 \<union> stack sp need \<union> region out n"

definition room :: "u32 \<Rightarrow> u32 \<Rightarrow> u32 \<Rightarrow> u32 \<Rightarrow> u32 \<Rightarrow> u32 \<Rightarrow> nat \<Rightarrow> nat \<Rightarrow> bool" where
  "room sp disk private fs cs out n need \<longleftrightarrow> fields disk private fs cs \<inter> scratch sp fs cs out n need = {}
     \<and> (region fs 4 \<union> region cs 4) \<inter> (stack sp need \<union> region out n) = {}
     \<and> stack sp need \<inter> region out n = {} \<and> 1028 \<le> need \<and> need \<le> 2 ^ 32"

lemma region_pair: "region p 8 = region p 4 \<union> region (p + 4) 4"
  using region_split [of 4 4 p] by simp

lemma volume_frame:
  assumes "same_outside A m m'" "fields disk private fs cs \<inter> A = {}" "volume S disk private fs cs m"
  shows "volume S disk private fs cs m'" "root_last_sector_pos m' private = root_last_sector_pos m private"
    "m' (private + 13) = m (private + 13)" "load16 m' (private + 14) = load16 m (private + 14)"
proof -
  have d: "load32 m' (disk + j) = load32 m (disk + j)" if "unat j + 4 \<le> 20" for j
    by (rule load32_same_outside [OF assms(1)])
      (use assms(2) sub_region [OF that, of disk] in \<open>auto simp: fields_def\<close>)
  have p: "load32 m' (private + j) = load32 m (private + j)" if "unat j + 4 \<le> 92" for j
    by (rule load32_same_outside [OF assms(1)])
      (use assms(2) sub_region [OF that, of "private"] in \<open>auto simp: fields_def\<close>)
  have s: "load32 m' (x + 4) = load32 m (x + 4)" if "x = fs \<or> x = cs" for x
    by (rule load32_same_outside [OF assms(1)]) (use assms(2) that in \<open>auto simp: fields_def\<close>)
  have b: "m' (private + of_nat j) = m (private + of_nat j)" if "j < 92" for j
    by (rule same_outsideD [OF assms(1)])
      (use assms(2) that in_region_offset [of j 92 "private"] in \<open>auto simp: fields_def\<close>)
  show "volume S disk private fs cs m'"
    using assms(3) by (simp add: volume_def disk_fs_private_def disk_sector_size_def fat_read_stream_def
        cluster_read_stream_def stream_disk_def d p s)
  show "root_last_sector_pos m' private = root_last_sector_pos m private"
    by (simp add: root_last_sector_pos_def p)
  show "m' (private + 13) = m (private + 13)" using b [of 13] by simp
  have "private + 14 + 1 = private + of_nat 15" by (simp add: add.assoc)
  then show "load16 m' (private + 14) = load16 m (private + 14)"
    using b [of 14] b [of 15] by (simp only: load16_def) simp
qed

section \<open>The allocation table\<close>

text \<open>The table starts behind the reserved sectors and has two bytes, low first, per cluster.\<close>

definition fat_word :: "(nat \<Rightarrow> u8) \<Rightarrow> nat \<Rightarrow> nat" where
  "fat_word img p = unat (ucast (img p) OR push_bit 8 (ucast (img (Suc p))) :: u16)"

definition next_cluster :: "(nat \<Rightarrow> u8) \<Rightarrow> nat \<Rightarrow> nat \<Rightarrow> nat" where
  "next_cluster img reserved c = fat_word img (512 * reserved + 2 * c)"

lemma fat_word_less: "fat_word img p < 65536"
  unfolding fat_word_def by (rule order.strict_trans2 [OF unsigned_less]) simp

lemma load16_bytes: "load_bytes m p 2 = image_bytes img q 2 \<Longrightarrow> uint (load16 m p) = int (fat_word img q)"
proof -
  assume a: "load_bytes m p 2 = image_bytes img q 2"
  have "m p = img q" "m (p + 1) = img (Suc q)"
    using arg_cong [OF a, of "\<lambda>xs. xs ! 0"] arg_cong [OF a, of "\<lambda>xs. xs ! 1"] by simp_all
  then show ?thesis by (simp add: load16_def fat_word_def)
qed

lemma read_2:
  assumes ata: "ata_reads (controller S) img" and st: "stream_at S m s (int pos)" and "pos mod 2 = 0"
    and small: "pos + 514 < 2 ^ 31" and rm: "read_room sp s out 2"
  shows "\<exists>m'. diskstreamer_read S sp s out 2 m = Some (0, m') \<and> load_bytes m' out 2 = image_bytes img pos 2
    \<and> same_outside (region s 4 \<union> region out 2 \<union> stack sp 1024) m m'"
proof -
  have need: "stack_need 2 = 1024" by (simp add: stack_need_def)
  have p: "pos + 2 < 2 ^ 31" "pos + 2 + 512 < 2 ^ 31" using small by simp_all
  show ?thesis
  proof (cases "pos mod 512 + 2 < 512")
    case True
    show ?thesis using read_inside [OF ata st True p(1) rm] unfolding read_effect_def need by auto
  next
    case False
    have "pos mod 512 mod 2 = pos mod 2" by (rule mod_mod_cancel) simp
    moreover have "pos mod 512 = 510 \<or> pos mod 512 = 511"
      using False mod_less_divisor [of 512 pos] by linarith
    ultimately have o: "pos mod 512 = 510" using assms(3) by auto
    have "0 < pos mod 512" "512 \<le> pos mod 512 + 2" by (simp_all add: o)
    then show ?thesis
      using read_misaligned [OF ata st _ _ p(2) rm] unfolding read_effect_def need o by auto
  qed
qed

text \<open>The room for one entry: its two bytes lie on the stack, the read below them.\<close>

lemma entry_room:
  assumes "room sp disk private fs cs out n need"
  shows "read_room (sp - 4) fs (sp - 4) 2"
    and "region fs 4 \<union> region (sp - 4) 2 \<union> stack (sp - 4) 1024 \<subseteq> scratch sp fs cs out n need"
    and "region (sp - 4) 2 \<subseteq> stack sp need"
proof -
  have st: "stack sp 1028 = region (sp - 4) 4 \<union> stack (sp - 4) 1024"
    using stack_split [of 4 1024 sp] by (simp add: stack_def)
  have "stack sp need = stack sp 1028 \<union> stack (sp - of_nat 1028) (need - 1028)"
  proof -
    have "1028 + (need - 1028) \<le> 2 ^ 32" "1028 + (need - 1028) = need" using assms by (simp_all add: room_def)
    then show ?thesis using stack_split [of 1028 "need - 1028" sp] by simp
  qed
  then have sub: "region (sp - 4) 4 \<subseteq> stack sp need" "stack (sp - 4) 1024 \<subseteq> stack sp need"
    unfolding st by auto
  have two: "region (sp - 4) 2 \<subseteq> region (sp - 4) 4" by (rule region_mono) simp
  then show "region (sp - 4) 2 \<subseteq> stack sp need" using sub by blast
  show "region fs 4 \<union> region (sp - 4) 2 \<union> stack (sp - 4) 1024 \<subseteq> scratch sp fs cs out n need"
    using sub two by (auto simp: scratch_def)
  have "region (sp - 4 - of_nat 1024) 1024 \<inter> region (sp - 4 - of_nat 1024 + of_nat 1024) 2 = {}"
    by (rule region_split_disjoint) simp
  then have "region (sp - 4) 2 \<inter> stack (sp - 4) 1024 = {}" by (auto simp: stack_def)
  moreover have "region (fs + 4) 4 \<inter> stack sp need = {}" "region fs 4 \<inter> stack sp need = {}"
    using assms by (auto simp: room_def fields_def scratch_def)
  ultimately show "read_room (sp - 4) fs (sp - 4) 2"
    using sub two unfolding read_room_def region_pair by (simp add: stack_need_def) blast
qed

lemma fat_entry:
  assumes ata: "ata_reads (controller S) img" and vol: "volume S disk private fs cs m"
    and rm: "room sp disk private fs cs out n need" and c: "c < 65536"
  shows "\<exists>m'. fat16_get_fat_entry S sp disk (int c) m =
      Some (int (next_cluster img (unat (load16 m (private + 14))) c), m')
    \<and> volume S disk private fs cs m' \<and> same_outside (scratch sp fs cs out n need) m m'"
proof -
  define pos where "pos = 512 * unat (load16 m (private + 14)) + 2 * c"
  have res: "unat (load16 m (private + 14)) < 65536"
    by (rule order.strict_trans2 [OF unsigned_less]) simp
  then have small: "pos + 514 < 2 ^ 31" "pos < 2 ^ 31" using c by (simp_all add: pos_def)
  have w: "fat16_get_first_fat_sector m private * u32_of_int 512 + u32_of_int (int c * SIMPOS_FAT16_FAT_ENTRY_SIZE)
      = of_nat pos"
  proof -
    have "u32_of_int (uint (load16 m (private + 14))) = of_nat (unat (load16 m (private + 14)))"
      unfolding uint_nat by (rule u32_of_int_of_nat)
    moreover have "u32_of_int (int c * 2) = of_nat (2 * c)"
      using u32_of_int_of_nat [of "2 * c"] by (simp add: mult.commute)
    ultimately show ?thesis
      by (simp add: fat16_get_first_fat_sector_def reserved_sectors_def SIMPOS_FAT16_FAT_ENTRY_SIZE_def pos_def
          del: of_nat_unat)
  qed
  let ?m1 = "store32 m fs (of_nat pos)"
  let ?m2 = "store16 ?m1 (sp - 4) 0"
  note er = entry_room [OF rm]
  have f1: "same_outside (scratch sp fs cs out n need) m ?m1"
    by (rule same_outside_mono [OF store32_frame]) (use er(2) in blast)
  have f2: "same_outside (region (sp - 4) 2) ?m1 ?m2"
    unfolding store16_def same_outside_def using in_region_offset [of 0 2 "sp - 4"] in_region_offset [of 1 2 "sp - 4"]
    by auto
  have dis: "fields disk private fs cs \<inter> scratch sp fs cs out n need = {}" using rm by (simp add: room_def)
  have ip: "int_of_u32 (of_nat pos) = int pos" using small(2) by (subst int_of_u32_small) (simp_all del: of_nat_unat)
  have "region fs 8 \<inter> region (sp - 4) 2 = {}" using er(1) by (simp add: read_room_def)
  then have keep: "load32 ?m2 fs = load32 ?m1 fs"
    by (intro load32_same_outside [OF f2]) (auto simp: region_pair)
  have f12: "same_outside (scratch sp fs cs out n need) m ?m2"
    by (rule same_outside_trans1 [OF f1], rule same_outside_mono [OF f2]) (use er(2) in blast)
  have "stream_at S ?m2 fs (int pos)"
    using volume_frame(1) [OF f12 dis vol] keep
    by (simp add: stream_at_def stream_pos_def volume_def off_simps ip)
  then obtain m' where r: "diskstreamer_read S (sp - 4) fs (sp - 4) 2 ?m2 = Some (0, m')"
      "load_bytes m' (sp - 4) 2 = image_bytes img pos 2"
      "same_outside (region fs 4 \<union> region (sp - 4) 2 \<union> stack (sp - 4) 1024) ?m2 m'"
    using read_2 [OF ata _ _ small(1) er(1)] by (auto simp: pos_def)
  have f: "same_outside (scratch sp fs cs out n need) m m'"
    by (rule same_outside_trans1 [OF f12], rule same_outside_mono [OF r(3) er(2)])
  have v: "disk_fs_private m disk = private" "fat_read_stream m private = fs" "fs \<noteq> 0" "disk_sector_size m disk = 512"
    using vol by (simp_all add: volume_def)
  have "fat16_get_fat_entry S sp disk (int c) m = Some (uint (load16 m' (sp - 4)), m')"
    unfolding fat16_get_fat_entry_def Let_def v diskstreamer_seek_def w
    using r(1) v(3) by (simp add: ip u32_of_int_of_nat)
  then show ?thesis
    using load16_bytes [OF r(2)] volume_frame(1) [OF f dis vol] f by (simp add: next_cluster_def pos_def)
qed

section \<open>Following the chain\<close>

text \<open>
  The reference: the cluster \<open>n\<close> steps behind \<open>c\<close>, None when an entry on the way is one of the
  values the driver takes for an end or an error. These are not all the values the format
  reserves: the marks 0xFFF9 to 0xFFFE of an end and 0xFFF7 of a bad cluster are followed like
  clusters, and the data clusters 0xFF0, 0xFF6 and 0xFF7 stop the reader.
\<close>

definition stop_marks :: "nat set" where
  "stop_marks = {0xFFF8, 0xFFFF, 0xFF7, 0xFF0, 0xFF6, 0}"

fun follow :: "(nat \<Rightarrow> nat) \<Rightarrow> nat \<Rightarrow> nat \<Rightarrow> nat option" where
  "follow nxt 0 c = Some c"
| "follow nxt (Suc n) c = (if nxt c \<in> stop_marks then None else follow nxt n (nxt c))"

lemma cluster_loop_follow:
  assumes ata: "ata_reads (controller S) img" and rm: "room sp disk private fs cs out n need"
    and vol: "volume S disk private fs cs m" and c: "c < 65536"
  shows "\<exists>m'. fat16_cluster_loop S sp disk (i + int k) i (int c) m =
      Some (case follow (next_cluster img (unat (load16 m (private + 14)))) k c of None \<Rightarrow> - EIO | Some e \<Rightarrow> int e, m')
    \<and> volume S disk private fs cs m' \<and> same_outside (scratch sp fs cs out n need) m m'"
  using vol c
proof (induction k arbitrary: i c m)
  case 0
  then show ?case by (subst fat16_cluster_loop.simps) auto
next
  case (Suc k)
  let ?nxt = "next_cluster img (unat (load16 m (private + 14)))"
  let ?e = "?nxt c"
  obtain m1 where m1: "fat16_get_fat_entry S sp disk (int c) m = Some (int ?e, m1)"
      "volume S disk private fs cs m1" "same_outside (scratch sp fs cs out n need) m m1"
    using fat_entry [OF ata Suc.prems(1) rm Suc.prems(2)] by blast
  have dis: "fields disk private fs cs \<inter> scratch sp fs cs out n need = {}" using rm by (simp add: room_def)
  have step: "fat16_cluster_loop S sp disk (i + int (Suc k)) i (int c) m =
      (if ?e \<in> stop_marks then Some (- EIO, m1)
       else fat16_cluster_loop S sp disk (i + 1 + int k) (i + 1) (int ?e) m1)"
  proof -
    have e: "i + int (Suc k) = i + 1 + int k" by simp
    show ?thesis
      unfolding e by (subst fat16_cluster_loop.simps) (auto simp: m1(1) stop_marks_def SIMPOS_FAT16_BAD_SECTOR_def)
  qed
  show ?case
  proof (cases "?e \<in> stop_marks")
    case True
    then show ?thesis using step m1 by simp
  next
    case False
    have "?e < 65536" by (simp add: next_cluster_def fat_word_less)
    from Suc.IH [OF m1(2) this, of "i + 1"] show ?thesis
      using step False m1(3) volume_frame(4) [OF m1(3) dis Suc.prems(1)]
      by (auto intro: same_outside_trans1)
  qed
qed

definition cluster_bytes :: "mem \<Rightarrow> u32 \<Rightarrow> nat" where
  "cluster_bytes m private = 512 * unat (m (private + 13))"

lemma cluster_bytes_less: "cluster_bytes m private < 131072"
proof -
  have "unat (m (private + 13)) < 256" using unsigned_less [of "m (private + 13)", where 'a = nat] by simp
  then show ?thesis by (simp add: cluster_bytes_def)
qed

lemma cluster_bytes_int: "volume S disk private fs cs m \<Longrightarrow>
  c_int (sectors_per_cluster m private * disk_sector_size m disk) = int (cluster_bytes m private)"
proof -
  assume "volume S disk private fs cs m"
  then have "sectors_per_cluster m private * disk_sector_size m disk = int (cluster_bytes m private)"
    by (simp add: volume_def sectors_per_cluster_def cluster_bytes_def)
  then show ?thesis using cluster_bytes_less [of m "private"] by (simp add: c_int_id)
qed

lemma cluster_for_offset:
  assumes "ata_reads (controller S) img" and "room sp disk private fs cs out n need"
    and vol: "volume S disk private fs cs m" and "c < 65536" and pos: "0 < cluster_bytes m private"
  shows "\<exists>m'. fat16_get_cluster_for_offset S sp disk (int c) (int off) m =
      Some (case follow (next_cluster img (unat (load16 m (private + 14)))) (off div cluster_bytes m private) c
            of None \<Rightarrow> - EIO | Some e \<Rightarrow> int e, m')
    \<and> volume S disk private fs cs m' \<and> same_outside (scratch sp fs cs out n need) m m'"
proof -
  have p: "disk_fs_private m disk = private" using vol by (simp add: volume_def)
  have "int off sdiv int (cluster_bytes m private) = int (off div cluster_bytes m private)"
    using pos by (simp add: sdiv_nonneg zdiv_int)
  then show ?thesis
    using cluster_loop_follow [OF assms(1-4), of 0 "off div cluster_bytes m private"] pos
    unfolding fat16_get_cluster_for_offset_def Let_def p cluster_bytes_int [OF vol] by simp
qed

text \<open>
  C31. The cluster that holds an offset of a file is found by following the table from the
  file's first cluster once per whole cluster before the offset; the search fails exactly when
  a stop mark is met on the way, and writes only the stream and the stack.
\<close>

theorem fat16_get_cluster_for_offset_follows:
  assumes "ata_reads (controller S) img" and "room sp disk private fs cs out n need"
    and "volume S disk private fs cs m" and "c < 65536" and "0 < cluster_bytes m private"
  shows "\<exists>m'. fat16_get_cluster_for_offset S sp disk (int c) (int off) m =
      Some (case follow (next_cluster img (unat (load16 m (private + 14)))) (off div cluster_bytes m private) c
            of None \<Rightarrow> - EIO | Some e \<Rightarrow> int e, m')
    \<and> same_outside (scratch sp fs cs out n need) m m'"
  using cluster_for_offset [OF assms, of off] by blast

section \<open>Reading a file\<close>

text \<open>
  The byte of a file at an offset: the clusters of its chain one after the other, cluster \<open>c\<close>
  at sector \<open>first + (c - 2) * sectors_per_cluster\<close>.
\<close>

definition cluster_start :: "mem \<Rightarrow> u32 \<Rightarrow> nat \<Rightarrow> int" where
  "cluster_start m private c = 512 * (root_last_sector_pos m private + (int c - 2) * sectors_per_cluster m private)"

definition file_byte :: "(nat \<Rightarrow> u8) \<Rightarrow> mem \<Rightarrow> u32 \<Rightarrow> nat \<Rightarrow> nat \<Rightarrow> u8" where
  "file_byte img m private c k =
     (case follow (next_cluster img (unat (load16 m (private + 14)))) (k div cluster_bytes m private) c
      of None \<Rightarrow> 0 | Some e \<Rightarrow> img (nat (cluster_start m private e) + k mod cluster_bytes m private))"

text \<open>The clusters that hold the bytes below \<open>stop\<close> exist and lie in the first 2 GB of the disk.\<close>

definition on_disk :: "(nat \<Rightarrow> u8) \<Rightarrow> mem \<Rightarrow> u32 \<Rightarrow> nat \<Rightarrow> nat \<Rightarrow> bool" where
  "on_disk img m private c stop \<longleftrightarrow> (\<forall>j. j * cluster_bytes m private < stop \<longrightarrow>
     (\<exists>e. follow (next_cluster img (unat (load16 m (private + 14)))) j c = Some e
        \<and> 0 \<le> cluster_start m private e \<and> cluster_start m private e + 131072 < 2 ^ 31))"

lemma on_disk_at:
  assumes "on_disk img m private c stop" "off < stop"
  obtains e where "follow (next_cluster img (unat (load16 m (private + 14)))) (off div cluster_bytes m private) c = Some e"
    "0 \<le> cluster_start m private e" "cluster_start m private e + 131072 < 2 ^ 31"
proof -
  have "off div cluster_bytes m private * cluster_bytes m private \<le> off" by simp
  then have "off div cluster_bytes m private * cluster_bytes m private < stop" using assms(2) by linarith
  then show thesis using assms(1) that unfolding on_disk_def by blast
qed

lemma geometry_frame:
  assumes "same_outside A m m'" "fields disk private fs cs \<inter> A = {}" "volume S disk private fs cs m"
  shows "cluster_bytes m' private = cluster_bytes m private" "file_byte img m' private = file_byte img m private"
    "on_disk img m' private = on_disk img m private" "cluster_start m' private = cluster_start m private"
proof -
  note v = volume_frame [OF assms]
  show b: "cluster_bytes m' private = cluster_bytes m private" by (simp add: cluster_bytes_def v(3))
  show s: "cluster_start m' private = cluster_start m private"
    by (simp add: cluster_start_def sectors_per_cluster_def v(2,3) fun_eq_iff)
  show "file_byte img m' private = file_byte img m private" 
    by (simp add: file_byte_def b s v(4) fun_eq_iff split: option.split)
  show "on_disk img m' private = on_disk img m private" by (simp add: on_disk_def b s v(4) fun_eq_iff)
qed

text \<open>One chunk, which lies in one cluster.\<close>

lemma chunk_bytes:
  assumes "follow (next_cluster img (unat (load16 m (private + 14)))) (off div cluster_bytes m private) c = Some e"
    and "off mod cluster_bytes m private = 0" "n \<le> cluster_bytes m private"
  shows "image_bytes img (nat (cluster_start m private e)) n = map (file_byte img m private c) [off..<off + n]"
proof (rule nth_equalityI)
  fix k assume "k < length (image_bytes img (nat (cluster_start m private e)) n)"
  then have k: "k < n" "k < cluster_bytes m private" using assms(3) by simp_all
  obtain q where q: "off = cluster_bytes m private * q" using assms(2) by (auto simp: mod_eq_0_iff_dvd dvd_def)
  have "(off + k) div cluster_bytes m private = off div cluster_bytes m private" "(off + k) mod cluster_bytes m private = k"
    using k(2) unfolding q by simp_all
  then show "image_bytes img (nat (cluster_start m private e)) n ! k = map (file_byte img m private c) [off..<off + n] ! k"
    using k(1) assms(1) by (simp add: file_byte_def)
qed simp

lemma c_int_add: "c_int (a + c_int b) = c_int (a + b)" "c_int (c_int a + b) = c_int (a + b)"
  unfolding c_int_def by (simp_all add: mod_simps algebra_simps)

lemma chunk_pos:
  assumes "volume S disk private fs cs m" "0 \<le> cluster_start m private e" "cluster_start m private e + 131072 < 2 ^ 31"
  shows "c_int (c_int (fat16_cluster_to_sector m private (int e) * disk_sector_size m disk) + 0) = cluster_start m private e"
proof -
  have bs: "disk_sector_size m disk = 512" using assms(1) by (simp add: volume_def)
  define x where "x = root_last_sector_pos m private + (int e - 2) * sectors_per_cluster m private"
  have x: "cluster_start m private e = 512 * x" by (simp add: cluster_start_def x_def)
  have "fat16_cluster_to_sector m private (int e) = c_int x"
    by (simp add: fat16_cluster_to_sector_def c_int_add x_def)
  also have "\<dots> = x" using assms(2,3) x by (intro c_int_id) simp_all
  finally show ?thesis using assms(2,3) unfolding bs x by (simp add: c_int_id mult.commute)
qed

lemma room_sub:
  assumes "room sp disk private fs cs out n need" "j + k \<le> n" "n < 2 ^ 31"
  shows "room sp disk private fs cs (out + of_nat j) k need"
    and "scratch sp fs cs (out + of_nat j) k need \<subseteq> scratch sp fs cs out n need"
proof -
  have "region out (j + k) = region out j \<union> region (out + of_nat j) k" using assms by (intro region_split) simp
  then have r: "region (out + of_nat j) k \<subseteq> region out n" using region_mono [OF assms(2), of out] by blast
  then show "scratch sp fs cs (out + of_nat j) k need \<subseteq> scratch sp fs cs out n need" by (auto simp: scratch_def)
  show "room sp disk private fs cs (out + of_nat j) k need"
    using assms(1) r unfolding room_def scratch_def by blast
qed

lemma stack_mono: "k \<le> n \<Longrightarrow> n \<le> 2 ^ 32 \<Longrightarrow> stack sp k \<subseteq> stack sp n"
  using stack_split [of k "n - k" sp] by auto

lemma chunk_room:
  assumes "room sp disk private fs cs out n need" "t \<le> n" "stack_need t \<le> need"
  shows "read_room sp cs out t" and "region cs 4 \<union> region out t \<union> stack sp (stack_need t) \<subseteq> scratch sp fs cs out n need"
proof -
  have "stack sp (stack_need t) \<subseteq> stack sp need" using assms(1,3) by (intro stack_mono) (simp_all add: room_def)
  moreover have "region out t \<subseteq> region out n" by (rule region_mono [OF assms(2)])
  ultimately show "read_room sp cs out t"
      "region cs 4 \<union> region out t \<union> stack sp (stack_need t) \<subseteq> scratch sp fs cs out n need"
    using assms(1) unfolding room_def read_room_def region_pair scratch_def fields_def by blast+
qed

text \<open>The first chunk: the seek and the read of what the cluster holds.\<close>

lemma read_chunk:
  assumes ata: "ata_reads (controller S) img" and vol: "volume S disk private fs cs m"
    and rm: "room sp disk private fs cs out n need" "stack_need t \<le> need" "t \<le> n" "t \<le> cluster_bytes m private"
    and e: "follow (next_cluster img (unat (load16 m (private + 14)))) (off div cluster_bytes m private) c = Some e"
      "0 \<le> cluster_start m private e" "cluster_start m private e + 131072 < 2 ^ 31"
    and off: "off mod cluster_bytes m private = 0"
  shows "\<exists>m'. diskstreamer_read S sp cs out (int t) (store32 m cs (u32_of_int (cluster_start m private e))) = Some (0, m')
    \<and> load_bytes m' out t = map (file_byte img m private c) [off..<off + t]
    \<and> volume S disk private fs cs m' \<and> same_outside (scratch sp fs cs out n need) m m'"
proof -
  let ?p = "nat (cluster_start m private e)" and ?m = "store32 m cs (u32_of_int (cluster_start m private e))"
  note cr = chunk_room [OF rm(1,3,2)]
  have dis: "fields disk private fs cs \<inter> scratch sp fs cs out n need = {}" using rm by (simp add: room_def)
  have f1: "same_outside (scratch sp fs cs out n need) m ?m"
    by (rule same_outside_mono [OF store32_frame]) (use cr(2) in blast)
  have "int_of_u32 (u32_of_int (cluster_start m private e)) = int ?p"
    using e(2,3) by (simp add: int_of_u32_of_int c_int_id)
  then have st: "stream_at S ?m cs (int ?p)"
    using volume_frame(1) [OF f1 dis vol] by (simp add: stream_at_def stream_pos_def volume_def off_simps)
  have "?p mod 512 = 0" unfolding cluster_start_def by (subst nat_mult_distrib) simp_all
  moreover have "?p + t < 2 ^ 31"
  proof -
    have "cluster_start m private e + int t < 2147483648"
      using e(3) rm(4) cluster_bytes_less [of m "private"] by simp
    then show ?thesis using e(2) by simp
  qed
  ultimately obtain m' where m': "diskstreamer_read S sp cs out (int t) ?m = Some (0, m')"
      "load_bytes m' out t = image_bytes img ?p t"
      "same_outside (region cs 4 \<union> region out t \<union> stack sp (stack_need t)) ?m m'"
    using read_aligned [OF ata st _ _ cr(1)] unfolding read_effect_def by auto
  have f: "same_outside (scratch sp fs cs out n need) m m'"
    by (rule same_outside_trans1 [OF f1]) (rule same_outside_mono [OF m'(3) cr(2)])
  show ?thesis using m'(1) m'(2) [unfolded chunk_bytes [OF e(1) off rm(4)]] volume_frame(1) [OF f dis vol] f by blast
qed

lemma read_from_stream:
  assumes ata: "ata_reads (controller S) img" and c: "c < 65536"
    and "volume S disk private fs cs m" and "room sp disk private fs cs out n need"
    and "0 < cluster_bytes m private" and "stack_need (cluster_bytes m private) \<le> need"
    and "off mod cluster_bytes m private = 0" and "0 < n" and "off + n < 2 ^ 31"
    and "on_disk img m private c (off + n)"
  shows "\<exists>m'. fat16_read_internal_from_stream S sp disk cs (int c) (int off) (int n) out m = Some (0, m')
    \<and> load_bytes m' out n = map (file_byte img m private c) [off..<off + n]
    \<and> same_outside (scratch sp fs cs out n need) m m'"
  using assms(3-10)
proof (induction n arbitrary: m off out rule: less_induct)
  case (less n)
  let ?C = "cluster_bytes m private"
  define t where "t = min n ?C"
  have t: "0 < t" "t \<le> n" "t \<le> ?C" using less.prems(3,6) by (simp_all add: t_def)
  have nt: "stack_need t \<le> need"
    using less.prems(4) div_le_mono [OF t(3), of 512] by (simp add: stack_need_def)
  have dis: "fields disk private fs cs \<inter> scratch sp fs cs out n need = {}" using less.prems(2) by (simp add: room_def)
  have "off < off + n" using less.prems(6) by simp
  then obtain e where e: "follow (next_cluster img (unat (load16 m (private + 14)))) (off div ?C) c = Some e"
      "0 \<le> cluster_start m private e" "cluster_start m private e + 131072 < 2 ^ 31"
    using less.prems(8) on_disk_at by blast
  obtain m1 where m1: "fat16_get_cluster_for_offset S sp disk (int c) (int off) m = Some (int e, m1)"
      "volume S disk private fs cs m1" "same_outside (scratch sp fs cs out n need) m m1"
    using cluster_for_offset [OF ata less.prems(2,1) c less.prems(3), of off] e(1) by auto
  note g = geometry_frame [OF m1(3) dis less.prems(1)]
  have e1: "follow (next_cluster img (unat (load16 m1 (private + 14)))) (off div cluster_bytes m1 private) c = Some e"
    using e(1) unfolding g(1) volume_frame(4) [OF m1(3) dis less.prems(1)] .
  obtain m2 where m2: "diskstreamer_read S sp cs out (int t) (store32 m1 cs (u32_of_int (cluster_start m private e))) = Some (0, m2)"
      "load_bytes m2 out t = map (file_byte img m private c) [off..<off + t]"
      "volume S disk private fs cs m2" "same_outside (scratch sp fs cs out n need) m1 m2"
    using read_chunk [OF ata m1(2) less.prems(2) nt t(2) _ e1] e(2,3) t(3) less.prems(5) unfolding g by blast
  have f2: "same_outside (scratch sp fs cs out n need) m m2" by (rule same_outside_trans1 [OF m1(3) m2(4)])
  note g2 = geometry_frame [OF f2 dis less.prems(1)]
  have z: "int off smod int ?C = 0" using less.prems(3,5) by (simp add: smod_nonneg flip: zmod_int)
  have step: "fat16_read_internal_from_stream S sp disk cs (int c) (int off) (int n) out m =
      (if 0 < int n - int t
       then fat16_read_internal_from_stream S sp disk cs (int c) (c_int (int off + int t)) (int n - int t)
              (out + u32_of_int (int t)) m2
       else Some (0, m2))"
  proof -
    have v: "disk_fs_private m disk = private" using less.prems(1) by (simp add: volume_def)
    have m: "(if int n > int ?C then int ?C else int n) = int t" by (simp add: t_def)
    have p: "c_int (c_int (fat16_cluster_to_sector m1 private (int e) * disk_sector_size m1 disk) + 0) = cluster_start m private e"
      using chunk_pos [OF m1(2), of e] e(2,3) unfolding g by simp
    show ?thesis
      by (subst fat16_read_internal_from_stream.simps)
        (simp only: Let_def v cluster_bytes_int [OF less.prems(1)] m1(1) Option.bind.bind_lunit prod.case
          z m p diskstreamer_seek_def m2(1), simp)
  qed
  show ?case
  proof (cases "n \<le> ?C")
    case True
    then have "t = n" by (simp add: t_def)
    then show ?thesis using step m2 f2 by simp
  next
    case False
    then have tC: "t = ?C" by (simp add: t_def)
    let ?k = "n - t"
    have k: "0 < ?k" "?k < n" "t + ?k \<le> n" using False tC t by simp_all
    have n31: "n < 2 ^ 31" using less.prems(7) by simp
    note rs = room_sub [OF less.prems(2) k(3) n31]
    have "off + t + ?k = off + n" using k by simp
    moreover have "(off + t) mod ?C = 0" using less.prems(5) tC by simp
    ultimately obtain m3 where m3:
        "fat16_read_internal_from_stream S sp disk cs (int c) (int (off + t)) (int ?k) (out + of_nat t) m2 = Some (0, m3)"
        "load_bytes m3 (out + of_nat t) ?k = map (file_byte img m private c) [off + t..<off + t + ?k]"
        "same_outside (scratch sp fs cs (out + of_nat t) ?k need) m2 m3"
      using less.IH [OF k(2) m2(3) rs(1), of "off + t"] less.prems(3,4,7,8) k(1) unfolding g2 by auto
    have "region out t \<inter> scratch sp fs cs (out + of_nat t) ?k need = {}"
    proof -
      have "region out t \<subseteq> region out n" by (rule region_mono [OF t(2)])
      moreover have "region out t \<inter> region (out + of_nat t) ?k = {}"
        using n31 k(3) by (intro region_split_disjoint) simp
      ultimately show ?thesis using less.prems(2) unfolding room_def scratch_def by blast
    qed
    then have "load_bytes m3 out t = map (file_byte img m private c) [off..<off + t]"
      using m2(2) load_bytes_frame [OF m3(3), of out t] t(2) n31 by simp
    then have "load_bytes m3 out (t + ?k) = map (file_byte img m private c) ([off..<off + t] @ [off + t..<off + t + ?k])"
      using m3(2) by (simp add: load_bytes_add)
    also have "[off..<off + t] @ [off + t..<off + t + ?k] = [off..<off + n]"
      using k(3) t(2) upt_add_eq_append [of off "off + t" ?k] by simp
    finally have "load_bytes m3 out n = map (file_byte img m private c) [off..<off + n]" using t(2) by simp
    moreover have "same_outside (scratch sp fs cs out n need) m m3"
      by (rule same_outside_trans1 [OF f2], rule same_outside_mono [OF m3(3) rs(2)])
    moreover have "c_int (int off + int t) = int (off + t)" using less.prems(7) t(2) by (simp add: c_int_id)
    ultimately show ?thesis using step m3(1) k t(2) by (simp add: u32_of_int_of_nat of_nat_diff)
  qed
qed

lemma read_delivers:
  assumes "ata_reads (controller S) img" and "volume S disk private fs cs m"
    and "room sp disk private fs cs out n need" and "0 < cluster_bytes m private"
    and "stack_need (cluster_bytes m private) \<le> need"
    and "fat16_get_first_cluster m (load32 m (load32 m desc)) = of_nat c" and "c < 65536"
    and "load32 m (desc + 4) = of_nat off" and "off mod cluster_bytes m private = 0"
    and "0 < n" and "off + n < 2 ^ 31" and "on_disk img m private c (off + n)"
    and "region (desc + 4) 4 \<inter> region out n = {}"
  shows "\<exists>m'. fat16_read S sp disk desc (of_nat n) 1 out m = Some (1, m')
    \<and> load_bytes m' out n = map (file_byte img m private c) [off..<off + n]
    \<and> load32 m' (desc + 4) = of_nat (off + n)
    \<and> same_outside (scratch sp fs cs out n need \<union> region (desc + 4) 4) m m'"
proof -
  obtain m1 where m1: "fat16_read_internal_from_stream S sp disk cs (int c) (int off) (int n) out m = Some (0, m1)"
      "load_bytes m1 out n = map (file_byte img m private c) [off..<off + n]"
      "same_outside (scratch sp fs cs out n need) m m1"
    using read_from_stream [OF assms(1,7,2-5,9-12)] by blast
  have v: "disk_fs_private m disk = private" "cluster_read_stream m private = cs"
    using assms(2) by (simp_all add: volume_def)
  have i: "int_of_u32 (of_nat k) = int k" if "k < 2 ^ 31" for k
    using that by (subst int_of_u32_small) (simp_all del: of_nat_unat)
  have n: "off < 2 ^ 31" "n < 2 ^ 31" "c < 2 ^ 31" using assms(7,11) by simp_all
  have sum: "u32_of_int (int off) + of_nat n = of_nat (off + n)" by (simp add: u32_of_int_of_nat)
  let ?it = "load32 m (load32 m desc)"
  have loop: "fat16_read_loop S sp disk ?it (of_nat n) 1 0 (int off) out m = Some (0, int (off + n), m1)"
  proof -
    have l: "fat16_read_loop S sp disk ?it (of_nat n) 1 1 (int (off + n)) (out + of_nat n) m1 = Some (0, int (off + n), m1)"
      by (subst fat16_read_loop.simps) simp
    have r: "fat16_read_internal S sp disk (int_of_u32 (fat16_get_first_cluster m ?it)) (int off) (int_of_u32 (of_nat n)) out m
        = Some (0, m1)"
      using m1(1) unfolding fat16_read_internal_def Let_def v assms(6) i [OF n(2)] i [OF n(3)] .
    have z: "(0 :: u32) < 1" "(0 :: u32) + 1 = 1" "\<not> (0 :: int) < 0" by simp_all
    show ?thesis
      by (subst fat16_read_loop.simps)
        (simp only: z r if_True if_False Option.bind.bind_lunit prod.case sum i [OF assms(11)] l)
  qed
  have "fat16_read S sp disk desc (of_nat n) 1 out m = Some (1, store32 m1 (desc + 4) (of_nat (off + n)))"
  proof -
    have "\<not> (0 :: int) < 0" "int_of_u32 1 = 1" by (simp_all add: int_of_u32_small)
    then show ?thesis
      using loop
      by (simp only: fat16_read_def Let_def assms(8) i [OF n(1)] Option.bind.bind_lunit prod.case if_False u32_of_int_of_nat)
  qed
  moreover have "load_bytes (store32 m1 (desc + 4) (of_nat (off + n))) out n = load_bytes m1 out n"
    by (rule load_bytes_frame [OF store32_frame]) (use assms(13) n(2) in auto)
  moreover have "same_outside (scratch sp fs cs out n need \<union> region (desc + 4) 4) m (store32 m1 (desc + 4) (of_nat (off + n)))"
    by (rule same_outside_trans [OF m1(3) store32_frame])
  ultimately show ?thesis using m1(2) by (simp add: off_simps)
qed

text \<open>
  C2. Reading a block of a file whose position is at the start of a cluster delivers exactly
  the bytes of the file's clusters in chain order, whatever their places on the disk, and
  advances the position by the size of the block.
\<close>

theorem fat16_read_delivers:
  assumes "ata_reads (controller S) img" and "volume S disk private fs cs m"
    and "room sp disk private fs cs out n need" and "0 < cluster_bytes m private"
    and "stack_need (cluster_bytes m private) \<le> need"
    and "fat16_get_first_cluster m (load32 m (load32 m desc)) = of_nat c" and "c < 65536"
    and "load32 m (desc + 4) = of_nat off" and "off mod cluster_bytes m private = 0"
    and "0 < n" and "off + n < 2 ^ 31" and "on_disk img m private c (off + n)"
    and "region (desc + 4) 4 \<inter> region out n = {}"
  shows "\<exists>m'. fat16_read S sp disk desc (of_nat n) 1 out m = Some (1, m')
    \<and> load_bytes m' out n = map (file_byte img m private c) [off..<off + n]
    \<and> load32 m' (desc + 4) = of_nat (off + n)
    \<and> same_outside (scratch sp fs cs out n need \<union> region (desc + 4) 4) m m'"
  using assms by (rule read_delivers)

section \<open>An example volume\<close>

text \<open>
  One reserved sector, one sector per cluster, data from sector 10 on; cluster 2 is followed
  by cluster 3. All other bytes of the disk are the low bytes of their positions.
\<close>

definition demo_image :: "nat \<Rightarrow> u8" where
  "demo_image i = (if i = 516 then 3 else if i = 517 then 0 else of_nat i)"

definition demo_volume :: mem where
  "demo_volume = store32 (store32 (store32 (store32 (store32 (store32 (store32 (store32 (store32 (store32 (store32 (\<lambda>_. 0)
     0x134018 0x20000) 0x130010 0x131000) 0x130004 512) 0x131054 0x132000) 0x131050 0x133000) 0x132004 0x8000) 0x133004 0x8000)
     0x13100C 0x10100) 0x13104C 10) 0x135000 0x134000) 0x136000 0x135000"

lemma demo_volume_ok: "volume (demo_sys demo_image) 0x130000 0x131000 0x132000 0x133000 demo_volume"
proof -
  have "int_of_u32 512 = 512" by (simp add: int_of_u32_small)
  then show ?thesis
    by (simp add: volume_def demo_volume_def disk_fs_private_def disk_sector_size_def fat_read_stream_def
        cluster_read_stream_def stream_disk_def demo_sys_def off_simps)
qed

lemma demo_volume_room: "room 0x600000 0x130000 0x131000 0x132000 0x133000 0x140000 600 4096"
  by (auto simp: room_def fields_def scratch_def stack_def region_eq_range)

lemma demo_volume_geometry:
  "cluster_bytes demo_volume 0x131000 = 512" "load16 demo_volume 0x13100E = 1"
  "root_last_sector_pos demo_volume 0x131000 = 10" "sectors_per_cluster demo_volume 0x131000 = 1"
proof -
  have b: "demo_volume 0x13100D = 1" "demo_volume 0x13100E = 1" "demo_volume 0x13100F = 0"
    unfolding demo_volume_def by (simp_all add: off_simps, simp_all add: store32_def drop_bit_eq_div)
  show "cluster_bytes demo_volume 0x131000 = 512" "sectors_per_cluster demo_volume 0x131000 = 1"
    by (simp_all add: cluster_bytes_def sectors_per_cluster_def b)
  show "load16 demo_volume 0x13100E = 1" by (simp add: load16_def b)
  have "load32 demo_volume 0x13104C = 10" by (simp add: demo_volume_def off_simps)
  then show "root_last_sector_pos demo_volume 0x131000 = 10"
    by (simp add: root_last_sector_pos_def int_of_u32_small)
qed

lemma demo_next: "next_cluster demo_image (Suc 0) 2 = 3"
  by (simp add: next_cluster_def fat_word_def demo_image_def)

lemma demo_on_disk: "on_disk demo_image demo_volume 0x131000 2 600"
proof -
  have "\<exists>e. follow (next_cluster demo_image 1) j 2 = Some e \<and> e \<in> {2, 3}" if "j * 512 < 600" for j
  proof -
    have "j = 0 \<or> j = 1" using that by linarith
    then show ?thesis using demo_next by (auto simp: stop_marks_def)
  qed
  then show ?thesis
    unfolding on_disk_def demo_volume_geometry cluster_start_def
    by (fastforce simp: demo_volume_geometry)
qed

theorem fat16_get_cluster_for_offset_follows_witness:
  "\<exists>m'. fat16_get_cluster_for_offset (demo_sys demo_image) 0x600000 0x130000 2 600 demo_volume = Some (3, m')"
  using fat16_get_cluster_for_offset_follows [OF demo_reads demo_volume_room demo_volume_ok, of 2 600]
  by (simp add: demo_volume_geometry demo_next stop_marks_def) blast

theorem fat16_read_delivers_witness:
  "\<exists>m'. fat16_read (demo_sys demo_image) 0x600000 0x130000 0x136000 600 1 0x140000 demo_volume = Some (1, m')
    \<and> m' 0x140000 = demo_image 5120 \<and> m' 0x140200 = demo_image 5632"
proof -
  have d: "load32 demo_volume 0x136000 = 0x135000" "load32 demo_volume 0x135000 = 0x134000"
    "load32 demo_volume 0x136004 = of_nat 0"
    by (simp_all add: demo_volume_def off_simps)
  have b: "demo_volume 0x134014 = 0" "demo_volume 0x134015 = 0" "demo_volume 0x13401A = 2" "demo_volume 0x13401B = 0"
    unfolding demo_volume_def by (simp_all add: off_simps, simp_all add: store32_def drop_bit_eq_div)
  have f: "fat16_get_first_cluster demo_volume (load32 demo_volume (load32 demo_volume 0x136000)) = of_nat 2"
    by (simp add: fat16_get_first_cluster_def d load16_def b)
  have "region (0x136000 + 4) 4 \<inter> region 0x140000 600 = ({} :: u32 set)" by (auto simp: region_eq_range)
  then obtain m' where m': "fat16_read (demo_sys demo_image) 0x600000 0x130000 0x136000 600 1 0x140000 demo_volume = Some (1, m')"
      "load_bytes m' 0x140000 600 = map (file_byte demo_image demo_volume 0x131000 2) [0..<600]"
    using fat16_read_delivers [OF demo_reads demo_volume_ok demo_volume_room _ _ f, of 0] d(3) demo_on_disk
    by (auto simp: demo_volume_geometry stack_need_def)
  have "load_bytes m' 0x140000 600 ! 0 = file_byte demo_image demo_volume 0x131000 2 0"
    "load_bytes m' 0x140000 600 ! 512 = file_byte demo_image demo_volume 0x131000 2 512"
    unfolding m'(2) by simp_all
  then show ?thesis
    using m'(1) by (simp add: file_byte_def demo_volume_geometry cluster_start_def demo_next stop_marks_def)
qed

end
