(* ===== verification/FatDirSpec.thy ===== *)
theory FatDirSpec
  imports FatSpec
begin

text \<open>
  Counting the entries of a directory: the loop reads one 32 byte entry after the other
  through a stream. The sixteenth entry ends at the end of a sector, where the stream falls
  back to the second entry, so the count is right when one of the first sixteen entries is
  the unused one that ends the directory, and the loop does not end otherwise.
\<close>

section \<open>One entry\<close>

definition entry_byte :: "(nat \<Rightarrow> u8) \<Rightarrow> nat \<Rightarrow> nat \<Rightarrow> u8" where
  "entry_byte img start k = img (start + 32 * k)"

definition entry_after :: "nat \<Rightarrow> nat" where
  "entry_after k = (if k = 15 then 1 else k + 1)"

lemma entry_after_le: "k \<le> 15 \<Longrightarrow> entry_after k \<le> 15"
  by (simp add: entry_after_def)

lemma read_entry:
  assumes ata: "ata_reads (controller S) img" and st: "stream_at S m s (int (start + 32 * k))"
    and start: "start mod 512 = 0" "start + 2048 < 2 ^ 31" and k: "k \<le> 15" and rm: "read_room sp s item 32"
  shows "\<exists>m'. diskstreamer_read S sp s item 32 m = Some (0, m') \<and> m' item = entry_byte img start k
    \<and> stream_at S m' s (int (start + 32 * entry_after k))"
proof -
  let ?p = "start + 32 * k"
  have md: "?p mod 512 = 32 * k"
  proof -
    have "?p mod 512 = (start mod 512 + 32 * k) mod 512" by (simp add: mod_add_left_eq)
    then show ?thesis using start(1) k by simp
  qed
  have small: "?p + 32 < 2 ^ 31" "?p + 32 + 512 < 2 ^ 31" using start(2) k by simp_all
  have hd: "m' item = entry_byte img start k" if "load_bytes m' item 32 = image_bytes img ?p 32" for m'
    using arg_cong [OF that, of "\<lambda>xs. xs ! 0"] by (simp add: entry_byte_def)
  show ?thesis
  proof (cases "k = 15")
    case False
    then have "?p mod 512 + 32 < 512" using k unfolding md by simp
    moreover have "?p + 32 = start + 32 * entry_after k" using False by (simp add: entry_after_def)
    ultimately obtain m' where m': "diskstreamer_read S sp s item (int 32) m = Some (0, m')"
        "read_effect img S sp s item ?p 32 (start + 32 * entry_after k) (stack_need 32) m m'"
      using read_inside [OF ata st _ small(1) rm] by metis
    then have "stream_at S m' s (int (start + 32 * entry_after k))" "load_bytes m' item 32 = image_bytes img ?p 32"
      unfolding read_effect_def by blast+
    with m'(1) show ?thesis using hd by auto
  next
    case True
    then have o: "?p mod 512 = 480" unfolding md by simp
    then have "0 < ?p mod 512" "512 \<le> ?p mod 512 + 32" by simp_all
    then obtain m' where "diskstreamer_read S sp s item (int 32) m = Some (0, m')"
        "read_effect img S sp s item ?p (512 - ?p mod 512 + (32 - 512)) (?p + 32 - ?p mod 512) (stack_need 32) m m'"
      using read_misaligned [OF ata st _ _ small(2) rm] by blast
    moreover have "?p + 32 - ?p mod 512 = start + 32 * entry_after k" using True o by (simp add: entry_after_def)
    moreover have "512 - ?p mod 512 + (32 - 512) = 32" using o by simp
    ultimately show ?thesis using hd unfolding read_effect_def by auto
  qed
qed

section \<open>The loop\<close>

text \<open>Entries that start with 0xE5 are deleted and not counted.\<close>

definition used_entries :: "(nat \<Rightarrow> u8) \<Rightarrow> nat \<Rightarrow> nat \<Rightarrow> nat \<Rightarrow> nat" where
  "used_entries img start k j = length (filter (\<lambda>i. entry_byte img start i \<noteq> 0xE5) [k..<j])"

lemma used_entries_step: "k < j \<Longrightarrow> used_entries img start k j =
  (if entry_byte img start k = 0xE5 then used_entries img start (Suc k) j else Suc (used_entries img start (Suc k) j))"
  by (simp add: used_entries_def upt_conv_Cons)

lemma count_step:
  assumes "ata_reads (controller S) img" and "stream_at S m s (int (start + 32 * k))"
    and "start mod 512 = 0" "start + 2048 < 2 ^ 31" and "k \<le> 15" and "read_room sp s item 32"
  shows "\<exists>m'. fat16_count_items S sp s item i m =
      (if entry_byte img start k = 0 then Some (i, m')
       else if entry_byte img start k = 0xE5 then fat16_count_items S sp s item i m'
       else fat16_count_items S sp s item (c_int (i + 1)) m')
    \<and> stream_at S m' s (int (start + 32 * entry_after k))"
proof -
  obtain m' where "diskstreamer_read S sp s item 32 m = Some (0, m')" "m' item = entry_byte img start k"
      "stream_at S m' s (int (start + 32 * entry_after k))"
    using read_entry [OF assms] by blast
  then show ?thesis by (subst fat16_count_items.simps) auto
qed

lemma count_ends:
  assumes ata: "ata_reads (controller S) img" and start: "start mod 512 = 0" "start + 2048 < 2 ^ 31"
    and rm: "read_room sp s item 32" and j: "j \<le> 15" "entry_byte img start j = 0"
      "\<And>i. i < j \<Longrightarrow> entry_byte img start i \<noteq> 0"
    and k: "k \<le> j" and st: "stream_at S m s (int (start + 32 * k))" and c: "c \<le> k"
  shows "\<exists>m'. fat16_count_items S sp s item (int c) m = Some (int (c + used_entries img start k j), m')"
  using k st c
proof (induction "j - k" arbitrary: k m c)
  case 0
  then have "k = j" by simp
  then show ?case
    using count_step [OF ata 0(3) start j(1) [folded \<open>k = j\<close>] rm, of "int c"] j(2) by (auto simp: used_entries_def)
next
  case (Suc n)
  then have kj: "k < j" "k \<le> 15" using j(1) by simp_all
  obtain m' where m': "fat16_count_items S sp s item (int c) m =
        (if entry_byte img start k = 0xE5 then fat16_count_items S sp s item (int c) m'
         else fat16_count_items S sp s item (c_int (int c + 1)) m')"
      "stream_at S m' s (int (start + 32 * Suc k))"
    using count_step [OF ata Suc.prems(2) start kj(2) rm, of "int c"] j(1,3) kj by (auto simp: entry_after_def)
  have n: "n = j - Suc k" "Suc k \<le> j" using Suc.hyps(2) kj by simp_all
  show ?case
  proof (cases "entry_byte img start k = 0xE5")
    case True
    then show ?thesis using Suc.hyps(1) [OF n m'(2) le_SucI [OF Suc.prems(3)]] m'(1) used_entries_step [OF kj(1)] by simp
  next
    case False
    have "Suc c \<le> Suc k" "c_int (int c + 1) = int (Suc c)" using Suc.prems(3) kj(2) by (simp_all add: c_int_id)
    then show ?thesis
      using Suc.hyps(1) [OF n m'(2), of "Suc c"] m'(1) used_entries_step [OF kj(1)] False by simp
  qed
qed

lemma count_diverges:
  assumes ata: "ata_reads (controller S) img" and start: "start mod 512 = 0" "start + 2048 < 2 ^ 31"
    and rm: "read_room sp s item 32" and nz: "\<And>i. i \<le> 15 \<Longrightarrow> entry_byte img start i \<noteq> 0"
    and k: "k \<le> 15" "stream_at S m s (int (start + 32 * k))"
  shows "fat16_count_items S sp s item i m = None"
proof (rule ccontr)
  define P where "P S' sp' s' item' i' m' r' \<longleftrightarrow>
      (S' = S \<and> sp' = sp \<and> s' = s \<and> item' = item \<longrightarrow> (\<forall>k \<le> 15. \<not> stream_at S m' s (int (start + 32 * k))))"
    for S' :: sys and sp' s' item' :: u32 and i' :: int and m' :: mem and r' :: "int \<times> mem"
  assume "fat16_count_items S sp s item i m \<noteq> None"
  then obtain r where "fat16_count_items S sp s item i m = Some r" by blast
  then have "P S sp s item i m r"
  proof (rule fat16_count_items.raw_induct [rotated])
    fix count S' sp' s' item' i' m1 r'
    assume IH: "\<And>S' sp' s' item' i' m' r'. count S' sp' s' item' i' m' = Some r' \<Longrightarrow> P S' sp' s' item' i' m' r'"
      and body: "diskstreamer_read S' sp' s' item' 32 m1 \<bind> (\<lambda>(res, m).
          if res \<noteq> SIMPOS_ALL_OK then Some (- EIO, m)
          else if m item' = 0x00 then Some (i', m)
          else if m item' = 0xE5 then count S' sp' s' item' i' m
          else count S' sp' s' item' (c_int (i' + 1)) m) = Some r'"
    show "P S' sp' s' item' i' m1 r'"
      unfolding P_def
    proof (intro impI allI notI, elim conjE)
      fix k assume e: "S' = S" "sp' = sp" "s' = s" "item' = item" and k: "k \<le> 15" "stream_at S m1 s (int (start + 32 * k))"
      obtain m' where m': "diskstreamer_read S sp s item 32 m1 = Some (0, m')" "m' item = entry_byte img start k"
          "stream_at S m' s (int (start + 32 * entry_after k))"
        using read_entry [OF ata k(2) start k(1) rm] by blast
      have "count S sp s item i' m' = Some r' \<or> count S sp s item (c_int (i' + 1)) m' = Some r'"
        using body m'(1,2) nz [OF k(1)] unfolding e by (auto split: if_splits)
      then show False using IH m'(3) entry_after_le [OF k(1)] unfolding P_def by blast
    qed
  qed
  then show False using k by (auto simp: P_def)
qed

section \<open>A directory\<close>

text \<open>
  The room of a directory scan: the structures of the volume with the directory stream \<open>ds\<close>,
  and below the stack pointer two entries and the buffers of the reads.
\<close>

definition directory_room :: "sys \<Rightarrow> u32 \<Rightarrow> u32 \<Rightarrow> u32 \<Rightarrow> u32 \<Rightarrow> mem \<Rightarrow> bool" where
  "directory_room S sp disk private ds m \<longleftrightarrow> disk_fs_private m disk = private \<and> disk_sector_size m disk = 512
     \<and> directory_stream m private = ds \<and> stream_disk m ds = disk_addr S
     \<and> (region disk 20 \<union> region private 92 \<union> region ds 8) \<inter> stack sp 1088 = {}"

lemma directory_stack:
  "stack sp 1088 = region (sp - 32) 32 \<union> region (sp - 64) 32 \<union> stack (sp - 64) 1024"
proof -
  have "stack sp 1088 = stack sp 32 \<union> (stack (sp - of_nat 32) 32 \<union> stack (sp - of_nat 32 - of_nat 32) 1024)"
    using stack_split [of 32 1056 sp] stack_split [of 32 1024 "sp - of_nat 32"] by simp
  then show ?thesis by (simp add: stack_def Un_assoc)
qed

lemma directory_start:
  assumes room: "directory_room S sp disk private ds m" and sec: "sector < 2 ^ 21"
  obtains m1 where "stream_at S m1 ds (int (512 * sector))" "read_room (sp - 64) ds (sp - 32) 32"
    "fat16_get_total_items_for_directory S sp disk (of_nat sector) m =
      fat16_count_items S (sp - 64) ds (sp - 32) 0 m1"
proof
  let ?m = "memset m (sp - 64) 0 32"
  let ?m1 = "store32 ?m ds (of_nat (512 * sector))"
  note r = room [unfolded directory_room_def directory_stack]
  have f: "same_outside (region (sp - 64) 32) m ?m" using memset_frame [of "sp - 64" 32 m 0] by simp
  have keep: "load32 ?m (p + j) = load32 m (p + j)" if "region p n \<inter> region (sp - 64) 32 = {}" "unat j + 4 \<le> n" "n \<le> 2 ^ 32" for p j n
    by (rule load32_same_outside [OF f]) (use sub_region [OF that(2,3), of p] that(1) in blast)
  have v: "disk_fs_private ?m disk = private" "disk_sector_size ?m disk = 512" "directory_stream ?m private = ds"
      "stream_disk ?m ds = disk_addr S"
  proof -
    have d: "region disk 20 \<inter> region (sp - 64) 32 = {}" "region private 92 \<inter> region (sp - 64) 32 = {}"
        "region ds 8 \<inter> region (sp - 64) 32 = {}"
      using r by blast+
    show "disk_fs_private ?m disk = private" "disk_sector_size ?m disk = 512" "directory_stream ?m private = ds"
        "stream_disk ?m ds = disk_addr S"
      using r keep [OF d(1), of 16] keep [OF d(1), of 4] keep [OF d(2), of 88] keep [OF d(3), of 4]
      by (simp_all add: disk_fs_private_def disk_sector_size_def directory_stream_def stream_disk_def)
  qed
  have p: "int_of_u32 (of_nat (512 * sector)) = int (512 * sector)"
  proof -
    have u: "unat (of_nat (512 * sector) :: u32) = 512 * sector" using sec by (intro unat_of_nat_u32) simp
    show ?thesis using sec u int_of_u32_small [of "of_nat (512 * sector)"] by (simp del: of_nat_unat of_nat_mult)
  qed
  show "stream_at S ?m1 ds (int (512 * sector))"
    using v(4) p by (simp add: stream_at_def stream_pos_def stream_disk_def off_simps)
  have "region (sp - 64 - of_nat 1024) (1024 + 32) \<inter> region (sp - 64 - of_nat 1024 + of_nat (1024 + 32)) 32 = {}"
    by (rule region_split_disjoint) simp
  then have "region (sp - 32) 32 \<inter> stack (sp - 64) 1024 = {}"
    using region_mono [of 1024 "1024 + 32" "sp - 64 - of_nat 1024"] by (auto simp: stack_def)
  then show "read_room (sp - 64) ds (sp - 32) 32" using r by (auto simp: read_room_def stack_need_def)
  have "of_nat sector * u32_of_int 512 = of_nat (512 * sector)" by simp
  then show "fat16_get_total_items_for_directory S sp disk (of_nat sector) m =
      fat16_count_items S (sp - 64) ds (sp - 32) 0 ?m1"
    by (simp only: fat16_get_total_items_for_directory_def Let_def v p diskstreamer_seek_def prod.case u32_of_int_of_nat)
      simp
qed

text \<open>
  C23. The scan of a directory returns exactly when one of its first sixteen entries starts with
  a zero byte, and then gives the number of entries before the first such one that are not
  deleted. With sixteen entries in use the kernel hangs, already when it mounts the disk.
\<close>

theorem fat16_directory_count:
  assumes "ata_reads (controller S) img" and "directory_room S sp disk private ds m" and "sector < 2 ^ 21"
  shows "if \<exists>j < 16. entry_byte img (512 * sector) j = 0
    then \<exists>m'. fat16_get_total_items_for_directory S sp disk (of_nat sector) m =
      Some (int (used_entries img (512 * sector) 0 (LEAST j. entry_byte img (512 * sector) j = 0)), m')
    else fat16_get_total_items_for_directory S sp disk (of_nat sector) m = None"
proof -
  obtain m1 where m1: "stream_at S m1 ds (int (512 * sector + 32 * 0))" "read_room (sp - 64) ds (sp - 32) 32"
    "fat16_get_total_items_for_directory S sp disk (of_nat sector) m =
      fat16_count_items S (sp - 64) ds (sp - 32) (int 0) m1"
    using directory_start [OF assms(2,3)] by auto
  have start: "512 * sector mod 512 = 0" "512 * sector + 2048 < 2 ^ 31" using assms(3) by simp_all
  show ?thesis
  proof (cases "\<exists>j < 16. entry_byte img (512 * sector) j = 0")
    case True
    let ?j = "LEAST j. entry_byte img (512 * sector) j = 0"
    obtain i where i: "i < 16" "entry_byte img (512 * sector) i = 0" using True by blast
    then have "?j \<le> i" by (intro Least_le)
    then have j: "?j \<le> 15" using i(1) by simp
    have z: "entry_byte img (512 * sector) ?j = 0" using i(2) by (rule LeastI)
    have nz: "entry_byte img (512 * sector) k \<noteq> 0" if "k < ?j" for k using that by (rule not_less_Least)
    have "\<exists>m'. fat16_count_items S (sp - 64) ds (sp - 32) (int 0) m1 =
        Some (int (0 + used_entries img (512 * sector) 0 ?j), m')"
      by (rule count_ends [OF assms(1) start m1(2) j z nz _ m1(1)]) simp_all
    then show ?thesis using m1(3) True by simp
  next
    case False
    then have "fat16_count_items S (sp - 64) ds (sp - 32) (int 0) m1 = None"
      by (intro count_diverges [OF assms(1) start m1(2) _ _ m1(1)]) auto
    then show ?thesis using False m1(3) by simp
  qed
qed

text \<open>A disk whose first directory ends after three entries, the second deleted, and a full one.\<close>

definition demo_directory :: "nat \<Rightarrow> u8" where
  "demo_directory i = (if i = 5152 then 0xE5 else if i = 5216 then 0 else 65)"

definition demo_directory_mem :: mem where
  "demo_directory_mem = store32 (store32 (store32 (store32 (\<lambda>_. 0) 0x130010 0x131000) 0x130004 512) 0x131058 0x132000) 0x132004 0x8000"

lemma demo_directory_room: "directory_room (demo_sys demo_directory) 0x600000 0x130000 0x131000 0x132000 demo_directory_mem"
proof -
  have "int_of_u32 512 = 512" by (simp add: int_of_u32_small)
  moreover have "(region 0x130000 20 \<union> region 0x131000 92 \<union> region 0x132000 8) \<inter> stack 0x600000 1088 = {}"
    by (auto simp: stack_def region_eq_range)
  ultimately show ?thesis
    by (simp add: directory_room_def demo_directory_mem_def disk_fs_private_def disk_sector_size_def
        directory_stream_def stream_disk_def demo_sys_def off_simps)
qed

theorem fat16_directory_count_witness:
  "(\<exists>m'. fat16_get_total_items_for_directory (demo_sys demo_directory) 0x600000 0x130000 10 demo_directory_mem = Some (2, m'))
    \<and> fat16_get_total_items_for_directory (demo_sys demo_directory) 0x600000 0x130000 11 demo_directory_mem = None"
proof
  have e: "entry_byte demo_directory 5120 j = (if j = 1 then 0xE5 else if j = 3 then 0 else 65)" for j
    by (auto simp: entry_byte_def demo_directory_def)
  have "(LEAST j. entry_byte demo_directory 5120 j = 0) = 3"
    by (rule Least_equality) (auto simp: e split: if_splits)
  moreover have "used_entries demo_directory 5120 0 3 = 2" by (simp add: used_entries_def e upt_rec)
  moreover have "\<exists>j < 16. entry_byte demo_directory 5120 j = 0" by (intro exI [of _ 3]) (simp add: e)
  ultimately show "\<exists>m'. fat16_get_total_items_for_directory (demo_sys demo_directory) 0x600000 0x130000 10 demo_directory_mem = Some (2, m')"
    using fat16_directory_count [OF demo_reads demo_directory_room, of 10] by simp
  have "\<not> (\<exists>j < 16. entry_byte demo_directory 5632 j = 0)" by (simp add: entry_byte_def demo_directory_def)
  then show "fat16_get_total_items_for_directory (demo_sys demo_directory) 0x600000 0x130000 11 demo_directory_mem = None"
    using fat16_directory_count [OF demo_reads demo_directory_room, of 11]
    by (simp split: if_splits)
qed

end
