(* ===== verification/FatFindSpec.thy ===== *)
theory FatFindSpec
  imports Fat16 HeapClient
begin

text \<open>
  Looking up a file: the 8.3 name of a directory entry and the search of a directory by name.
\<close>

section \<open>8.3 names\<close>

definition unpadded :: "u8 list \<Rightarrow> u8 list" where
  "unpadded bs = takeWhile (\<lambda>c. c \<noteq> 0 \<and> c \<noteq> 32) bs"

text \<open>An entry starts with eight bytes of name and three of extension, padded with spaces.\<close>

definition short_name :: "u8 list \<Rightarrow> u8 list" where
  "short_name e = unpadded (take 8 e) @
     (if unpadded (take 3 (drop 8 e)) = [] then [] else 46 # unpadded (take 3 (drop 8 e)))"

lemma unpadded_nonzero: "0 \<notin> set (unpadded bs)"
  by (auto simp: unpadded_def dest: set_takeWhileD)

lemma unpadded_le: "length (unpadded bs) \<le> length bs"
  by (simp add: unpadded_def length_takeWhile_le)

lemma load_bytes_Suc: "load_bytes m p (Suc n) = m p # load_bytes m (p + 1) n"
  using load_bytes_add [of m p 1 n] by (simp add: load_bytes_def)

lemma proper_loop:
  "unat sz = unat i + Suc n \<Longrightarrow> region out (Suc n) \<inter> region inp (Suc n) = {} \<Longrightarrow> n < 2 ^ 31
    \<Longrightarrow> \<exists>m'. fat16_proper_loop out inp sz i m = (out + of_nat (length (unpadded (load_bytes m inp (Suc n)))), m')
      \<and> load_bytes m' out (length (unpadded (load_bytes m inp (Suc n)))) = unpadded (load_bytes m inp (Suc n))
      \<and> same_outside (region out (Suc n)) m m'"
proof (induction n arbitrary: out inp i m)
  case 0
  let ?c = "m inp"
  have "sz - 1 \<le> i" using 0(1) by (simp add: word_le_nat_alt unat_sub_if')
  then have "fat16_proper_loop out inp sz i m = (if ?c \<noteq> 0 \<and> ?c \<noteq> 32 then (out + 1, m(out := ?c)) else (out, m))"
    by (subst fat16_proper_loop.simps) simp
  then show ?case
    by (auto simp: unpadded_def load_bytes_def same_outside_upd in_region_self)
next
  case (Suc n)
  let ?c = "m inp" and ?m = "m(out := m inp)"
  let ?w = "unpadded (load_bytes m (inp + 1) (Suc n))"
  have split: "unpadded (load_bytes m inp (Suc (Suc n))) = (if ?c \<noteq> 0 \<and> ?c \<noteq> 32 then ?c # ?w else [])"
    by (subst load_bytes_Suc) (simp add: unpadded_def)
  show ?case
  proof (cases "?c \<noteq> 0 \<and> ?c \<noteq> 32")
    case False
    then have "fat16_proper_loop out inp sz i m = (out, m)" by (subst fat16_proper_loop.simps) auto
    then show ?thesis unfolding split using False by auto
  next
    case True
    have i: "\<not> sz - 1 \<le> i" "unat sz = unat (i + 1) + Suc n"
    proof -
      have "unat (sz - 1) = unat sz - 1" using Suc.prems(1) by (intro unat_pred_u32) auto
      then show "\<not> sz - 1 \<le> i" using Suc.prems(1) by (simp add: word_le_nat_alt)
      then show "unat sz = unat (i + 1) + Suc n" using Suc.prems(1) by (simp add: not_le unat_Suc_u32)
    qed
    have sub: "region (out + 1) (Suc n) \<subseteq> region out (Suc (Suc n))" "region (inp + 1) (Suc n) \<subseteq> region inp (Suc (Suc n))"
      using region_shift_subset [of out "Suc (Suc n)"] region_shift_subset [of inp "Suc (Suc n)"] by simp_all
    have out: "out \<in> region out (Suc (Suc n))" by (simp add: in_region_self)
    have f: "same_outside {out} m ?m" by (simp add: same_outside_upd)
    have "region (inp + 1) (Suc n) \<inter> {out} = {}" using Suc.prems(2) sub(2) out by blast
    then have same: "load_bytes ?m (inp + 1) (Suc n) = load_bytes m (inp + 1) (Suc n)"
      using Suc.prems(3) by (intro load_bytes_frame [OF f]) simp_all
    have "region (out + 1) (Suc n) \<inter> region (inp + 1) (Suc n) = {}" "n < 2 ^ 31" using Suc.prems(2,3) sub by auto
    from Suc.IH [OF i(2) this, of ?m] obtain m' where m':
        "fat16_proper_loop (out + 1) (inp + 1) sz (i + 1) ?m = (out + 1 + of_nat (length ?w), m')"
        "load_bytes m' (out + 1) (length ?w) = ?w" "same_outside (region (out + 1) (Suc n)) ?m m'"
      unfolding same by blast
    have "out \<notin> region (out + 1) (Suc n)" using region_head [of "Suc (Suc n)" out] Suc.prems(3) by simp
    then have "m' out = ?c" using same_outsideD [OF m'(3)] by simp
    then have "load_bytes m' out (Suc (length ?w)) = ?c # ?w"
      using load_bytes_Suc [of m' out "length ?w"] m'(2) by (simp only:)
    moreover have "fat16_proper_loop out inp sz i m = (out + 1 + of_nat (length ?w), m')"
      using True i(1) m'(1) by (subst fat16_proper_loop.simps) simp
    moreover have "same_outside (region out (Suc (Suc n))) m m'"
      using same_outside_mono [OF f] same_outside_mono [OF m'(3) sub(1)] out by (blast intro: same_outside_trans1)
    ultimately show ?thesis unfolding split using True by (auto simp: add.assoc)
  qed
qed

text \<open>One part of the name: its text and a terminator behind it.\<close>

lemma proper_string:
  fixes w m inp n
  defines "w \<equiv> unpadded (load_bytes m inp n)"
  assumes "0 < n" "n < 2 ^ 31" "region out (Suc n) \<inter> region inp n = {}"
  shows "\<exists>m'. fat16_to_proper_string out inp (of_nat n) m = (out + of_nat (length w), m')
    \<and> cstr m' out w \<and> load_bytes m' out (length w) = w \<and> same_outside (region out (Suc n)) m m'"
proof -
  obtain k where n: "n = Suc k" using assms(2) by (cases n) auto
  have "unat (of_nat n :: u32) = n" using assms(3) by (intro unat_of_nat_u32) simp
  then have u: "unat (of_nat n :: u32) = unat (0 :: u32) + Suc k" using n by simp
  have sub: "region out n \<subseteq> region out (Suc n)" by (rule region_mono) simp
  have "region out (Suc k) \<inter> region inp (Suc k) = {}" "k < 2 ^ 31" using assms(3,4) sub n by auto
  from proper_loop [OF u this, of m] obtain m1 where m1:
      "fat16_proper_loop out inp (of_nat n) 0 m = (out + of_nat (length w), m1)"
      "load_bytes m1 out (length w) = w" "same_outside (region out n) m m1"
    unfolding w_def n by blast
  let ?e = "out + of_nat (length w)"
  have l: "length w \<le> n" using unpadded_le [of "load_bytes m inp n"] by (simp add: w_def)
  have e: "?e \<in> region out (Suc n)" using l assms(3) by (intro in_region_offset) simp_all
  have b: "(m1(?e := 0)) (out + of_nat j) = w ! j" if "j < length w" for j
  proof -
    have "out + of_nat j \<noteq> ?e" using that l assms(3) of_nat_u32_inj [of j "length w"] by auto
    then show ?thesis using load_bytes_nth [OF that, of m1 out] m1(2) by simp
  qed
  have "0 \<notin> set w" by (simp add: w_def unpadded_nonzero)
  then have "cstr (m1(?e := 0)) out w" by (intro cstrI) (use b in auto)
  moreover have "load_bytes (m1(?e := 0)) out (length w) = w" by (rule nth_equalityI) (use b in simp_all)
  moreover have "same_outside (region out (Suc n)) m (m1(?e := 0))"
    using same_outside_mono [OF m1(3) sub] same_outside_upd [OF e] by (blast intro: same_outside_trans1)
  ultimately show ?thesis using m1(1) by (simp add: fat16_to_proper_string_def)
qed

text \<open>The buffer of 108 bytes holds the name, with nothing else written.\<close>

lemma cstr_append_dot:
  assumes "load_bytes m out (length v) = v" "0 \<notin> set v" "m (out + of_nat (length v)) = 46"
    and "cstr m (out + of_nat (length v) + 1) w"
  shows "cstr m out (v @ 46 # w)"
  using assms
proof (induction v arbitrary: out)
  case (Cons c v)
  have "m out # load_bytes m (out + 1) (length v) = c # v" using Cons.prems(1) by (simp add: load_bytes_Suc)
  then show ?case using Cons.IH [of "out + 1"] Cons.prems(2-4) by (simp add: algebra_simps)
qed simp

lemma append_extension:
  fixes v m1 out ext
  defines "m2 \<equiv> m1(out + of_nat (length v) := 46)"
  assumes v: "length v \<le> 8" "load_bytes m1 out (length v) = v" "0 \<notin> set v" and d: "region out 108 \<inter> region ext 3 = {}"
  shows "cstr (snd (fat16_to_proper_string (out + of_nat (length v) + 1) ext 3 m2)) out (v @ 46 # unpadded (load_bytes m1 ext 3))
    \<and> same_outside (region out 108) m1 (snd (fat16_to_proper_string (out + of_nat (length v) + 1) ext 3 m2))"
proof -
  let ?e = "out + of_nat (length v)" and ?w = "unpadded (load_bytes m1 ext 3)"
  have e: "?e \<in> region out 108" using v(1) by (intro in_region_offset) simp_all
  have e1: "of_nat (length v) + 1 = (of_nat (length v + 1) :: u32)" by simp
  have u: "unat (of_nat (length v) + 1 :: u32) = length v + 1"
    unfolding e1 by (rule unat_of_nat_u32) (use v(1) in simp)
  have tail: "region (?e + 1) (Suc 3) \<subseteq> region out 108"
    using v(1) u sub_region [of "of_nat (length v) + 1" "Suc 3" 108 out] by (simp add: add.assoc)
  have f2: "same_outside (region out 108) m1 m2" unfolding m2_def by (rule same_outside_upd [OF e])
  have same2: "load_bytes m2 ext 3 = load_bytes m1 ext 3" using d by (intro load_bytes_frame [OF f2]) auto
  have "region (?e + 1) (Suc 3) \<inter> region ext 3 = {}" using d tail by blast
  from proper_string [OF _ _ this, of m2] obtain m3 where m3:
      "snd (fat16_to_proper_string (?e + 1) ext 3 m2) = m3" "cstr m3 (?e + 1) ?w"
      "same_outside (region (?e + 1) (Suc 3)) m2 m3"
    unfolding same2 by auto
  have keep: "m3 (out + of_nat j) = m2 (out + of_nat j)" if "j \<le> length v" for j
  proof (rule same_outsideD [OF m3(3)])
    have "?e + 1 = out + of_nat (length v + 1)" by (simp add: add.assoc)
    moreover have "region out (length v + 1) \<inter> region (out + of_nat (length v + 1)) (Suc 3) = {}"
      using v(1) by (intro region_split_disjoint) simp
    moreover have "out + of_nat j \<in> region out (length v + 1)" using that v(1) by (intro in_region_offset) simp_all
    ultimately show "out + of_nat j \<notin> region (?e + 1) (Suc 3)" by (simp only:) blast
  qed
  have dot: "m3 ?e = 46" using keep [of "length v"] by (simp add: m2_def)
  have "load_bytes m3 out (length v) = v"
  proof (rule nth_equalityI)
    fix j assume "j < length (load_bytes m3 out (length v))"
    then have j: "j < length v" by simp
    then have "out + of_nat j \<noteq> ?e" using v(1) of_nat_u32_inj [of j "length v"] by auto
    then show "load_bytes m3 out (length v) ! j = v ! j"
      using keep [of j] j v(2) load_bytes_nth [OF j, of m1 out] by (simp add: m2_def)
  qed simp
  then have "cstr m3 out (v @ 46 # ?w)" using v(3) dot m3(2) by (rule cstr_append_dot)
  moreover have "same_outside (region out 108) m1 m3"
    using f2 same_outside_mono [OF m3(3) tail] by (rule same_outside_trans1)
  ultimately show ?thesis by (simp only: m3(1))
qed

lemma relative_filename:
  assumes d: "region out 108 \<inter> region item 32 = {}"
  shows "cstr (fat16_get_full_relative_filename item out 108 m) out (short_name (load_bytes m item 32))
    \<and> same_outside (region out 108) m (fat16_get_full_relative_filename item out 108 m)"
proof -
  let ?m0 = "memset m out 0 108" and ?v = "unpadded (load_bytes m item 8)" and ?w = "unpadded (load_bytes m (item + 8) 3)"
  have parts: "take 8 (load_bytes m item 32) = load_bytes m item 8" "take 3 (drop 8 (load_bytes m item 32)) = load_bytes m (item + 8) 3"
    using load_bytes_add [of m item 8 24] load_bytes_add [of m "item + 8" 3 21] by simp_all
  have rd: "region item 8 \<subseteq> region item 32" "region (item + 8) 3 \<subseteq> region item 32" "item + 8 \<in> region item 32"
    using region_mono [of 8 32 item] sub_region [of 8 3 32 item] in_region_offset [of 8 32 item] by simp_all
  have f0: "same_outside (region out 108) m ?m0" using memset_frame [of out 108 m 0] by simp
  have same0: "load_bytes ?m0 item 8 = load_bytes m item 8" using d rd by (intro load_bytes_frame [OF f0]) auto
  have out8: "region out (Suc 8) \<subseteq> region out 108" by (rule region_mono) simp
  have "region out (Suc 8) \<inter> region item 8 = {}" using d rd out8 by blast
  from proper_string [OF _ _ this, of ?m0] obtain m1 where m1:
      "fat16_to_proper_string out item 8 ?m0 = (out + of_nat (length ?v), m1)" "cstr m1 out ?v"
      "load_bytes m1 out (length ?v) = ?v" "same_outside (region out (Suc 8)) ?m0 m1"
    unfolding same0 by auto
  have f1: "same_outside (region out 108) m m1" using f0 same_outside_mono [OF m1(4) out8] by (rule same_outside_trans1)
  have ext1: "m1 (item + 8) = m (item + 8)" using same_outsideD [OF f1] d rd(3) by blast
  have d3: "region out 108 \<inter> region (item + 8) 3 = {}" using d rd by blast
  have w1: "load_bytes m1 (item + 8) 3 = load_bytes m (item + 8) 3" using d3 by (intro load_bytes_frame [OF f1]) auto
  have hd: "?w = [] \<longleftrightarrow> \<not> (m (item + 8) \<noteq> 0 \<and> m (item + 8) \<noteq> 32)"
    using load_bytes_Suc [of m "item + 8" 2] by (auto simp: unpadded_def numeral_3_eq_3 numeral_2_eq_2)
  have l: "length ?v \<le> 8" using unpadded_le [of "load_bytes m item 8"] by simp
  note x = append_extension [OF l m1(3) unpadded_nonzero d3, unfolded w1]
  show ?thesis
  proof (cases "?w = []")
    case True
    then have "fat16_get_full_relative_filename item out 108 m = m1"
      using hd by (auto simp: fat16_get_full_relative_filename_def Let_def m1(1) ext1)
    then show ?thesis using m1(2) f1 True by (simp add: short_name_def parts)
  next
    case False
    then have "fat16_get_full_relative_filename item out 108 m =
        snd (fat16_to_proper_string (out + of_nat (length ?v) + 1) (item + 8) 3 (m1(out + of_nat (length ?v) := 46)))"
      using hd by (simp add: fat16_get_full_relative_filename_def Let_def m1(1) ext1)
    then show ?thesis using x False f1 by (auto simp: short_name_def parts intro: same_outside_trans1)
  qed
qed

section \<open>A new item for a file\<close>

text \<open>A \<^verbatim>\<open>struct fat_item\<close> for a file whose directory entry has the bytes \<open>e\<close>, in live pages.\<close>

definition file_found :: "(u32 \<rightharpoonup> nat) \<Rightarrow> mem \<Rightarrow> u32 \<Rightarrow> u8 list \<Rightarrow> bool" where
  "file_found L m f e \<longleftrightarrow> f \<noteq> 0 \<and> L f = Some 1 \<and> L (load32 m f) = Some 1
     \<and> load32 m (f + 4) = FAT_ITEM_TYPE_FILE \<and> load_bytes m (load32 m f) 32 = e"

lemma page_parts: "region p 4 \<subseteq> region p 4096" "region (p + 4) 4 \<subseteq> region p 4096" "region p 32 \<subseteq> region p 4096"
  using region_mono [of 4 4096 p] region_mono [of 32 4096 p] sub_region [of 4 4 4096 p] by simp_all

lemma file_found_frame:
  assumes f: "file_found L m f e" and so: "same_outside A m m'"
    and A: "\<And>p. L p = Some 1 \<Longrightarrow> region p 4096 \<inter> A = {}" and L: "\<And>p. L p = Some 1 \<Longrightarrow> L' p = Some 1"
  shows "file_found L' m' f e"
proof -
  let ?c = "load32 m f"
  have "region f 4096 \<inter> A = {}" "region ?c 4096 \<inter> A = {}" using f A by (auto simp: file_found_def)
  then have "region f 4 \<inter> A = {}" "region (f + 4) 4 \<inter> A = {}" "region ?c 32 \<inter> A = {}" using page_parts by blast+
  then have "load32 m' f = ?c" "load32 m' (f + 4) = load32 m (f + 4)" "load_bytes m' ?c 32 = load_bytes m ?c 32"
    using load32_same_outside [OF so] load_bytes_frame [OF so] by simp_all
  then show ?thesis using f L by (auto simp: file_found_def)
qed

lemma file_found_mono: "file_found (grab Map.empty ps) m f e \<Longrightarrow> set ps \<subseteq> set qs \<Longrightarrow> file_found (grab Map.empty qs) m f e"
  by (auto simp: file_found_def grab_def map_add_def split: if_splits)

lemma new_file_item:
  assumes live: "heap_live kheap m L" and av: "2 \<le> heap_avail kheap L"
    and item: "region item 32 \<inter> heap_scratch L = {}" and fl: "item_attribute m item AND FAT_FILE_SUBDIRECTORY = 0"
  obtains f c m' where "fat16_new_fat_item_for_directory_item S kheap sp disk item m = Some (f, m')"
    "L f = None" "L c = None" "f \<noteq> c" "heap_live kheap m' (L(f \<mapsto> 1, c \<mapsto> 1))"
    "heap_avail kheap (L(f \<mapsto> 1, c \<mapsto> 1)) = heap_avail kheap L - 2"
    "file_found (grab Map.empty [c, f]) m' f (load_bytes m item 32)" "same_outside (heap_scratch L) m m'"
proof -
  obtain f m1 where f: "kzalloc kheap 8 m = (f, m1)" "f \<noteq> 0" "aligned 4096 f" "L f = None"
      "heap_live kheap m1 (L(f \<mapsto> 1))" "heap_avail kheap (L(f \<mapsto> 1)) = heap_avail kheap L - 1"
      "\<And>a. a \<in> region f (unat (8 :: u32)) \<Longrightarrow> m1 a = 0" "region f 4096 \<subseteq> heap_scratch L" "same_outside (heap_scratch L) m m1"
    by (rule kzalloc_page [OF live, of 8]) (use av in auto)
  let ?m2 = "store32 m1 (f + 4) FAT_ITEM_TYPE_FILE"
  have s2: "same_outside (region f 4096) m1 ?m2" by (rule same_outside_mono [OF store32_frame page_parts(2)])
  have live2: "heap_live kheap ?m2 (L(f \<mapsto> 1))" by (rule write_page [OF f(5) _ s2]) simp
  obtain c m3 where c: "kzalloc kheap 32 ?m2 = (c, m3)" "c \<noteq> 0" "aligned 4096 c" "(L(f \<mapsto> 1)) c = None"
      "heap_live kheap m3 (L(f \<mapsto> 1, c \<mapsto> 1))" "heap_avail kheap (L(f \<mapsto> 1, c \<mapsto> 1)) = heap_avail kheap (L(f \<mapsto> 1)) - 1"
      "\<And>a. a \<in> region c (unat (32 :: u32)) \<Longrightarrow> m3 a = 0" "region c 4096 \<subseteq> heap_scratch (L(f \<mapsto> 1))"
      "same_outside (heap_scratch (L(f \<mapsto> 1))) ?m2 m3"
    by (rule kzalloc_page [OF live2, of 32]) (use av f(6) in auto)
  let ?m4 = "memcpy m3 c item 32" and ?m5 = "store32 (memcpy m3 c item 32) f c"
  have scr: "heap_scratch (L(f \<mapsto> 1)) \<subseteq> heap_scratch L" using f(4) by (rule heap_scratch_upd)
  have apart: "region f 4096 \<inter> region c 4096 = {}" using page_scratch [OF live2, of f] c(8) by auto
  have ci: "region c 32 \<inter> region item 32 = {}" using item c(8) scr page_parts(3) by blast
  have cp: "\<forall>i < nat 32. ?m4 (c + of_nat i) = m3 (item + of_nat i)" "same_outside (region c 32) m3 ?m4"
    using memcpy_copies [of 32 c item m3] ci by auto
  have s3: "same_outside (heap_scratch L) m m3"
    using f(9) same_outside_mono [OF s2 f(8)] same_outside_mono [OF c(9) scr] by (blast intro: same_outside_trans1)
  have s4: "same_outside (region c 4096) m3 ?m4" by (rule same_outside_mono [OF cp(2) page_parts(3)])
  have s5: "same_outside (region f 4096) ?m4 ?m5" by (rule same_outside_mono [OF store32_frame page_parts(1)])
  have live4: "heap_live kheap ?m4 (L(f \<mapsto> 1, c \<mapsto> 1))" by (rule write_page [OF c(5) _ s4]) simp
  have live5: "heap_live kheap ?m5 (L(f \<mapsto> 1, c \<mapsto> 1))" by (rule write_page [OF live4 _ s5]) (use c(4) in \<open>auto split: if_splits\<close>)
  have "load_bytes m3 item 32 = load_bytes m item 32" using item by (intro load_bytes_frame [OF s3]) auto
  moreover have "load_bytes ?m4 c 32 = load_bytes m3 item 32" by (rule nth_equalityI) (use cp(1) in simp_all)
  moreover have "load_bytes ?m5 c 32 = load_bytes ?m4 c 32"
    using apart page_parts(3) [of c] by (intro load_bytes_frame [OF s5]) auto
  ultimately have copy: "load_bytes ?m5 c 32 = load_bytes m item 32" by simp
  have "region (f + 4) 4 \<inter> heap_scratch (L(f \<mapsto> 1)) = {}" "region (f + 4) 4 \<inter> region c 4096 = {}"
    using page_scratch [OF live2, of f] apart page_parts(2) [of f] by auto
  then have "load32 m3 (f + 4) = FAT_ITEM_TYPE_FILE" "load32 ?m4 (f + 4) = load32 m3 (f + 4)"
    using load32_same_outside [OF c(9)] load32_same_outside [OF s4] load32_store32_same by simp_all
  then have "load32 ?m5 (f + 4) = FAT_ITEM_TYPE_FILE" by (simp add: load32_store32_off)
  then have found: "file_found (grab Map.empty [c, f]) ?m5 f (load_bytes m item 32)"
    using f(2) copy by (simp add: file_found_def load32_store32_same)
  have "item_attribute m1 item = item_attribute m item"
    using same_outsideD [OF f(9)] item in_region_offset [of 11 32 item] by (auto simp: item_attribute_def)
  then have run: "fat16_new_fat_item_for_directory_item S kheap sp disk item m = Some (f, ?m5)"
    using f(2) c(2) fl by (simp add: fat16_new_fat_item_for_directory_item_def fat16_clone_directory_item_def f(1) c(1))
  have all: "same_outside (heap_scratch L) m ?m5"
    using s3 same_outside_mono [OF s4] same_outside_mono [OF s5 f(8)] c(8) scr by (blast intro: same_outside_trans1)
  have av': "heap_avail kheap (L(f \<mapsto> 1, c \<mapsto> 1)) = heap_avail kheap L - 2" using c(6) f(6) by simp
  have "L c = None" "f \<noteq> c" using c(4) by (auto split: if_splits)
  then show thesis using that [OF run f(4) _ _ live5 av' found all] by blast
qed

section \<open>The search\<close>

text \<open>The entries of a loaded directory, in which \<open>named\<close> ones have the name looked for.\<close>

definition named :: "u8 list \<Rightarrow> u8 list \<Rightarrow> bool" where
  "named ns e \<longleftrightarrow> map tolower (short_name e) = map tolower ns"

definition hits :: "u8 list \<Rightarrow> u8 list list \<Rightarrow> nat \<Rightarrow> nat list" where
  "hits ns es i = filter (\<lambda>j. named ns (es ! j)) [i..<length es]"

definition loaded :: "mem \<Rightarrow> u32 \<Rightarrow> u8 list list \<Rightarrow> bool" where
  "loaded m directory es \<longleftrightarrow> dir_total m directory = int (length es) \<and> 32 * length es < 2 ^ 31
     \<and> (\<forall>i < length es. load_bytes m (dir_item m directory + of_nat (32 * i)) 32 = es ! i)"

text \<open>What the search reads: the directory, its entries and the name.\<close>

definition search_area :: "mem \<Rightarrow> u32 \<Rightarrow> u8 list list \<Rightarrow> u32 \<Rightarrow> u8 list \<Rightarrow> u32 set" where
  "search_area m directory es name ns =
     region directory 8 \<union> region (dir_item m directory) (32 * length es) \<union> region name (Suc (length ns))"

lemma hits_step: "i < length es \<Longrightarrow> hits ns es i = (if named ns (es ! i) then i # hits ns es (Suc i) else hits ns es (Suc i))"
  by (simp add: hits_def upt_conv_Cons)

lemma short_name_le: "length (short_name e) \<le> 12"
  using unpadded_le [of "take 8 e"] unpadded_le [of "take 3 (drop 8 e)"] by (simp add: short_name_def)

lemma named_compare:
  assumes "cstr m p (short_name e)" "cstr m q ns"
  shows "istrncmp m p q 108 = 0 \<longleftrightarrow> named ns e"
proof -
  have "take 108 (short_name e) = short_name e" using short_name_le [of e] by simp
  then have c: "istrncmp m p q 108 = 0 \<longleftrightarrow> map tolower (short_name e) = map tolower (take 108 ns)"
    using istrncmp_spec [OF assms, of 108] by simp
  show ?thesis
  proof (cases "length ns \<le> 108")
    case True
    then show ?thesis using c by (simp add: named_def)
  next
    case False
    have "map tolower (short_name e) \<noteq> map tolower (take 108 ns)" "map tolower (short_name e) \<noteq> map tolower ns"
      using False short_name_le [of e] by (auto dest: map_eq_imp_length_eq)
    then show ?thesis using c by (simp add: named_def)
  qed
qed

lemma entry_area:
  assumes "loaded m directory es" "i < length es"
  shows "region (dir_item m directory + of_nat (32 * i)) 32 \<subseteq> region (dir_item m directory) (32 * length es)"
proof -
  have l: "32 * i + 32 \<le> 32 * length es" "32 * length es < 2 ^ 31" using assms by (simp_all add: loaded_def)
  then have "unat (of_nat (32 * i) :: u32) = 32 * i" by (intro unat_of_nat_u32) simp
  then show ?thesis using l by (intro sub_region) simp_all
qed

lemma item_area: "loaded m directory es \<Longrightarrow> i < length es \<Longrightarrow>
  region (dir_item m directory + of_nat (32 * i)) 32 \<subseteq> search_area m directory es name ns"
  using entry_area [of m directory es i] by (auto simp: search_area_def)

lemma search_area_frame:
  assumes "loaded m directory es" "cstr m name ns" "length ns < 2 ^ 31"
    and so: "same_outside A m m'" and A: "search_area m directory es name ns \<inter> A = {}"
  shows "loaded m' directory es" "dir_item m' directory = dir_item m directory" "cstr m' name ns"
    "search_area m' directory es name ns = search_area m directory es name ns"
proof -
  have r: "region directory 4 \<subseteq> region directory 8" "region (directory + 4) 4 \<subseteq> region directory 8"
    using region_mono [of 4 8 directory] sub_region [of 4 4 8 directory] by simp_all
  have d: "region directory 4 \<inter> A = {}" "region (directory + 4) 4 \<inter> A = {}" "region name (Suc (length ns)) \<inter> A = {}"
    using A r by (auto simp: search_area_def)
  show it: "dir_item m' directory = dir_item m directory"
    using load32_same_outside [OF so d(1)] by (simp add: dir_item_def)
  show "cstr m' name ns" using assms(3) by (intro cstr_frame [OF assms(2) so d(3)]) simp
  have "load_bytes m' (dir_item m directory + of_nat (32 * i)) 32 = load_bytes m (dir_item m directory + of_nat (32 * i)) 32"
    if "i < length es" for i
    using item_area [OF assms(1) that, of name ns] A by (intro load_bytes_frame [OF so]) auto
  then show "loaded m' directory es"
    using assms(1) load32_same_outside [OF so d(2)] by (simp add: loaded_def it dir_total_def)
  show "search_area m' directory es name ns = search_area m directory es name ns" by (simp add: search_area_def it)
qed

lemma grab_append: "grab (grab L qs) ps = grab L (ps @ qs)"
  by (auto simp: grab_def map_add_def fun_eq_iff split: option.splits)

lemma off_heap_page: "off_heap A \<Longrightarrow> heap_live kheap m L \<Longrightarrow> L p = Some 1 \<Longrightarrow> region p 4096 \<inter> (A \<union> heap_scratch L) = {}"
  using off_heap_live [of A m L p 1] page_scratch [of m L p] by (auto simp: block_region_1)

text \<open>The name of one entry is built and compared; only the buffer \<open>tmp_filename\<close> changes.\<close>

lemma find_step:
  assumes dir: "loaded m directory es" "cstr m name ns" "length ns < 2 ^ 31" "i < length es"
    and area: "search_area m directory es name ns \<inter> region (sp - 108) 108 = {}"
  obtains m1 where "same_outside (region (sp - 108) 108) m m1"
    "fat16_find_loop S h sp disk directory name (int i) f m =
      (if named ns (es ! i)
       then do { (f_item, m) \<leftarrow> fat16_new_fat_item_for_directory_item S h (sp - 108) disk
                   (dir_item m1 directory + of_nat (32 * i)) m1;
                 fat16_find_loop S h sp disk directory name (int (Suc i)) f_item m }
       else fat16_find_loop S h sp disk directory name (int (Suc i)) f m1)"
proof
  let ?item = "dir_item m directory + of_nat (32 * i)"
  let ?m1 = "fat16_get_full_relative_filename ?item (sp - 108) 108 m"
  have "region (sp - 108) 108 \<inter> region ?item 32 = {}" using item_area [OF dir(1,4), of name ns] area by blast
  from relative_filename [OF this, of m] dir(1,4) have r: "cstr ?m1 (sp - 108) (short_name (es ! i))"
      "same_outside (region (sp - 108) 108) m ?m1"
    by (simp_all add: loaded_def)
  show "same_outside (region (sp - 108) 108) m ?m1" by (rule r(2))
  note fr = search_area_frame [OF dir(1,2,3) r(2) area]
  have e: "u32_of_int (32 * int i) = of_nat (32 * i)" using u32_of_int_of_nat [of "32 * i"] by simp
  have "int i < dir_total m directory" using dir(1,4) by (simp add: loaded_def)
  then show "fat16_find_loop S h sp disk directory name (int i) f m =
      (if named ns (es ! i)
       then do { (f_item, m) \<leftarrow> fat16_new_fat_item_for_directory_item S h (sp - 108) disk
                   (dir_item ?m1 directory + of_nat (32 * i)) ?m1;
                 fat16_find_loop S h sp disk directory name (int (Suc i)) f_item m }
       else fat16_find_loop S h sp disk directory name (int (Suc i)) f ?m1)"
    using named_compare [OF r(1) fr(3)] by (subst fat16_find_loop.simps) (simp add: Let_def e add.commute)
qed

text \<open>A hit: the new item lies in two fresh pages, and the search can go on.\<close>

lemma find_hit:
  assumes dir: "loaded m directory es" "cstr m name ns" "length ns < 2 ^ 31" "i < length es"
    and live: "heap_live kheap m L" "2 \<le> heap_avail kheap L" and fl: "es ! i ! 11 AND FAT_FILE_SUBDIRECTORY = 0"
    and area: "search_area m directory es name ns \<inter> (B \<union> heap_scratch L) = {}"
  obtains f c m' where "fat16_new_fat_item_for_directory_item S kheap sp disk (dir_item m directory + of_nat (32 * i)) m = Some (f, m')"
    "L f = None" "L c = None" "heap_live kheap m' (L(f \<mapsto> 1, c \<mapsto> 1))"
    "heap_avail kheap (L(f \<mapsto> 1, c \<mapsto> 1)) = heap_avail kheap L - 2"
    "file_found (grab Map.empty [c, f]) m' f (es ! i)" "same_outside (heap_scratch L) m m'"
    "loaded m' directory es" "cstr m' name ns" "heap_scratch (L(f \<mapsto> 1, c \<mapsto> 1)) \<subseteq> heap_scratch L"
    "search_area m' directory es name ns \<inter> (B \<union> heap_scratch (L(f \<mapsto> 1, c \<mapsto> 1))) = {}"
proof -
  let ?item = "dir_item m directory + of_nat (32 * i)"
  have bytes: "load_bytes m ?item 32 = es ! i" using dir(1,4) by (simp add: loaded_def)
  have free: "region ?item 32 \<inter> heap_scratch L = {}" using item_area [OF dir(1,4), of name ns] area by blast
  have "load_bytes m ?item 32 ! 11 = item_attribute m ?item" by (simp add: item_attribute_def)
  then have attr: "item_attribute m ?item AND FAT_FILE_SUBDIRECTORY = 0" using fl by (simp only: bytes)
  obtain f c m' where n: "fat16_new_fat_item_for_directory_item S kheap sp disk ?item m = Some (f, m')"
      "L f = None" "L c = None" "f \<noteq> c" "heap_live kheap m' (L(f \<mapsto> 1, c \<mapsto> 1))"
      "heap_avail kheap (L(f \<mapsto> 1, c \<mapsto> 1)) = heap_avail kheap L - 2"
      "file_found (grab Map.empty [c, f]) m' f (es ! i)" "same_outside (heap_scratch L) m m'"
    by (rule new_file_item [OF live free attr]) (simp only: bytes)
  have scr: "heap_scratch (L(f \<mapsto> 1, c \<mapsto> 1)) \<subseteq> heap_scratch L" using n(2,3) by (intro heap_scratch_mono) auto
  have "search_area m directory es name ns \<inter> heap_scratch L = {}" using area by blast
  note fr = search_area_frame [OF dir(1,2,3) n(8) this]
  have "search_area m' directory es name ns \<inter> (B \<union> heap_scratch (L(f \<mapsto> 1, c \<mapsto> 1))) = {}"
    using area scr unfolding fr(4) by blast
  then show thesis by (rule that [OF n(1-3,5-8) fr(1,3) scr])
qed

lemma find_loop:
  assumes stack: "off_heap (region (sp - 108) 108)" and len: "length ns < 2 ^ 31"
  shows "n = length es - i \<Longrightarrow> i \<le> length es \<Longrightarrow> loaded m directory es \<Longrightarrow> cstr m name ns
    \<Longrightarrow> heap_live kheap m L \<Longrightarrow> 2 * length (hits ns es i) \<le> heap_avail kheap L
    \<Longrightarrow> \<forall>j \<in> set (hits ns es i). es ! j ! 11 AND FAT_FILE_SUBDIRECTORY = 0
    \<Longrightarrow> search_area m directory es name ns \<inter> (region (sp - 108) 108 \<union> heap_scratch L) = {}
    \<Longrightarrow> \<exists>f' m' ps. fat16_find_loop S kheap sp disk directory name (int i) f m = Some (f', m')
      \<and> heap_live kheap m' (grab L ps) \<and> length ps = 2 * length (hits ns es i) \<and> set ps \<inter> dom L = {}
      \<and> same_outside (region (sp - 108) 108 \<union> heap_scratch L) m m'
      \<and> (if hits ns es i = [] then f' = f else file_found (grab Map.empty ps) m' f' (es ! last (hits ns es i)))"
proof (induction n arbitrary: i m L f)
  case 0
  then have "fat16_find_loop S kheap sp disk directory name (int i) f m = Some (f, m)"
    by (subst fat16_find_loop.simps) (simp add: loaded_def)
  then show ?case using 0 by (auto simp: hits_def intro!: exI [of _ "[]"])
next
  case (Suc n)
  let ?B = "region (sp - 108) 108"
  have i: "i < length es" "n = length es - Suc i" "Suc i \<le> length es" using Suc.prems(1) by simp_all
  have area: "search_area m directory es name ns \<inter> ?B = {}" using Suc.prems(8) by blast
  obtain m1 where m1: "same_outside ?B m m1"
      "fat16_find_loop S kheap sp disk directory name (int i) f m =
      (if named ns (es ! i)
       then do { (f_item, m) \<leftarrow> fat16_new_fat_item_for_directory_item S kheap (sp - 108) disk
                   (dir_item m1 directory + of_nat (32 * i)) m1;
                 fat16_find_loop S kheap sp disk directory name (int (Suc i)) f_item m }
       else fat16_find_loop S kheap sp disk directory name (int (Suc i)) f m1)"
    by (rule find_step [OF Suc.prems(3,4) len i(1) area])
  note fr = search_area_frame [OF Suc.prems(3,4) len m1(1) area]
  have live1: "heap_live kheap m1 L" using stack by (intro kh.rel_frame [OF Suc.prems(5) m1(1)]) (simp add: off_heap_def)
  show ?case
  proof (cases "named ns (es ! i)")
    case False
    then have h: "hits ns es i = hits ns es (Suc i)" using hits_step [OF i(1)] by simp
    have "search_area m1 directory es name ns \<inter> (?B \<union> heap_scratch L) = {}" using Suc.prems(8) by (simp only: fr(4))
    from Suc.IH [OF i(2,3) fr(1,3) live1 _ _ this] Suc.prems(6,7) obtain f' m' ps where r:
        "fat16_find_loop S kheap sp disk directory name (int (Suc i)) f m1 = Some (f', m')"
        "heap_live kheap m' (grab L ps)" "length ps = 2 * length (hits ns es i)" "set ps \<inter> dom L = {}"
        "same_outside (?B \<union> heap_scratch L) m1 m'"
        "if hits ns es i = [] then f' = f else file_found (grab Map.empty ps) m' f' (es ! last (hits ns es i))"
      unfolding h by blast
    have "same_outside (?B \<union> heap_scratch L) m m'"
      using same_outside_mono [OF m1(1), of "?B \<union> heap_scratch L"] r(5) by (blast intro: same_outside_trans1)
    then show ?thesis using r False m1(2) by auto
  next
    case True
    then have h: "hits ns es i = i # hits ns es (Suc i)" using hits_step [OF i(1)] by simp
    have pre: "2 \<le> heap_avail kheap L" "es ! i ! 11 AND FAT_FILE_SUBDIRECTORY = 0"
        "search_area m1 directory es name ns \<inter> (?B \<union> heap_scratch L) = {}"
      using Suc.prems(6,7,8) h by (simp_all add: fr(4))
    obtain f1 c m2 where n: "fat16_new_fat_item_for_directory_item S kheap (sp - 108) disk (dir_item m1 directory + of_nat (32 * i)) m1 = Some (f1, m2)"
        "L f1 = None" "L c = None" "heap_live kheap m2 (L(f1 \<mapsto> 1, c \<mapsto> 1))"
        "heap_avail kheap (L(f1 \<mapsto> 1, c \<mapsto> 1)) = heap_avail kheap L - 2"
        "file_found (grab Map.empty [c, f1]) m2 f1 (es ! i)" "same_outside (heap_scratch L) m1 m2"
        "loaded m2 directory es" "cstr m2 name ns" "heap_scratch (L(f1 \<mapsto> 1, c \<mapsto> 1)) \<subseteq> heap_scratch L"
        "search_area m2 directory es name ns \<inter> (?B \<union> heap_scratch (L(f1 \<mapsto> 1, c \<mapsto> 1))) = {}"
      by (rule find_hit [OF fr(1,3) len i(1) live1 pre]) blast
    let ?L = "L(f1 \<mapsto> 1, c \<mapsto> 1)"
    have av2: "2 * length (hits ns es (Suc i)) \<le> heap_avail kheap ?L" using Suc.prems(6) n(5) h by simp
    have files2: "\<forall>j \<in> set (hits ns es (Suc i)). es ! j ! 11 AND FAT_FILE_SUBDIRECTORY = 0" using Suc.prems(7) h by simp
    from Suc.IH [OF i(2,3) n(8,9,4) av2 files2 n(11)] obtain f' m' ps where r:
        "fat16_find_loop S kheap sp disk directory name (int (Suc i)) f1 m2 = Some (f', m')"
        "heap_live kheap m' (grab ?L ps)" "length ps = 2 * length (hits ns es (Suc i))" "set ps \<inter> dom ?L = {}"
        "same_outside (?B \<union> heap_scratch ?L) m2 m'"
        "if hits ns es (Suc i) = [] then f' = f1 else file_found (grab Map.empty ps) m' f' (es ! last (hits ns es (Suc i)))" by blast
    have L: "?L = grab L [c, f1]" by (simp add: grab_upd [of "[c, f1]" c "[f1]" L] grab_upd [of "[f1]" f1 "[]" L])
    have g: "grab ?L ps = grab L (ps @ [c, f1])" unfolding L by (rule grab_append)
    have "file_found (grab Map.empty (ps @ [c, f1])) m' f' (es ! last (hits ns es i))"
    proof (cases "hits ns es (Suc i) = []")
      case True
      have "file_found (grab Map.empty (ps @ [c, f1])) m' f1 (es ! i)"
      proof (rule file_found_frame [OF n(6) r(5)])
        fix p assume "grab Map.empty [c, f1] p = Some 1"
        then have "p = c \<or> p = f1" by (cases "p \<in> set [c, f1]") auto
        then have "?L p = Some 1" "p \<in> set (ps @ [c, f1])" by auto
        then show "region p 4096 \<inter> (?B \<union> heap_scratch ?L) = {}" "grab Map.empty (ps @ [c, f1]) p = Some 1"
          using off_heap_page [OF stack n(4)] by (blast, simp)
      qed
      then show ?thesis using r(6) True h by simp
    next
      case False
      then have "file_found (grab Map.empty ps) m' f' (es ! last (hits ns es i))" using r(6) h by simp
      then show ?thesis by (rule file_found_mono) auto
    qed
    moreover have "same_outside (?B \<union> heap_scratch L) m m'"
      using same_outside_mono [OF m1(1), of "?B \<union> heap_scratch L"] same_outside_mono [OF n(7), of "?B \<union> heap_scratch L"]
        same_outside_mono [OF r(5), of "?B \<union> heap_scratch L"] n(10) by (blast intro: same_outside_trans1)
    moreover have "set (ps @ [c, f1]) \<inter> dom L = {}" using r(4) n(2,3) by (auto simp: domIff)
    moreover have "fat16_find_loop S kheap sp disk directory name (int i) f m = Some (f', m')"
      using m1(2) True n(1) r(1) by simp
    ultimately show ?thesis
      using r(2,3) h unfolding g by (intro exI [of _ f'] exI [of _ m'] exI [of _ "ps @ [c, f1]"]) simp
  qed
qed

lemma find_file:
  assumes "loaded m directory es" and "cstr m name ns" and "length ns < 2 ^ 31"
    and "heap_live kheap m L" and "2 * length (hits ns es 0) \<le> heap_avail kheap L"
    and "\<forall>j \<in> set (hits ns es 0). es ! j ! 11 AND FAT_FILE_SUBDIRECTORY = 0"
    and "off_heap (region (sp - 108) 108)"
    and "search_area m directory es name ns \<inter> (region (sp - 108) 108 \<union> heap_scratch L) = {}"
  shows "\<exists>f m' ps. fat16_find_item_in_directory S kheap sp disk directory name m = Some (f, m')
    \<and> heap_live kheap m' (grab L ps) \<and> length ps = 2 * length (hits ns es 0) \<and> set ps \<inter> dom L = {}
    \<and> same_outside (region (sp - 108) 108 \<union> heap_scratch L) m m'
    \<and> (if hits ns es 0 = [] then f = 0 else file_found (grab Map.empty ps) m' f (es ! last (hits ns es 0)))"
  using find_loop [OF assms(7,3) refl le0 assms(1,2,4,5,6,8), of S disk 0] by (simp add: fat16_find_item_in_directory_def)

text \<open>
  C9. Searching a directory whose entries of the given name, up to case, are files: the result is
  an item with a copy of the last such entry in fresh heap pages, or null when there is none.
  Every hit takes two pages, and those of all hits but the last are lost; nothing but free
  heap memory and the name buffer on the stack is written.
\<close>

theorem fat16_find_file:
  assumes "loaded m directory es" and "cstr m name ns" and "length ns < 2 ^ 31"
    and "heap_live kheap m L" and "2 * length (hits ns es 0) \<le> heap_avail kheap L"
    and "\<forall>j \<in> set (hits ns es 0). es ! j ! 11 AND FAT_FILE_SUBDIRECTORY = 0"
    and "off_heap (region (sp - 108) 108)"
    and "search_area m directory es name ns \<inter> (region (sp - 108) 108 \<union> heap_scratch L) = {}"
  shows "\<exists>f m' ps. fat16_find_item_in_directory S kheap sp disk directory name m = Some (f, m')
    \<and> heap_live kheap m' (grab L ps) \<and> length ps = 2 * length (hits ns es 0) \<and> set ps \<inter> dom L = {}
    \<and> same_outside (region (sp - 108) 108 \<union> heap_scratch L) m m'
    \<and> (if hits ns es 0 = [] then f = 0 else file_found (grab Map.empty ps) m' f (es ! last (hits ns es 0)))"
  using assms by (rule find_file)

text \<open>The directory of two files \<^verbatim>\<open>A\<close> and \<^verbatim>\<open>B.C\<close>.\<close>

definition demo_entries :: "u8 list list" where
  "demo_entries =
    [[65, 32, 32, 32, 32, 32, 32, 32, 32, 32, 32, 0, 0, 0, 0, 0, 0, 0, 0, 0, 0, 0, 0, 0, 0, 0, 0, 0, 0, 0, 0, 0],
     [66, 32, 32, 32, 32, 32, 32, 32, 67, 32, 32, 0, 0, 0, 0, 0, 0, 0, 0, 0, 0, 0, 0, 0, 0, 0, 7, 0, 0, 0, 0, 0]]"

definition demo_loaded :: mem where
  "demo_loaded = (store32 (store32 (store_bytes (\<lambda>_. 0) 0x121000 (concat demo_entries)) 0x120000 0x121000) 0x120004 2)
     (0x122000 := 98, 0x122001 := 46, 0x122002 := 99)"

lemma demo_loaded_ok: "loaded demo_loaded 0x120000 demo_entries" "dir_item demo_loaded 0x120000 = 0x121000"
proof -
  let ?m = "store_bytes (\<lambda>_. 0) 0x121000 (concat demo_entries)"
  let ?A = "region (0x120000 :: u32) 8 \<union> region 0x122000 3"
  have r: "region (0x120000 :: u32) 4 \<subseteq> ?A" "region (0x120004 :: u32) 4 \<subseteq> ?A" "0x122000 \<in> ?A" "0x122001 \<in> ?A" "0x122002 \<in> ?A"
    by (auto simp: region_eq_range)
  have f: "same_outside ?A ?m demo_loaded"
    unfolding demo_loaded_def
    by (intro same_outside_trans1 [OF _ same_outside_upd] r, rule same_outside_trans1 [OF same_outside_mono [OF store32_frame r(1)] same_outside_mono [OF store32_frame r(2)]])
  have d: "region (0x121000 :: u32) 64 \<inter> ?A = {}" by (auto simp: region_eq_range)
  have l: "length (concat demo_entries) = 64" by (simp add: demo_entries_def)
  have "load_bytes demo_loaded 0x121000 64 = load_bytes ?m 0x121000 64" by (rule load_bytes_frame [OF f d]) simp
  also have "\<dots> = concat demo_entries" using load_store_bytes [of "concat demo_entries" "\<lambda>_. 0" "0x121000"] l by simp
  also have "\<dots> = demo_entries ! 0 @ demo_entries ! 1" by (simp add: demo_entries_def)
  finally have "load_bytes demo_loaded 0x121000 32 @ load_bytes demo_loaded 0x121020 32 = demo_entries ! 0 @ demo_entries ! 1"
    using load_bytes_add [of demo_loaded "0x121000" 32 32] by simp
  moreover have "length (demo_entries ! 0) = 32" by (simp add: demo_entries_def)
  ultimately have e: "load_bytes demo_loaded 0x121000 32 = demo_entries ! 0" "load_bytes demo_loaded 0x121020 32 = demo_entries ! 1"
    by (simp_all add: append_eq_append_conv)
  have n: "length demo_entries = 2" by (simp add: demo_entries_def)
  show i: "dir_item demo_loaded 0x120000 = 0x121000"
    by (simp add: dir_item_def demo_loaded_def off_simps)
  have "dir_total demo_loaded 0x120000 = 2"
    by (simp add: dir_total_def demo_loaded_def off_simps int_of_u32_small)
  then show "loaded demo_loaded 0x120000 demo_entries"
    using e n by (auto simp: loaded_def i less_2_cases_iff)
qed

lemma demo_loaded_frame: "same_outside (region 0x120000 0x2003) (\<lambda>_. 0) demo_loaded"
proof -
  let ?A = "region (0x120000 :: u32) 0x2003"
  have r: "region (0x120000 :: u32) 4 \<subseteq> ?A" "region (0x120004 :: u32) 4 \<subseteq> ?A" "0x122000 \<in> ?A" "0x122001 \<in> ?A" "0x122002 \<in> ?A"
    "region 0x121000 64 \<subseteq> ?A" by (auto simp: region_eq_range)
  have "length (concat demo_entries) = 64" by (simp add: demo_entries_def)
  then have s: "same_outside ?A (\<lambda>_. 0) (store_bytes (\<lambda>_. 0) 0x121000 (concat demo_entries))"
    using same_outside_mono [OF store_bytes_frame [of "0x121000" "concat demo_entries"]] r(6) by simp
  show ?thesis
    unfolding demo_loaded_def
    by (intro same_outside_trans1 [OF _ same_outside_upd] r, rule same_outside_trans1 [OF s])
      (rule same_outside_trans1 [OF same_outside_mono [OF store32_frame r(1)] same_outside_mono [OF store32_frame r(2)]])
qed

theorem fat16_find_file_witness:
  "\<exists>f m' ps. fat16_find_item_in_directory (demo_sys (\<lambda>_. 0)) kheap 0x600000 0x130000 0x120000 0x122000 demo_loaded = Some (f, m')
    \<and> length ps = 2 \<and> file_found (grab Map.empty ps) m' f (demo_entries ! 1)"
proof -
  let ?ns = "[98, 46, 99] :: u8 list"
  have sn: "short_name (demo_entries ! 0) = [65]" "short_name (demo_entries ! 1) = [66, 46, 67]"
    by (simp_all add: short_name_def unpadded_def demo_entries_def)
  have n: "length demo_entries = 2" "[0..<2] = [0, 1]" by (simp_all add: demo_entries_def upt_rec)
  have "\<not> named ?ns (demo_entries ! 0)" "named ?ns (demo_entries ! 1)" unfolding named_def sn by (simp_all add: tolower_def)
  then have h: "hits ?ns demo_entries 0 = [1]" by (simp add: hits_def n)
  have str: "cstr demo_loaded 0x122000 ?ns"
  proof -
    have "demo_loaded 0x122003 = 0" using same_outsideD [OF demo_loaded_frame] by (simp add: region_eq_range)
    then show ?thesis by (simp add: demo_loaded_def)
  qed
  have live: "heap_live kheap demo_loaded Map.empty"
    by (rule empty_heap_outside [OF demo_loaded_frame]) (auto simp: kheap_regions region_eq_range)
  have fl: "\<forall>j \<in> set (hits ?ns demo_entries 0). demo_entries ! j ! 11 AND FAT_FILE_SUBDIRECTORY = 0"
    unfolding h by (simp add: demo_entries_def)
  have stack: "off_heap (region (0x600000 - 108) 108)" by (rule off_heapI) simp_all
  have "search_area demo_loaded 0x120000 demo_entries 0x122000 ?ns \<inter> region (0x600000 - 108) 108 = {}"
    by (auto simp: search_area_def demo_loaded_ok(2) n(1) region_eq_range)
  moreover have "search_area demo_loaded 0x120000 demo_entries 0x122000 ?ns \<subseteq> region 0x120000 0x3000"
    by (auto simp: search_area_def demo_loaded_ok(2) n(1) region_eq_range)
  moreover have "off_heap (region 0x120000 0x3000)" by (rule off_heapI) simp_all
  ultimately have area: "search_area demo_loaded 0x120000 demo_entries 0x122000 ?ns \<inter> (region (0x600000 - 108) 108 \<union> heap_scratch Map.empty) = {}"
    using off_heap_scratch [of "region 0x120000 0x3000" Map.empty] by blast
  have av: "2 * length (hits ?ns demo_entries 0) \<le> heap_avail kheap Map.empty" unfolding h kernel_empty(2) by simp
  show ?thesis
    using fat16_find_file [OF demo_loaded_ok(1) str _ live av fl stack area, of "demo_sys (\<lambda>_. 0)" "0x130000"] unfolding h by auto
qed

end
