(* ===== verification/OpenSpec.thy ===== *)
theory OpenSpec
  imports FileSpec FatFindSpec FatSpec PathSpec
begin

text \<open>
  Opening a file of the root directory by its path, and reading what it contains: the path
  parser, the search of the directory, the descriptor table and the chain of clusters together.
\<close>

section \<open>A mounted file system\<close>

text \<open>The disk carries the FAT16 file system and its root directory has the entries \<open>es\<close>.\<close>

definition root_directory :: "sys \<Rightarrow> mem \<Rightarrow> u32" where
  "root_directory S m = disk_fs_private m (disk_addr S) + 64"

definition mounted :: "sys \<Rightarrow> u8 list list \<Rightarrow> mem \<Rightarrow> bool" where
  "mounted S es m \<longleftrightarrow> disk_addr S \<noteq> 0 \<and> fat16_fs_addr S \<noteq> 0 \<and> disk_filesystem m (disk_addr S) = fat16_fs_addr S
     \<and> loaded m (root_directory S m) es"

definition mount_area :: "sys \<Rightarrow> mem \<Rightarrow> u8 list list \<Rightarrow> u32 set" where
  "mount_area S m es = region (disk_addr S + 12) 8 \<union> region (root_directory S m) 8
     \<union> region (dir_item m (root_directory S m)) (32 * length es)"

lemma mount_search: "search_area m (root_directory S m) es name ns \<subseteq> mount_area S m es \<union> region name (Suc (length ns))"
  by (auto simp: search_area_def mount_area_def)

lemma mount_frame:
  assumes m: "mounted S es m" and so: "same_outside A m m'" and A: "mount_area S m es \<inter> A = {}"
  shows "mounted S es m'" "root_directory S m' = root_directory S m" "mount_area S m' es = mount_area S m es"
proof -
  have d: "region (disk_addr S + 12) 8 = region (disk_addr S + 12) 4 \<union> region (disk_addr S + 16) 4"
    using region_pair [of "disk_addr S + 12"] by (simp add: add.assoc)
  have "load32 m' (disk_addr S + 12) = load32 m (disk_addr S + 12)" "load32 m' (disk_addr S + 16) = load32 m (disk_addr S + 16)"
    using A d by (auto intro!: load32_same_outside [OF so] simp: mount_area_def)
  then have f: "disk_filesystem m' (disk_addr S) = disk_filesystem m (disk_addr S)" and
      r: "root_directory S m' = root_directory S m"
    by (simp_all add: disk_filesystem_def root_directory_def disk_fs_private_def)
  let ?dir = "root_directory S m"
  have l: "loaded m ?dir es" using m by (simp add: mounted_def)
  have i: "region ?dir 4 \<inter> A = {}" "region (?dir + 4) 4 \<inter> A = {}" using A region_pair [of ?dir] by (auto simp: mount_area_def)
  have it: "dir_item m' ?dir = dir_item m ?dir" "dir_total m' ?dir = dir_total m ?dir"
    using load32_same_outside [OF so] i by (simp_all add: dir_item_def dir_total_def)
  have "load_bytes m' (dir_item m ?dir + of_nat (32 * k)) 32 = load_bytes m (dir_item m ?dir + of_nat (32 * k)) 32" if "k < length es" for k
    using entry_area [OF l that] A unfolding mount_area_def by (intro load_bytes_frame [OF so]) (blast, simp)
  then have "loaded m' ?dir es" using l by (simp add: loaded_def it)
  then show "mounted S es m'" using m f by (simp add: mounted_def r)
  show "root_directory S m' = root_directory S m" by (rule r)
  show "mount_area S m' es = mount_area S m es" by (simp add: mount_area_def r it)
qed

section \<open>Opening in the file system\<close>

text \<open>A path of one part with the name \<open>ns\<close>, outside \<open>A\<close>.\<close>

definition one_part :: "mem \<Rightarrow> u32 \<Rightarrow> u8 list \<Rightarrow> u32 set \<Rightarrow> bool" where
  "one_part m pt ns A \<longleftrightarrow> cstr m (path_part_part m pt) ns \<and> path_part_next m pt = 0 \<and> length ns < 2 ^ 31
     \<and> (region pt 8 \<union> region (path_part_part m pt) (Suc (length ns))) \<inter> A = {}"

lemma one_part_frame:
  assumes p: "one_part m pt ns A" and so: "same_outside A m m'"
  shows "one_part m' pt ns A" "path_part_part m' pt = path_part_part m pt" "path_part_next m' pt = 0"
proof -
  have r: "region pt 4 \<inter> A = {}" "region (pt + 4) 4 \<inter> A = {}" using p region_pair [of pt] by (auto simp: one_part_def)
  show q: "path_part_part m' pt = path_part_part m pt"
    using load32_same_outside [OF so r(1)] by (simp add: path_part_part_def)
  show n: "path_part_next m' pt = 0"
    using load32_same_outside [OF so r(2)] p by (simp add: path_part_next_def one_part_def)
  have "cstr m' (path_part_part m pt) ns" by (rule cstr_frame [OF _ so]) (use p in \<open>auto simp: one_part_def\<close>)
  then show "one_part m' pt ns A" using p q n by (simp add: one_part_def)
qed

text \<open>The descriptor of the driver: the item of the file and the position 0.\<close>

definition fat_opened :: "u32 list \<Rightarrow> mem \<Rightarrow> u32 \<Rightarrow> u8 list \<Rightarrow> bool" where
  "fat_opened ps m fd e \<longleftrightarrow> fd \<in> set ps \<and> load32 m (fd + 4) = 0 \<and> file_found (grab Map.empty ps) m (load32 m fd) e"

lemma fat_opened_frame:
  assumes f: "fat_opened ps m fd e" and so: "same_outside A m m'" and A: "\<And>p. p \<in> set ps \<Longrightarrow> region p 4096 \<inter> A = {}"
  shows "fat_opened ps m' fd e"
proof -
  have "region fd 4096 \<inter> A = {}" using f A by (simp add: fat_opened_def)
  then have "region fd 4 \<inter> A = {}" "region (fd + 4) 4 \<inter> A = {}" using page_parts [of fd] by blast+
  then have "load32 m' fd = load32 m fd" "load32 m' (fd + 4) = load32 m (fd + 4)" using load32_same_outside [OF so] by simp_all
  moreover have "file_found (grab Map.empty ps) m' (load32 m fd) e"
  proof (rule file_found_frame [OF _ so])
    show "file_found (grab Map.empty ps) m (load32 m fd) e" using f by (simp add: fat_opened_def)
    show "region p 4096 \<inter> A = {}" if "grab Map.empty ps p = Some 1" for p
      using that A by (cases "p \<in> set ps") auto
  qed
  ultimately show ?thesis using f by (simp add: fat_opened_def)
qed

lemma fat_opened_mono: "fat_opened ps m fd e \<Longrightarrow> set ps \<subseteq> set qs \<Longrightarrow> fat_opened qs m fd e"
  using file_found_mono [of ps m "load32 m fd" e qs] by (auto simp: fat_opened_def)

text \<open>A name in the root directory is opened by its last entry.\<close>

lemma fat16_open_root:
  assumes mnt: "mounted S es m" and live: "heap_live kheap m L" and path: "one_part m pt ns (region (sp - 108) 108 \<union> heap_scratch L)"
    and hit: "hits ns es 0 \<noteq> []" "\<forall>i \<in> set (hits ns es 0). es ! i ! 11 AND FAT_FILE_SUBDIRECTORY = 0"
    and av: "2 * length (hits ns es 0) + 1 \<le> heap_avail kheap L" and stack: "off_heap (region (sp - 108) 108)"
    and area: "mount_area S m es \<inter> (region (sp - 108) 108 \<union> heap_scratch L) = {}"
  obtains fd m' ps where "fat16_open S kheap sp (disk_addr S) pt FILE_MODE_READ m = Some (fd, m')" "fd \<noteq> 0" "\<not> ISERR fd"
    "heap_live kheap m' (grab L ps)" "length ps = 2 * length (hits ns es 0) + 1" "set ps \<inter> dom L = {}"
    "fat_opened ps m' fd (es ! last (hits ns es 0))" "same_outside (region (sp - 108) 108 \<union> heap_scratch L) m m'"
proof -
  let ?B = "region (sp - 108) 108" and ?dir = "root_directory S m" and ?e = "es ! last (hits ns es 0)"
  obtain fd m1 where fd: "kzalloc kheap 8 m = (fd, m1)" "fd \<noteq> 0" "aligned 4096 fd" "L fd = None"
      "heap_live kheap m1 (L(fd \<mapsto> 1))" "heap_avail kheap (L(fd \<mapsto> 1)) = heap_avail kheap L - 1"
      "\<And>a. a \<in> region fd (unat (8 :: u32)) \<Longrightarrow> m1 a = 0" "region fd 4096 \<subseteq> heap_scratch L" "same_outside (heap_scratch L) m m1"
    by (rule kzalloc_page [OF live, of 8]) (use av in auto)
  let ?L = "L(fd \<mapsto> 1)" and ?A = "?B \<union> heap_scratch L"
  have scr: "heap_scratch ?L \<subseteq> heap_scratch L" using fd(4) by (rule heap_scratch_upd)
  have s1: "same_outside ?A m m1" by (rule same_outside_mono [OF fd(9)]) simp
  note p1 = one_part_frame [OF path s1] and mf = mount_frame [OF mnt s1 area]
  have q: "cstr m1 (path_part_part m1 pt) ns" "length ns < 2 ^ 31" using p1(1) by (simp_all add: one_part_def)
  have ld: "loaded m1 ?dir es" using mf(1,2) by (simp add: mounted_def)
  have "search_area m1 ?dir es (path_part_part m1 pt) ns \<inter> ?A = {}"
    using mount_search [of m1 S es "path_part_part m1 pt" ns] area p1(1) unfolding mf(2,3) one_part_def by blast
  then have sa: "search_area m1 ?dir es (path_part_part m1 pt) ns \<inter> (?B \<union> heap_scratch ?L) = {}" using scr by blast
  have av1: "2 * length (hits ns es 0) \<le> heap_avail kheap ?L" using fd(6) av by simp
  obtain item m2 ps where r: "fat16_find_item_in_directory S kheap sp (disk_addr S) ?dir (path_part_part m1 pt) m1 = Some (item, m2)"
      "heap_live kheap m2 (grab ?L ps)" "length ps = 2 * length (hits ns es 0)" "set ps \<inter> dom ?L = {}"
      "same_outside (?B \<union> heap_scratch ?L) m1 m2" "file_found (grab Map.empty ps) m2 item ?e"
    using find_file [OF ld q fd(5) av1 hit(2) stack sa, of S "disk_addr S"] hit(1) by auto
  let ?m3 = "store32 m2 fd item"
  let ?m4 = "store32 ?m3 (fd + 4) 0"
  have nz: "item \<noteq> 0" using r(6) by (simp add: file_found_def)
  have "path_part_next m2 pt = 0"
    using one_part_frame(3) [OF p1(1) same_outside_mono [OF r(5)]] scr by blast
  then have ent: "fat16_get_directory_entry S kheap sp (disk_addr S) pt m1 = Some (item, m2)"
    using r(1) nz mf(2) by (simp add: fat16_get_directory_entry_def root_directory_def Let_def fat16_walk.simps)
  have run: "fat16_open S kheap sp (disk_addr S) pt FILE_MODE_READ m = Some (fd, ?m4)"
    using fd(1,2) ent nz by (simp add: fat16_open_def load32_store32_same)
  have w: "same_outside (region fd 4096) m2 ?m4"
    by (rule same_outside_trans1 [OF same_outside_mono [OF store32_frame page_parts(1)] same_outside_mono [OF store32_frame page_parts(2)]])
  have fdps: "fd \<notin> set ps" "set ps \<inter> dom L = {}" using r(4) by auto
  have L: "grab ?L ps = grab L (fd # ps)" 
  proof -
    have "?L = grab L [fd]" by (simp add: grab_upd [of "[fd]" fd "[]" L])
    moreover have "grab L (ps @ [fd]) = grab L (fd # ps)" by (simp add: grab_def disj_commute)
    ultimately show ?thesis using grab_append [of L "[fd]" ps] by simp
  qed
  have live': "heap_live kheap ?m4 (grab L (fd # ps))"
    unfolding L [symmetric] by (rule write_page [OF r(2) _ w]) (use fdps(1) in simp)
  have apart: "region p 4096 \<inter> region fd 4096 = {}" if "p \<in> set ps" for p
    using kh.live_disjoint [OF r(2), of p 1 fd 1] that fdps(1) by (auto simp: block_region_1)
  have found: "file_found (grab Map.empty (fd # ps)) ?m4 item ?e"
  proof (rule file_found_frame [OF r(6) w])
    fix p assume "grab Map.empty ps p = Some 1"
    then have "p \<in> set ps" by (cases "p \<in> set ps") auto
    then show "region p 4096 \<inter> region fd 4096 = {}" "grab Map.empty (fd # ps) p = Some 1" using apart by auto
  qed
  have op: "fat_opened (fd # ps) ?m4 fd ?e"
    using found by (simp add: fat_opened_def load32_store32_same load32_store32_off)
  have "fd \<in> region fd 4096" using in_region_offset [of 0 4096 fd] by simp
  then have "fd \<in> data_region kheap" using live_data [OF fd(5), of fd 1] by (auto simp: block_region_1)
  then have "unat fd < 2 ^ 31" by (simp add: kheap_regions)
  then have ok: "\<not> ISERR fd" by (simp add: ISERR_def int_of_u32_small)
  have so: "same_outside ?A m ?m4"
    using s1 same_outside_mono [OF r(5), of ?A] same_outside_mono [OF w, of ?A] scr fd(8) by (blast intro: same_outside_trans1)
  show thesis
    by (rule that [OF run fd(2) ok live' _ _ op so]) (use r(3) fd(4) fdps in auto)
qed

section \<open>The descriptor table while other memory changes\<close>

lemma grab_scratch:
  assumes live: "heap_live kheap m (grab L ps)" and p: "p \<in> set ps" and new: "set ps \<inter> dom L = {}"
  shows "region p 4096 \<subseteq> heap_scratch L"
proof -
  have "region p 4096 \<inter> block_region q k = {}" if q: "L q = Some k" for q k
  proof -
    have "q \<notin> set ps" using new q by blast
    then show ?thesis using kh.live_disjoint [OF live, of p 1 q k] p q by (auto simp: block_region_1)
  qed
  moreover have "region p 4096 \<subseteq> data_region kheap" using live_data [OF live, of p 1] p by (simp add: block_region_1)
  ultimately show ?thesis by (auto simp: heap_scratch_def free_mem_def)
qed

lemma grab_scratch_mono: "set ps \<inter> dom L = {} \<Longrightarrow> heap_scratch (grab L ps) \<subseteq> heap_scratch L"
  by (rule heap_scratch_mono) (metis disjoint_iff domIff grab_simps(3) option.distinct(1))

lemma dom_grab: "dom (grab L ps) = dom L \<union> set ps"
  by (auto simp: grab_def map_add_def dom_def split: option.splits)

lemma descriptors_kept:
  assumes ok: "descriptors_ok S L m" and ap: "descriptors_apart S" and so: "same_outside (B \<union> heap_scratch L) m m'"
    and B: "off_heap B" "B \<inter> region (file_descriptors_addr S) 2048 = {}"
    and live: "heap_live kheap m' (grab L ps)" and new: "set ps \<inter> dom L = {}"
  shows "descriptors_ok S (grab L ps) m'" "k < 512 \<Longrightarrow> descriptor S m' k = descriptor S m k"
proof -
  have l: "heap_live kheap m L" using ok by (simp add: descriptors_ok_def)
  have d: "descriptor S m' k = descriptor S m k" if k: "k < 512" for k
    unfolding descriptor_def
  proof (rule load32_same_outside [OF so])
    show "region (file_descriptors_slot S (int k)) 4 \<inter> (B \<union> heap_scratch L) = {}"
      using slot_region [OF k, of S] B(2) off_heap_scratch [OF slot_off_heap [OF ap k], of L] by blast
  qed
  then show "k < 512 \<Longrightarrow> descriptor S m' k = descriptor S m k" .
  show "descriptors_ok S (grab L ps) m'"
    unfolding descriptors_ok_def
  proof (intro conjI allI impI live)
    fix k assume k: "k < 512" and "descriptor S m' k \<noteq> 0"
    then have o: "L (descriptor S m k) = Some 1" "load32 m (descriptor S m k) = of_nat (k + 1)"
      using ok d [OF k] by (auto simp: descriptors_ok_def)
    then have "descriptor S m k \<notin> set ps" using new by blast
    then show "grab L ps (descriptor S m' k) = Some 1" using o(1) d [OF k] by simp
    have "region (descriptor S m k) 4 \<inter> (B \<union> heap_scratch L) = {}"
      using off_heap_page [OF B(1) l o(1)] page_parts(1) by blast
    then show "load32 m' (descriptor S m' k) = of_nat (k + 1)"
      using load32_same_outside [OF so] o(2) d [OF k] by simp
  qed
qed

lemma descriptor_filled:
  assumes ok: "descriptors_ok S L m" and ap: "descriptors_apart S" and d: "L desc = Some 1"
    and so: "same_outside (region desc 4096) m m'" and ix: "load32 m' desc = load32 m desc"
  shows "descriptors_ok S L m'" "k < 512 \<Longrightarrow> descriptor S m' k = descriptor S m k"
proof -
  have l: "heap_live kheap m L" using ok by (simp add: descriptors_ok_def)
  have live: "heap_live kheap m' L" by (rule write_page [OF l d so])
  have dk: "descriptor S m' k = descriptor S m k" if k: "k < 512" for k
    unfolding descriptor_def
    by (rule load32_same_outside [OF so])
      (use off_heap_live [OF slot_off_heap [OF ap k] l d] in \<open>simp add: block_region_1\<close>)
  then show "k < 512 \<Longrightarrow> descriptor S m' k = descriptor S m k" .
  have keep: "load32 m' x = load32 m x" if x: "L x = Some 1" for x
  proof (cases "x = desc")
    case False
    then have "region x 4096 \<inter> region desc 4096 = {}"
      using kh.live_disjoint [OF l x d] by (simp add: block_region_1)
    then show ?thesis using page_parts(1) [of x] by (intro load32_same_outside [OF so]) blast
  qed (simp add: ix)
  show "descriptors_ok S L m'" using ok live keep dk by (simp add: descriptors_ok_def)
qed

section \<open>Opening by path\<close>

lemma mode_read:
  assumes "m mode_str = 114" "m (literal_addr S [114]) = 114"
  shows "file_get_mode_by_string S mode_str m = FILE_MODE_READ"
proof -
  have "strncmp m mode_str (literal_addr S [114]) 1 = 0"
    using assms by (simp add: strncmp.simps [of _ _ _ 1] strncmp.simps [of _ _ _ 0])
  then show ?thesis by (simp add: file_get_mode_by_string_def)
qed

lemma path_at_nil: "path_at m p [] qs \<longleftrightarrow> qs = [] \<and> p = 0"
  by (cases qs) auto

lemma parse_one:
  assumes live: "heap_live kheap m L" and str: "cstr m path (48 # c1 # c2 # s)" "off_heap (region path (length s + 4))" "length s < 2 ^ 31"
    and s: "path_parts s = [ns]" "length ns < 108" and av: "4 \<le> heap_avail kheap L" and B: "off_heap B"
  obtains root qs m' where "pathparser_parse S kheap path cur m = Some (root, m')" "root \<noteq> 0" "path_root_first m' root \<noteq> 0"
    "path_root_drive_no m' root = 0" "one_part m' (path_root_first m' root) ns (B \<union> heap_scratch (grab L (root # qs)))"
    "heap_live kheap m' (grab L (root # qs))" "length qs = 2" "set (root # qs) \<inter> dom L = {}" "same_outside (heap_scratch L) m m'"
proof -
  have "Suc (length (48 # c1 # c2 # s)) = length s + 4" by simp
  then have "off_heap (path_bytes path (48 # c1 # c2 # s))" using str(2) by (simp only:)
  then obtain root qs m' where p: "pathparser_parse S kheap path cur m = Some (root, m')" "path_root_drive_no m' root = uint (48 :: u8) - 48"
      "path_at m' (path_root_first m' root) [ns] qs" "root \<noteq> 0" "heap_live kheap m' (grab L (root # qs))" "distinct (root # qs)"
      "\<forall>q \<in> set (root # qs). L q = None" "same_outside (heap_scratch L) m m'"
    using parse_path_spec [OF live _ str(1) _ _ _ str(3), of S cur] s av by auto
  obtain q n where qs: "qs = [q, n]" "n = path_root_first m' root" "n \<noteq> 0" "path_part_part m' n = q" "cstr m' q ns" "path_part_next m' n = 0"
    using p(3) by (cases qs rule: remdups_adj.cases) (auto simp: path_at_nil)
  have in_page: "region x 4096 \<inter> (B \<union> heap_scratch (grab L (root # qs))) = {}" if "x \<in> {q, n}" for x
    using that qs(1) by (intro off_heap_page [OF B p(5)]) auto
  have "region n 8 \<subseteq> region n 4096" "region q (Suc (length ns)) \<subseteq> region q 4096" using s(2) by (auto intro!: region_mono)
  then have "one_part m' n ns (B \<union> heap_scratch (grab L (root # qs)))"
    using in_page [of q] in_page [of n] qs(4-6) s(2) by (auto simp: one_part_def)
  then show thesis using that [of root m' qs] p qs(1-3) by auto
qed

text \<open>What an open descriptor at slot \<open>j\<close> holds for a file with the directory entry \<open>e\<close>.\<close>

definition file_open :: "sys \<Rightarrow> u32 list \<Rightarrow> mem \<Rightarrow> nat \<Rightarrow> u8 list \<Rightarrow> bool" where
  "file_open S ps m j e \<longleftrightarrow> descriptor S m j \<in> set ps \<and> fd_filesystem m (descriptor S m j) = fat16_fs_addr S
     \<and> fd_disk m (descriptor S m j) = disk_addr S \<and> fat_opened ps m (fd_private m (descriptor S m j)) e"

text \<open>What a call of \<open>fopen\<close> for reading needs.\<close>

definition open_ready :: "sys \<Rightarrow> u32 \<Rightarrow> u32 \<Rightarrow> u32 \<Rightarrow> u8 list list \<Rightarrow> u8 list \<Rightarrow> (u32 \<rightharpoonup> nat) \<Rightarrow> mem \<Rightarrow> bool" where
  "open_ready S sp path mode_str es ns L m \<longleftrightarrow>
     descriptors_ok S L m \<and> descriptors_apart S \<and> mounted S es m
     \<and> (\<exists>c1 c2 s. cstr m path (48 # c1 # c2 # s) \<and> off_heap (region path (length s + 4)) \<and> length s < 2 ^ 31 \<and> path_parts s = [ns])
     \<and> length ns < 108 \<and> m mode_str = 114 \<and> m (literal_addr S [114]) = 114 \<and> off_heap {mode_str, literal_addr S [114]}
     \<and> (\<forall>i \<in> set (hits ns es 0). es ! i ! 11 AND FAT_FILE_SUBDIRECTORY = 0)
     \<and> 2 * length (hits ns es 0) + 5 \<le> heap_avail kheap L
     \<and> off_heap (region (sp - 108) 108) \<and> region (sp - 108) 108 \<inter> region (file_descriptors_addr S) 2048 = {}
     \<and> mount_area S m es \<inter> (region (sp - 108) 108 \<union> region (file_descriptors_addr S) 2048 \<union> heap_scratch L) = {}"

lemma page_write: "unat j + 4 \<le> 4096 \<Longrightarrow> same_outside (region p 4096) m (store32 m (p + j) v)"
  by (rule same_outside_mono [OF store32_frame sub_region]) simp_all

lemma fopen_run:
  assumes "pathparser_parse S h path 0 m = Some (root, m1)" "root \<noteq> 0" "path_root_first m1 root \<noteq> 0" "path_root_drive_no m1 root = 0"
    and "disk_addr S \<noteq> 0" "fat16_fs_addr S \<noteq> 0" "disk_filesystem m1 (disk_addr S) = fat16_fs_addr S"
    and "disk_filesystem m3 (disk_addr S) = fat16_fs_addr S" "file_get_mode_by_string S mode_str m1 = FILE_MODE_READ"
    and "fat16_open S h sp (disk_addr S) (path_root_first m1 root) FILE_MODE_READ m1 = Some (fd, m2)" "\<not> ISERR fd"
    and "new_file_descriptor S h 0 m2 = (0, desc, m3)" "fd_index m4 desc = int n + 1"
    and m4: "m4 = store32 (store32 (store32 m3 (desc + 4) (fat16_fs_addr S)) (desc + 8) fd) (desc + 12) (disk_addr S)"
  shows "fopen S h sp path mode_str m = Some (int n + 1, m4)"
proof -
  have "FILE_MODE_READ \<noteq> FILE_MODE_INVALID" by (simp add: FILE_MODE_READ_def FILE_MODE_INVALID_def)
  moreover have "disk_get S 0 = disk_addr S" by (simp add: disk_get_def)
  ultimately have "fopen S h sp path mode_str m = fopen_out S h (fd_index m4 desc) root (disk_addr S) fd desc m4"
    using assms(1-12) unfolding m4 by (simp add: fopen_def fs_call_open_def Let_def)
  also have "\<dots> = Some (int n + 1, m4)" unfolding assms(13) fopen_out_def by simp
  finally show ?thesis .
qed

lemma fopen_opens:
  assumes ready: "open_ready S sp path mode_str es ns L m" and hit: "hits ns es 0 \<noteq> []"
    and j: "j < 512" "descriptor S m j = 0" "\<And>k. k < j \<Longrightarrow> descriptor S m k \<noteq> 0"
  obtains m' ps where "fopen S kheap sp path mode_str m = Some (int j + 1, m')" "descriptors_ok S (grab L ps) m'"
    "set ps \<inter> dom L = {}" "\<And>k. k < 512 \<Longrightarrow> k \<noteq> j \<Longrightarrow> descriptor S m' k = descriptor S m k"
    "file_open S ps m' j (es ! last (hits ns es 0))"
    "same_outside (region (sp - 108) 108 \<union> region (file_descriptors_addr S) 2048 \<union> heap_scratch L) m m'"
proof -
  let ?B = "region (sp - 108) 108" and ?T = "region (file_descriptors_addr S) 2048" and ?e = "es ! last (hits ns es 0)"
  note d = ready [unfolded open_ready_def]
  have ok: "descriptors_ok S L m" and ap: "descriptors_apart S" and mnt: "mounted S es m" and B: "off_heap ?B" "?B \<inter> ?T = {}"
    and files: "\<forall>i \<in> set (hits ns es 0). es ! i ! 11 AND FAT_FILE_SUBDIRECTORY = 0"
    and av: "2 * length (hits ns es 0) + 5 \<le> heap_avail kheap L"
    and area: "mount_area S m es \<inter> (?B \<union> ?T \<union> heap_scratch L) = {}"
    and md: "m mode_str = 114" "m (literal_addr S [114]) = 114" "off_heap {mode_str, literal_addr S [114]}" using d by blast+
  have live: "heap_live kheap m L" using ok by (simp add: descriptors_ok_def)
  obtain c1 c2 s where p: "cstr m path (48 # c1 # c2 # s)" "off_heap (region path (length s + 4))" "length s < 2 ^ 31" "path_parts s = [ns]" "length ns < 108"
    using d by blast
  obtain root qs m1 where m1: "pathparser_parse S kheap path 0 m = Some (root, m1)" "root \<noteq> 0" "path_root_first m1 root \<noteq> 0"
    "path_root_drive_no m1 root = 0" "one_part m1 (path_root_first m1 root) ns (?B \<union> heap_scratch (grab L (root # qs)))"
    "heap_live kheap m1 (grab L (root # qs))" "length qs = 2" "set (root # qs) \<inter> dom L = {}" "same_outside (heap_scratch L) m m1"
    by (rule parse_one [OF live p _ B(1), of S 0]) (use av in auto)
  let ?L1 = "grab L (root # qs)" and ?pt = "path_root_first m1 root"
  have scr1: "heap_scratch ?L1 \<subseteq> heap_scratch L" by (rule grab_scratch_mono [OF m1(8)])
  have "mount_area S m es \<inter> heap_scratch L = {}" using area by blast
  note mf1 = mount_frame [OF mnt m1(9) this]
  have area1: "mount_area S m1 es \<inter> (?B \<union> heap_scratch ?L1) = {}" using area scr1 unfolding mf1(3) by blast
  have av1: "2 * length (hits ns es 0) + 2 \<le> heap_avail kheap ?L1" using avail_grab_le [OF m1(6,8)] m1(7) av by simp
  then have av1': "2 * length (hits ns es 0) + 1 \<le> heap_avail kheap ?L1" by simp
  obtain fd m2 ps where m2: "fat16_open S kheap sp (disk_addr S) ?pt FILE_MODE_READ m1 = Some (fd, m2)" "fd \<noteq> 0" "\<not> ISERR fd"
    "heap_live kheap m2 (grab ?L1 ps)" "length ps = 2 * length (hits ns es 0) + 1" "set ps \<inter> dom ?L1 = {}"
    "fat_opened ps m2 fd ?e" "same_outside (?B \<union> heap_scratch ?L1) m1 m2"
    by (rule fat16_open_root [OF mf1(1) m1(6,5) hit files av1' B(1) area1])
  have "mode_str \<notin> heap_scratch L" "literal_addr S [114] \<notin> heap_scratch L" using off_heap_scratch [OF md(3), of L] by blast+
  then have "m1 mode_str = 114" "m1 (literal_addr S [114]) = 114" using same_outsideD [OF m1(9)] md(1,2) by simp_all
  then have mode: "file_get_mode_by_string S mode_str m1 = FILE_MODE_READ" by (rule mode_read)
  let ?qs = "ps @ root # qs"
  have g: "grab ?L1 ps = grab L ?qs" by (rule grab_append)
  have new: "set ?qs \<inter> dom L = {}" using m1(8) m2(6) unfolding dom_grab by auto
  have ok1: "descriptors_ok S ?L1 m1" "\<And>k. k < 512 \<Longrightarrow> descriptor S m1 k = descriptor S m k"
    using descriptors_kept [OF ok ap same_outside_mono [OF m1(9)] B m1(6,8)] by auto
  have ok2: "descriptors_ok S (grab ?L1 ps) m2" "\<And>k. k < 512 \<Longrightarrow> descriptor S m2 k = descriptor S m k"
    using descriptors_kept [OF ok1(1) ap m2(8) B m2(4,6)] ok1(2) by auto
  have av2: "0 < heap_avail kheap (grab ?L1 ps)" using avail_grab_le [OF m2(4,6)] m2(5) av1 by simp
  let ?slot = "region (file_descriptors_slot S (int j)) 4"
  obtain desc m3 where m3: "new_file_descriptor S kheap 0 m2 = (0, desc, m3)" "desc \<noteq> 0" "grab ?L1 ps desc = None"
      "descriptors_ok S ((grab ?L1 ps)(desc \<mapsto> 1)) m3"
      "\<And>k. k < 512 \<Longrightarrow> descriptor S m3 k = (if k = j then desc else descriptor S m2 k)"
      "load32 m3 desc = of_nat (j + 1)" "same_outside (heap_scratch (grab ?L1 ps) \<union> ?slot) m2 m3"
    by (rule new_descriptor_ok [OF ok2(1) ap av2 j(1), of 0]) (use ok2(2) j in auto)
  let ?L3 = "grab L (desc # ?qs)"
  have L3: "(grab ?L1 ps)(desc \<mapsto> 1) = ?L3"
    unfolding g using grab_upd [of "desc # ?qs" desc ?qs L] by simp
  have scr2: "heap_scratch (grab ?L1 ps) \<subseteq> heap_scratch ?L1" by (rule grab_scratch_mono [OF m2(6)])
  note mf2 = mount_frame [OF mf1(1) m2(8) area1]
  have slot: "?slot \<subseteq> ?T" by (rule slot_region [OF j(1)])
  have "mount_area S m2 es \<inter> (heap_scratch (grab ?L1 ps) \<union> ?slot) = {}"
    using area scr1 scr2 slot unfolding mf2(3) mf1(3) by blast
  note mf3 = mount_frame [OF mf2(1) m3(7) this]
  let ?fs = "fat16_fs_addr S" and ?D = "disk_addr S"
  define m4 where "m4 = store32 (store32 (store32 m3 (desc + 4) ?fs) (desc + 8) fd) (desc + 12) ?D"
  have ix: "load32 m4 desc = load32 m3 desc" by (simp add: m4_def load32_store32_off)
  then have "fd_index m4 desc = int j + 1" by (intro fd_index_slot [OF j(1)]) (simp only: m3(6))
  moreover have "disk_filesystem m1 ?D = ?fs" "disk_filesystem m3 ?D = ?fs" "?fs \<noteq> 0" "?D \<noteq> 0"
    using mf1(1) mf3(1) by (simp_all add: mounted_def)
  ultimately have run: "fopen S kheap sp path mode_str m = Some (int j + 1, m4)"
    by (intro fopen_run [OF m1(1-4) _ _ _ _ mode m2(1,3) m3(1) _ m4_def]) simp_all
  have w: "same_outside (region desc 4096) m3 m4"
    unfolding m4_def
    by (rule same_outside_trans1 [OF same_outside_trans1 [OF page_write page_write] page_write]) simp_all
  have Ld: "?L3 desc = Some 1" by simp
  note ok4 = descriptor_filled [OF m3(4) [unfolded L3] ap Ld w ix]
  have live4: "heap_live kheap m4 ?L3" using ok4(1) by (simp add: descriptors_ok_def)
  have dj: "descriptor S m4 j = desc" using ok4(2) [OF j(1)] m3(5) [OF j(1)] by simp
  have new4: "set (desc # ?qs) \<inter> dom L = {}" 
  proof -
    have "desc \<notin> dom (grab L ?qs)" using m3(3) unfolding g by (simp add: domIff)
    then show ?thesis using new unfolding dom_grab by auto
  qed
  have live2: "heap_live kheap m2 (grab L ?qs)" using m2(4) unfolding g .
  have "fat_opened ps m3 fd ?e"
  proof (rule fat_opened_frame [OF m2(7) m3(7)])
    show "region p 4096 \<inter> (heap_scratch (grab ?L1 ps) \<union> ?slot) = {}" if "p \<in> set ps" for p
      using that by (subst Un_commute) (intro off_heap_page [OF slot_off_heap [OF ap j(1)] m2(4)], simp)
  qed
  then have "fat_opened ps m4 fd ?e"
  proof (rule fat_opened_frame [OF _ w])
    fix p assume p: "p \<in> set ps"
    then have "p \<noteq> desc" using m3(3) by auto
    moreover have "?L3 p = Some 1" using p by simp
    ultimately show "region p 4096 \<inter> region desc 4096 = {}"
      using kh.live_disjoint [OF live4 _ Ld, of p 1] by (simp add: block_region_1)
  qed
  then have "fat_opened (desc # ?qs) m4 fd ?e" by (rule fat_opened_mono) auto
  then have op: "file_open S (desc # ?qs) m4 j ?e"
    unfolding file_open_def dj fd_filesystem_def fd_disk_def fd_private_def
    by (simp add: m4_def load32_store32_off load32_store32_same)
  have "region desc 4096 \<subseteq> heap_scratch L" by (rule grab_scratch [OF live4 _ new4]) simp
  then have sub: "heap_scratch L \<subseteq> ?B \<union> ?T \<union> heap_scratch L" "?B \<union> heap_scratch ?L1 \<subseteq> ?B \<union> ?T \<union> heap_scratch L"
      "heap_scratch (grab ?L1 ps) \<union> ?slot \<subseteq> ?B \<union> ?T \<union> heap_scratch L" "region desc 4096 \<subseteq> ?B \<union> ?T \<union> heap_scratch L"
    using scr1 scr2 slot by auto
  note so = same_outside_trans1 [OF same_outside_trans1 [OF same_outside_trans1 [OF
        same_outside_mono [OF m1(9) sub(1)] same_outside_mono [OF m2(8) sub(2)]] same_outside_mono [OF m3(7) sub(3)]]
        same_outside_mono [OF w sub(4)]]
  have other: "descriptor S m4 k = descriptor S m k" if "k < 512" "k \<noteq> j" for k
    using that ok4(2) m3(5) ok2(2) by simp
  show thesis by (rule that [OF run ok4(1) new4 other op so])
qed

section \<open>What a program sees\<close>

text \<open>
  C8. Opening the path \<^verbatim>\<open>0:/name\<close> for reading, when the root directory has a file of that name
  up to case, returns the number of the first free slot of the descriptor table. The new descriptor
  refers to the disk, its file system and a driver descriptor at position 0 with a copy of
  the last directory entry of that name, all in fresh heap pages; the other descriptors stay, and
  only the table, free heap memory and the name buffer on the stack are written.
\<close>

theorem fopen_root_file:
  assumes "open_ready S sp path mode_str es ns L m" and "hits ns es 0 \<noteq> []"
    and "j < 512" "descriptor S m j = 0" "\<forall>k < j. descriptor S m k \<noteq> 0"
  shows "\<exists>m' ps. fopen S kheap sp path mode_str m = Some (int j + 1, m')
    \<and> file_open S ps m' j (es ! last (hits ns es 0)) \<and> descriptors_ok S (grab L ps) m' \<and> set ps \<inter> dom L = {}
    \<and> (\<forall>k < 512. k \<noteq> j \<longrightarrow> descriptor S m' k = descriptor S m k)
    \<and> same_outside (region (sp - 108) 108 \<union> region (file_descriptors_addr S) 2048 \<union> heap_scratch L) m m'"
proof -
  obtain m' ps where "fopen S kheap sp path mode_str m = Some (int j + 1, m')" "descriptors_ok S (grab L ps) m'"
    "set ps \<inter> dom L = {}" "\<And>k. k < 512 \<Longrightarrow> k \<noteq> j \<Longrightarrow> descriptor S m' k = descriptor S m k"
    "file_open S ps m' j (es ! last (hits ns es 0))"
    "same_outside (region (sp - 108) 108 \<union> region (file_descriptors_addr S) 2048 \<union> heap_scratch L) m m'"
    by (rule fopen_opens [OF assms(1-4)]) (use assms(5) in auto)
  then show ?thesis by auto
qed

text \<open>The first cluster in a directory entry whose high word is 0.\<close>

lemma first_cluster_entry:
  assumes e: "load_bytes m x 32 = e" and hi: "e ! 20 = 0" "e ! 21 = 0"
  shows "fat16_get_first_cluster m x = of_nat (fat_word ((!) e) 26)"
proof -
  have b: "m (x + of_nat i) = e ! i" if "i < 32" for i using that unfolding e [symmetric] by simp
  have "m (x + 20) = 0" "m (x + 20 + 1) = 0" using b [of 20] b [of 21] hi by (simp_all add: add.assoc)
  then have h: "load16 m (x + 20) = 0" by (simp add: load16_def)
  have "load_bytes m (x + 26) 2 = image_bytes ((!) e) 26 2"
  proof (rule nth_equalityI)
    fix i assume "i < length (load_bytes m (x + 26) 2)"
    then have i: "i < 2" by simp
    have "x + 26 + of_nat i = x + of_nat (26 + i)" by (simp add: add.assoc)
    then have "m (x + 26 + of_nat i) = e ! (26 + i)" using b [of "26 + i"] i by (simp only:)
    then show "load_bytes m (x + 26) 2 ! i = image_bytes ((!) e) 26 2 ! i" using i by simp
  qed simp
  then have "uint (load16 m (x + 26)) = int (fat_word ((!) e) 26)" by (rule load16_bytes)
  then have "ucast (load16 m (x + 26)) = (of_nat (fat_word ((!) e) 26) :: u32)"
    by (metis of_int_of_nat_eq ucast_eq)
  then show ?thesis by (simp add: fat16_get_first_cluster_def h)
qed

text \<open>
  C1. A program that opens the path \<^verbatim>\<open>0:/name\<close> and reads a block of \<open>n\<close> bytes gets result 1 and
  the first \<open>n\<close> bytes of the chain of clusters that starts at the first cluster of the last entry
  of that name in the root directory, as they are on the disk.
\<close>

theorem fopen_fread_contents:
  assumes "ata_reads (controller S) img" and "open_ready S sp path mode_str es ns L m" and "hits ns es 0 \<noteq> []"
    and "j < 511" "descriptor S m j = 0" "\<forall>k < j. descriptor S m k \<noteq> 0"
    and "volume S (disk_addr S) private fs cs m"
    and "fields (disk_addr S) private fs cs \<inter> (region (file_descriptors_addr S) 2048 \<union> heap_scratch L) = {}"
    and "room sp (disk_addr S) private fs cs out n need" and "stack_need (cluster_bytes m private) \<le> need"
    and "0 < cluster_bytes m private" and "region out n \<inter> heap_scratch L = {}"
    and "es ! last (hits ns es 0) ! 20 = 0" "es ! last (hits ns es 0) ! 21 = 0"
    and "0 < n" "n < 2 ^ 31" and "on_disk img m private (fat_word ((!) (es ! last (hits ns es 0))) 26) n"
  shows "\<exists>m'. do { (fd, m) \<leftarrow> fopen S kheap sp path mode_str m; fread S sp out (of_nat n) 1 fd m } = Some (1, m')
    \<and> load_bytes m' out n = map (file_byte img m private (fat_word ((!) (es ! last (hits ns es 0))) 26)) [0..<n]"
proof -
  let ?B = "region (sp - 108) 108" and ?T = "region (file_descriptors_addr S) 2048" and ?e = "es ! last (hits ns es 0)"
  let ?c = "fat_word ((!) ?e) 26" and ?A = "region (sp - 108) 108 \<union> region (file_descriptors_addr S) 2048 \<union> heap_scratch L"
  obtain m1 ps where m1: "fopen S kheap sp path mode_str m = Some (int j + 1, m1)" "descriptors_ok S (grab L ps) m1" "set ps \<inter> dom L = {}"
      "file_open S ps m1 j ?e" "same_outside ?A m m1"
    by (rule fopen_opens [OF assms(2,3) _ assms(5)]) (use assms(4,6) in auto)
  have need: "1028 \<le> need" "need \<le> 2 ^ 32" using assms(9) by (simp_all add: room_def)
  have "stack sp 108 \<subseteq> stack sp need" using need by (intro stack_mono) simp_all
  then have "?B \<subseteq> stack sp need" by (simp add: stack_def)
  then have fld: "fields (disk_addr S) private fs cs \<inter> ?A = {}" using assms(8,9) unfolding room_def scratch_def by blast
  note v = volume_frame [OF m1(5) fld assms(7)] and g = geometry_frame [OF m1(5) fld assms(7)]
  let ?d = "descriptor S m1 j"
  let ?p = "fd_private m1 ?d"
  have o: "?d \<in> set ps" "fd_filesystem m1 ?d = fat16_fs_addr S" "fd_disk m1 ?d = disk_addr S" "?p \<in> set ps"
      "load32 m1 (?p + 4) = of_nat 0" "load_bytes m1 (load32 m1 (load32 m1 ?p)) 32 = ?e"
    using m1(4) by (simp_all add: file_open_def fat_opened_def file_found_def)
  have live: "heap_live kheap m1 (grab L ps)" using m1(2) by (simp add: descriptors_ok_def)
  have "region (?p + 4) 4 \<subseteq> heap_scratch L" using grab_scratch [OF live o(4) m1(3)] page_parts(2) by blast
  then have apart: "region (?p + 4) 4 \<inter> region out n = {}" using assms(12) by blast
  have fc: "fat16_get_first_cluster m1 (load32 m1 (load32 m1 ?p)) = of_nat ?c" by (rule first_cluster_entry [OF o(6) assms(13,14)])
  obtain m' where m': "fat16_read S sp (disk_addr S) ?p (of_nat n) 1 out m1 = Some (1, m')"
      "load_bytes m' out n = map (file_byte img m1 private ?c) [0..<0 + n]"
    using read_delivers [OF assms(1) v(1) assms(9) _ _ fc fat_word_less o(5) _ assms(15) _ _ apart] assms(10,11,16,17)
    unfolding g by auto
  have "?d \<noteq> 0" using kh.live_ok [OF live, of ?d 1] o(1) by simp
  have "file_get_descriptor S (int j + 1) m1 = ?d" using get_descriptor [of "j + 1" S m1] assms(4) by (simp add: add.commute)
  moreover have "unat (of_nat n :: u32) = n" using assms(16) by (intro unat_of_nat_u32) simp
  then have "(of_nat n :: u32) \<noteq> 0" using assms(15) by (metis less_numeral_extra(3) unat_0)
  ultimately have "fread S sp out (of_nat n) 1 (int j + 1) m1 = Some (1, m')"
    using \<open>?d \<noteq> 0\<close> o(2,3) m'(1) by (simp add: fread_def fs_call_read_def)
  then show ?thesis using m1(1) m'(2) unfolding g by simp
qed

section \<open>An example\<close>

text \<open>
  The volume of the earlier examples with a root directory of one file \<^verbatim>\<open>B.C\<close> that starts at
  cluster 2, and the path \<^verbatim>\<open>0:/b.c\<close>.
\<close>

definition open_entry :: "u8 list" where
  "open_entry = [66, 32, 32, 32, 32, 32, 32, 32, 67, 32, 32, 0, 0, 0, 0, 0, 0, 0, 0, 0, 0, 0, 0, 0, 0, 0, 2, 0, 0, 0, 0, 0]"

definition open_sys :: sys where
  "open_sys = (demo_sys demo_image)\<lparr>disk_addr := 0x130000, fat16_fs_addr := 0x130100,
     file_descriptors_addr := 0x160000, literal_addr := (\<lambda>_. 0x139000)\<rparr>"

definition open_bytes :: mem where
  "open_bytes = (store_bytes (store_bytes demo_volume 0x121000 open_entry) 0x13A000 [48, 58, 47, 98, 46, 99])(0x139000 := 114)"

definition open_mem :: mem where
  "open_mem = store32 (store32 (store32 (store32 (store32 open_bytes
     0x132004 0x130000) 0x133004 0x130000) 0x13000C 0x130100) 0x131040 0x121000) 0x131044 1"

text \<open>What is added to the volume, and where all of it lies.\<close>

definition open_added :: "u32 set" where
  "open_added = region 0x121000 32 \<union> region 0x13A000 6 \<union> region 0x139000 1 \<union> region 0x132004 4 \<union> region 0x133004 4
     \<union> region 0x13000C 4 \<union> region 0x131040 8"

lemma same_outside_store: "same_outside A m0 m \<Longrightarrow> region p 4 \<subseteq> A \<Longrightarrow> same_outside A m0 (store32 m p v)"
  by (rule same_outside_trans1 [OF _ same_outside_mono [OF store32_frame]])

lemma open_words:
  "same_outside (region 0x132004 4 \<union> region 0x133004 4 \<union> region 0x13000C 4 \<union> region 0x131040 8) open_bytes open_mem"
  unfolding open_mem_def by (intro same_outside_store same_outside_refl) (auto simp: region_eq_range)

lemma open_bytes_frame: "same_outside (region 0x121000 32 \<union> region 0x13A000 6 \<union> region 0x139000 1) demo_volume open_bytes"
proof -
  let ?A = "region 0x121000 32 \<union> region 0x13A000 6 \<union> region (0x139000 :: u32) 1"
  have len: "length open_entry = 32" "length [48, 58, 47, 98, 46, 99 :: u8] = 6" by (simp_all add: open_entry_def)
  have "same_outside ?A m (store_bytes m 0x121000 open_entry)" for m
    by (rule same_outside_mono [OF store_bytes_frame]) (auto simp only: len)
  moreover have "same_outside ?A m (store_bytes m 0x13A000 [48, 58, 47, 98, 46, 99])" for m
    by (rule same_outside_mono [OF store_bytes_frame]) (auto simp only: len)
  moreover have "same_outside ?A m (m(0x139000 := 114))" for m by (rule same_outside_upd) (simp add: in_region_self)
  ultimately show ?thesis unfolding open_bytes_def using same_outside_trans1 by blast
qed

lemma open_frame: "same_outside open_added demo_volume open_mem"
  by (rule same_outside_trans1 [OF same_outside_mono [OF open_bytes_frame] same_outside_mono [OF open_words]]) (auto simp: open_added_def)

lemma demo_volume_frame: "same_outside (region 0x130000 0x7000) (\<lambda>_. 0) demo_volume"
  unfolding demo_volume_def by (intro same_outside_store same_outside_refl) (auto simp: region_eq_range)

lemma open_mem_frame: "same_outside (region 0x121000 0x1A000) (\<lambda>_. 0) open_mem"
  by (rule same_outside_trans1 [OF same_outside_mono [OF demo_volume_frame] same_outside_mono [OF open_frame]])
    (auto simp: open_added_def region_eq_range)

lemma open_loads:
  "load32 open_mem 0x13000C = 0x130100" "load32 open_mem 0x130010 = 0x131000" "load32 open_mem 0x130004 = 512"
  "load32 open_mem 0x131040 = 0x121000" "load32 open_mem 0x131044 = 1"
  "load32 open_mem 0x131054 = 0x132000" "load32 open_mem 0x131050 = 0x133000"
  "load32 open_mem 0x132004 = 0x130000" "load32 open_mem 0x133004 = 0x130000" "load32 open_mem 0x13104C = 10"
proof -
  have "load32 open_mem 0x130010 = load32 demo_volume 0x130010" "load32 open_mem 0x130004 = load32 demo_volume 0x130004"
    "load32 open_mem 0x131054 = load32 demo_volume 0x131054" "load32 open_mem 0x131050 = load32 demo_volume 0x131050"
    "load32 open_mem 0x13104C = load32 demo_volume 0x13104C"
    by (rule load32_same_outside [OF open_frame]; auto simp: open_added_def region_eq_range)+
  then show "load32 open_mem 0x130010 = 0x131000" "load32 open_mem 0x130004 = 512" "load32 open_mem 0x13104C = 10"
    "load32 open_mem 0x131054 = 0x132000" "load32 open_mem 0x131050 = 0x133000"
    by (simp_all add: demo_volume_def off_simps)
qed (simp_all add: open_mem_def off_simps)

lemma open_volume: "volume open_sys 0x130000 0x131000 0x132000 0x133000 open_mem"
proof -
  have "int_of_u32 512 = 512" by (simp add: int_of_u32_small)
  then show ?thesis
    by (simp add: volume_def open_loads disk_fs_private_def disk_sector_size_def fat_read_stream_def
        cluster_read_stream_def stream_disk_def open_sys_def)
qed

lemma open_geometry:
  "cluster_bytes open_mem 0x131000 = 512" "on_disk img open_mem 0x131000 = on_disk img demo_volume 0x131000"
  "file_byte img open_mem 0x131000 = file_byte img demo_volume 0x131000"
proof -
  have b: "open_mem a = demo_volume a" if "a \<in> region 0x13100D 3" for a
    by (rule same_outsideD [OF open_frame]) (use that in \<open>auto simp: open_added_def region_eq_range\<close>)
  have b3: "open_mem 0x13100D = demo_volume 0x13100D" "open_mem 0x13100E = demo_volume 0x13100E" "open_mem 0x13100F = demo_volume 0x13100F"
    by (rule b; simp add: region_eq_range)+
  have c: "cluster_bytes open_mem 0x131000 = cluster_bytes demo_volume 0x131000" by (simp add: cluster_bytes_def b3)
  have l: "load16 open_mem (0x131000 + 14) = load16 demo_volume (0x131000 + 14)" by (simp add: load16_def b3)
  have "root_last_sector_pos open_mem 0x131000 = root_last_sector_pos demo_volume 0x131000"
    using demo_volume_geometry(3) by (simp add: root_last_sector_pos_def open_loads int_of_u32_small)
  then have s: "cluster_start open_mem 0x131000 = cluster_start demo_volume 0x131000"
    by (simp add: cluster_start_def sectors_per_cluster_def b3 fun_eq_iff)
  show "cluster_bytes open_mem 0x131000 = 512" by (simp add: c demo_volume_geometry)
  show "on_disk img open_mem 0x131000 = on_disk img demo_volume 0x131000"
    unfolding on_disk_def c l s ..
  show "file_byte img open_mem 0x131000 = file_byte img demo_volume 0x131000"
    unfolding file_byte_def c l s ..
qed

lemma open_directory: "load_bytes open_mem 0x121000 32 = open_entry"
proof -
  let ?m = "store_bytes demo_volume 0x121000 open_entry"
  have len: "length open_entry = 32" "length [48, 58, 47, 98, 46, 99 :: u8] = 6" by (simp_all add: open_entry_def)
  have "load_bytes open_mem 0x121000 32 = load_bytes open_bytes 0x121000 32"
    by (rule load_bytes_frame [OF open_words]) (auto simp: region_eq_range)
  also have "\<dots> = load_bytes (store_bytes ?m 0x13A000 [48, 58, 47, 98, 46, 99]) 0x121000 32"
    unfolding open_bytes_def by (rule load_bytes_frame [OF same_outside_upd [of _ "region 0x139000 1"]]) (auto simp: region_eq_range)
  also have "\<dots> = load_bytes ?m 0x121000 32"
    by (rule load_bytes_frame [OF store_bytes_frame]) (simp_all only: len, auto simp: region_eq_range)
  also have "\<dots> = open_entry" using load_store_bytes [of open_entry demo_volume "0x121000"] by (simp add: len)
  finally show ?thesis .
qed

lemma open_mounted: "mounted open_sys [open_entry] open_mem" "root_directory open_sys open_mem = 0x131040"
  "dir_item open_mem 0x131040 = 0x121000"
proof -
  show r: "root_directory open_sys open_mem = 0x131040" by (simp add: root_directory_def open_sys_def disk_fs_private_def open_loads)
  show i: "dir_item open_mem 0x131040 = 0x121000" by (simp add: dir_item_def open_loads)
  have "dir_total open_mem 0x131040 = 1" by (simp add: dir_total_def open_loads int_of_u32_small)
  then have "loaded open_mem 0x131040 [open_entry]" by (simp add: loaded_def i open_directory)
  then show "mounted open_sys [open_entry] open_mem"
    unfolding mounted_def r by (simp add: open_sys_def disk_filesystem_def open_loads)
qed

lemma open_path: "cstr open_mem 0x13A000 [48, 58, 47, 98, 46, 99]"
proof -
  have "open_mem 0x13A006 = demo_volume 0x13A006"
    by (rule same_outsideD [OF open_frame]) (auto simp: open_added_def region_eq_range)
  also have "\<dots> = 0" using same_outsideD [OF demo_volume_frame, of "0x13A006"] by (simp add: region_eq_range)
  finally have z: "open_mem 0x13A006 = 0" .
  have len: "length [48, 58, 47, 98, 46, 99 :: u8] = 6" by simp
  let ?m = "store_bytes (store_bytes demo_volume 0x121000 open_entry) 0x13A000 [48, 58, 47, 98, 46, 99]"
  have "load_bytes open_mem 0x13A000 6 = load_bytes open_bytes 0x13A000 6"
    by (rule load_bytes_frame [OF open_words]) (auto simp: region_eq_range)
  also have "\<dots> = load_bytes ?m 0x13A000 6"
    unfolding open_bytes_def by (rule load_bytes_frame [OF same_outside_upd [of _ "region 0x139000 1"]]) (auto simp: region_eq_range)
  also have "\<dots> = [48, 58, 47, 98, 46, 99]" by (rule load_store_bytes [of "[48, 58, 47, 98, 46, 99]", unfolded len]) simp
  finally have l: "load_bytes open_mem 0x13A000 6 = [48, 58, 47, 98, 46, 99]" .
  show ?thesis
  proof (rule cstrI)
    show "open_mem (0x13A000 + of_nat i) = [48, 58, 47, 98, 46, 99] ! i" if "i < length [48, 58, 47, 98, 46, 99 :: u8]" for i
      unfolding l [symmetric] using that by simp
  qed (use z in simp_all)
qed

lemma open_example_hits: "hits [98, 46, 99] [open_entry] 0 = [0]"
proof -
  have "short_name open_entry = [66, 46, 67]" by (simp add: short_name_def unpadded_def open_entry_def)
  then have "named [98, 46, 99] open_entry" by (simp add: named_def tolower_def)
  then show ?thesis by (simp add: hits_def)
qed

lemma open_example_slots: "k < 512 \<Longrightarrow> descriptor open_sys open_mem k = 0"
proof -
  assume k: "k < 512"
  have "region (file_descriptors_slot open_sys (int k)) 4 \<subseteq> region 0x160000 2048"
    using slot_region [OF k, of open_sys] by (simp add: open_sys_def)
  moreover have "region (0x160000 :: u32) 2048 \<inter> region 0x121000 0x1A000 = {}" by (auto simp: region_eq_range)
  ultimately have "descriptor open_sys open_mem k = load32 (\<lambda>_. 0) (file_descriptors_slot open_sys (int k))"
    unfolding descriptor_def by (intro load32_same_outside [OF open_mem_frame]) blast
  then show ?thesis by (simp add: off_simps)
qed

lemma open_example_heap: "heap_live kheap open_mem Map.empty"
  by (rule empty_heap_outside [OF open_mem_frame]) (auto simp: kheap_regions region_eq_range)

lemma open_example_area: "mount_area open_sys open_mem [open_entry] \<subseteq> region 0x121000 0x1A000"
  unfolding mount_area_def open_mounted(2,3) by (auto simp: open_sys_def region_eq_range)

lemma open_example_ready: "open_ready open_sys 0x600000 0x13A000 0x139000 [open_entry] [98, 46, 99] Map.empty open_mem"
proof -
  have "descriptors_ok open_sys Map.empty open_mem" by (simp add: descriptors_ok_def open_example_heap open_example_slots)
  moreover have "descriptors_apart open_sys" by (auto simp: descriptors_apart_def open_sys_def intro!: off_heapI)
  moreover have "\<exists>c1 c2 s. cstr open_mem 0x13A000 (48 # c1 # c2 # s) \<and> off_heap (region 0x13A000 (length s + 4)) \<and> length s < 2 ^ 31
      \<and> path_parts s = [[98, 46, 99]]"
    using open_path off_heapI [of "0x13A000" 7]
    by (intro exI [of _ 58] exI [of _ 47] exI [of _ "[98, 46, 99]"]) (simp add: path_parts.simps)
  moreover have "open_mem 0x139000 = 114"
    using same_outsideD [OF open_words, of "0x139000"] by (simp add: region_eq_range open_bytes_def)
  moreover have "off_heap {0x139000}" by (simp add: off_heap_def kheap_regions)
  moreover have "open_entry ! 11 AND FAT_FILE_SUBDIRECTORY = 0" by (simp add: open_entry_def)
  moreover have "off_heap (region (0x600000 - 108) 108)" by (rule off_heapI) simp_all
  moreover have "region (0x600000 - 108) 108 \<inter> region (0x160000 :: u32) 2048 = {}" by (auto simp: region_eq_range)
  moreover have "mount_area open_sys open_mem [open_entry] \<inter> (region (0x600000 - 108) 108 \<union> region 0x160000 2048 \<union> heap_scratch Map.empty) = {}"
  proof -
    have "off_heap (region 0x121000 0x1A000)" by (rule off_heapI) simp_all
    moreover have "region (0x121000 :: u32) 0x1A000 \<inter> (region (0x600000 - 108) 108 \<union> region 0x160000 2048) = {}"
      by (auto simp: region_eq_range)
    ultimately show ?thesis using open_example_area off_heap_scratch [of "region 0x121000 0x1A000" Map.empty] by blast
  qed
  ultimately show ?thesis
    using open_mounted(1) kernel_empty(2) unfolding open_ready_def open_example_hits by (simp add: open_sys_def)
qed

theorem fopen_root_file_witness:
  "\<exists>m' ps. fopen open_sys kheap 0x600000 0x13A000 0x139000 open_mem = Some (1, m') \<and> file_open open_sys ps m' 0 open_entry"
  using fopen_root_file [OF open_example_ready _ _ open_example_slots, of 0] unfolding open_example_hits by auto

theorem fopen_fread_contents_witness:
  "\<exists>m'. do { (fd, m) \<leftarrow> fopen open_sys kheap 0x600000 0x13A000 0x139000 open_mem;
           fread open_sys 0x600000 0x140000 600 1 fd m } = Some (1, m')
    \<and> m' 0x140000 = demo_image 5120 \<and> m' 0x140200 = demo_image 5632"
proof -
  have D: "disk_addr open_sys = 0x130000" "file_descriptors_addr open_sys = 0x160000" "controller open_sys = controller (demo_sys demo_image)"
    by (simp_all add: open_sys_def)
  have e: "[open_entry] ! last (hits [98, 46, 99] [open_entry] 0) = open_entry" by (simp add: open_example_hits)
  have c: "fat_word ((!) open_entry) 26 = 2" by (simp add: fat_word_def open_entry_def)
  have z: "open_entry ! 20 = 0" "open_entry ! 21 = 0" by (simp_all add: open_entry_def)
  have reads: "ata_reads (controller open_sys) demo_image" unfolding D by (rule demo_reads)
  have "fields 0x130000 0x131000 0x132000 0x133000 \<subseteq> region 0x130000 0x4000" by (auto simp: fields_def region_eq_range)
  moreover have "region (0x130000 :: u32) 0x4000 \<inter> region 0x160000 2048 = {}" by (auto simp: region_eq_range)
  moreover have "off_heap (region 0x130000 0x4000)" "off_heap (region 0x140000 600)" by (rule off_heapI; simp)+
  ultimately have apart: "fields 0x130000 0x131000 0x132000 0x133000 \<inter> (region 0x160000 2048 \<union> heap_scratch Map.empty) = {}"
      "region 0x140000 600 \<inter> heap_scratch Map.empty = {}"
    using off_heap_scratch [of "region 0x130000 0x4000" Map.empty] off_heap_scratch [of "region 0x140000 600" Map.empty] by blast+
  obtain m' where m': "do { (fd, m) \<leftarrow> fopen open_sys kheap 0x600000 0x13A000 0x139000 open_mem;
        fread open_sys 0x600000 0x140000 (of_nat 600) 1 fd m } = Some (1, m')"
      "load_bytes m' 0x140000 600 = map (file_byte demo_image demo_volume 0x131000 2) [0..<600]"
    using fopen_fread_contents [OF reads open_example_ready _ _ open_example_slots _ open_volume [folded D] apart(1) [folded D]
        demo_volume_room [folded D] _ _ apart(2), of 0] demo_on_disk
    unfolding e c open_geometry by (auto simp: open_example_hits z stack_need_def)
  have "load_bytes m' 0x140000 600 ! 0 = file_byte demo_image demo_volume 0x131000 2 0"
    "load_bytes m' 0x140000 600 ! 512 = file_byte demo_image demo_volume 0x131000 2 512"
    unfolding m'(2) by simp_all
  then show ?thesis
    using m'(1) by (simp add: file_byte_def demo_volume_geometry cluster_start_def demo_next stop_marks_def)
qed

end
