(* ===== verification/ElfSpec.thy ===== *)
theory ElfSpec
  imports Elf
begin

text \<open>
  The ELF loader accepts a program by class, encoding, type and program header only, and takes
  as the extent of the image the lowest and highest address of its loadable segments.
\<close>

section \<open>The extent of the segments\<close>

definition load_segments :: "mem \<Rightarrow> u32 \<Rightarrow> u32 list" where
  "load_segments m header = filter (\<lambda>p. p_type m p = PT_LOAD)
     (map (\<lambda>i. elf_program_header m header (int i)) [0..<nat (e_phnum m header)])"

definition segment_end :: "mem \<Rightarrow> u32 \<Rightarrow> u32" where
  "segment_end m p = p_vaddr m p + p_filesz m p"

text \<open>One header's effect on the extent, and the extent of several.\<close>

definition widen :: "mem \<Rightarrow> u32 \<Rightarrow> u32 \<times> u32 \<Rightarrow> u32 \<times> u32" where
  "widen m p be = (case be of (b, e) \<Rightarrow> if p_type m p = PT_LOAD
     then (if p_vaddr m p \<le> b \<or> b = 0 then p_vaddr m p else b,
           if e \<le> segment_end m p \<or> e = 0 then segment_end m p else e)
     else (b, e))"

lemma widen_pair: "widen m p (b, e) = (if p_type m p = PT_LOAD
     then (if p_vaddr m p \<le> b \<or> b = 0 then p_vaddr m p else b,
           if e \<le> segment_end m p \<or> e = 0 then segment_end m p else e)
     else (b, e))"
  by (simp add: widen_def)

lemma widen_segments:
  assumes "\<And>p. p \<in> set ps \<Longrightarrow> p_type m p = PT_LOAD \<Longrightarrow> p_vaddr m p \<noteq> 0 \<and> segment_end m p \<noteq> 0"
  shows "fold (widen m) ps (0, 0) =
    (let segs = filter (\<lambda>p. p_type m p = PT_LOAD) ps
     in if segs = [] then (0, 0) else (Min (p_vaddr m ` set segs), Max (segment_end m ` set segs)))"
  using assms
proof (induction ps rule: rev_induct)
  case (snoc p ps)
  let ?segs = "filter (\<lambda>p. p_type m p = PT_LOAD) ps"
  have IH: "fold (widen m) ps (0, 0) =
      (if ?segs = [] then (0, 0) else (Min (p_vaddr m ` set ?segs), Max (segment_end m ` set ?segs)))"
    using snoc by simp
  show ?case
  proof (cases "p_type m p = PT_LOAD \<and> ?segs \<noteq> []")
    case False
    then show ?thesis
    proof (cases "p_type m p = PT_LOAD")
      case load: True
      then have e: "?segs = []" using False by simp
      then show ?thesis using IH load by (simp add: widen_pair Let_def del: filter_empty_conv)
    qed (use IH in \<open>simp add: widen_pair Let_def\<close>)
  next
    case True
    let ?V = "p_vaddr m ` set ?segs" and ?E = "segment_end m ` set ?segs"
    have fin: "finite ?V" "?V \<noteq> {}" "finite ?E" "?E \<noteq> {}" using True by (auto simp: filter_empty_conv)
    have "Min ?V \<in> ?V" "Max ?E \<in> ?E" using fin by (blast intro: Min_in Max_in)+
    then have nz: "Min ?V \<noteq> 0" "Max ?E \<noteq> 0" using snoc.prems by auto
    have "fold (widen m) (ps @ [p]) (0, 0) = widen m p (Min ?V, Max ?E)" using IH True by simp
    also have "\<dots> = (min (p_vaddr m p) (Min ?V), max (Max ?E) (segment_end m p))"
      using True nz by (simp only: widen_pair min_def max_def simp_thms if_True)
    also have "\<dots> = (Min (insert (p_vaddr m p) ?V), Max (insert (segment_end m p) ?E))"
      unfolding Min.insert [OF fin(1,2)] Max.insert [OF fin(3,4)] by (simp only: max.commute)
    finally show ?thesis using True by simp
  qed
qed simp

section \<open>The headers\<close>

text \<open>The bytes of the header and of the program headers, none in the \<^verbatim>\<open>struct elf_file\<close>.\<close>

definition headers :: "mem \<Rightarrow> u32 \<Rightarrow> u32 set" where
  "headers m header = region header 52
     \<union> (\<Union>i \<in> {0..<nat (e_phnum m header)}. region (elf_program_header m header (int i)) 32)"

lemma headersI: "i < nat (e_phnum m header) \<Longrightarrow> region (elf_program_header m header (int i)) 32 \<subseteq> headers m header"
  by (force simp: headers_def)

lemma header_bytes:
  assumes "same_outside A m m'" "region header 52 \<inter> A = {}"
  shows "e_phnum m' header = e_phnum m header" "elf_program_header m' header i = elf_program_header m header i"
proof -
  have b: "m' (header + of_nat j) = m (header + of_nat j)" if "j < 52" for j
    using assms in_region_offset [of j 52 header] that by (intro same_outsideD [OF assms(1)]) auto
  have "header + 44 + 1 = header + of_nat 45" by (simp add: add.assoc)
  then show "e_phnum m' header = e_phnum m header"
    using b [of 44] b [of 45] by (simp only: e_phnum_def load16_def) simp
  have "header + 28 + 1 = header + of_nat 29" "header + 28 + 2 = header + of_nat 30" "header + 28 + 3 = header + of_nat 31"
    by (simp_all add: add.assoc)
  then have "e_phoff m' header = e_phoff m header"
    using b [of 28] b [of 29] b [of 30] b [of 31] by (simp only: e_phoff_def load32_def) simp
  then show "elf_program_header m' header i = elf_program_header m header i"
    by (simp add: elf_program_header_def elf_pheader_def)
qed

lemma phdr_fields:
  assumes "same_outside A m m'" "region p 32 \<inter> A = {}"
  shows "p_type m' p = p_type m p" "p_vaddr m' p = p_vaddr m p" "p_filesz m' p = p_filesz m p" "p_offset m' p = p_offset m p"
proof -
  have l: "load32 m' (p + j) = load32 m (p + j)" if "unat j + 4 \<le> 32" for j
    using sub_region [OF that, of p] assms(2) by (intro load32_same_outside [OF assms(1)]) auto
  show "p_type m' p = p_type m p" using l [of 0] by (simp add: p_type_def)
  show "p_vaddr m' p = p_vaddr m p" "p_filesz m' p = p_filesz m p" "p_offset m' p = p_offset m p"
    by (simp_all add: p_vaddr_def p_filesz_def p_offset_def l)
qed

text \<open>The fields of the \<^verbatim>\<open>struct elf_file\<close> that processing writes.\<close>

definition extent :: "mem \<Rightarrow> u32 \<Rightarrow> u32 \<times> u32" where
  "extent m file = (elf_virtual_base m file, elf_virtual_end m file)"

lemma file_word: "116 \<le> unat j \<Longrightarrow> unat j + 4 \<le> 132 \<Longrightarrow> same_outside (region (file + 116) 16) m (store32 m (file + j) v)"
proof -
  assume a: "116 \<le> unat j" "unat j + 4 \<le> 132"
  have u: "unat (j - 116) = unat j - 116" using a by (subst unat_sub) (simp_all add: word_le_nat_alt)
  then have "region (file + 116 + (j - 116)) 4 \<subseteq> region (file + 116) 16"
    using a by (intro sub_region) simp_all
  then show ?thesis using same_outside_mono [OF store32_frame [of "file + j"]] by simp
qed

lemma process_pheader:
  assumes apart: "region p 32 \<inter> region (file + 116) 16 = {}"
  shows "\<exists>m'. elf_process_pheader file p m = (0, m') \<and> extent m' file = widen m p (extent m file)
    \<and> same_outside (region (file + 116) 16) m m'"
proof (cases "p_type m p = PT_LOAD")
  case False
  then show ?thesis by (simp add: elf_process_pheader_def widen_def)
next
  case True
  define m1 where "m1 = (if elf_virtual_base m file \<ge> p_vaddr m p \<or> elf_virtual_base m file = 0x00
      then let m = store32 m (file + 116) (p_vaddr m p) in store32 m (file + 124) (elf_memory m file + p_offset m p) else m)"
  define m2 where "m2 = (if elf_virtual_end m1 file \<le> segment_end m1 p \<or> elf_virtual_end m1 file = 0x00
      then let m = store32 m1 (file + 120) (segment_end m1 p)
           in store32 m (file + 128) (elf_memory m file + p_offset m p + p_filesz m p) else m1)"
  have r: "elf_process_pheader file p m = (0, m2)"
    using True by (simp add: elf_process_pheader_def elf_process_phdr_pt_load_def segment_end_def m1_def m2_def Let_def)
  have f1: "same_outside (region (file + 116) 16) m m1"
    unfolding m1_def Let_def by (auto intro!: same_outside_trans1 [OF file_word file_word])
  have f2: "same_outside (region (file + 116) 16) m1 m2"
    unfolding m2_def Let_def by (auto intro!: same_outside_trans1 [OF file_word file_word])
  have s: "segment_end m1 p = segment_end m p" by (simp add: segment_end_def phdr_fields [OF f1 apart])
  have b1: "elf_virtual_base m1 file = (if p_vaddr m p \<le> elf_virtual_base m file \<or> elf_virtual_base m file = 0
      then p_vaddr m p else elf_virtual_base m file)" "elf_virtual_end m1 file = elf_virtual_end m file"
    by (simp_all add: m1_def elf_virtual_base_def elf_virtual_end_def off_simps Let_def)
  have b2: "elf_virtual_base m2 file = elf_virtual_base m1 file"
      "elf_virtual_end m2 file = (if elf_virtual_end m1 file \<le> segment_end m1 p \<or> elf_virtual_end m1 file = 0
         then segment_end m1 p else elf_virtual_end m1 file)"
    by (simp_all add: m2_def elf_virtual_base_def elf_virtual_end_def off_simps Let_def)
  have "extent m2 file = widen m p (extent m file)"
    using True unfolding extent_def b2 b1 s by (simp add: widen_pair)
  then show ?thesis using r same_outside_trans1 [OF f1 f2] by blast
qed

lemma pheaders_loop:
  assumes "headers m header \<inter> region (file + 116) 16 = {}" and "i \<le> nat (e_phnum m header)"
  shows "\<exists>m'. elf_process_pheaders_loop file header (int i) 0 m = (0, m')
    \<and> extent m' file = fold (widen m) (map (\<lambda>i. elf_program_header m header (int i)) [i..<nat (e_phnum m header)]) (extent m file)
    \<and> same_outside (region (file + 116) 16) m m'"
  using assms
proof (induction "nat (e_phnum m header) - i" arbitrary: i m)
  case 0
  then have "\<not> int i < e_phnum m header" by simp
  then show ?case using 0 by (subst elf_process_pheaders_loop.simps) simp
next
  case (Suc n)
  let ?p = "elf_program_header m header (int i)"
  have i: "i < nat (e_phnum m header)" using Suc.hyps(2) by simp
  have ap: "region ?p 32 \<inter> region (file + 116) 16 = {}" "region header 52 \<inter> region (file + 116) 16 = {}"
    using Suc.prems(1) headersI [OF i] by (blast, auto simp: headers_def)
  obtain m1 where m1: "elf_process_pheader file ?p m = (0, m1)" "extent m1 file = widen m ?p (extent m file)"
      "same_outside (region (file + 116) 16) m m1"
    using process_pheader [OF ap(1), of m] by blast
  note h = header_bytes [OF m1(3) ap(2)]
  have hs: "headers m1 header = headers m header" by (simp add: headers_def h)
  have n: "n = nat (e_phnum m1 header) - Suc i" "Suc i \<le> nat (e_phnum m1 header)"
    using Suc.hyps(2) i unfolding h by simp_all
  obtain m2 where m2: "elf_process_pheaders_loop file header (int (Suc i)) 0 m1 = (0, m2)"
      "extent m2 file = fold (widen m1) (map (\<lambda>i. elf_program_header m header (int i)) [Suc i..<nat (e_phnum m header)]) (extent m1 file)"
      "same_outside (region (file + 116) 16) m1 m2"
    using Suc.hyps(1) [OF n(1) _ n(2)] Suc.prems(1) unfolding hs h by blast
  have w: "widen m1 p = widen m p" if "region p 32 \<inter> region (file + 116) 16 = {}" for p
    by (rule ext) (simp add: widen_def segment_end_def phdr_fields [OF m1(3) that] split: prod.split)
  have "fold (widen m1) (map (\<lambda>i. elf_program_header m header (int i)) [Suc i..<nat (e_phnum m header)]) be
      = fold (widen m) (map (\<lambda>i. elf_program_header m header (int i)) [Suc i..<nat (e_phnum m header)]) be" for be
    by (rule fold_cong [OF refl refl]) (use Suc.prems(1) headersI [of _ m header] in \<open>fastforce intro!: w\<close>)
  then have "extent m2 file = fold (widen m) (map (\<lambda>i. elf_program_header m header (int i)) [i..<nat (e_phnum m header)]) (extent m file)"
    using m1(2) m2(2) i by (simp add: upt_conv_Cons)
  moreover have "elf_process_pheaders_loop file header (int i) 0 m = (0, m2)"
    using m1(1) m2(1) i [unfolded zless_nat_eq_int_zless] by (subst elf_process_pheaders_loop.simps) (simp add: add.commute)
  ultimately show ?case using same_outside_trans1 [OF m1(3) m2(3)] by blast
qed


text \<open>A program of two segments, 0x400000 to 0x401000 and 0x402000 to 0x402500.\<close>

definition demo_elf :: mem where
  "demo_elf = store32 (store32 (store32 (store32 (store32 (store32 (store32 (store32 (store32 (store32 (store32 (store32
     (\<lambda>_. 0) 0x1001070 0x1002000) 0x1002004 0x101) 0x1002010 2) 0x1002018 0x400000) 0x100201C 52) 0x100202C 2)
     0x1002034 1) 0x100203C 0x400000) 0x1002044 0x1000) 0x1002054 1) 0x100205C 0x402000) 0x1002064 0x500"

lemma demo_elf_fields:
  "elf_header demo_elf 0x1001000 = 0x1002000" "e_phoff demo_elf 0x1002000 = 52" "e_entry demo_elf 0x1002000 = 0x400000"
  "p_type demo_elf 0x1002034 = 1" "p_type demo_elf 0x1002054 = 1"
  "p_vaddr demo_elf 0x1002034 = 0x400000" "p_vaddr demo_elf 0x1002054 = 0x402000"
  "p_filesz demo_elf 0x1002034 = 0x1000" "p_filesz demo_elf 0x1002054 = 0x500"
  by (simp_all add: elf_header_def e_phoff_def e_entry_def p_type_def p_vaddr_def p_filesz_def demo_elf_def off_simps)

lemma demo_elf_bytes:
  "demo_elf 0x1002004 = 1" "demo_elf 0x1002005 = 1" "demo_elf 0x1002010 = 2" "demo_elf 0x1002011 = 0"
  "demo_elf 0x100202C = 2" "demo_elf 0x100202D = 0"
  unfolding demo_elf_def by (simp_all add: off_simps, simp_all add: store32_def drop_bit_eq_div)

lemma demo_elf_segments: "load_segments demo_elf 0x1002000 = [0x1002034, 0x1002054]"
  by (simp add: load_segments_def e_phnum_def load16_def demo_elf_bytes elf_program_header_def elf_pheader_def
      demo_elf_fields PT_LOAD_def upt_rec)

lemma demo_elf_apart: "headers demo_elf 0x1002000 \<inter> region (0x1001000 + 116) 16 = {}"
proof -
  have "{0..<2 :: nat} = {0, 1}" by auto
  then have "headers demo_elf 0x1002000 = region 0x1002000 52 \<union> (region 0x1002034 32 \<union> region 0x1002054 32)"
    by (simp add: headers_def e_phnum_def load16_def demo_elf_bytes elf_program_header_def elf_pheader_def demo_elf_fields)
  moreover have "region 0x1002000 52 \<inter> region 0x1001074 16 = ({} :: u32 set)"
      "region 0x1002034 32 \<inter> region 0x1001074 16 = ({} :: u32 set)"
      "region 0x1002054 32 \<inter> region 0x1001074 16 = ({} :: u32 set)"
    by (auto simp: region_eq_range)
  ultimately show ?thesis by (simp add: Int_Un_distrib2)
qed


end
