(* ===== verification/TaskNew.thy ===== *)
theory TaskNew
  imports TaskSpec
begin

text \<open>
  The birth of a task: \<open>task_new\<close> takes a page for the task, builds an address space for it,
  sets the registers it starts with, and appends it to the list of tasks.
\<close>

section \<open>Reading live memory\<close>

lemma live_same_load:
  assumes "live_same L m m'" "L p = Some n" "unat j + 4 \<le> k" "k \<le> 4096 * n" "k \<le> 2 ^ 32"
  shows "load32 m' (p + j) = load32 m (p + j)"
proof (rule load32_same_outside [where A = "- block_region p n"])
  show "same_outside (- block_region p n) m m'" using assms(1,2) by (auto simp: same_outside_def live_same_def)
  have "region (p + j) 4 \<subseteq> block_region p n" 
    using sub_region [OF assms(3,5)] region_mono [OF assms(4)] by (auto simp: block_region_def)
  then show "region (p + j) 4 \<inter> - block_region p n = {}" by blast
qed

lemma scratch_live_same: "heap_live kheap m L \<Longrightarrow> same_outside (heap_scratch L) m m' \<Longrightarrow> live_same L m m'"
  using live_scratch by (fastforce simp: live_same_def same_outside_def)

lemma block_live_same:
  assumes "heap_live kheap m L'" "L' p = Some n" "same_outside (block_region p n) m m'"
    and "\<And>q k. L q = Some k \<Longrightarrow> q \<noteq> p \<and> L' q = Some k"
  shows "live_same L m m'"
  unfolding live_same_def
proof (intro allI impI)
  fix q k a assume q: "L q = Some k" "a \<in> block_region q k"
  then have "block_region p n \<inter> block_region q k = {}"
    using kh.live_disjoint [OF assms(1,2), of q k] assms(4) [OF q(1)] by blast
  then show "m' a = m a" using q(2) by (intro same_outsideD [OF assms(3)]) blast
qed

text \<open>Where a program starts.\<close>

definition program_entry :: "mem \<Rightarrow> u32 \<Rightarrow> u32" where
  "program_entry m process =
     (if process_filetype m process = PROCESS_FILETYPE_ELF then e_entry m (elf_header m (process_elf_file m process))
      else SIMPOS_PROGRAM_VIRTUAL_ADDRESS)"

text \<open>The process structure and, for an ELF program, the file's structure and its image are live.\<close>

definition program_loaded :: "(u32 \<rightharpoonup> nat) \<Rightarrow> u32 \<Rightarrow> mem \<Rightarrow> bool" where
  "program_loaded L process m \<longleftrightarrow> L process = Some 3
     \<and> (process_filetype m process = PROCESS_FILETYPE_ELF \<longrightarrow>
          L (process_elf_file m process) = Some 1
          \<and> (\<exists>n > 0. L (elf_header m (process_elf_file m process)) = Some n))"

lemma program_entry_same:
  assumes "live_same L m m'" "program_loaded L process m"
  shows "program_entry m' process = program_entry m process" "program_loaded L process m'"
proof -
  have p: "L process = Some 3" using assms(2) by (simp add: program_loaded_def)
  have "process + of_nat 8308 \<in> block_region process 3"
    unfolding block_region_def by (intro in_region_offset) simp_all
  then have t: "process_filetype m' process = process_filetype m process"
    using assms(1) p by (simp add: process_filetype_def live_same_def)
  have f: "process_elf_file m' process = process_elf_file m process"
    unfolding process_elf_file_def by (rule live_same_load [OF assms(1) p, of _ 8316]) simp_all
  have "program_entry m' process = program_entry m process \<and> program_loaded L process m'"
  proof (cases "process_filetype m process = PROCESS_FILETYPE_ELF")
    case True
    then obtain n where e: "L (process_elf_file m process) = Some 1"
        "0 < n" "L (elf_header m (process_elf_file m process)) = Some n"
      using assms(2) by (auto simp: program_loaded_def)
    have h: "elf_header m' (process_elf_file m process) = elf_header m (process_elf_file m process)"
      unfolding elf_header_def by (rule live_same_load [OF assms(1) e(1), of _ 4096]) simp_all
    have "e_entry m' (elf_header m (process_elf_file m process)) = e_entry m (elf_header m (process_elf_file m process))"
      unfolding e_entry_def by (rule live_same_load [OF assms(1) e(3), of _ 4096]) (use e(2) in simp_all)
    then show ?thesis using True t f h e p by (auto simp: program_entry_def program_loaded_def)
  next
    case False
    then show ?thesis using t p by (simp add: program_entry_def program_loaded_def)
  qed
  then show "program_entry m' process = program_entry m process" "program_loaded L process m'" by blast+
qed

section \<open>The address space outlives other writes\<close>

text \<open>The pages of an address space, all live.\<close>

lemma space_pages:
  assumes s: "space L flags c m"
  obtains d ts where "built (L(c \<mapsto> 1)) flags d ts m" "length ts = 1024" "load32 m c = d"
    "distinct (c # d # ts)" "\<And>p. p \<in> set (c # d # ts) \<Longrightarrow> L p = None"
    "heap_live kheap m (grab L (c # d # ts))" "\<And>p n. L p = Some n \<Longrightarrow> grab L (c # d # ts) p = Some n"
    "\<And>k. k < 1024 \<Longrightarrow> pd_table m d k = ts ! k"
proof -
  obtain d ts where g: "built (L(c \<mapsto> 1)) flags d ts m" "length ts = 1024" "directory_entry m c = d"
      "distinct (c # d # ts)" "\<And>p. p \<in> set (c # d # ts) \<Longrightarrow> L p = None"
      "heap_live kheap m (grab L (c # d # ts))" "\<And>k. k < 1024 \<Longrightarrow> pd_table m d k = ts ! k"
    using s by (rule spaceE) blast
  have "grab L (c # d # ts) p = Some n" if "L p = Some n" for p n
  proof -
    have "p \<notin> set (c # d # ts)" using g(5) [of p] that by auto
    then show ?thesis using that by simp
  qed
  then show thesis using that g by (simp add: directory_entry_def)
qed

lemma space_not_null:
  assumes "space L flags c m"
  shows "c \<noteq> 0"
proof -
  obtain d ts where g: "heap_live kheap m (grab L (c # d # ts))" using assms by (rule space_pages)
  have "grab L (c # d # ts) c = Some 1" by simp
  then show ?thesis using kh.live_ok [OF g] by blast
qed

lemma space_write:
  assumes s: "space L flags c m" and p: "L p = Some n" and so: "same_outside (block_region p n) m m'"
  shows "space L flags c m'"
proof -
  obtain d ts where g: "built (L(c \<mapsto> 1)) flags d ts m" "length ts = 1024" "load32 m c = d"
      "distinct (c # d # ts)" "\<And>q. q \<in> set (c # d # ts) \<Longrightarrow> L q = None"
      "heap_live kheap m (grab L (c # d # ts))" "\<And>q k. L q = Some k \<Longrightarrow> grab L (c # d # ts) q = Some k"
    using s by (rule space_pages) blast
  define G where "G = (\<lambda>q. if q \<in> set (c # d # ts) then Some (1 :: nat) else None)"
  have same: "live_same G m m'"
  proof (rule block_live_same [OF g(6) g(7) [OF p] so])
    show "q \<noteq> p \<and> grab L (c # d # ts) q = Some k" if "G q = Some k" for q k
      using that p g(5) [of q] by (cases "q \<in> set (c # d # ts)") (auto simp: G_def)
  qed
  have live: "heap_live kheap m' (grab L (c # d # ts))" using kh.write_live [OF g(6) g(7) [OF p] so] .
  have w: "load32 m' (q + of_nat (4 * j)) = load32 m (q + of_nat (4 * j))" if "q \<in> set (c # d # ts)" "j < 1024" for q j
  proof (rule live_same_words [OF same _ _ that(2)])
    show "G q = Some 1" using that(1) by (simp add: G_def)
    show "aligned 4096 q" using kh.live_ok [OF g(6), of q 1] that(1) by simp
  qed
  have "built (L(c \<mapsto> 1)) flags d ts m'"
  proof -
    have "grab (L(c \<mapsto> 1)) (d # ts) = grab L (c # d # ts)"
      using g(4) by (auto simp: grab_def map_add_def fun_eq_iff)
    then show ?thesis using g(1,2) live w by (auto simp: built_def)
  qed
  moreover have "load32 m' c = d" using w [of c 0] g(3) by simp
  ultimately show ?thesis using g(2,5) by (auto simp: space_def)
qed

text \<open>A write to one block leaves the others alone.\<close>

lemma space_block:
  assumes s: "space L flags c m" and p: "L p = Some n" and so: "same_outside (block_region p n) m m'"
    and sub: "\<And>q k. L' q = Some k \<Longrightarrow> q \<noteq> p \<and> L q = Some k"
  shows "live_same L' m m'"
proof -
  obtain d ts where g: "heap_live kheap m (grab L (c # d # ts))"
      "\<And>q k. L q = Some k \<Longrightarrow> grab L (c # d # ts) q = Some k"
    using s by (rule space_pages) blast
  show ?thesis
    by (rule block_live_same [OF g(1) g(2) [OF p] so]) (use sub g(2) in blast)
qed

section \<open>The first registers\<close>

definition user_start :: "u32 \<Rightarrow> cpu" where
  "user_start entry =
     \<lparr>reg_edi = 0, reg_esi = 0, reg_ebp = 0, reg_ebx = 0, reg_edx = 0, reg_ecx = 0, reg_eax = 0,
      reg_eip = entry, reg_cs = 0x1b, reg_eflags = 0x200, reg_esp = 0x3FF000, reg_ss = 0x23\<rparr>"

lemma task_page_write:
  "unat j + 4 \<le> 4096 \<Longrightarrow> same_outside (region p 4096) m (store32 m (p + j) v)"
  by (rule same_outside_mono [OF store32_frame sub_region]) simp_all

lemma task_page_write_0: "same_outside (region p 4096) m (store32 m p v)"
  using task_page_write [of 0 p m v] by simp

text \<open>The fields that \<open>task_init\<close> sets over a zeroed structure.\<close>

lemma init_fields:
  assumes zero: "\<forall>j. unat j + 4 \<le> 64 \<longrightarrow> load32 m (t + j) = 0"
    and m2: "m2 = store32 (store32 m t c) (t + 32) SIMPOS_PROGRAM_VIRTUAL_ADDRESS"
    and m3: "m3 = (if b then store32 m2 (t + 32) e else m2)" and e: "\<not> b \<longrightarrow> e = SIMPOS_PROGRAM_VIRTUAL_ADDRESS"
    and m4: "m4 = store32 (store32 (store32 m3 (t + 48) USER_DATA_SEGMENT) (t + 36) USER_CODE_SEGMENT)
      (t + 44) SIMPOS_PROGRAM_VIRTUAL_STACK_ADDRESS_START"
    and m5: "m5 = store32 m4 (t + 52) process"
  shows "restored m5 (task_registers t) = user_start e" and "task_page_directory m5 t = c"
    and "task_process m5 t = process" and "task_next_field m5 t = 0" and "task_prev_field m5 t = 0"
    and "same_outside (region t 4096) m m5"
proof -
  have z: "load32 m (t + 4) = 0" "load32 m (t + 8) = 0" "load32 m (t + 12) = 0" "load32 m (t + 16) = 0"
    "load32 m (t + 20) = 0" "load32 m (t + 24) = 0" "load32 m (t + 28) = 0" "load32 m (t + 40) = 0"
    "load32 m (t + 56) = 0" "load32 m (t + 60) = 0"
    by (rule zero [rule_format]; simp)+
  show "restored m5 (task_registers t) = user_start e"
    using e unfolding m5 m4 m3 m2
    by (cases b) (simp_all add: restored_def user_start_def task_registers_def add.assoc off_simps z
        USER_DATA_SEGMENT_def USER_CODE_SEGMENT_def SIMPOS_PROGRAM_VIRTUAL_STACK_ADDRESS_START_def)
  show "task_page_directory m5 t = c" "task_process m5 t = process" "task_next_field m5 t = 0" "task_prev_field m5 t = 0"
    unfolding m5 m4 m3 m2 by (cases b; simp add: task_page_directory_def task_process_def task_next_field_def
        task_prev_field_def off_simps z)+
  have "same_outside (region t 4096) m m2"
    unfolding m2 by (rule same_outside_trans1 [OF task_page_write_0 task_page_write]) simp
  moreover have "same_outside (region t 4096) m2 m3"
    unfolding m3 using task_page_write [of 32 t m2 e] by (simp add: same_outside_def)
  moreover have "same_outside (region t 4096) m3 m4"
    unfolding m4 by (intro same_outside_trans1 [OF same_outside_trans1 [OF task_page_write task_page_write] task_page_write]) simp_all
  moreover have "same_outside (region t 4096) m4 m5" unfolding m5 by (rule task_page_write) simp
  ultimately show "same_outside (region t 4096) m m5" by (blast intro: same_outside_trans1)
qed

lemma task_init_ok:
  assumes live: "heap_live kheap m (L(t \<mapsto> 1))" and t: "L t = None" and av: "1026 \<le> heap_avail kheap (L(t \<mapsto> 1))"
    and prog: "program_loaded L process m"
  obtains c m' where "task_init kheap t process m = (0, m')" "space (L(t \<mapsto> 1)) 5 c m'" "live_same L m m'"
    "task_page_directory m' t = c" "restored m' (task_registers t) = user_start (program_entry m process)"
    "task_process m' t = process" "task_next_field m' t = 0" "task_prev_field m' t = 0"
proof -
  let ?L = "L(t \<mapsto> 1)"
  have Lt: "?L t = Some 1" by simp
  have keep: "q \<noteq> t \<and> ?L q = Some k" if "L q = Some k" for q k using t that by auto
  let ?m0 = "memset m t 0 64"
  have f0: "same_outside (block_region t 1) m ?m0"
    by (rule same_outside_mono [OF memset_frame]) (auto simp: block_region_def intro: region_mono [THEN subsetD, rotated])
  have live0: "heap_live kheap ?m0 ?L" by (rule kh.write_live [OF live Lt f0])
  have s0: "live_same L m ?m0" by (rule block_live_same [OF live Lt f0 keep])
  obtain c m1 where c: "paging_new_4gb kheap 5 ?m0 = (c, m1)" "space ?L 5 c m1" "live_same ?L ?m0 m1"
    using live0 av by (rule new_4gb_space)
  have s1: "live_same L ?m0 m1" by (rule live_same_sub [OF c(3)]) (use keep in blast)
  have "load32 m1 (t + j) = 0" if j: "unat j + 4 \<le> 64" for j
  proof -
    have "load32 m1 (t + j) = load32 ?m0 (t + j)"
      by (rule live_same_load [OF c(3) Lt, of _ 4096]) (use j in simp_all)
    moreover have "region (t + j) 4 \<subseteq> region t (unat (64 :: u32))" using sub_region [OF j, of t] by simp
    ultimately show ?thesis by (simp add: load32_memset_0)
  qed
  then have zero: "\<forall>j. unat j + 4 \<le> 64 \<longrightarrow> load32 m1 (t + j) = 0" by blast
  define e where "e = program_entry m process"
  define m2 where "m2 = store32 (store32 m1 t c) (t + 32) SIMPOS_PROGRAM_VIRTUAL_ADDRESS"
  define b where "b = (process_filetype m2 process = PROCESS_FILETYPE_ELF)"
  define m3 where "m3 = (if b then store32 m2 (t + 32) e else m2)"
  define m4 where "m4 = store32 (store32 (store32 m3 (t + 48) USER_DATA_SEGMENT) (t + 36) USER_CODE_SEGMENT)
      (t + 44) SIMPOS_PROGRAM_VIRTUAL_STACK_ADDRESS_START"
  define m5 where "m5 = store32 m4 (t + 52) process"
  have page: "live_same L m1 m'" if "same_outside (region t 4096) m1 m'" for m'
    by (rule space_block [OF c(2) Lt _ keep]) (use that in \<open>simp only: block_region_1\<close>)
  have f2: "same_outside (region t 4096) m1 m2"
    unfolding m2_def by (rule same_outside_trans1 [OF task_page_write_0 task_page_write]) simp
  have s2: "live_same L m1 m2" by (rule page [OF f2])
  note s02 = live_same_trans [OF s0 live_same_trans [OF s1 s2]]
  have e2: "program_entry m2 process = e" using program_entry_same(1) [OF s02 prog] by (simp add: e_def)
  have eb: "\<not> b \<longrightarrow> e = SIMPOS_PROGRAM_VIRTUAL_ADDRESS"
    using e2 by (auto simp: program_entry_def b_def)
  note i = init_fields [OF zero m2_def m3_def eb m4_def m5_def]
  have flags: "(ucast (PAGING_IS_PRESENT OR PAGING_ACCESS_FROM_ALL) :: u8) = 5"
    by (simp add: PAGING_IS_PRESENT_def PAGING_ACCESS_FROM_ALL_def)
  have "c \<noteq> 0" by (rule space_not_null [OF c(2)])
  moreover have "task_page_directory (store32 m1 t c) t = c" by (simp add: task_page_directory_def off_simps)
  moreover have "e_entry m2 (elf_header m2 (process_elf_file m2 process)) = e" if b
    using e2 that by (simp add: program_entry_def b_def)
  ultimately have res: "task_init kheap t process m = (0, m5)"
    unfolding task_init_def flags Let_def c(1) prod.case m2_def [symmetric] b_def [symmetric]
    by (simp add: m5_def m4_def m3_def)
  have sp: "space ?L 5 c m5"
    by (rule space_write [OF c(2) Lt]) (use i(6) in \<open>simp only: block_region_1\<close>)
  have same: "live_same L m m5" by (rule live_same_trans [OF s0 live_same_trans [OF s1 page [OF i(6)]]])
  show thesis by (rule that [OF res sp same i(2) i(1) [unfolded e_def] i(3,4,5)])
qed

section \<open>Appending to the list\<close>

lemma linked_live:
  assumes "live_same L m m'" and "\<forall>t \<in> set ts. L t = Some 1"
  shows "linked m' p ts e = linked m p ts e"
  using assms(2)
proof (induction ts arbitrary: p)
  case (Cons t ts)
  have t: "L t = Some 1" using Cons.prems by simp
  have "task_next_field m' t = task_next_field m t" "task_prev_field m' t = task_prev_field m t"
    unfolding task_next_field_def task_prev_field_def
    by (rule live_same_load [OF assms(1) t, of _ 4096]; simp)+
  then show ?case using Cons by simp
qed simp

lemma linked_relink:
  assumes "apart (us @ [l])" "linked m p (us @ [l]) e"
  shows "linked (store32 m (l + 56) v) p (us @ [l]) v"
proof -
  have ap: "apart (l # us)" using assms(1) by (rule apart_sub) (use assms(1) in \<open>auto simp: apart_def\<close>)
  have l: "linked m p us l" "task_prev_field m l = last (p # us)" using assms(2) by (simp_all add: linked_append)
  have "linked (store32 m (l + 56) v) p us l" using l(1) by (simp add: linked_other [OF ap])
  moreover have "task_prev_field (store32 m (l + 56) v) l = last (p # us)"
    using field_other(2) [of l l m v] l(2) by simp
  ultimately show ?thesis by (simp add: linked_append)
qed

lemma live_apart:
  assumes live: "heap_live kheap m L" and "\<forall>t \<in> set ts. L t = Some 1" and "distinct ts"
  shows "apart ts"
proof -
  have "region a 64 \<inter> region b 64 = {}" if "a \<in> set ts" "b \<in> set ts" "a \<noteq> b" for a b
  proof -
    have "block_region a 1 \<inter> block_region b 1 = {}" using assms(2) that by (intro kh.live_disjoint [OF live]) auto
    moreover have "region x 64 \<subseteq> block_region x 1" for x unfolding block_region_def by (rule region_mono) simp
    ultimately show ?thesis by blast
  qed
  moreover have "0 \<notin> set ts" using assms(2) kh.live_ok [OF live, of 0 1] by auto
  ultimately show ?thesis using assms(3) by (simp add: apart_def)
qed

text \<open>Everything about a new task that its callers need.\<close>

lemma task_new_ok:
  assumes live: "heap_live kheap m L" and av: "1027 \<le> heap_avail kheap L"
    and list: "task_list ts K m" "\<forall>u \<in> set ts. L u = Some 1" and prog: "program_loaded L process m"
  obtains t K' m' c where "task_new kheap process K m = (t, K', m')" "L t = None" "space (L(t \<mapsto> 1)) 5 c m'"
    "task_list (ts @ [t]) K' m'" "current_task K' = (if ts = [] then t else current_task K)"
    "task_page_directory m' t = c" "restored m' (task_registers t) = user_start (program_entry m process)"
    "task_process m' t = process"
    "\<And>q n a. L q = Some n \<Longrightarrow> q \<noteq> last (0 # ts) \<Longrightarrow> a \<in> block_region q n \<Longrightarrow> m' a = m a"
proof -
  have u: "unat (64 :: u32) = 64" by simp
  obtain t m1 where t: "kzalloc kheap 64 m = (t, m1)" "t \<noteq> 0" "aligned 4096 t" "L t = None"
      "heap_live kheap m1 (L(t \<mapsto> 1))" "heap_avail kheap (L(t \<mapsto> 1)) = heap_avail kheap L - 1"
      "same_outside (heap_scratch L) m m1"
    using kzalloc_page [OF live, of 64 thesis] av unfolding u by auto
  have same1: "live_same L m m1" by (rule scratch_live_same [OF live t(7)])
  have av1: "1026 \<le> heap_avail kheap (L(t \<mapsto> 1))" using av t(6) by linarith
  note prog1 = program_entry_same [OF same1 prog]
  obtain c m2 where i: "task_init kheap t process m1 = (0, m2)" "space (L(t \<mapsto> 1)) 5 c m2" "live_same L m1 m2"
      "task_page_directory m2 t = c" "restored m2 (task_registers t) = user_start (program_entry m1 process)"
      "task_process m2 t = process" "task_next_field m2 t = 0" "task_prev_field m2 t = 0"
    by (rule task_init_ok [OF t(5,4) av1 prog1(2)]) blast
  have same: "live_same L m m2" by (rule live_same_trans [OF same1 i(3)])
  have lk: "linked m2 0 ts 0" using list linked_live [OF same list(2)] by (simp add: task_list_def)
  have tn: "t \<notin> set ts" using list(2) t(4) by auto
  have ap: "apart (ts @ [t])"
    using list tn by (intro live_apart [OF t(5)]) (auto simp: task_list_def apart_def)
  have hd: "task_head K = 0 \<longleftrightarrow> ts = []" using list by (cases ts) (auto simp: task_list_def apart_def)
  show thesis
  proof (cases "ts = []")
    case True
    let ?K = "K\<lparr>task_head := t, task_tail := t, current_task := t\<rparr>"
    have res: "task_new kheap process K m = (t, ?K, m2)"
      unfolding task_new_def using t(1,2) i(1) hd True by (simp add: task_new_out_def)
    have tl: "task_list (ts @ [t]) ?K m2" using True ap i(7,8) by (simp add: task_list_def)
    show thesis
      by (rule that [OF res t(4) i(2) tl _ i(4) i(5) [unfolded prog1(1)] i(6)])
        (use True same in \<open>auto simp: live_same_def\<close>)
  next
    case False
    then obtain us l where ts: "ts = us @ [l]" by (cases ts rule: rev_cases) auto
    have tail: "task_tail K = l" using list ts by (simp add: task_list_def)
    let ?m3 = "store32 m2 (l + 56) t" and ?K = "K\<lparr>task_tail := t\<rparr>"
    let ?m4 = "store32 ?m3 (t + 60) l"
    have res: "task_new kheap process K m = (t, ?K, ?m4)"
      unfolding task_new_def using t(1,2) i(1) hd False tail by (simp add: task_new_out_def Let_def)
    have lt: "l \<noteq> t" "L l = Some 1" "(L(t \<mapsto> 1)) l = Some 1" using tn list(2) ts by auto
    have f3: "same_outside (block_region l 1) m2 ?m3" and f4: "same_outside (block_region t 1) ?m3 ?m4"
      unfolding block_region_1 by (rule task_page_write; simp)+
    have s3: "space (L(t \<mapsto> 1)) 5 c ?m3" by (rule space_write [OF i(2) lt(3) f3])
    then have s4: "space (L(t \<mapsto> 1)) 5 c ?m4" by (rule space_write [OF _ _ f4]) simp
    have other3: "live_same (L(t := None, l := None)) m2 ?m3"
      by (rule space_block [OF i(2) lt(3) f3]) (use t(4) in \<open>auto split: if_splits\<close>)
    have other4: "live_same L ?m3 ?m4"
      by (rule space_block [OF s3 _ f4]) (use t(4) in auto)
    have dis: "region l 64 \<inter> region t 64 = {}" using ap ts lt(1) by (auto simp: apart_def)
    have k3: "load32 ?m3 (t + j) = load32 m2 (t + j)" if "unat j + 4 \<le> 64" for j
      using sub_region [OF that, of t] sub_region [of 56 4 64 l] dis
      by (intro load32_same_outside [OF store32_frame]) auto
    have k30: "load32 ?m3 t = load32 m2 t" using k3 [of 0] by simp
    have regs: "restored ?m4 (task_registers t) = restored m2 (task_registers t)"
      "task_page_directory ?m4 t = task_page_directory m2 t" "task_process ?m4 t = task_process m2 t"
      "task_next_field ?m4 t = task_next_field m2 t" "task_prev_field ?m4 t = l"
      by (simp_all add: restored_def task_registers_def task_page_directory_def task_process_def
          task_next_field_def task_prev_field_def add.assoc off_simps k3 k30)
    have "linked ?m3 0 ts t" unfolding ts by (rule linked_relink) (use lk list(1) ts in \<open>simp_all add: task_list_def\<close>)
    then have "linked ?m4 0 ts t" using linked_live [OF other4 list(2)] by simp
    then have tl: "task_list (ts @ [t]) ?K ?m4"
      using ap regs(4,5) i(7) list(1) ts hd False by (cases ts) (auto simp: task_list_def linked_append)
    show thesis
    proof (rule that [OF res t(4) s4 tl _ regs(2) [unfolded i(4)] regs(1) [unfolded i(5) prog1(1)] regs(3) [unfolded i(6)]])
      show "current_task ?K = (if ts = [] then t else current_task K)" using False by simp
      fix q n a assume q: "L q = Some n" "q \<noteq> last (0 # ts)" "a \<in> block_region q n"
      then have "(L(t := None, l := None)) q = Some n" using ts t(4) by auto
      then show "?m4 a = m a" using same other3 other4 q(1,3) by (simp add: live_same_def)
    qed
  qed
qed

text \<open>
  C13. \<open>task_new\<close>, with 1027 free blocks in the kernel heap, appends a new task to the list: the
  list stays well linked in both directions, a task that was running keeps running and the
  first task becomes current. The new task starts in user mode at the entry point of its
  program (of the ELF header, or the fixed address of a flat binary), with the user stack,
  cleared registers and interrupts enabled, in an address space of its own that maps every
  address to itself. Apart from the link of the former last task no live memory changes.
\<close>

theorem task_new_appends:
  assumes "heap_live kheap m L" and "1027 \<le> heap_avail kheap L"
    and "task_list ts K m" and "\<forall>u \<in> set ts. L u = Some 1" and "program_loaded L process m"
  shows "\<exists>t K' m'. task_new kheap process K m = (t, K', m') \<and> L t = None \<and> task_list (ts @ [t]) K' m'
    \<and> current_task K' = (if ts = [] then t else current_task K)
    \<and> restored m' (task_registers t) = user_start (program_entry m process) \<and> task_process m' t = process
    \<and> (\<forall>v. mmu_translate m' (directory_entry m' (task_page_directory m' t)) v = Some v)
    \<and> (\<forall>q n a. L q = Some n \<longrightarrow> q \<noteq> last (0 # ts) \<longrightarrow> a \<in> block_region q n \<longrightarrow> m' a = m a)"
proof -
  obtain t K' m' c where n: "task_new kheap process K m = (t, K', m')" "L t = None" "space (L(t \<mapsto> 1)) 5 c m'"
    "task_list (ts @ [t]) K' m'" "current_task K' = (if ts = [] then t else current_task K)"
    "task_page_directory m' t = c" "restored m' (task_registers t) = user_start (program_entry m process)"
    "task_process m' t = process"
    "\<And>q n a. L q = Some n \<Longrightarrow> q \<noteq> last (0 # ts) \<Longrightarrow> a \<in> block_region q n \<Longrightarrow> m' a = m a"
    by (rule task_new_ok [OF assms]) blast
  have "mmu_translate m' (directory_entry m' c) v = Some v" for v by (rule space_mmu [OF n(3)]) simp
  then show ?thesis using n by blast
qed

lemma load32_zero_bytes: "(\<And>x. x \<in> region p 4 \<Longrightarrow> m x = 0) \<Longrightarrow> load32 m p = 0"
  by (simp add: load32_def region_4)

text \<open>A process structure for a flat binary in an otherwise empty heap, for the witnesses.\<close>

lemma demo_process:
  obtains process m where "heap_live kheap m [process \<mapsto> 3]" "heap_avail kheap [process \<mapsto> 3] = 25597"
    "program_loaded [process \<mapsto> 3] process m" "program_entry m process = 0x400000"
    "\<And>j. unat j + 4 \<le> 8308 \<Longrightarrow> load32 m (process + j) = 0"
proof -
  have nb: "nblocks 9364 = 3" by (simp add: nblocks_def)
  have "heap_room kheap Map.empty 3"
    by (auto simp: heap_room_def fits_def covered_def ptr_allocs_def intro!: exI [of _ 0])
  then obtain p m1 where p: "p \<noteq> 0" "heap_live kheap m1 [p \<mapsto> 3]" "\<And>a. a \<in> region p 9364 \<Longrightarrow> m1 a = 0"
    using kzalloc_blocks [OF kernel_empty(1), of 9364 thesis] unfolding nb by (simp del: fun_upd_apply)
  let ?m = "m1(p + 8308 := 1)"
  have "p + 8308 \<in> block_region p 3"
    using in_region_offset [of 8308 "4096 * 3" p] by (simp add: block_region_def)
  then have "same_outside (block_region p 3) m1 ?m" by (rule same_outside_upd)
  then have live: "heap_live kheap ?m [p \<mapsto> 3]" by (intro kh.write_live [OF p(2)]) simp_all
  have "heap_avail kheap Map.empty = heap_avail kheap [p \<mapsto> 3] + 3"
    using kernel_empty(1) p(2) by (intro kh.avail_alloc) simp_all
  then have av: "heap_avail kheap [p \<mapsto> 3] = 25597" using kernel_empty(2) by simp
  have zero: "load32 ?m (p + j) = 0" if j: "unat j + 4 \<le> 8308" for j
  proof -
    have "region (p + j) 4 \<subseteq> region p 8308" using j by (rule sub_region) simp
    moreover have "p + 8308 \<notin> region p 8308"
      using region_split_disjoint [of 8308 1 p] in_region_offset [of 0 1 "p + 8308"] by auto
    moreover have "region p 8308 \<subseteq> region p 9364" by (rule region_mono) simp
    ultimately have "?m x = 0" if "x \<in> region (p + j) 4" for x using p(3) that by auto
    then show ?thesis by (rule load32_zero_bytes)
  qed
  have ft: "process_filetype ?m p = 1" by (simp add: process_filetype_def)
  show thesis
    by (rule that [OF live av _ _ zero])
      (simp_all add: program_loaded_def program_entry_def ft PROCESS_FILETYPE_ELF_def SIMPOS_PROGRAM_VIRTUAL_ADDRESS_def)
qed

definition idle :: tasks where
  "idle = \<lparr>cr3 = 0, current_directory = 0, current_task = 0, task_tail = 0, task_head = 0,
     kernel_chunk = 0, data_segment = 0x10\<rparr>"

theorem task_new_appends_witness:
  "\<exists>process m t K' m'. task_new kheap process idle m = (t, K', m') \<and> task_list [t] K' m' \<and> current_task K' = t
    \<and> restored m' (task_registers t) = user_start 0x400000"
proof -
  obtain process m where d: "heap_live kheap m [process \<mapsto> 3]" "heap_avail kheap [process \<mapsto> 3] = 25597"
    "program_loaded [process \<mapsto> 3] process m" "program_entry m process = 0x400000"
    by (rule demo_process) blast
  have "task_list [] idle m" by (simp add: task_list_def apart_def idle_def)
  then show ?thesis using task_new_appends [OF d(1) _ _ _ d(3), of "[]" idle] d(2,4) by auto
qed

end
