(* ===== verification/ProcessSpec.thy ===== *)
theory ProcessSpec
  imports Process TaskNew
begin

text \<open>
  The memory a process asks for: \<open>process_malloc\<close> gives it fresh zeroed memory that its own page
  directory maps, but records every allocation in the same slot, so that only the last one
  can be released.
\<close>

section \<open>The address space of a process\<close>

text \<open>The bytes that decide how a chunk translates: its pointer, its directory, its tables.\<close>

definition footprint :: "u32 \<Rightarrow> mem \<Rightarrow> u32 set" where
  "footprint c m = region c 4 \<union> region (directory_entry m c) 4096 \<union> chunk_tables c m"

lemma footprint_frame:
  assumes so: "same_outside A m m'" and dis: "footprint c m \<inter> A = {}" and wf: "chunk_wf c m"
  shows "directory_entry m' c = directory_entry m c" "chunk_wf c m'" "chunk_tables c m' = chunk_tables c m"
    "pde_present m' (directory_entry m c) w = pde_present m (directory_entry m c) w"
    "mmu_translate m' (directory_entry m c) w = mmu_translate m (directory_entry m c) w"
    "footprint c m' = footprint c m"
    "aligned 4096 v \<Longrightarrow> paging_get m' (directory_entry m c) v = paging_get m (directory_entry m c) v"
proof -
  let ?d = "directory_entry m c"
  have pw: "page_wf m ?d" using wf by (simp add: chunk_wf_def)
  then have al: "aligned 4096 ?d" by (simp add: page_wf_def)
  have dd: "region ?d 4096 \<inter> A = {}" using dis by (auto simp: footprint_def)
  show de: "directory_entry m' c = ?d"
    unfolding directory_entry_def by (rule load32_same_outside [OF so]) (use dis in \<open>auto simp: footprint_def\<close>)
  note f = page_wf_frame [OF pw so dd]
  show "chunk_wf c m'" "chunk_tables c m' = chunk_tables c m"
    using f wf by (simp_all add: chunk_wf_def chunk_tables_def de)
  show pr: "pde_present m' ?d w = pde_present m ?d w"
  proof -
    have "load32 m' (?d + of_nat (4 * dir_index w)) = load32 m (?d + of_nat (4 * dir_index w))"
      by (rule load32_same_outside [OF so]) (use entry_region [OF al index_less(1)] dd in blast)
    then show ?thesis by (simp only: pde_present_def)
  qed
  show g: "paging_get m' ?d v = paging_get m ?d v" if "aligned 4096 v" for v
  proof -
    have "load32 m' (pte_addr m ?d v) = load32 m (pte_addr m ?d v)"
      by (rule load32_same_outside [OF so])
        (use pte_in_tables [of m ?d v] dis in \<open>auto simp: footprint_def chunk_tables_def\<close>)
    then show ?thesis using that f by (simp add: paging_get_eq)
  qed
  show "mmu_translate m' ?d w = mmu_translate m ?d w" by (simp add: mmu_eq [OF al] pr g)
  show "footprint c m' = footprint c m" using f by (simp add: footprint_def chunk_tables_def de)
qed

text \<open>
  A process in a well-formed kernel: its structure (three blocks) and its task are live, and
  the task's address space lies in memory of its own.
\<close>

definition process_space :: "(u32 \<rightharpoonup> nat) \<Rightarrow> u32 \<Rightarrow> u32 \<Rightarrow> u32 \<Rightarrow> mem \<Rightarrow> bool" where
  "process_space L process t c m \<longleftrightarrow> heap_live kheap m L \<and> L process = Some 3 \<and> L t = Some 1
     \<and> process_task m process = t \<and> task_page_directory m t = c \<and> chunk_wf c m
     \<and> (\<forall>w. pde_present m (directory_entry m c) w)
     \<and> footprint c m \<inter> (heap_scratch L \<union> block_region process 3 \<union> region t 4096) = {}"

definition allocation_size :: "mem \<Rightarrow> u32 \<Rightarrow> int \<Rightarrow> u32" where
  "allocation_size m process i = load32 m (allocation_addr process i + 4)"

lemma allocation_nat: "0 \<le> i \<Longrightarrow> allocation_addr process i + of_nat j = process + of_nat (116 + 8 * nat i + j)"
  using u32_of_int_of_nat [of "8 * nat i"] by (simp add: allocation_addr_def algebra_simps)

lemma allocation_bytes:
  assumes "0 \<le> i" "i < 1024" "j + 4 \<le> 8"
  shows "region (allocation_addr process i + of_nat j) 4 \<subseteq> block_region process 3"
proof -
  have u: "unat (of_nat (116 + 8 * nat i + j) :: u32) = 116 + 8 * nat i + j" using assms by (intro unat_of_nat_u32) simp
  show ?thesis
    unfolding allocation_nat [OF assms(1)] block_region_def using assms by (intro sub_region) (simp_all only: u, simp_all)
qed

text \<open>Writing one slot.\<close>

lemma allocation_store:
  assumes k: "0 \<le> k" "k < 1024"
    and m'_def: "m' = store32 (store32 m (allocation_addr process k) p) (allocation_addr process k + 4) sz"
  shows "same_outside (block_region process 3) m m'"
    and "0 \<le> i \<Longrightarrow> i < 1024 \<Longrightarrow> allocation_ptr m' process i = (if i = k then p else allocation_ptr m process i)"
    and "allocation_size m' process k = sz"
    and "load32 m' (process + 112) = load32 m (process + 112)"
proof -
  have e: "allocation_addr process k = process + of_nat (116 + 8 * nat k)"
      "allocation_addr process k + 4 = process + of_nat (116 + 8 * nat k + 4)"
    using allocation_nat [OF k(1), of process 0] allocation_nat [OF k(1), of process 4] by simp_all
  have "same_outside (block_region process 3) m (store32 m (allocation_addr process k) p)"
    by (rule same_outside_mono [OF store32_frame]) (use allocation_bytes [OF k, of 0 process] in simp)
  moreover have "same_outside (block_region process 3) (store32 m (allocation_addr process k) p) m'"
    unfolding m'_def
    by (rule same_outside_mono [OF store32_frame]) (use allocation_bytes [OF k, of 4 process] in simp)
  ultimately show "same_outside (block_region process 3) m m'" by (rule same_outside_trans1)
  have l: "load32 m' (process + of_nat j) = load32 m (process + of_nat j)"
    if "j + 4 \<le> 116 + 8 * nat k \<or> 116 + 8 * nat k + 8 \<le> j" "j < 2 ^ 31" for j
  proof -
    have "load32 m' (process + of_nat j) = load32 (store32 m (allocation_addr process k) p) (process + of_nat j)"
      unfolding m'_def e(2) using that k by (intro load32_store32_nat) auto
    also have "\<dots> = load32 m (process + of_nat j)" unfolding e(1) using that k by (intro load32_store32_nat) auto
    finally show ?thesis .
  qed
  show "load32 m' (process + 112) = load32 m (process + 112)" using l [of 112] by simp
  show "allocation_size m' process k = sz" by (simp only: m'_def allocation_size_def load32_store32_same)
  show "allocation_ptr m' process i = (if i = k then p else allocation_ptr m process i)" if i: "0 \<le> i" "i < 1024"
  proof (cases "i = k")
    case True
    then show ?thesis unfolding m'_def allocation_ptr_def by (simp add: off_simps)
  next
    case False
    have "allocation_addr process i = process + of_nat (116 + 8 * nat i)"
      using allocation_nat [OF i(1), of process 0] by simp
    moreover have "116 + 8 * nat i + 4 \<le> 116 + 8 * nat k \<or> 116 + 8 * nat k + 8 \<le> 116 + 8 * nat i"
      using False i k by linarith
    ultimately show ?thesis using False i l [of "116 + 8 * nat i"] by (simp only: allocation_ptr_def) simp
  qed
qed

section \<open>Lookup and rounding\<close>

lemma free_index: "\<exists>i < 1024. allocation_ptr m process (int i) = 0 \<Longrightarrow> process_find_free_allocation_index m process = 1"
proof -
  have "process_find_free_allocation_loop m process (int k) = 1"
    if "k \<le> i" "i < 1024" "allocation_ptr m process (int i) = 0" for i k
    using that
  proof (induction "i - k" arbitrary: k)
    case 0
    then show ?case by (subst process_find_free_allocation_loop.simps) (simp add: SIMPOS_MAX_PROGRAM_ALLOCATIONS_def)
  next
    case (Suc n)
    then show ?case using Suc.hyps(1) [of "Suc k"]
      by (subst process_find_free_allocation_loop.simps) (simp add: SIMPOS_MAX_PROGRAM_ALLOCATIONS_def add.commute)
  qed
  moreover assume "\<exists>i < 1024. allocation_ptr m process (int i) = 0"
  ultimately have "process_find_free_allocation_loop m process (int 0) = 1" by blast
  then show ?thesis by (simp add: process_find_free_allocation_index_def)
qed

text \<open>The number of blocks, by the last page of the request.\<close>

lemma nblocks_mod:
  obtains q r where "unat sz = 4096 * q + r" "r < 4096" "nblocks sz = (if r = 0 then q else q + 1)"
proof -
  let ?q = "unat sz div 4096" and ?r = "unat sz mod 4096"
  have e: "unat sz = 4096 * ?q + ?r" by simp
  have "nblocks sz = (if ?r = 0 then ?q else ?q + 1)"
  proof (cases "?r = 0")
    case True
    then have "nblocks sz = (4095 + ?q * 4096) div 4096" using e by (simp add: nblocks_def)
    also have "\<dots> = ?q" by (subst div_mult_self1) simp_all
    finally show ?thesis using True by simp
  next
    case False
    then have "unat sz + 4095 = (?r - 1) + (?q + 1) * 4096" using e by simp
    then have "nblocks sz = ((?r - 1) + (?q + 1) * 4096) div 4096" by (simp only: nblocks_def)
    also have "\<dots> = ?q + 1" by (subst div_mult_self1) (simp_all add: less_imp_diff_less)
    finally show ?thesis using False by simp
  qed
  then show thesis using that [OF e] by simp
qed

text \<open>The end of an allocation, rounded up to a page, is the end of its blocks.\<close>

lemma align_up:
  assumes p: "aligned 4096 p" and fin: "unat p + 4096 * nblocks sz < 2 ^ 32"
  shows "paging_align_address (p + sz) = p + of_nat (4096 * nblocks sz)"
proof -
  obtain a where a: "unat p = 4096 * a" using p by (auto simp: aligned_def)
  obtain q r where s: "unat sz = 4096 * q + r" "r < 4096" "nblocks sz = (if r = 0 then q else q + 1)"
    by (rule nblocks_mod)
  have w: "of_nat (unat sz) = sz" by simp
  have "unat p + unat sz < 2 ^ 32" using fin s by (simp split: if_splits)
  then have "unat (p + sz) = unat p + unat sz" by (rule unat_add_no_wrap)
  then have "unat (p + sz) = r + 4096 * (a + q)" using a s(1) by simp
  then have "unat (p + sz) mod 4096 = r" using s(2) by (metis mod_mult_self2 mod_less)
  then have md: "unat ((p + sz) mod 4096) = r" by (simp add: unat_mod)
  have "(p + sz) mod 4096 = of_nat (unat ((p + sz) mod 4096))" by simp
  then have m: "(p + sz) mod 4096 = of_nat r" by (simp only: md)
  show ?thesis
  proof (cases "r = 0")
    case True
    then have "sz = of_nat (4096 * nblocks sz)" using s(1,3) w by simp
    then show ?thesis using m True by (simp add: paging_align_address_def PAGING_PAGE_SIZE_def)
  next
    case False
    have nz: "(p + sz) mod 4096 \<noteq> 0" using md False by (metis unat_0)
    have "unat sz + (4096 - r) = 4096 * nblocks sz" using False s by simp
    then have "of_nat (unat sz + (4096 - r)) = (of_nat (4096 * nblocks sz) :: u32)" by (rule arg_cong)
    then have e: "sz + (4096 - of_nat r) = of_nat (4096 * nblocks sz)" using s(2) by (simp add: of_nat_diff add_diff_eq)
    have "paging_align_address (p + sz) = p + (sz + (4096 - of_nat r))"
      using nz by (simp add: paging_align_address_def PAGING_PAGE_SIZE_def m)
    then show ?thesis unfolding e .
  qed
qed

lemma user_flags: "flags_of (PAGING_IS_WRITEABLE OR PAGING_IS_PRESENT OR PAGING_ACCESS_FROM_ALL) = 7"
  by (simp add: flags_of_def PAGING_IS_WRITEABLE_def PAGING_IS_PRESENT_def PAGING_ACCESS_FROM_ALL_def)

lemma live_below:
  assumes "heap_live kheap m L" "L p = Some n"
  shows "unat p + 4096 * n < 2 ^ 32"
proof -
  have n: "0 < n" "unat p + 4096 * n \<le> 2 ^ 32" using kh.live_ok [OF assms] by blast+
  have "p + of_nat (4096 * n - 1) \<in> block_region p n"
    unfolding block_region_def using n by (intro in_region_offset) simp_all
  then have "unat (p + of_nat (4096 * n - 1)) < 0x7400000" using live_data [OF assms] kheap_regions(2) by blast
  moreover have "unat (p + of_nat (4096 * n - 1)) = unat p + (4096 * n - 1)" using n by (intro unat_add_of_nat) simp
  ultimately show ?thesis using n(1) by simp
qed

text \<open>Looking up a pointer.\<close>

lemma get_allocation:
  assumes "0 \<le> i" "i < 1024" "allocation_ptr m process i = ptr"
    and "\<And>j. 0 \<le> j \<Longrightarrow> j < i \<Longrightarrow> allocation_ptr m process j \<noteq> ptr"
  shows "process_get_allocation_addr m process ptr = allocation_addr process i"
proof -
  have "process_get_allocation_loop m process ptr (i - int n) = allocation_addr process i" if "n \<le> nat i" for n
    using that
  proof (induction n)
    case 0
    then show ?case using assms by (subst process_get_allocation_loop.simps) (simp add: SIMPOS_MAX_PROGRAM_ALLOCATIONS_def)
  next
    case (Suc n)
    have "allocation_ptr m process (i - int (Suc n)) \<noteq> ptr" using Suc.prems by (intro assms(4)) linarith+
    then show ?case using Suc assms(2)
      by (subst process_get_allocation_loop.simps) (simp add: SIMPOS_MAX_PROGRAM_ALLOCATIONS_def)
  qed
  from this [of "nat i"] show ?thesis using assms(1) by (simp add: process_get_allocation_addr_def)
qed

lemma get_allocation_none:
  assumes "\<And>j. 0 \<le> j \<Longrightarrow> j < 1024 \<Longrightarrow> allocation_ptr m process j \<noteq> ptr"
  shows "process_get_allocation_addr m process ptr = 0"
proof -
  have "process_get_allocation_loop m process ptr (1024 - int n) = 0" if "n \<le> 1024" for n
    using that
  proof (induction n)
    case 0
    then show ?case by (subst process_get_allocation_loop.simps) (simp add: SIMPOS_MAX_PROGRAM_ALLOCATIONS_def)
  next
    case (Suc n)
    then show ?case using assms [of "1024 - int (Suc n)"]
      by (subst process_get_allocation_loop.simps) (simp add: SIMPOS_MAX_PROGRAM_ALLOCATIONS_def)
  qed
  from this [of 1024] show ?thesis by (simp add: process_get_allocation_addr_def)
qed

text \<open>Every slot that holds the pointer is cleared.\<close>

lemma remove_allocation:
  assumes "m' = remove_process_allocation process ptr m"
  shows "same_outside (block_region process 3) m m'"
    and "0 \<le> i \<Longrightarrow> i < 1024 \<Longrightarrow> allocation_ptr m' process i =
      (if allocation_ptr m process i = ptr then 0 else allocation_ptr m process i)"
    and "load32 m' (process + 112) = load32 m (process + 112)"
proof -
  define P where "P k a m' \<longleftrightarrow> same_outside (block_region process 3) a m'
    \<and> load32 m' (process + 112) = load32 a (process + 112)
    \<and> (\<forall>i. 0 \<le> i \<longrightarrow> i < 1024 \<longrightarrow> allocation_ptr m' process i =
        (if k \<le> i \<and> allocation_ptr a process i = ptr then 0 else allocation_ptr a process i))" for k a m'
  have "P (1024 - int n) a (remove_process_allocation_loop process ptr (1024 - int n) a)" if "n \<le> 1024" for n a
    using that
  proof (induction n arbitrary: a)
    case 0
    then show ?case
      by (subst remove_process_allocation_loop.simps) (simp add: SIMPOS_MAX_PROGRAM_ALLOCATIONS_def P_def same_outside_def)
  next
    case (Suc n)
    let ?k = "1024 - int (Suc n)"
    have k: "0 \<le> ?k" "?k < 1024" "?k + 1 = 1024 - int n" using Suc.prems by simp_all
    let ?a = "store32 (store32 a (allocation_addr process ?k) 0) (allocation_addr process ?k + 4) 0"
    note st = allocation_store [OF k(1,2) refl [of ?a]]
    show ?case
    proof (cases "allocation_ptr a process ?k = ptr")
      case True
      have e: "remove_process_allocation_loop process ptr ?k a = remove_process_allocation_loop process ptr (1024 - int n) ?a"
        using True k by (subst remove_process_allocation_loop.simps) (simp add: SIMPOS_MAX_PROGRAM_ALLOCATIONS_def)
      have h: "P (1024 - int n) ?a (remove_process_allocation_loop process ptr (1024 - int n) ?a)"
        using Suc.prems by (intro Suc.IH) simp
      show ?thesis
        unfolding e P_def
      proof (intro conjI allI impI)
        show "same_outside (block_region process 3) a (remove_process_allocation_loop process ptr (1024 - int n) ?a)"
          using st(1) h same_outside_trans1 unfolding P_def by blast
        show "load32 (remove_process_allocation_loop process ptr (1024 - int n) ?a) (process + 112) = load32 a (process + 112)"
          using st(4) h unfolding P_def by simp
        show "allocation_ptr (remove_process_allocation_loop process ptr (1024 - int n) ?a) process i =
            (if ?k \<le> i \<and> allocation_ptr a process i = ptr then 0 else allocation_ptr a process i)"
          if i: "0 \<le> i" "i < 1024" for i
          using h st(2) [OF i] i True k(3) unfolding P_def by (cases "i = ?k") auto
      qed
    next
      case False
      have e: "remove_process_allocation_loop process ptr ?k a = remove_process_allocation_loop process ptr (1024 - int n) a"
        using False k by (subst remove_process_allocation_loop.simps) (simp add: SIMPOS_MAX_PROGRAM_ALLOCATIONS_def)
      have h: "P (1024 - int n) a (remove_process_allocation_loop process ptr (1024 - int n) a)"
        using Suc.prems by (intro Suc.IH) simp
      have "(1024 - int n \<le> i \<and> allocation_ptr a process i = ptr) \<longleftrightarrow> (?k \<le> i \<and> allocation_ptr a process i = ptr)" for i
        using False by (cases "i = ?k") auto
      then show ?thesis using h unfolding e P_def by simp
    qed
  qed
  from this [of 1024 m] have "P 0 m m'" by (simp add: assms remove_process_allocation_def)
  then show "same_outside (block_region process 3) m m'" "load32 m' (process + 112) = load32 m (process + 112)"
    "0 \<le> i \<Longrightarrow> i < 1024 \<Longrightarrow> allocation_ptr m' process i =
      (if allocation_ptr m process i = ptr then 0 else allocation_ptr m process i)"
    by (simp_all add: P_def)
qed


section \<open>The steps of allocation and release\<close>

text \<open>What does not write the process structure leaves its fields alone.\<close>

lemma process_fields:
  assumes so: "same_outside A m m'" and dis: "A \<inter> block_region process 3 = {}"
  shows "process_task m' process = process_task m process"
    and "0 \<le> i \<Longrightarrow> i < 1024 \<Longrightarrow> allocation_ptr m' process i = allocation_ptr m process i"
    and "0 \<le> i \<Longrightarrow> i < 1024 \<Longrightarrow> allocation_size m' process i = allocation_size m process i"
proof -
  have "region (process + of_nat 112) 4 \<subseteq> block_region process 3"
    unfolding block_region_def by (rule sub_region) simp_all
  then have "load32 m' (process + 112) = load32 m (process + 112)"
    using dis by (intro load32_same_outside [OF so]) auto
  then show "process_task m' process = process_task m process" by (simp add: process_task_def)
  show "allocation_ptr m' process i = allocation_ptr m process i" if "0 \<le> i" "i < 1024"
    unfolding allocation_ptr_def
    by (rule load32_same_outside [OF so]) (use allocation_bytes [OF that, of 0 process] dis in auto)
  show "allocation_size m' process i = allocation_size m process i" if "0 \<le> i" "i < 1024"
    unfolding allocation_size_def
    by (rule load32_same_outside [OF so]) (use allocation_bytes [OF that, of 4 process] dis in auto)
qed

lemma process_directory:
  assumes "same_outside A m m'" and dis: "A \<inter> region t 4096 = {}"
  shows "task_page_directory m' t = task_page_directory m t"
proof -
  have "region t 4 \<subseteq> region t 4096" by (rule region_mono) simp
  then show ?thesis unfolding task_page_directory_def using dis by (intro load32_same_outside [OF assms(1)]) blast
qed

text \<open>The structure, the task and the address space do not overlap.\<close>

lemma process_space_apart:
  assumes "process_space L process t c m"
  shows "block_region process 3 \<inter> region t 4096 = {}" "block_region process 3 \<inter> heap_scratch L = {}"
    "region t 4096 \<inter> heap_scratch L = {}" "footprint c m \<inter> heap_scratch L = {}"
    "footprint c m \<inter> block_region process 3 = {}" "footprint c m \<inter> region t 4096 = {}"
proof -
  note d = assms [unfolded process_space_def]
  have "process \<noteq> t" using d by auto
  then show "block_region process 3 \<inter> region t 4096 = {}"
    using kh.live_disjoint [of m L process 3 t 1] d by (simp add: block_region_1)
  show "block_region process 3 \<inter> heap_scratch L = {}" using d live_scratch by blast
  show "region t 4096 \<inter> heap_scratch L = {}" using d page_scratch by blast
  show "footprint c m \<inter> heap_scratch L = {}" "footprint c m \<inter> block_region process 3 = {}"
    "footprint c m \<inter> region t 4096 = {}" using d by blast+
qed

text \<open>Free memory is written.\<close>

lemma space_scratch:
  assumes ps: "process_space L process t c m" and so: "same_outside (heap_scratch L) m m'"
    and live: "heap_live kheap m' L'" and sub: "\<And>p n. L p = Some n \<Longrightarrow> L' p = Some n"
  shows "process_space L' process t c m'" "footprint c m' = footprint c m"
    "directory_entry m' c = directory_entry m c"
    "mmu_translate m' (directory_entry m c) w = mmu_translate m (directory_entry m c) w"
proof -
  note d = ps [unfolded process_space_def] and a = process_space_apart [OF ps]
  have cw: "chunk_wf c m" using d by blast
  note f = footprint_frame [OF so a(4) cw]
  have P: "process_task m' process = t" using process_fields(1) [OF so] a(2) d by (simp add: Int_commute)
  have T: "task_page_directory m' t = c" using process_directory [OF so] a(3) d by (simp add: Int_commute)
  have "heap_scratch L' \<subseteq> heap_scratch L" using sub by (rule heap_scratch_mono)
  then show "process_space L' process t c m'"
    using d live sub P T f by (auto simp: process_space_def)
  show "footprint c m' = footprint c m" "directory_entry m' c = directory_entry m c"
    "mmu_translate m' (directory_entry m c) w = mmu_translate m (directory_entry m c) w" by (rule f)+
qed

text \<open>The process structure is written.\<close>

lemma space_struct:
  assumes ps: "process_space L process t c m" and so: "same_outside (block_region process 3) m m'"
    and task: "process_task m' process = process_task m process"
  shows "process_space L process t c m'" "footprint c m' = footprint c m"
    "directory_entry m' c = directory_entry m c"
    "mmu_translate m' (directory_entry m c) w = mmu_translate m (directory_entry m c) w"
proof -
  note d = ps [unfolded process_space_def] and a = process_space_apart [OF ps]
  have cw: "chunk_wf c m" using d by blast
  note f = footprint_frame [OF so a(5) cw]
  have T: "task_page_directory m' t = c" using process_directory [OF so a(1)] d by simp
  have "heap_live kheap m' L" using d so by (intro kh.write_live [of m L process 3 m']) blast+
  then show "process_space L process t c m'" using d T task f by (simp add: process_space_def)
  show "footprint c m' = footprint c m" "directory_entry m' c = directory_entry m c"
    "mmu_translate m' (directory_entry m c) w = mmu_translate m (directory_entry m c) w" by (rule f)+
qed

text \<open>The pages of a live allocation are mapped to themselves or unmapped.\<close>

lemma space_map:
  assumes ps: "process_space L process t c m" and p: "L p = Some (nblocks sz)"
    and flags: "drop_bit 12 (u32_of_int flags) = 0"
  obtains m' where "paging_map_to c p p (paging_align_address (p + sz)) flags m = (0, m')"
    "process_space L process t c m'" "footprint c m' = footprint c m" "same_outside (footprint c m) m m'"
    "directory_entry m' c = directory_entry m c"
    "\<And>w. w \<in> block_region p (nblocks sz) \<Longrightarrow>
      mmu_translate m' (directory_entry m c) w = (if bit (u32_of_int flags) 0 then Some w else None)"
proof -
  note d = ps [unfolded process_space_def] and a = process_space_apart [OF ps]
  have live: "heap_live kheap m L" and cw: "chunk_wf c m" using d by blast+
  let ?n = "4096 * nblocks sz"
  have pal: "aligned 4096 p" using kh.live_ok [OF live p] by blast
  have bnd: "unat p + ?n < 2 ^ 32" by (rule live_below [OF live p])
  have al: "paging_align_address (p + sz) = p + of_nat ?n" using pal bnd by (rule align_up)
  have un: "unat (p + of_nat ?n) = unat p + ?n" using bnd by (rule unat_add_of_nat)
  have ale: "aligned 4096 (p + of_nat ?n)" using pal unfolding aligned_def un by simp
  have le: "p \<le> p + of_nat ?n" by (simp only: word_le_nat_alt un)
  have len: "unat (p + of_nat ?n - p) = ?n"
  proof -
    have "p + of_nat ?n - p = of_nat ?n" by (rule add_diff_cancel_left')
    moreover have "?n < 2 ^ 32" using bnd by linarith
    ultimately show ?thesis by (simp only: unat_of_nat_u32)
  qed
  have present: "pde_present m (directory_entry m c) w" for w using d by blast
  obtain m' where m': "paging_map_to c p p (p + of_nat ?n) flags m = (0, m')" "chunk_wf c m'"
      "directory_entry m' c = directory_entry m c" "chunk_tables c m' = chunk_tables c m"
      "\<forall>w. pde_present m' (directory_entry m c) w" "same_outside (chunk_tables c m) m m'"
      "\<forall>k < ?n. mmu_translate m' (directory_entry m c) (p + of_nat k) =
        (if bit (u32_of_int flags) 0 then Some (p + of_nat k) else None)"
    using map_to_mapped [OF cw pal pal ale le flags present] unfolding len by metis
  have so: "same_outside (footprint c m) m m'"
    by (rule same_outside_mono [OF m'(6)]) (simp add: footprint_def)
  have fp: "footprint c m' = footprint c m" using m'(3,4) by (simp add: footprint_def)
  have "heap_live kheap m' L"
    by (rule kh.rel_frame [OF live so]) (use a(4) in \<open>auto simp: heap_scratch_def\<close>)
  moreover have "process_task m' process = t" "task_page_directory m' t = c"
    using process_fields(1) [OF so a(5)] process_directory [OF so a(6)] d by simp_all
  ultimately have space: "process_space L process t c m'"
    using d m'(2,3,5) by (simp add: process_space_def fp)
  have map: "mmu_translate m' (directory_entry m c) w = (if bit (u32_of_int flags) 0 then Some w else None)"
    if w: "w \<in> block_region p (nblocks sz)" for w
  proof -
    obtain j where "j < ?n" "w = p + of_nat j" using w unfolding block_region_def by (rule region_offsetE)
    then show ?thesis using m'(7) by blast
  qed
  show thesis by (rule that [OF m'(1) [folded al] space fp so m'(3) map])
qed

text \<open>A block outside the structure, the task and the address space is released.\<close>

lemma space_release:
  assumes ps: "process_space L process t c m" and p: "L p = Some n" "p \<noteq> process" "p \<noteq> t"
    and dis: "footprint c m \<inter> block_region p n = {}"
  shows "process_space (L(p := None)) process t c (kfree kheap p m)"
    "directory_entry (kfree kheap p m) c = directory_entry m c"
    "mmu_translate (kfree kheap p m) (directory_entry m c) w = mmu_translate m (directory_entry m c) w"
    "same_outside (table_region kheap) m (kfree kheap p m)"
proof -
  note d = ps [unfolded process_space_def] and a = process_space_apart [OF ps]
  have live: "heap_live kheap m L" and cw: "chunk_wf c m" using d by blast+
  have k: "heap_live kheap (kfree kheap p m) (L(p := None))"
    and so: "same_outside (table_region kheap) m (kfree kheap p m)"
    using kh.dealloc_ok [OF live p(1)] by blast+
  have sub: "table_region kheap \<subseteq> heap_scratch L" by (simp add: heap_scratch_def)
  have fd: "footprint c m \<inter> table_region kheap = {}" using a(4) sub by blast
  note f = footprint_frame [OF so fd cw]
  have "heap_scratch (L(p := None)) \<subseteq> heap_scratch L \<union> block_region p n"
  proof
    fix x assume x: "x \<in> heap_scratch (L(p := None))"
    show "x \<in> heap_scratch L \<union> block_region p n"
    proof (cases "x \<in> block_region p n")
      case False
      have "x \<notin> block_region q k" if "L q = Some k" "x \<in> free_mem (L(p := None))" for q k
        using that p(1) False by (cases "q = p") (auto simp: free_mem_def)
      then show ?thesis using x by (auto simp: heap_scratch_def free_mem_def)
    qed simp
  qed
  then have "footprint c m \<inter> heap_scratch (L(p := None)) = {}" using a(4) dis by blast
  moreover have "process_task (kfree kheap p m) process = t" "task_page_directory (kfree kheap p m) t = c"
    using process_fields(1) [OF so] process_directory [OF so] a(2,3) sub d by (simp_all add: Int_commute inf.absorb_iff2) blast+
  ultimately show "process_space (L(p := None)) process t c (kfree kheap p m)"
    using d p(2,3) k f a(5,6) by (auto simp: process_space_def)
  show "directory_entry (kfree kheap p m) c = directory_entry m c"
    "mmu_translate (kfree kheap p m) (directory_entry m c) w = mmu_translate m (directory_entry m c) w"
    "same_outside (table_region kheap) m (kfree kheap p m)" by (rule f so)+
qed

section \<open>Allocation and release\<close>

lemma process_malloc_ok:
  assumes ps: "process_space L process t c m" and sz: "0 < unat sz" "unat sz \<le> 2 ^ 32 - 4096"
    and room: "heap_room kheap L (nblocks sz)" and slot: "\<exists>i < 1024. allocation_ptr m process (int i) = 0"
  obtains p m' where "process_malloc kheap process sz m = (p, m')" "p \<noteq> 0" "L p = None"
    "process_space (L(p \<mapsto> nblocks sz)) process t c m'"
    "\<And>a. a \<in> region p (unat sz) \<Longrightarrow> m' a = 0"
    "\<And>w. w \<in> block_region p (nblocks sz) \<Longrightarrow> mmu_translate m' (directory_entry m' c) w = Some w"
    "\<And>i. 0 \<le> i \<Longrightarrow> i < 1024 \<Longrightarrow> allocation_ptr m' process i = (if i = 1 then p else allocation_ptr m process i)"
    "allocation_size m' process 1 = sz" "footprint c m' \<inter> block_region p (nblocks sz) = {}"
proof -
  note d = ps [unfolded process_space_def] and a = process_space_apart [OF ps]
  have live: "heap_live kheap m L" using d by blast
  obtain p m1 where k: "kzalloc kheap sz m = (p, m1)" "p \<noteq> 0" "aligned 4096 p" "L p = None"
      "heap_live kheap m1 (L(p \<mapsto> nblocks sz))" "\<And>a. a \<in> region p (unat sz) \<Longrightarrow> m1 a = 0"
      "block_region p (nblocks sz) \<subseteq> heap_scratch L" "same_outside (heap_scratch L) m m1"
    by (rule kzalloc_blocks [OF live sz room]) blast
  let ?L = "L(p \<mapsto> nblocks sz)"
  have s1: "process_space ?L process t c m1" "footprint c m1 = footprint c m"
    by (rule space_scratch [OF ps k(8,5)]; use k(4) in force)+
  have fl: "drop_bit 12 (u32_of_int 7) = 0" by (simp add: drop_bit_eq_div)
  have pL: "?L p = Some (nblocks sz)" by simp
  obtain m2 where m2: "paging_map_to c p p (paging_align_address (p + sz)) 7 m1 = (0, m2)"
      "process_space ?L process t c m2" "footprint c m2 = footprint c m1" "same_outside (footprint c m1) m1 m2"
      "directory_entry m2 c = directory_entry m1 c"
      "\<And>w. w \<in> block_region p (nblocks sz) \<Longrightarrow>
        mmu_translate m2 (directory_entry m1 c) w = (if bit (u32_of_int 7) 0 then Some w else None)"
    by (rule space_map [OF s1(1) pL fl]) blast
  define m3 where "m3 = store32 (store32 m2 (allocation_addr process 1) p) (allocation_addr process 1 + 4) sz"
  have a3: "same_outside (block_region process 3) m2 m3"
      "\<And>i. 0 \<le> i \<Longrightarrow> i < 1024 \<Longrightarrow> allocation_ptr m3 process i = (if i = 1 then p else allocation_ptr m2 process i)"
      "allocation_size m3 process 1 = sz" "load32 m3 (process + 112) = load32 m2 (process + 112)"
    using allocation_store [of 1 m3 m2 process p sz] by (simp_all add: m3_def)
  have task3: "process_task m3 process = process_task m2 process" using a3(4) by (simp add: process_task_def)
  note s3 = space_struct [OF m2(2) a3(1) task3]
  have f1: "allocation_ptr m1 process i = allocation_ptr m process i" if "0 \<le> i" "i < 1024" for i
    using process_fields(2) [OF k(8)] a(2) that by (simp add: Int_commute)
  have f2: "allocation_ptr m2 process i = allocation_ptr m1 process i" if "0 \<le> i" "i < 1024" for i
    using process_fields(2) [OF m2(4)] a(5) s1(2) that by simp
  obtain i where "i < 1024" "allocation_ptr m process (int i) = 0" using slot by blast
  then have "process_find_free_allocation_index m1 process = 1"
    using f1 [of "int i"] by (intro free_index) auto
  moreover have "process_task m1 process = t" "task_page_directory m1 t = c"
    using s1(1) by (simp_all add: process_space_def)
  ultimately have res: "process_malloc kheap process sz m = (p, m3)"
    unfolding process_malloc_def m3_def using k(1,2) m2(1) by (simp add: user_flags)
  have zero: "m3 x = 0" if x: "x \<in> region p (unat sz)" for x
  proof -
    have h: "x \<in> heap_scratch L" using x request_in_blocks k(7) by blast
    have "m2 x = m1 x" using h a(4) s1(2) by (intro same_outsideD [OF m2(4)]) blast
    moreover have "m3 x = m2 x" using h a(2) by (intro same_outsideD [OF a3(1)]) blast
    ultimately show ?thesis using k(6) [OF x] by simp
  qed
  have map: "mmu_translate m3 (directory_entry m3 c) w = Some w" if "w \<in> block_region p (nblocks sz)" for w
    using m2(6) [OF that] s3(4) [of w] by (simp add: s3(3) m2(5))
  have slots: "allocation_ptr m3 process i = (if i = 1 then p else allocation_ptr m process i)"
    if i: "0 \<le> i" "i < 1024" for i
    using a3(2) [OF i] f2 [OF i] f1 [OF i] by simp
  have "footprint c m3 = footprint c m" using s3(2) m2(3) s1(2) by simp
  then have dis: "footprint c m3 \<inter> block_region p (nblocks sz) = {}" using k(7) a(4) by blast
  show thesis by (rule that [OF res k(2,4) s3(1) zero map slots a3(3) dis])
qed

text \<open>A block in slot 1 and in no other slot is released and unmapped.\<close>

lemma process_free_ok:
  assumes ps: "process_space L process t c m" and p: "L p = Some (nblocks sz)" "p \<noteq> process" "p \<noteq> t" "p \<noteq> 0"
    and slots: "\<And>i. 0 \<le> i \<Longrightarrow> i < 1024 \<Longrightarrow> allocation_ptr m process i = (if i = 1 then p else 0)"
    and size: "allocation_size m process 1 = sz" and dis: "footprint c m \<inter> block_region p (nblocks sz) = {}"
    and m': "m' = process_free kheap process p m"
  shows "process_space (L(p := None)) process t c m'"
    and "0 \<le> i \<Longrightarrow> i < 1024 \<Longrightarrow> allocation_ptr m' process i = 0"
    and "w \<in> block_region p (nblocks sz) \<Longrightarrow> mmu_translate m' (directory_entry m' c) w = None"
proof -
  note a = process_space_apart [OF ps]
  have fl: "drop_bit 12 (u32_of_int 0) = 0" by simp
  obtain m1 where m1: "paging_map_to c p p (paging_align_address (p + sz)) 0 m = (0, m1)"
      "process_space L process t c m1" "footprint c m1 = footprint c m" "same_outside (footprint c m) m m1"
      "directory_entry m1 c = directory_entry m c"
      "\<And>w. w \<in> block_region p (nblocks sz) \<Longrightarrow>
        mmu_translate m1 (directory_entry m c) w = (if bit (u32_of_int 0) 0 then Some w else None)"
    by (rule space_map [OF ps p(1) fl]) blast
  define m2 where "m2 = remove_process_allocation process p m1"
  note r = remove_allocation [OF m2_def]
  have task2: "process_task m2 process = process_task m1 process" using r(3) by (simp add: process_task_def)
  note s2 = space_struct [OF m1(2) r(1) task2]
  have dis2: "footprint c m2 \<inter> block_region p (nblocks sz) = {}" using dis m1(3) s2(2) by simp
  note s3 = space_release [OF s2(1) p(1-3) dis2]
  have "process_get_allocation_addr m process p = allocation_addr process 1"
    using slots p(4) by (intro get_allocation) auto
  moreover have "allocation_addr process 1 \<noteq> 0"
  proof
    assume z: "allocation_addr process 1 = 0"
    have "aligned 4096 process" using kh.live_ok [of m L process 3] ps by (simp add: process_space_def)
    moreover have "process = - 124" using z by (simp add: allocation_addr_def eq_neg_iff_add_eq_0 add.assoc)
    ultimately show False by (simp add: aligned_def)
  qed
  moreover have "process_task m process = t" "task_page_directory m t = c"
    using ps by (simp_all add: process_space_def)
  moreover have "load32 m (allocation_addr process 1) = p" "load32 m (allocation_addr process 1 + 4) = sz"
    using slots [of 1] size by (simp_all add: allocation_ptr_def allocation_size_def)
  ultimately have res: "m' = kfree kheap p m2"
    unfolding m' process_free_def m2_def using m1(1) by simp
  show "process_space (L(p := None)) process t c m'" unfolding res by (rule s3(1))
  have a3: "table_region kheap \<inter> block_region process 3 = {}" using a(2) by (auto simp: heap_scratch_def)
  show "allocation_ptr m' process i = 0" if i: "0 \<le> i" "i < 1024"
  proof -
    have "allocation_ptr m' process i = allocation_ptr m2 process i"
      unfolding res by (rule process_fields(2) [OF s3(4) a3 i])
    also have "\<dots> = 0" using r(2) [OF i] process_fields(2) [OF m1(4) a(5) i] slots [OF i] by (simp split: if_splits)
    finally show ?thesis .
  qed
  show "mmu_translate m' (directory_entry m' c) w = None" if "w \<in> block_region p (nblocks sz)"
    using m1(6) [OF that] s2(4) [of w] s3(3) [of w] unfolding res by (simp add: s3(2) s2(3) m1(5))
qed

text \<open>
  C12. \<open>process_malloc\<close> for a process whose task has an address space returns fresh memory: no
  live allocation, zeroed, mapped to itself for the process, and recorded in slot 1 of the
  process. The state it leaves is again one in which the process can allocate.
\<close>

theorem process_malloc_maps:
  assumes "process_space L process t c m" and "0 < unat sz" and "unat sz \<le> 2 ^ 32 - 4096"
    and "heap_room kheap L (nblocks sz)" and "\<exists>i < 1024. allocation_ptr m process (int i) = 0"
  shows "\<exists>p m'. process_malloc kheap process sz m = (p, m') \<and> p \<noteq> 0 \<and> L p = None
    \<and> process_space (L(p \<mapsto> nblocks sz)) process t c m'
    \<and> (\<forall>a \<in> region p (unat sz). m' a = 0 \<and> mmu_translate m' (directory_entry m' c) a = Some a)
    \<and> (\<forall>i. 0 \<le> i \<and> i < 1024 \<longrightarrow> allocation_ptr m' process i = (if i = 1 then p else allocation_ptr m process i))"
proof -
  obtain p m' where n: "process_malloc kheap process sz m = (p, m')" "p \<noteq> 0" "L p = None"
    "process_space (L(p \<mapsto> nblocks sz)) process t c m'"
    "\<And>a. a \<in> region p (unat sz) \<Longrightarrow> m' a = 0"
    "\<And>w. w \<in> block_region p (nblocks sz) \<Longrightarrow> mmu_translate m' (directory_entry m' c) w = Some w"
    "\<And>i. 0 \<le> i \<Longrightarrow> i < 1024 \<Longrightarrow> allocation_ptr m' process i = (if i = 1 then p else allocation_ptr m process i)"
    by (rule process_malloc_ok [OF assms]) blast
  have "mmu_translate m' (directory_entry m' c) a = Some a" if "a \<in> region p (unat sz)" for a
    using n(6) that request_in_blocks by blast
  then show ?thesis using n by blast
qed

text \<open>
  C29. Release undoes allocation: when the process had no memory, \<open>process_free\<close> after
  \<open>process_malloc\<close> gives the blocks back to the kernel heap, takes the pages out of the
  process's address space, and leaves no slot in use.
\<close>

theorem process_malloc_free_roundtrip:
  assumes "process_space L process t c m" and "0 < unat sz" and "unat sz \<le> 2 ^ 32 - 4096"
    and "heap_room kheap L (nblocks sz)" and "\<forall>i. 0 \<le> i \<and> i < 1024 \<longrightarrow> allocation_ptr m process i = 0"
  shows "\<exists>p m' m''. process_malloc kheap process sz m = (p, m') \<and> p \<noteq> 0 \<and> m'' = process_free kheap process p m'
    \<and> process_space L process t c m''
    \<and> (\<forall>a \<in> region p (unat sz). mmu_translate m'' (directory_entry m'' c) a = None)
    \<and> (\<forall>i. 0 \<le> i \<and> i < 1024 \<longrightarrow> allocation_ptr m'' process i = 0)"
proof -
  have slot: "\<exists>i < 1024. allocation_ptr m process (int i) = 0" using assms(5) by (intro exI [of _ 0]) simp
  obtain p m' where n: "process_malloc kheap process sz m = (p, m')" "p \<noteq> 0" "L p = None"
    "process_space (L(p \<mapsto> nblocks sz)) process t c m'"
    "\<And>i. 0 \<le> i \<Longrightarrow> i < 1024 \<Longrightarrow> allocation_ptr m' process i = (if i = 1 then p else allocation_ptr m process i)"
    "allocation_size m' process 1 = sz" "footprint c m' \<inter> block_region p (nblocks sz) = {}"
    by (rule process_malloc_ok [OF assms(1-4) slot]) blast
  have slots: "allocation_ptr m' process i = (if i = 1 then p else 0)" if "0 \<le> i" "i < 1024" for i
    using n(5) that assms(5) by simp
  have ne: "p \<noteq> process" "p \<noteq> t" using n(3) assms(1) by (auto simp: process_space_def)
  have pL: "(L(p \<mapsto> nblocks sz)) p = Some (nblocks sz)" by simp
  note f = process_free_ok [OF n(4) pL ne n(2) slots n(6,7) refl]
  have "(L(p \<mapsto> nblocks sz))(p := None) = L" using n(3) by auto
  then have "process_space L process t c (process_free kheap process p m')" using f(1) by (simp only:)
  moreover have "mmu_translate (process_free kheap process p m') (directory_entry (process_free kheap process p m') c) a = None"
    if "a \<in> region p (unat sz)" for a
    using f(3) that request_in_blocks by blast
  ultimately show ?thesis using n(1,2) f(2) by blast
qed

text \<open>
  C39. Every allocation is recorded in the same slot, so a second one makes the first
  unreleasable: the memory a process got first stays live, and \<open>process_free\<close> on it does
  nothing at all.
\<close>

theorem process_malloc_forgets:
  assumes "process_space L process t c m" and "0 < unat sz" and "unat sz \<le> 2 ^ 32 - 4096"
    and "heap_room kheap L (nblocks sz)" and "L q = Some n"
    and "\<forall>i. 0 \<le> i \<and> i < 1024 \<longrightarrow> allocation_ptr m process i = (if i = 1 then q else 0)"
  shows "\<exists>p m'. process_malloc kheap process sz m = (p, m') \<and> p \<noteq> 0 \<and> L p = None
    \<and> process_space (L(p \<mapsto> nblocks sz)) process t c m' \<and> (L(p \<mapsto> nblocks sz)) q = Some n
    \<and> process_free kheap process q m' = m'"
proof -
  have slot: "\<exists>i < 1024. allocation_ptr m process (int i) = 0" using assms(6) by (intro exI [of _ 0]) simp
  obtain p m' where n: "process_malloc kheap process sz m = (p, m')" "p \<noteq> 0" "L p = None"
    "process_space (L(p \<mapsto> nblocks sz)) process t c m'"
    "\<And>i. 0 \<le> i \<Longrightarrow> i < 1024 \<Longrightarrow> allocation_ptr m' process i = (if i = 1 then p else allocation_ptr m process i)"
    by (rule process_malloc_ok [OF assms(1-4) slot]) blast
  have "q \<noteq> p" using n(3) assms(5) by auto
  moreover have "q \<noteq> 0" using kh.live_ok [of m L q n] assms(1,5) unfolding process_space_def by blast
  ultimately have "process_get_allocation_addr m' process q = 0"
    using n(5) assms(6) by (intro get_allocation_none) (auto split: if_splits)
  then have "process_free kheap process q m' = m'" by (simp add: process_free_def)
  then show ?thesis using n \<open>q \<noteq> p\<close> assms(5) by auto
qed

section \<open>A process with a new task\<close>

text \<open>Storing a new task in its process makes the process able to allocate.\<close>

lemma process_space_new:
  assumes s: "space (L(t \<mapsto> 1)) 5 c m" and p: "L process = Some 3" and t: "L t = None"
    and pd: "task_page_directory m t = c" and m': "m' = store32 m (process + 112) t"
  obtains L' where "process_space L' process t c m'" "\<And>q n. L q = Some n \<Longrightarrow> L' q = Some n"
    "heap_avail kheap L' + 1026 = heap_avail kheap (L(t \<mapsto> 1))" "\<exists>m. heap_live kheap m (L(t \<mapsto> 1))" "same_outside (block_region process 3) m m'"
    "\<And>w. mmu_translate m' (directory_entry m' c) w = Some w" "footprint c m' \<subseteq> data_region kheap"
proof -
  let ?L = "L(t \<mapsto> 1)"
  obtain d ts where g: "length ts = 1024" "load32 m c = d" "distinct (c # d # ts)"
      "\<And>q. q \<in> set (c # d # ts) \<Longrightarrow> ?L q = None" "heap_live kheap m (grab ?L (c # d # ts))"
      "\<And>q n. ?L q = Some n \<Longrightarrow> grab ?L (c # d # ts) q = Some n" "\<And>k. k < 1024 \<Longrightarrow> pd_table m d k = ts ! k"
    using s by (rule space_pages) blast
  let ?G = "grab ?L (c # d # ts)"
  have npt: "process \<noteq> t" using p t by auto
  have GP: "?G process = Some 3" by (rule g(6)) (use npt p in simp)
  have Gt: "?G t = Some 1" by (rule g(6)) simp
  have de: "directory_entry m c = d" using g(2) by (simp add: directory_entry_def)
  have fp: "\<exists>x \<in> set (c # d # ts). a \<in> block_region x 1" if a: "a \<in> footprint c m" for a
  proof -
    have "region c 4 \<subseteq> region c 4096" by (rule region_mono) simp
    then have "a \<in> region c 4096 \<or> a \<in> region d 4096 \<or> (\<exists>k < 1024. a \<in> region (ts ! k) 4096)"
      using a g(7) by (auto simp: footprint_def chunk_tables_def table_pages_def de)
    then show ?thesis using g(1) by (auto simp: block_region_1)
  qed
  have off: "footprint c m \<inter> A = {}" if "\<And>x. x \<in> set (c # d # ts) \<Longrightarrow> block_region x 1 \<inter> A = {}" for A
    using fp that by blast
  have ne: "process \<notin> set (c # d # ts)" "t \<notin> set (c # d # ts)" using g(4) [of process] g(4) [of t] p npt by auto
  have dP: "footprint c m \<inter> block_region process 3 = {}"
    by (rule off, rule kh.live_disjoint [OF g(5) _ GP]) (use ne in auto)
  have dT: "footprint c m \<inter> region t 4096 = {}"
    unfolding block_region_1(1) [symmetric]
    by (rule off, rule kh.live_disjoint [OF g(5) _ Gt]) (use ne in auto)
  have dS: "footprint c m \<inter> heap_scratch ?G = {}" by (rule off, rule live_scratch [OF g(5)]) simp
  have "region (process + of_nat 112) 4 \<subseteq> block_region process 3"
    unfolding block_region_def by (rule sub_region) simp_all
  then have so: "same_outside (block_region process 3) m m'"
    unfolding m' by (intro same_outside_mono [OF store32_frame]) simp
  have cw: "chunk_wf c m" by (rule space_chunk_wf [OF s])
  note f = footprint_frame [OF so dP cw]
  have "process_task m' process = t" by (simp add: m' process_task_def load32_store32_same)
  moreover have "task_page_directory m' t = c"
  proof -
    have "process \<noteq> t" using p t by auto
    then have "block_region process 3 \<inter> region t 4096 = {}"
      using kh.live_disjoint [OF g(5) GP Gt] by (simp add: block_region_1)
    then show ?thesis using process_directory [OF so] pd by simp
  qed
  moreover have "pde_present m (directory_entry m c) w" for w using space_get(2) [OF s] by simp
  moreover have "heap_live kheap m' ?G" using g(5) GP so by (rule kh.write_live)
  ultimately have "process_space ?G process t c m'"
    using GP Gt f dP dT dS by (simp add: process_space_def Int_Un_distrib)
  moreover have "heap_avail kheap ?G + length (c # d # ts) = heap_avail kheap ?L \<and> (\<exists>m. heap_live kheap m ?L)"
    by (rule avail_grab [OF g(5,3,4)])
  then have "heap_avail kheap ?G + 1026 = heap_avail kheap ?L" "\<exists>m. heap_live kheap m ?L" using g(1) by simp_all
  moreover have "?G q = Some n" if "L q = Some n" for q n
    by (rule g(6), cases "q = t") (use that t in simp_all)
  moreover have "mmu_translate m' (directory_entry m' c) w = Some w" for w
    using f(5) space_mmu [OF s] f(1) by simp
  moreover have "footprint c m' \<subseteq> data_region kheap"
    using fp live_data [OF g(5)] unfolding f(6) by (meson grab_simps(2) subset_iff)
  ultimately show thesis using that so by metis
qed

lemma demo_space:
  obtains L process t c m where "process_space L process t c m" "24000 \<le> heap_avail kheap L"
    "\<And>i. 0 \<le> i \<Longrightarrow> i < 1024 \<Longrightarrow> allocation_ptr m process i = 0"
    "\<And>w. mmu_translate m (directory_entry m c) w = Some w" "footprint c m \<subseteq> data_region kheap"
proof -
  obtain process m where d: "heap_live kheap m [process \<mapsto> 3]" "heap_avail kheap [process \<mapsto> 3] = 25597"
    "program_loaded [process \<mapsto> 3] process m" "\<And>j. unat j + 4 \<le> 8308 \<Longrightarrow> load32 m (process + j) = 0"
    by (rule demo_process) blast
  let ?L = "[process \<mapsto> 3] :: u32 \<rightharpoonup> nat"
  have av: "1027 \<le> heap_avail kheap ?L" using d(2) by simp
  have l: "task_list [] idle m" "\<forall>u \<in> set []. ?L u = Some 1" by (simp_all add: task_list_def apart_def idle_def)
  obtain t K' m1 c where n: "task_new kheap process idle m = (t, K', m1)" "?L t = None" "space (?L(t \<mapsto> 1)) 5 c m1"
      "task_page_directory m1 t = c"
      "\<And>q n a. ?L q = Some n \<Longrightarrow> q \<noteq> last (0 # []) \<Longrightarrow> a \<in> block_region q n \<Longrightarrow> m1 a = m a"
    by (rule task_new_ok [OF d(1) av l d(3)]) blast
  have pL: "?L process = Some 3" by simp
  obtain L' where L': "process_space L' process t c (store32 m1 (process + 112) t)"
      "heap_avail kheap L' + 1026 = heap_avail kheap (?L(t \<mapsto> 1))" "\<exists>m. heap_live kheap m (?L(t \<mapsto> 1))"
      "\<And>w. mmu_translate (store32 m1 (process + 112) t) (directory_entry (store32 m1 (process + 112) t) c) w = Some w"
      "footprint c (store32 m1 (process + 112) t) \<subseteq> data_region kheap"
    by (rule process_space_new [OF n(3) pL n(2,4) refl]) blast
  have "process \<noteq> 0" using kh.live_ok [OF d(1) pL] by blast
  then have same: "m1 a = m a" if "a \<in> block_region process 3" for a using n(5) [OF pL _ that] by simp
  have "allocation_ptr (store32 m1 (process + 112) t) process i = 0" if i: "0 \<le> i" "i < 1024" for i
  proof -
    have e: "allocation_addr process i = process + of_nat (116 + 8 * nat i)" using allocation_nat [OF i(1), of process 0] by simp
    have "load32 (store32 m1 (process + of_nat 112) t) (process + of_nat (116 + 8 * nat i)) =
        load32 m1 (process + of_nat (116 + 8 * nat i))"
      using i by (intro load32_store32_nat) auto
    also have "\<dots> = load32 m (process + of_nat (116 + 8 * nat i))"
      using same allocation_bytes [OF i, of 0 process] unfolding e
      by (intro load32_same_outside [where A = "- block_region process 3"]) (auto simp: same_outside_def)
    also have "\<dots> = 0" using i by (intro d(4)) (subst unat_of_nat_u32; simp)
    finally show ?thesis by (simp add: allocation_ptr_def e)
  qed
  moreover have "24000 \<le> heap_avail kheap L'"
  proof -
    obtain m2 where "heap_live kheap m2 (?L(t \<mapsto> 1))" using L'(3) by blast
    then have "heap_avail kheap ?L = heap_avail kheap (?L(t \<mapsto> 1)) + 1" using d(1) n(2) by (intro kh.avail_alloc)
    then show ?thesis using L'(2) d(2) by linarith
  qed
  ultimately show thesis using that L'(1,4,5) by blast
qed

theorem process_malloc_maps_witness:
  "\<exists>process m p m'. process_malloc kheap process 100 m = (p, m') \<and> p \<noteq> 0 \<and> allocation_ptr m' process 1 = p"
proof -
  obtain L process t c m where d: "process_space L process t c m" "24000 \<le> heap_avail kheap L"
      "\<And>i. 0 \<le> i \<Longrightarrow> i < 1024 \<Longrightarrow> allocation_ptr m process i = 0"
    by (rule demo_space) blast
  have nb: "nblocks 100 = 1" by (simp add: nblocks_def)
  have "heap_room kheap L (nblocks 100)" unfolding nb using d(2) by (intro heap_room_one) simp
  moreover have "\<exists>i < 1024. allocation_ptr m process (int i) = 0" using d(3) by (intro exI [of _ 0]) simp
  ultimately obtain p m' where "process_malloc kheap process 100 m = (p, m')" "p \<noteq> 0"
      "\<forall>i. 0 \<le> i \<and> i < 1024 \<longrightarrow> allocation_ptr m' process i = (if i = 1 then p else allocation_ptr m process i)"
    using process_malloc_maps [OF d(1), of 100] by auto
  moreover from this have "allocation_ptr m' process 1 = p" by simp
  ultimately show ?thesis by blast
qed

theorem process_malloc_free_roundtrip_witness:
  "\<exists>process m p m'. process_malloc kheap process 4096 m = (p, m') \<and> p \<noteq> 0
    \<and> allocation_ptr (process_free kheap process p m') process 1 = 0"
proof -
  obtain L process t c m where d: "process_space L process t c m" "24000 \<le> heap_avail kheap L"
      "\<And>i. 0 \<le> i \<Longrightarrow> i < 1024 \<Longrightarrow> allocation_ptr m process i = 0"
    by (rule demo_space) blast
  have nb: "nblocks 4096 = 1" by (simp add: nblocks_def)
  have "heap_room kheap L (nblocks 4096)" unfolding nb using d(2) by (intro heap_room_one) simp
  moreover have "\<forall>i. 0 \<le> i \<and> i < 1024 \<longrightarrow> allocation_ptr m process i = 0" using d(3) by blast
  ultimately obtain p m' m'' where "process_malloc kheap process 4096 m = (p, m')" "p \<noteq> 0"
      "m'' = process_free kheap process p m'" "\<forall>i. 0 \<le> i \<and> i < 1024 \<longrightarrow> allocation_ptr m'' process i = 0"
    using process_malloc_free_roundtrip [OF d(1), of 4096] by auto
  moreover from this have "allocation_ptr m'' process 1 = 0" by simp
  ultimately show ?thesis by blast
qed

theorem process_malloc_forgets_witness:
  "\<exists>process m q p m'. process_malloc kheap process 100 m = (p, m') \<and> p \<noteq> q \<and> q \<noteq> 0
    \<and> allocation_ptr m process 1 = q \<and> process_free kheap process q m' = m'"
proof -
  obtain L process t c m where d: "process_space L process t c m" "24000 \<le> heap_avail kheap L"
      "\<And>i. 0 \<le> i \<Longrightarrow> i < 1024 \<Longrightarrow> allocation_ptr m process i = 0"
    by (rule demo_space) blast
  have nb: "nblocks 100 = 1" by (simp add: nblocks_def)
  have room: "heap_room kheap L (nblocks 100)" unfolding nb using d(2) by (intro heap_room_one) simp
  have slot: "\<exists>i < 1024. allocation_ptr m process (int i) = 0" using d(3) by (intro exI [of _ 0]) simp
  obtain q m1 where q: "process_malloc kheap process 100 m = (q, m1)" "q \<noteq> 0" "L q = None"
    "process_space (L(q \<mapsto> nblocks 100)) process t c m1"
    "\<And>i. 0 \<le> i \<Longrightarrow> i < 1024 \<Longrightarrow> allocation_ptr m1 process i = (if i = 1 then q else allocation_ptr m process i)"
    by (rule process_malloc_ok [OF d(1) _ _ room slot]) simp_all
  let ?L = "L(q \<mapsto> 1)"
  have "heap_live kheap m L" "heap_live kheap m1 ?L" using d(1) q(4) by (simp_all add: process_space_def nb)
  then have "heap_avail kheap L = heap_avail kheap ?L + 1" using q(3) by (intro kh.avail_alloc)
  then have "heap_room kheap ?L (nblocks 100)" unfolding nb using d(2) by (intro heap_room_one) linarith
  moreover have "?L q = Some 1" by simp
  moreover have sl: "\<forall>i. 0 \<le> i \<and> i < 1024 \<longrightarrow> allocation_ptr m1 process i = (if i = 1 then q else 0)"
    using q(5) d(3) by simp
  ultimately obtain p m2 where "process_malloc kheap process 100 m1 = (p, m2)" "?L p = None"
      "process_free kheap process q m2 = m2"
    using process_malloc_forgets [of ?L process t c m1 100 q 1] q(4) unfolding nb by auto
  moreover have "p \<noteq> q" using \<open>?L p = None\<close> by auto
  moreover have "allocation_ptr m1 process 1 = q" using sl by simp
  ultimately show ?thesis using q(2) by blast
qed

end
