(* ===== verification/ImageSpec.thy ===== *)
theory ImageSpec
  imports ProcessSpec
begin

text \<open>
  The address space a program starts with: \<open>process_map_memory\<close> maps the segments of an ELF file,
  or a raw binary, and the stack.
\<close>

section \<open>Page ranges\<close>

lemma lower_facts:
  "unat (paging_align_to_lower_page p) = unat p - unat p mod 4096" "aligned 4096 (paging_align_to_lower_page p)"
proof -
  have "p mod 4096 \<le> p" by (simp add: word_le_nat_alt unat_mod)
  then have "unat (p - p mod 4096) = unat p - unat (p mod 4096)" by (rule unat_sub)
  then show u: "unat (paging_align_to_lower_page p) = unat p - unat p mod 4096"
    by (simp add: paging_align_to_lower_page_def PAGING_PAGE_SIZE_def unat_mod)
  show "aligned 4096 (paging_align_to_lower_page p)" by (simp add: aligned_def u dvd_minus_mod)
qed

lemma lower_aligned: "unat x mod 4096 = 0 \<Longrightarrow> paging_align_to_lower_page x = x"
  by (simp add: word_unat_eq_iff lower_facts(1))

lemma upper_facts:
  assumes "unat e + 4096 \<le> 2 ^ 32"
  shows "unat e \<le> unat (paging_align_address e)" "aligned 4096 (paging_align_address e)"
proof -
  show "aligned 4096 (paging_align_address e)" by (rule align_address_aligned)
  show "unat e \<le> unat (paging_align_address e)"
  proof (cases "e mod 4096 = 0")
    case True
    then show ?thesis by (simp add: paging_align_address_def PAGING_PAGE_SIZE_def)
  next
    case False
    then have "unat (e mod 4096) \<noteq> 0" by (simp only: unat_eq_zero not_False_eq_True)
    then have "0 < unat e mod 4096" by (simp add: unat_mod)
    moreover have a: "paging_align_address e = paging_align_to_lower_page e + of_nat 4096"
      using False by (simp add: paging_align_address_def paging_align_to_lower_page_def PAGING_PAGE_SIZE_def)
    moreover have "unat (paging_align_to_lower_page e + of_nat 4096) = unat (paging_align_to_lower_page e) + 4096"
      using assms \<open>0 < unat e mod 4096\<close> by (intro unat_add_of_nat) (simp add: lower_facts)
    ultimately show ?thesis unfolding a lower_facts(1) using mod_less_divisor [of 4096 "unat e"] by linarith
  qed
qed

text \<open>A segment: the virtual address, the physical address and the size in memory.\<close>

type_synonym segment = "u32 \<times> u32 \<times> u32"

definition page_span :: "u32 \<Rightarrow> u32 \<Rightarrow> nat" where
  "page_span p n = unat (paging_align_address (p + n) - paging_align_to_lower_page p)"

definition seg_pages :: "segment \<Rightarrow> u32 set" where
  "seg_pages s = (case s of (v, p, n) \<Rightarrow> region (paging_align_to_lower_page v) (page_span p n))"

text \<open>The segment lies at the same offset in its first page on both sides and does not wrap.\<close>

definition seg_ok :: "segment \<Rightarrow> bool" where
  "seg_ok s \<longleftrightarrow> (case s of (v, p, n) \<Rightarrow> unat v mod 4096 = unat p mod 4096 \<and> unat p + unat n + 4096 \<le> 2 ^ 32)"

definition maps_segment :: "mem \<Rightarrow> u32 \<Rightarrow> segment \<Rightarrow> bool" where
  "maps_segment m d s \<longleftrightarrow> (case s of (v, p, n) \<Rightarrow> \<forall>j < unat n. mmu_translate m d (v + of_nat j) = Some (p + of_nat j))"

lemma seg_range:
  assumes "seg_ok (v, p, n)"
  shows "paging_align_to_lower_page p \<le> paging_align_address (p + n)"
    and "\<And>j. j < unat n \<Longrightarrow> unat p mod 4096 + j < page_span p n"
    and "v + of_nat j = paging_align_to_lower_page v + of_nat (unat p mod 4096 + j)"
    and "p + of_nat j = paging_align_to_lower_page p + of_nat (unat p mod 4096 + j)"
proof -
  have ok: "unat v mod 4096 = unat p mod 4096" "unat p + unat n + 4096 \<le> 2 ^ 32" using assms by (simp_all add: seg_ok_def)
  have e: "unat (p + n) = unat p + unat n" using ok(2) by (intro unat_add_no_wrap) simp
  note up = upper_facts [of "p + n", unfolded e, OF ok(2)]
  have le: "unat (paging_align_to_lower_page p) \<le> unat (paging_align_address (p + n))" using up(1) by (simp add: lower_facts(1))
  then show l: "paging_align_to_lower_page p \<le> paging_align_address (p + n)" by (simp add: word_le_nat_alt)
  have "page_span p n = unat (paging_align_address (p + n)) - (unat p - unat p mod 4096)"
    unfolding page_span_def unat_sub [OF l] lower_facts(1) ..
  then show "unat p mod 4096 + j < page_span p n" if "j < unat n" for j using up(1) that mod_less_eq_dividend [of "unat p" 4096] by linarith
  have w: "x = paging_align_to_lower_page x + of_nat (unat x mod 4096)" for x :: u32
  proof -
    have "unat x mod 4096 = unat (x mod 4096)" by (simp add: unat_mod)
    then have "of_nat (unat x mod 4096) = x mod 4096" by simp
    then show ?thesis by (simp add: paging_align_to_lower_page_def PAGING_PAGE_SIZE_def)
  qed
  show "v + of_nat j = paging_align_to_lower_page v + of_nat (unat p mod 4096 + j)"
  proof -
    have "v + of_nat j = paging_align_to_lower_page v + of_nat (unat p mod 4096) + of_nat j"
      using w [of v] unfolding ok(1) by (rule arg_cong)
    then show ?thesis by (simp only: of_nat_add add.assoc)
  qed
  show "p + of_nat j = paging_align_to_lower_page p + of_nat (unat p mod 4096 + j)"
  proof -
    have "p + of_nat j = paging_align_to_lower_page p + of_nat (unat p mod 4096) + of_nat j"
      using w [of p] by (rule arg_cong)
    then show ?thesis by (simp only: of_nat_add add.assoc)
  qed
qed

lemma seg_inside:
  assumes "seg_ok (v, p, n)" "j < unat n" shows "v + of_nat j \<in> seg_pages (v, p, n)"
proof -
  have s: "unat p mod 4096 + j < page_span p n" by (rule seg_range(2) [OF assms])
  have "page_span p n < 2 ^ 32" unfolding page_span_def by (rule unat_u32_less)
  then show ?thesis
    unfolding seg_range(3) [OF assms(1)] seg_pages_def prod.case using s by (intro in_region_offset) simp_all
qed

lemma maps_segment_frame:
  assumes m: "maps_segment m d s" and ok: "seg_ok s" and same: "\<And>w. w \<in> seg_pages s \<Longrightarrow> mmu_translate m' d w = mmu_translate m d w"
  shows "maps_segment m' d s"
proof (cases s)
  case (fields v p n)
  have "mmu_translate m' d (v + of_nat j) = Some (p + of_nat j)" if "j < unat n" for j
    using m same [OF seg_inside [OF ok [unfolded fields] that, folded fields]] that by (simp add: maps_segment_def fields)
  then show ?thesis by (simp add: maps_segment_def fields)
qed

section \<open>Mapping one segment\<close>

lemma space_segment:
  assumes ps: "process_space L process t c m" and ok: "seg_ok (v, p, n)" and flags: "flags = 5 \<or> flags = 7"
  obtains m' where "paging_map_to c (paging_align_to_lower_page v) (paging_align_to_lower_page p) (paging_align_address (p + n)) flags m = (0, m')"
    "process_space L process t c m'" "footprint c m' = footprint c m" "same_outside (footprint c m) m m'"
    "directory_entry m' c = directory_entry m c" "maps_segment m' (directory_entry m c) (v, p, n)"
    "\<And>w. w \<notin> seg_pages (v, p, n) \<Longrightarrow> mmu_translate m' (directory_entry m c) w = mmu_translate m (directory_entry m c) w"
proof -
  note d = ps [unfolded process_space_def] and a = process_space_apart [OF ps]
  have live: "heap_live kheap m L" and cw: "chunk_wf c m" using d by blast+
  have fl: "drop_bit 12 (u32_of_int flags) = 0" "bit (u32_of_int flags) 0" using flags by auto
  have present: "pde_present m (directory_entry m c) w" for w using d by blast
  obtain m' where m': "paging_map_to c (paging_align_to_lower_page v) (paging_align_to_lower_page p) (paging_align_address (p + n)) flags m = (0, m')"
      "chunk_wf c m'" "directory_entry m' c = directory_entry m c" "chunk_tables c m' = chunk_tables c m"
      "\<forall>w. pde_present m' (directory_entry m c) w" "same_outside (chunk_tables c m) m m'"
      "\<forall>k < page_span p n. mmu_translate m' (directory_entry m c) (paging_align_to_lower_page v + of_nat k) = Some (paging_align_to_lower_page p + of_nat k)"
      "\<forall>w. w \<notin> region (paging_align_to_lower_page v) (page_span p n) \<longrightarrow> mmu_translate m' (directory_entry m c) w = mmu_translate m (directory_entry m c) w"
    using map_to_mapped [OF cw lower_facts(2) lower_facts(2) align_address_aligned seg_range(1) [OF ok] fl(1) present, of v] fl(2)
    unfolding page_span_def by auto
  have so: "same_outside (footprint c m) m m'"
    by (rule same_outside_mono [OF m'(6)]) (simp add: footprint_def)
  have fp: "footprint c m' = footprint c m" using m'(3,4) by (simp add: footprint_def)
  have "heap_live kheap m' L"
    by (rule kh.rel_frame [OF live so]) (use a(4) in \<open>auto simp: heap_scratch_def\<close>)
  moreover have "process_task m' process = t" "task_page_directory m' t = c"
    using process_fields(1) [OF so a(5)] process_directory [OF so a(6)] d by simp_all
  ultimately have space: "process_space L process t c m'" using d m'(2,3,5) by (simp add: process_space_def fp)
  have maps: "maps_segment m' (directory_entry m c) (v, p, n)"
    using m'(7) seg_range(2) [OF ok] by (simp add: maps_segment_def seg_range(3,4) [OF ok] del: of_nat_add)
  have other: "mmu_translate m' (directory_entry m c) w = mmu_translate m (directory_entry m c) w" if "w \<notin> seg_pages (v, p, n)" for w
    using m'(8) that by (simp add: seg_pages_def)
  show thesis by (rule that [OF m'(1) space fp so m'(3) maps other])
qed

section \<open>The image of a program\<close>

definition elf_segment :: "mem \<Rightarrow> u32 \<Rightarrow> u32 \<Rightarrow> nat \<Rightarrow> segment" where
  "elf_segment m elf_file phdrs i = (let ph = phdrs + of_nat (32 * i) in
     (p_vaddr m ph, elf_phdr_phys_address m elf_file ph, p_memsz m ph))"

definition program_image :: "mem \<Rightarrow> u32 \<Rightarrow> segment list" where
  "program_image m process =
     (if process_filetype m process = PROCESS_FILETYPE_ELF
      then let f = process_elf_file m process; hdr = elf_header m f
        in map (elf_segment m f (elf_pheader m hdr)) [0..<nat (e_phnum m hdr)]
      else [(SIMPOS_PROGRAM_VIRTUAL_ADDRESS, process_ptr m process, process_size m process)])"

definition stack_segment :: "mem \<Rightarrow> u32 \<Rightarrow> segment" where
  "stack_segment m process = (SIMPOS_PROGRAM_VIRTUAL_STACK_ADDRESS_END, process_stack m process, SIMPOS_USER_PROGRAM_STACK_SIZE)"

text \<open>The parts of the loaded file that are read while the address space is set up.\<close>

definition elf_area :: "mem \<Rightarrow> u32 \<Rightarrow> u32 set" where
  "elf_area m process = (let f = process_elf_file m process; hdr = elf_header m f in
     region (f + 112) 4 \<union> region (hdr + 28) 24 \<union> region (elf_pheader m hdr) (32 * nat (e_phnum m hdr)))"

lemma phdr_part:
  assumes "i < n" "n < 2 ^ 16" "unat j + 4 \<le> 32"
  shows "region (phdrs + of_nat (32 * i) + j) 4 \<subseteq> region phdrs (32 * n)"
proof -
  have i: "unat (of_nat (32 * i) :: u32) = 32 * i" using assms by (intro unat_of_nat_u32) simp
  have u: "unat (of_nat (32 * i) + j) = 32 * i + unat j" using assms i by (subst unat_add_no_wrap) simp_all
  show ?thesis unfolding add.assoc using assms u by (intro sub_region) simp_all
qed

text \<open>Reading a segment after other memory has changed.\<close>

lemma elf_segment_frame:
  assumes so: "same_outside F m0 m" and i: "i < n" "n < 2 ^ 16"
    and F: "region (f + 112) 4 \<inter> F = {}" "region phdrs (32 * n) \<inter> F = {}"
  shows "elf_segment m f phdrs i = elf_segment m0 f phdrs i"
    and "p_flags m (phdrs + of_nat (32 * i)) = p_flags m0 (phdrs + of_nat (32 * i))"
proof -
  have l: "load32 m (phdrs + of_nat (32 * i) + j) = load32 m0 (phdrs + of_nat (32 * i) + j)" if "unat j + 4 \<le> 32" for j
    using phdr_part [OF i that, of phdrs] F(2) by (intro load32_same_outside [OF so]) blast
  have e: "load32 m (f + 112) = load32 m0 (f + 112)" by (rule load32_same_outside [OF so F(1)])
  show "elf_segment m f phdrs i = elf_segment m0 f phdrs i"
    using l [of 4] l [of 8] l [of 20] e
    by (simp add: elf_segment_def Let_def p_vaddr_def p_memsz_def p_offset_def elf_phdr_phys_address_def elf_memory_def)
  show "p_flags m (phdrs + of_nat (32 * i)) = p_flags m0 (phdrs + of_nat (32 * i))"
    using l [of 24] by (simp add: p_flags_def)
qed

lemma e_phnum_frame:
  assumes "same_outside F m0 m" "region (hdr + 28) 24 \<inter> F = {}"
  shows "e_phnum m hdr = e_phnum m0 hdr"
proof -
  have "hdr + 44 \<in> region (hdr + 28) 24" "hdr + 44 + 1 \<in> region (hdr + 28) 24" by (simp_all add: region_def)
  then have "m (hdr + 44) = m0 (hdr + 44)" "m (hdr + 44 + 1) = m0 (hdr + 44 + 1)"
    using assms(2) by (auto intro!: same_outsideD [OF assms(1)])
  then show ?thesis by (simp add: e_phnum_def load16_def)
qed

lemma phnum_less: "nat (e_phnum m hdr) < 2 ^ 16"
proof -
  have "unat (load16 m (hdr + 44)) < 2 ^ 16" using unsigned_less [of "load16 m (hdr + 44)"] by simp
  then show ?thesis by (simp add: e_phnum_def)
qed

lemma segment_flags:
  "flags_of (PAGING_IS_PRESENT OR PAGING_ACCESS_FROM_ALL) = 5"
  "flags_of ((PAGING_IS_PRESENT OR PAGING_ACCESS_FROM_ALL) OR PAGING_IS_WRITEABLE) = 7"
  by (simp_all add: flags_of_def PAGING_IS_WRITEABLE_def PAGING_IS_PRESENT_def PAGING_ACCESS_FROM_ALL_def)

text \<open>A round of the loop over the program headers.\<close>

lemma elf_round:
  assumes ps: "process_space L process t c m" and fp: "footprint c m = F" and so: "same_outside F m0 m"
    and i: "i < nat (e_phnum m0 hdr)"
    and F: "region (f + 112) 4 \<inter> F = {}" "region (hdr + 28) 24 \<inter> F = {}" "region phdrs (32 * nat (e_phnum m0 hdr)) \<inter> F = {}"
    and ok: "seg_ok (elf_segment m0 f phdrs i)"
  obtains m1 where "process_map_elf_loop process f hdr phdrs (int i) 0 m = process_map_elf_loop process f hdr phdrs (int (Suc i)) 0 m1"
    "process_space L process t c m1" "footprint c m1 = F" "same_outside F m0 m1" "directory_entry m1 c = directory_entry m c"
    "maps_segment m1 (directory_entry m c) (elf_segment m0 f phdrs i)"
    "\<And>w. w \<notin> seg_pages (elf_segment m0 f phdrs i) \<Longrightarrow> mmu_translate m1 (directory_entry m c) w = mmu_translate m (directory_entry m c) w"
proof -
  let ?ph = "phdrs + of_nat (32 * i)"
  note fr = elf_segment_frame [OF so i phnum_less F(1,3)]
  obtain v p n where s: "elf_segment m0 f phdrs i = (v, p, n)" by (rule prod_cases3)
  then have r: "p_vaddr m ?ph = v" "elf_phdr_phys_address m f ?ph = p" "p_memsz m ?ph = n"
    using fr(1) by (simp_all add: elf_segment_def Let_def)
  define fl where "fl = flags_of (if p_flags m ?ph AND PF_W \<noteq> 0 then (PAGING_IS_PRESENT OR PAGING_ACCESS_FROM_ALL) OR PAGING_IS_WRITEABLE
      else PAGING_IS_PRESENT OR PAGING_ACCESS_FROM_ALL)"
  have "fl = 5 \<or> fl = 7" by (simp add: fl_def segment_flags)
  then obtain m1 where m1: "paging_map_to c (paging_align_to_lower_page v) (paging_align_to_lower_page p) (paging_align_address (p + n)) fl m = (0, m1)"
      "process_space L process t c m1" "footprint c m1 = footprint c m" "same_outside (footprint c m) m m1"
      "directory_entry m1 c = directory_entry m c" "maps_segment m1 (directory_entry m c) (v, p, n)"
      "\<And>w. w \<notin> seg_pages (v, p, n) \<Longrightarrow> mmu_translate m1 (directory_entry m c) w = mmu_translate m (directory_entry m c) w"
    using space_segment [OF ps ok [unfolded s]] by blast
  have td: "task_page_directory m (process_task m process) = c" using ps by (simp add: process_space_def)
  have e: "u32_of_int (32 * int i) = of_nat (32 * i)" using u32_of_int_of_nat [of "32 * i"] by simp
  have "int i < e_phnum m hdr" using i e_phnum_frame [OF so F(2)] by simp
  then have "process_map_elf_loop process f hdr phdrs (int i) 0 m = process_map_elf_loop process f hdr phdrs (int i + 1) 0 m1"
    using m1(1) by (subst process_map_elf_loop.simps) (simp only: e Let_def r td fl_def [symmetric] prod.case if_True, simp)
  moreover have "int i + 1 = int (Suc i)" by simp
  ultimately have run: "process_map_elf_loop process f hdr phdrs (int i) 0 m = process_map_elf_loop process f hdr phdrs (int (Suc i)) 0 m1"
    by (simp only:)
  have "same_outside F m0 m1" using so m1(4) unfolding fp by (rule same_outside_trans1)
  then show thesis using that [OF run m1(2) _ _ m1(5)] m1(3,6,7) fp unfolding s by simp
qed

lemma elf_loop:
  fixes m0 f hdr phdrs
  defines "N \<equiv> nat (e_phnum m0 hdr)" and "seg \<equiv> elf_segment m0 f phdrs"
  assumes F: "region (f + 112) 4 \<inter> F = {}" "region (hdr + 28) 24 \<inter> F = {}" "region phdrs (32 * N) \<inter> F = {}"
    and ok: "\<And>i. i < N \<Longrightarrow> seg_ok (seg i)"
    and dis: "\<And>i j. i < N \<Longrightarrow> j < N \<Longrightarrow> i \<noteq> j \<Longrightarrow> seg_pages (seg i) \<inter> seg_pages (seg j) = {}"
  shows "k = N - i \<Longrightarrow> i \<le> N \<Longrightarrow> process_space L process t c m \<Longrightarrow> footprint c m = F \<Longrightarrow> same_outside F m0 m
    \<Longrightarrow> directory_entry m c = d \<Longrightarrow> \<exists>m'. process_map_elf_loop process f hdr phdrs (int i) 0 m = (0, m')
      \<and> process_space L process t c m' \<and> footprint c m' = F \<and> same_outside F m0 m' \<and> directory_entry m' c = d
      \<and> (\<forall>j. i \<le> j \<and> j < N \<longrightarrow> maps_segment m' d (seg j))
      \<and> (\<forall>w. (\<forall>j. i \<le> j \<and> j < N \<longrightarrow> w \<notin> seg_pages (seg j)) \<longrightarrow> mmu_translate m' d w = mmu_translate m d w)"
proof (induction k arbitrary: i m)
  case 0
  then have i: "i = N" by simp
  have "\<not> int i < e_phnum m hdr" using e_phnum_frame [OF 0(5) F(2)] i by (simp add: N_def e_phnum_def)
  then have "process_map_elf_loop process f hdr phdrs (int i) 0 m = (0, m)"
    by (subst process_map_elf_loop.simps) simp
  then show ?case using 0 i by auto
next
  case (Suc k)
  have i: "i < N" "k = N - Suc i" "Suc i \<le> N" using Suc.prems(1) by simp_all
  obtain m1 where m1: "process_map_elf_loop process f hdr phdrs (int i) 0 m = process_map_elf_loop process f hdr phdrs (int (Suc i)) 0 m1"
      "process_space L process t c m1" "footprint c m1 = F" "same_outside F m0 m1" "directory_entry m1 c = d"
      "maps_segment m1 d (seg i)" "\<And>w. w \<notin> seg_pages (seg i) \<Longrightarrow> mmu_translate m1 d w = mmu_translate m d w"
    using elf_round [OF Suc.prems(3,4,5) i(1) [unfolded N_def] F [unfolded N_def] ok [OF i(1), unfolded seg_def]]
    unfolding Suc.prems(6) seg_def by metis
  obtain m' where r: "process_map_elf_loop process f hdr phdrs (int (Suc i)) 0 m1 = (0, m')"
      "process_space L process t c m'" "footprint c m' = F" "same_outside F m0 m'" "directory_entry m' c = d"
      "\<forall>j. Suc i \<le> j \<and> j < N \<longrightarrow> maps_segment m' d (seg j)"
      "\<forall>w. (\<forall>j. Suc i \<le> j \<and> j < N \<longrightarrow> w \<notin> seg_pages (seg j)) \<longrightarrow> mmu_translate m' d w = mmu_translate m1 d w"
    using Suc.IH [OF i(2,3) m1(2-5)] by blast
  have "maps_segment m' d (seg i)"
  proof (rule maps_segment_frame [OF m1(6) ok [OF i(1)]])
    fix w assume w: "w \<in> seg_pages (seg i)"
    have "w \<notin> seg_pages (seg j)" if "Suc i \<le> j" "j < N" for j using dis [OF i(1) that(2)] that(1) w by auto
    then show "mmu_translate m' d w = mmu_translate m1 d w" using r(7) by blast
  qed
  then have maps: "maps_segment m' d (seg j)" if "i \<le> j" "j < N" for j
    using r(6) that by (cases "j = i") auto
  have other: "mmu_translate m' d w = mmu_translate m d w" if "\<forall>j. i \<le> j \<and> j < N \<longrightarrow> w \<notin> seg_pages (seg j)" for w
  proof -
    have "w \<notin> seg_pages (seg i)" using that i(1) by blast
    moreover have "\<forall>j. Suc i \<le> j \<and> j < N \<longrightarrow> w \<notin> seg_pages (seg j)" using that by (meson Suc_leD)
    ultimately show ?thesis using r(7) m1(7) by metis
  qed
  show ?case using r(1-5) maps other unfolding m1(1) by blast
qed

section \<open>The whole address space\<close>

lemma process_word: "unat j + 4 \<le> 12288 \<Longrightarrow> region (process + j) 4 \<subseteq> block_region process 3"
  unfolding block_region_def by (rule sub_region) simp_all

lemma image_mapped:
  assumes ps: "process_space L process t c m"
    and type: "process_filetype m process = PROCESS_FILETYPE_ELF \<and> elf_area m process \<inter> footprint c m = {}
      \<or> process_filetype m process = PROCESS_FILETYPE_BINARY"
    and ok: "\<forall>s \<in> set (program_image m process). seg_ok s"
    and dis: "\<forall>i < length (program_image m process). \<forall>j < length (program_image m process). i \<noteq> j
      \<longrightarrow> seg_pages (program_image m process ! i) \<inter> seg_pages (program_image m process ! j) = {}"
  obtains m' where "(if process_filetype m process = PROCESS_FILETYPE_ELF then Some (process_map_elf process m)
      else if process_filetype m process = PROCESS_FILETYPE_BINARY then Some (process_map_binary process m) else None) = Some (0, m')"
    "process_space L process t c m'" "footprint c m' = footprint c m" "same_outside (footprint c m) m m'"
    "directory_entry m' c = directory_entry m c" "\<forall>s \<in> set (program_image m process). maps_segment m' (directory_entry m c) s"
    "\<forall>w. w \<notin> (\<Union>s \<in> set (program_image m process). seg_pages s) \<longrightarrow>
       mmu_translate m' (directory_entry m c) w = mmu_translate m (directory_entry m c) w"
proof (cases "process_filetype m process = PROCESS_FILETYPE_ELF")
  case True
  let ?f = "process_elf_file m process"
  let ?hdr = "elf_header m ?f"
  let ?phdrs = "elf_pheader m ?hdr" and ?N = "nat (e_phnum m ?hdr)"
  let ?seg = "elf_segment m ?f ?phdrs"
  have im: "program_image m process = map ?seg [0..<?N]" using True by (simp add: program_image_def Let_def)
  have "PROCESS_FILETYPE_BINARY \<noteq> PROCESS_FILETYPE_ELF" by (simp add: PROCESS_FILETYPE_BINARY_def PROCESS_FILETYPE_ELF_def)
  then have F: "region (?f + 112) 4 \<inter> footprint c m = {}" "region (?hdr + 28) 24 \<inter> footprint c m = {}"
      "region ?phdrs (32 * ?N) \<inter> footprint c m = {}"
    using type True by (auto simp: elf_area_def Let_def)
  have o: "\<And>i. i < ?N \<Longrightarrow> seg_ok (?seg i)" using ok unfolding im by simp
  have di: "\<And>i j. i < ?N \<Longrightarrow> j < ?N \<Longrightarrow> i \<noteq> j \<Longrightarrow> seg_pages (?seg i) \<inter> seg_pages (?seg j) = {}" using dis unfolding im by simp
  have so: "same_outside (footprint c m) m m" by simp
  obtain m' where r: "process_map_elf_loop process ?f ?hdr ?phdrs (int 0) 0 m = (0, m')"
      "process_space L process t c m'" "footprint c m' = footprint c m" "same_outside (footprint c m) m m'"
      "directory_entry m' c = directory_entry m c" "\<forall>j. 0 \<le> j \<and> j < ?N \<longrightarrow> maps_segment m' (directory_entry m c) (?seg j)"
      "\<forall>w. (\<forall>j. 0 \<le> j \<and> j < ?N \<longrightarrow> w \<notin> seg_pages (?seg j)) \<longrightarrow> mmu_translate m' (directory_entry m c) w = mmu_translate m (directory_entry m c) w"
    using elf_loop [OF F o di refl le0 ps refl so refl] by blast
  have "process_map_elf process m = (0, m')" using r(1) by (simp add: process_map_elf_def Let_def)
  then show thesis using that [OF _ r(2-5)] r(6,7) True unfolding im by simp
next
  case False
  then have bin: "process_filetype m process = PROCESS_FILETYPE_BINARY" using type by blast
  let ?v = SIMPOS_PROGRAM_VIRTUAL_ADDRESS and ?p = "process_ptr m process" and ?n = "process_size m process"
  have im: "program_image m process = [(?v, ?p, ?n)]" using False by (simp add: program_image_def)
  have o: "seg_ok (?v, ?p, ?n)" using ok im by simp
  have "paging_align_to_lower_page ?v = ?v" "paging_align_to_lower_page ?p = ?p"
    using o by (auto simp: seg_ok_def SIMPOS_PROGRAM_VIRTUAL_ADDRESS_def intro!: lower_aligned)
  moreover have "flags_of (PAGING_IS_PRESENT OR PAGING_ACCESS_FROM_ALL OR PAGING_IS_WRITEABLE) = 7"
    using segment_flags(2) by (simp add: or.assoc)
  moreover have "task_page_directory m (process_task m process) = c" using ps by (simp add: process_space_def)
  ultimately have b: "process_map_binary process m = paging_map_to c (paging_align_to_lower_page ?v) (paging_align_to_lower_page ?p)
      (paging_align_address (?p + ?n)) 7 m"
    by (simp add: process_map_binary_def)
  obtain m' where m': "paging_map_to c (paging_align_to_lower_page ?v) (paging_align_to_lower_page ?p) (paging_align_address (?p + ?n)) 7 m = (0, m')"
      "process_space L process t c m'" "footprint c m' = footprint c m" "same_outside (footprint c m) m m'"
      "directory_entry m' c = directory_entry m c" "maps_segment m' (directory_entry m c) (?v, ?p, ?n)"
      "\<And>w. w \<notin> seg_pages (?v, ?p, ?n) \<Longrightarrow> mmu_translate m' (directory_entry m c) w = mmu_translate m (directory_entry m c) w"
    using space_segment [OF ps o, of 7] by blast
  show thesis using that [OF _ m'(2-5)] m'(1,6,7) False bin unfolding im b by simp
qed

text \<open>
  C11. \<open>process_map_memory\<close> succeeds for an ELF file or a raw binary whose segments lie at matching
  page offsets in disjoint pages that also avoid the stack: afterwards every byte of every
  segment is where its program header says, a binary at \<open>0x400000\<close>, the 16 KB below
  \<open>0x3FF000\<close> are the process's stack, every other address translates as before, and only the
  page tables of the process have been written.
\<close>

theorem process_map_memory_image:
  assumes "process_space L process t c m"
    and "process_filetype m process = PROCESS_FILETYPE_ELF \<and> elf_area m process \<inter> footprint c m = {}
      \<or> process_filetype m process = PROCESS_FILETYPE_BINARY"
    and "\<forall>s \<in> set (program_image m process). seg_ok s" and "seg_ok (stack_segment m process)"
    and "\<forall>i < length (program_image m process). \<forall>j < length (program_image m process). i \<noteq> j
      \<longrightarrow> seg_pages (program_image m process ! i) \<inter> seg_pages (program_image m process ! j) = {}"
    and "\<forall>s \<in> set (program_image m process). seg_pages s \<inter> seg_pages (stack_segment m process) = {}"
  shows "\<exists>m'. process_map_memory process m = Some (0, m') \<and> process_space L process t c m'
    \<and> directory_entry m' c = directory_entry m c
    \<and> (\<forall>s \<in> set (program_image m process). maps_segment m' (directory_entry m c) s)
    \<and> maps_segment m' (directory_entry m c) (stack_segment m process)
    \<and> (\<forall>w. w \<notin> seg_pages (stack_segment m process) \<union> (\<Union>s \<in> set (program_image m process). seg_pages s) \<longrightarrow>
         mmu_translate m' (directory_entry m c) w = mmu_translate m (directory_entry m c) w)
    \<and> same_outside (footprint c m) m m'"
proof -
  let ?d = "directory_entry m c" and ?st = "stack_segment m process"
  obtain m1 where m1: "(if process_filetype m process = PROCESS_FILETYPE_ELF then Some (process_map_elf process m)
      else if process_filetype m process = PROCESS_FILETYPE_BINARY then Some (process_map_binary process m) else None) = Some (0, m1)"
    "process_space L process t c m1" "footprint c m1 = footprint c m" "same_outside (footprint c m) m m1"
    "directory_entry m1 c = ?d" "\<forall>s \<in> set (program_image m process). maps_segment m1 ?d s"
    "\<forall>w. w \<notin> (\<Union>s \<in> set (program_image m process). seg_pages s) \<longrightarrow> mmu_translate m1 ?d w = mmu_translate m ?d w"
    by (rule image_mapped [OF assms(1,2,3,5)]) blast
  let ?v = SIMPOS_PROGRAM_VIRTUAL_STACK_ADDRESS_END and ?p = "process_stack m process" and ?n = SIMPOS_USER_PROGRAM_STACK_SIZE
  have o: "seg_ok (?v, ?p, ?n)" using assms(4) by (simp add: stack_segment_def)
  have al: "paging_align_to_lower_page ?v = ?v" "paging_align_to_lower_page ?p = ?p"
    using o by (auto simp: seg_ok_def SIMPOS_PROGRAM_VIRTUAL_STACK_ADDRESS_END_def SIMPOS_PROGRAM_VIRTUAL_STACK_ADDRESS_START_def
        SIMPOS_USER_PROGRAM_STACK_SIZE_def intro!: lower_aligned)
  obtain m2 where m2: "paging_map_to c (paging_align_to_lower_page ?v) (paging_align_to_lower_page ?p) (paging_align_address (?p + ?n)) 7 m1 = (0, m2)"
      "process_space L process t c m2" "footprint c m2 = footprint c m" "same_outside (footprint c m) m1 m2"
      "directory_entry m2 c = ?d" "maps_segment m2 ?d (?v, ?p, ?n)"
      "\<And>w. w \<notin> seg_pages (?v, ?p, ?n) \<Longrightarrow> mmu_translate m2 ?d w = mmu_translate m1 ?d w"
    using space_segment [OF m1(2) o, of 7] unfolding m1(3,5) by blast
  have "footprint c m \<inter> block_region process 3 = {}" using process_space_apart(5) [OF assms(1)] .
  then have st: "process_stack m1 process = ?p"
    unfolding process_stack_def using process_word [of 8316 process] by (intro load32_same_outside [OF m1(4)]) auto
  have fl: "flags_of (PAGING_IS_PRESENT OR PAGING_ACCESS_FROM_ALL OR PAGING_IS_WRITEABLE) = 7"
    using segment_flags(2) by (simp add: or.assoc)
  have "task_page_directory m1 (process_task m1 process) = c" using m1(2) by (simp add: process_space_def)
  then have run: "process_map_memory process m = Some (0, m2)"
    using m2(1) unfolding process_map_memory_def m1(1) by (simp add: st fl al)
  have maps: "\<forall>s \<in> set (program_image m process). maps_segment m2 ?d s"
  proof
    fix s assume s: "s \<in> set (program_image m process)"
    have p: "maps_segment m1 ?d s" "seg_ok s" "seg_pages s \<inter> seg_pages ?st = {}" using m1(6) assms(3,6) s by blast+
    show "maps_segment m2 ?d s"
      by (rule maps_segment_frame [OF p(1,2)], rule m2(7)) (use p(3) in \<open>auto simp: stack_segment_def\<close>)
  qed
  have other: "\<forall>w. w \<notin> seg_pages ?st \<union> (\<Union>s \<in> set (program_image m process). seg_pages s) \<longrightarrow> mmu_translate m2 ?d w = mmu_translate m ?d w"
    using m1(7) m2(7) by (simp add: stack_segment_def)
  show ?thesis
    by (intro exI conjI, rule run, rule m2(2), rule m2(5), rule maps, simp only: stack_segment_def m2(6), rule other)
      (rule same_outside_trans1 [OF m1(4) m2(4)])
qed

text \<open>A binary of 5000 bytes at \<open>0x1800000\<close> with its stack at \<open>0x1900000\<close>.\<close>

theorem process_map_memory_image_witness:
  "\<exists>process m m' d. process_map_memory process m = Some (0, m') \<and> mmu_translate m' d 0x401000 = Some 0x1801000
    \<and> mmu_translate m' d 0x3FEFFF = Some 0x1903FFF \<and> mmu_translate m' d 0x3FA000 = Some 0x3FA000"
proof -
  obtain L process t c m0 where d: "process_space L process t c m0" "24000 \<le> heap_avail kheap L"
      "\<And>i. 0 \<le> i \<Longrightarrow> i < 1024 \<Longrightarrow> allocation_ptr m0 process i = 0"
      "\<And>w. mmu_translate m0 (directory_entry m0 c) w = Some w" "footprint c m0 \<subseteq> data_region kheap"
    by (rule demo_space) blast
  let ?m1 = "store32 (store32 (store32 m0 (process + 8312) 0x1800000) (process + 8316) 0x1900000) (process + 8320) 5000"
  let ?m = "?m1(process + 8308 := 1)"
  have b: "process + 8308 \<in> block_region process 3" using in_region_offset [of 8308 "4096 * 3" process] by (simp add: block_region_def)
  have w: "same_outside (block_region process 3) a (store32 a (process + j) v)" if "unat j + 4 \<le> 12288" for a j v
    by (rule same_outside_mono [OF store32_frame process_word [OF that]])
  have so: "same_outside (block_region process 3) m0 ?m"
    using same_outside_trans1 [OF same_outside_trans1 [OF same_outside_trans1 [OF w [of 8312 m0 "0x1800000"] w [of 8316 _ "0x1900000"]] w [of 8320 _ 5000]]
        same_outside_upd [OF b]] by simp
  have "process_task ?m process = process_task m0 process" by (simp add: process_task_def off_simps)
  note s = space_struct [OF d(1) so this]
  have f: "process_filetype ?m process = 1" "process_ptr ?m process = 0x1800000" "process_stack ?m process = 0x1900000" "process_size ?m process = 5000"
    by (simp_all add: process_filetype_def process_ptr_def process_stack_def process_size_def off_simps)
  have bin: "process_filetype ?m process = PROCESS_FILETYPE_BINARY" "process_filetype ?m process \<noteq> PROCESS_FILETYPE_ELF"
    unfolding f by (simp_all add: PROCESS_FILETYPE_BINARY_def PROCESS_FILETYPE_ELF_def)
  have im: "program_image ?m process = [(0x400000, 0x1800000, 5000)]" "stack_segment ?m process = (0x3FB000, 0x1900000, 16384)"
    using bin(2) by (simp_all add: program_image_def stack_segment_def f SIMPOS_PROGRAM_VIRTUAL_ADDRESS_def SIMPOS_USER_PROGRAM_STACK_SIZE_def
        SIMPOS_PROGRAM_VIRTUAL_STACK_ADDRESS_END_def SIMPOS_PROGRAM_VIRTUAL_STACK_ADDRESS_START_def)
  have sp: "page_span 0x1800000 5000 = 8192" "page_span 0x1900000 16384 = 16384"
    by (simp_all add: page_span_def paging_align_address_def paging_align_to_lower_page_def PAGING_PAGE_SIZE_def)
  have pg: "seg_pages (0x400000, 0x1800000, 5000) = region 0x400000 8192" "seg_pages (0x3FB000, 0x1900000, 16384) = region 0x3FB000 16384"
    by (simp_all add: seg_pages_def sp paging_align_to_lower_page_def PAGING_PAGE_SIZE_def)
  have apart: "region (0x400000 :: u32) 8192 \<inter> region 0x3FB000 16384 = {}" by (auto simp: region_eq_range)
  have h: "\<forall>s \<in> set (program_image ?m process). seg_ok s" "seg_ok (stack_segment ?m process)"
    "\<forall>i < length (program_image ?m process). \<forall>j < length (program_image ?m process). i \<noteq> j
      \<longrightarrow> seg_pages (program_image ?m process ! i) \<inter> seg_pages (program_image ?m process ! j) = {}"
    "\<forall>s \<in> set (program_image ?m process). seg_pages s \<inter> seg_pages (stack_segment ?m process) = {}"
    unfolding im by (simp_all add: seg_ok_def pg apart)
  obtain m' where m': "process_map_memory process ?m = Some (0, m')"
      "\<forall>s \<in> set (program_image ?m process). maps_segment m' (directory_entry ?m c) s" "maps_segment m' (directory_entry ?m c) (stack_segment ?m process)"
      "\<forall>w. w \<notin> seg_pages (stack_segment ?m process) \<union> (\<Union>s \<in> set (program_image ?m process). seg_pages s) \<longrightarrow>
         mmu_translate m' (directory_entry ?m c) w = mmu_translate ?m (directory_entry ?m c) w"
    using process_map_memory_image [OF s(1) disjI2 [OF bin(1)] h] by blast
  have "\<forall>j < 5000. mmu_translate m' (directory_entry ?m c) (0x400000 + of_nat j) = Some (0x1800000 + of_nat j)"
    using m'(2) unfolding im maps_segment_def by simp
  from spec [OF this, of 4096] have "mmu_translate m' (directory_entry ?m c) 0x401000 = Some 0x1801000" by simp
  moreover have "\<forall>j < 16384. mmu_translate m' (directory_entry ?m c) (0x3FB000 + of_nat j) = Some (0x1900000 + of_nat j)"
    using m'(3) unfolding im maps_segment_def by simp
  from spec [OF this, of 16383] have "mmu_translate m' (directory_entry ?m c) 0x3FEFFF = Some 0x1903FFF" by simp
  moreover have "(0x3FA000 :: u32) \<notin> region 0x3FB000 16384" "(0x3FA000 :: u32) \<notin> region 0x400000 8192"
    by (simp_all add: region_eq_range)
  then have "mmu_translate m' (directory_entry ?m c) 0x3FA000 = Some 0x3FA000"
    using m'(4) s(3,4) d(4) unfolding im by (simp add: pg)
  ultimately show ?thesis using m'(1) by (intro exI conjI) simp_all
qed

end
