(* ===== verification/TaskCopy.thy ===== *)
theory TaskCopy
  imports ProcessSpec
begin

text \<open>
  Reading a string from a task: while the task's page directory is loaded the kernel copies
  through a page it maps into the task's address space for a moment.
\<close>

section \<open>One page of an address space is changed\<close>

lemma put_mmu:
  assumes wf: "chunk_wf c m" and v: "aligned 4096 v" and m': "m' = chunk_put c v e m"
    and present: "\<And>w. pde_present m (directory_entry m c) w"
  shows "chunk_wf c m'" "directory_entry m' c = directory_entry m c" "footprint c m' = footprint c m"
    and "same_outside (footprint c m) m m'" and "pde_present m' (directory_entry m c) w"
    and "chunk_get c m' v = e" and "aligned 4096 w \<Longrightarrow> w \<noteq> v \<Longrightarrow> chunk_get c m' w = chunk_get c m w"
proof -
  let ?d = "directory_entry m c"
  note p = chunk.put_wf [OF wf v, of e, folded m'] and so = chunk.put_frame [OF wf v, of e, folded m']
  show "chunk_wf c m'" using p by blast
  show d: "directory_entry m' c = ?d" unfolding m' by (rule chunk_put_facts(2) [OF wf v])
  show "footprint c m' = footprint c m" using p d by (simp add: footprint_def)
  show "same_outside (footprint c m) m m'" by (rule same_outside_mono [OF so]) (auto simp: footprint_def)
  have pw: "page_wf m ?d" using wf by (simp add: chunk_wf_def)
  then have al: "aligned 4096 ?d" by (simp add: page_wf_def)
  have "load32 m' (?d + of_nat (4 * dir_index w)) = load32 m (?d + of_nat (4 * dir_index w))"
    using so dir_table_disjoint [OF pw] entry_region [OF al index_less(1)]
    by (intro load32_same_outside) (auto simp: chunk_tables_def)
  then show "pde_present m' ?d w" using present by (simp add: pde_present_def)
  show "chunk_get c m' v = e" unfolding m' by (rule chunk.get_put [OF wf v])
  show "chunk_get c m' w = chunk_get c m w" if "aligned 4096 w" "w \<noteq> v"
    unfolding m' by (rule chunk.get_other [OF wf v that])
qed

lemma translate_get:
  assumes "chunk_wf c m" and "\<And>w. pde_present m (directory_entry m c) w"
  shows "mmu_translate m (directory_entry m c) w =
    (let e = chunk_get c m (w AND 0xFFFFF000) in if bit e 0 then Some ((e AND 0xFFFFF000) + take_bit 12 w) else None)"
proof -
  have "aligned 4096 (directory_entry m c)" using assms(1) by (simp add: chunk_wf_def page_wf_def)
  then show ?thesis using assms(2) by (simp add: mmu_eq chunk_get_def Let_def)
qed

lemma space_put:
  assumes ps: "process_space L process t c m" and v: "aligned 4096 v" and m': "m' = chunk_put c v e m"
  shows "process_space L process t c m'"
proof -
  note d = ps [unfolded process_space_def] and a = process_space_apart [OF ps]
  have cw: "chunk_wf c m" and pr: "\<And>w. pde_present m (directory_entry m c) w" and live: "heap_live kheap m L"
    using d by blast+
  note p = put_mmu [OF cw v m' pr]
  have "heap_live kheap m' L"
    by (rule kh.rel_frame [OF live p(4)]) (use a(4) in \<open>auto simp: heap_scratch_def\<close>)
  moreover have "process_task m' process = t" "task_page_directory m' t = c"
    using process_fields(1) [OF p(4) a(5)] process_directory [OF p(4) a(6)] d by simp_all
  ultimately show ?thesis using d p(1-3,5) by (simp add: process_space_def)
qed

section \<open>A string of the user\<close>

text \<open>
  The string \<open>s\<close> at the virtual address \<open>v\<close>, as the processor reads it with the directory \<open>d\<close>,
  in physical bytes outside \<open>A\<close> and at virtual addresses outside \<open>A\<close>.
\<close>

fun user_str :: "u32 set \<Rightarrow> mem \<Rightarrow> u32 \<Rightarrow> u32 \<Rightarrow> u8 list \<Rightarrow> bool" where
  "user_str A m d v [] \<longleftrightarrow> v \<notin> A \<and> (\<exists>p. p \<notin> A \<and> mmu_translate m d v = Some p \<and> m p = 0)"
| "user_str A m d v (b # s) \<longleftrightarrow> v \<notin> A \<and> (\<exists>p. p \<notin> A \<and> mmu_translate m d v = Some p \<and> m p = b)
     \<and> b \<noteq> 0 \<and> user_str A m d (v + 1) s"

lemma user_str_frame:
  assumes "user_str A m d v s" and "B \<subseteq> A"
    and "\<And>p. p \<notin> A \<Longrightarrow> m' p = m p" and "\<And>w. w \<notin> A \<Longrightarrow> mmu_translate m' d w = mmu_translate m d w"
  shows "user_str B m' d v s"
  using assms(1)
proof (induction s arbitrary: v)
  case Nil
  then show ?case using assms(2-4) by fastforce
next
  case (Cons b s)
  then show ?case using assms(2-4) by fastforce
qed

text \<open>The copy through the page walk.\<close>

definition steady :: "u32 set \<Rightarrow> u32 \<Rightarrow> mem \<Rightarrow> bool" where
  "steady A d m \<longleftrightarrow> (\<forall>m' w. same_outside A m m' \<longrightarrow> mmu_translate m' d w = mmu_translate m d w)"

lemma steady_same: "steady A d m \<Longrightarrow> same_outside A m m' \<Longrightarrow> steady A d m' \<and> mmu_translate m' d w = mmu_translate m d w"
  unfolding steady_def using same_outside_trans1 by metis

lemma vstrncpy_loop_ok:
  assumes "user_str (region dest n) m d (src + of_nat i) s" and "i < n" "n \<le> 4096"
    and "steady (region dest n) d m" and "\<forall>j < n. mmu_translate m d (dest + of_nat j) = Some (dest + of_nat j)"
  shows "\<exists>m'. vstrncpy_loop m d dest src (int n) (int i) = Some m'
    \<and> cstr m' (dest + of_nat i) (take (n - 1 - i) s) \<and> same_outside (region (dest + of_nat i) (n - i)) m m'"
  using assms
proof (induction s arbitrary: i m)
  case Nil
  let ?a = "dest + of_nat i"
  have r: "?a \<in> region ?a (n - i)" using Nil.prems(2) by (intro in_region_self) simp
  have t: "mmu_translate m d ?a = Some ?a" using Nil.prems by blast
  have "vstrncpy_loop m d dest src (int n) (int i) = Some (m(?a := 0))"
    using Nil.prems(1) t by (subst vstrncpy_loop.simps) (auto simp: vload8_def vstore8_def u32_of_int_of_nat)
  then show ?case using same_outside_upd [OF r, of m 0] by simp
next
  case (Cons b s)
  let ?a = "dest + of_nat i"
  have r: "?a \<in> region ?a (n - i)" using Cons.prems(2) by (intro in_region_self) simp
  have t: "mmu_translate m d ?a = Some ?a" using Cons.prems by blast
  show ?case
  proof (cases "i + 1 < n")
    case False
    then have "vstrncpy_loop m d dest src (int n) (int i) = Some (m(?a := 0))"
      using t by (subst vstrncpy_loop.simps) (auto simp: vstore8_def u32_of_int_of_nat)
    then show ?thesis using same_outside_upd [OF r, of m 0] False by simp
  next
    case True
    let ?m = "m(?a := b)"
    obtain p where p: "mmu_translate m d (src + of_nat i) = Some p" "m p = b" "b \<noteq> 0"
      using Cons.prems(1) by auto
    have rd: "?a \<in> region dest n" using Cons.prems(2,3) by (intro in_region_offset) simp_all
    then have so: "same_outside (region dest n) m ?m" by (rule same_outside_upd)
    note st = steady_same [OF Cons.prems(4) so]
    have u: "user_str (region dest n) ?m d (src + of_nat (Suc i)) s"
    proof (rule user_str_frame [where m = m])
      show "user_str (region dest n) m d (src + of_nat (Suc i)) s" using Cons.prems(1) by (simp add: ac_simps)
      show "?m p = m p" if "p \<notin> region dest n" for p using that rd by auto
    qed (use st in blast)+
    have "Suc i < n" using True by simp
    moreover have "\<forall>j < n. mmu_translate ?m d (dest + of_nat j) = Some (dest + of_nat j)"
      using st Cons.prems(5) by simp
    ultimately obtain m' where m': "vstrncpy_loop ?m d dest src (int n) (int (Suc i)) = Some m'"
        "cstr m' (dest + of_nat (Suc i)) (take (n - 1 - Suc i) s)"
        "same_outside (region (dest + of_nat (Suc i)) (n - Suc i)) ?m m'"
      using Cons.IH [OF u _ Cons.prems(3)] st by blast
    have e: "dest + of_nat (Suc i) = ?a + 1" by simp
    have step: "vstrncpy_loop m d dest src (int n) (int i) = Some m'"
      using True p t m'(1) by (subst vstrncpy_loop.simps) (simp add: vload8_def vstore8_def u32_of_int_of_nat add.commute)
    have "?a \<notin> region (?a + 1) (n - Suc i)"
      using region_head [of "n - i" ?a] Cons.prems(3) by simp
    then have keep: "m' ?a = b" using same_outsideD [OF m'(3) [unfolded e]] by simp
    have "n - 1 - i = Suc (n - 1 - Suc i)" using True by simp
    then have c: "cstr m' ?a (take (n - 1 - i) (b # s))" using m'(2) [unfolded e] keep p(3) by simp
    have "region (?a + 1) (n - Suc i) \<subseteq> region ?a (n - i)"
      using region_Suc [of _ ?a "n - Suc i"] True by (auto simp: Suc_diff_Suc)
    then have "same_outside (region ?a (n - i)) ?m m'" using m'(3) unfolding e by (rule same_outside_mono [rotated])
    then show ?thesis using step c same_outside_trans1 [OF same_outside_upd [OF r, of m b]] by blast
  qed
qed

lemma vstrncpy_ok:
  assumes "user_str (region dest n) m d src s" and "0 < n" "n \<le> 4096"
    and "steady (region dest n) d m" and "\<forall>j < n. mmu_translate m d (dest + of_nat j) = Some (dest + of_nat j)"
  obtains m' where "vstrncpy m d dest src (int n) = Some m'" "cstr m' dest (take (n - 1) s)"
    "same_outside (region dest n) m m'"
  using vstrncpy_loop_ok [of dest n m d src 0 s] assms by (auto simp: vstrncpy_def)

section \<open>Copying\<close>

lemma space_other:
  assumes ps: "process_space L process t c m" and so: "same_outside A m m'"
    and dis: "A \<inter> (table_region kheap \<union> footprint c m \<union> block_region process 3 \<union> region t 4096) = {}"
  shows "process_space L process t c m'" "footprint c m' = footprint c m" "directory_entry m' c = directory_entry m c"
    and "mmu_translate m' (directory_entry m c) w = mmu_translate m (directory_entry m c) w"
    and "aligned 4096 v \<Longrightarrow> chunk_get c m' v = chunk_get c m v"
proof -
  note d = ps [unfolded process_space_def]
  have fd: "footprint c m \<inter> A = {}" and cw: "chunk_wf c m" and live: "heap_live kheap m L" using dis d by blast+
  note f = footprint_frame [OF so fd cw]
  have "heap_live kheap m' L" by (rule kh.rel_frame [OF live so]) (use dis in blast)
  moreover have "process_task m' process = t" "task_page_directory m' t = c"
    using process_fields(1) [OF so] process_directory [OF so] dis d by (simp_all add: Int_Un_distrib)
  ultimately show "process_space L process t c m'" using d f by (simp add: process_space_def)
  show "footprint c m' = footprint c m" "directory_entry m' c = directory_entry m c"
    "mmu_translate m' (directory_entry m c) w = mmu_translate m (directory_entry m c) w" by (rule f)+
  show "chunk_get c m' v = chunk_get c m v" if "aligned 4096 v"
    using f(7) [OF that] by (simp add: chunk_get_def f(1))
qed

lemma space_steady:
  assumes "process_space L process t c m"
    and "A \<inter> (table_region kheap \<union> footprint c m \<union> block_region process 3 \<union> region t 4096) = {}"
  shows "steady A (directory_entry m c) m"
  unfolding steady_def using space_other(4) [OF assms(1) _ assms(2)] by blast

lemma copy_flags: "uint (PAGING_IS_WRITEABLE OR PAGING_IS_PRESENT OR PAGING_ACCESS_FROM_ALL) = 7"
  by (simp add: PAGING_IS_WRITEABLE_def PAGING_IS_PRESENT_def PAGING_ACCESS_FROM_ALL_def)

text \<open>A page that maps itself.\<close>

lemma self_page:
  assumes "aligned 4096 v" and "chunk_wf c m" and "\<And>w. pde_present m (directory_entry m c) w"
    and "chunk_get c m v = v OR 7" and "j < 4096"
  shows "mmu_translate m (directory_entry m c) (v + of_nat j) = Some (v + of_nat j)"
proof -
  have z: "j div 4096 = 0" "j mod 4096 = j" using assms(5) by simp_all
  have a: "(v + of_nat j) AND 0xFFFFF000 = v" "take_bit 12 (v + of_nat j) = of_nat j"
    using page_of_offset [OF assms(1), of j] unfolding z by simp_all
  have "(v OR 7) AND 0xFFFFF000 = v" by (rule frame_of_or [OF assms(1)]) (simp add: drop_bit_eq_div)
  moreover have "bit (v OR 7) 0" by (simp add: bit_or_iff)
  ultimately show ?thesis using translate_get [OF assms(2,3), of "v + of_nat j"] by (simp add: a assms(4))
qed

lemma page_member: "w AND 0xFFFFF000 = v \<Longrightarrow> w \<in> region v 4096"
proof -
  assume v: "w AND 0xFFFFF000 = v"
  have "w - (w AND 0xFFFFF000) = take_bit 12 w"
    by (simp add: lower_page [symmetric] paging_align_to_lower_page_def word_mod_page)
  then have "w = v + of_nat (unat (take_bit 12 w))" unfolding v by (simp add: algebra_simps)
  moreover have "unat (take_bit 12 w) < 4096" by (simp add: take_bit_eq_mod unat_mod)
  ultimately show "w \<in> region v 4096" using in_region_offset [of "unat (take_bit 12 w)" 4096 v] by simp
qed

text \<open>The temporary page of the task, mapped to itself.\<close>

lemma copy_page_mapped:
  assumes ps: "process_space L process t c m" and av: "0 < heap_avail kheap L" and n: "0 < n" "n < 4096"
  obtains tmp m1 m2 where "kzalloc kheap (u32_of_int (int n)) m = (tmp, m1)" "tmp \<noteq> 0" "aligned 4096 tmp" "L tmp = None"
    "region tmp 4096 \<subseteq> heap_scratch L" "directory_entry m1 c = directory_entry m c" "task_page_directory m1 t = c"
    "m2 = chunk_put c tmp (tmp OR 7) m1" "process_space (L(tmp \<mapsto> 1)) process t c m2"
    "footprint c m2 = footprint c m" "directory_entry m2 c = directory_entry m c"
    "same_outside (heap_scratch L \<union> footprint c m) m m2"
    "\<And>j. j < 4096 \<Longrightarrow> mmu_translate m2 (directory_entry m c) (tmp + of_nat j) = Some (tmp + of_nat j)"
    "\<And>w. w \<notin> region tmp 4096 \<Longrightarrow> mmu_translate m2 (directory_entry m c) w = mmu_translate m (directory_entry m c) w"
    "\<And>w. aligned 4096 w \<Longrightarrow> w \<noteq> tmp \<Longrightarrow> chunk_get c m2 w = chunk_get c m1 w"
    "\<And>w. mmu_translate m (directory_entry m c) w = (let e = chunk_get c m1 (w AND 0xFFFFF000) in
      if bit e 0 then Some ((e AND 0xFFFFF000) + take_bit 12 w) else None)"
    "region tmp n \<inter> (table_region kheap \<union> footprint c m \<union> block_region process 3 \<union> region t 4096) = {}"
proof -
  note d = ps [unfolded process_space_def] and a = process_space_apart [OF ps]
  have live: "heap_live kheap m L" using d by blast
  have un: "unat (u32_of_int (int n)) = n" using n by (simp add: u32_of_int_of_nat)
  obtain tmp m1 where k: "kzalloc kheap (u32_of_int (int n)) m = (tmp, m1)" "tmp \<noteq> 0" "aligned 4096 tmp" "L tmp = None"
      "heap_live kheap m1 (L(tmp \<mapsto> 1))" "region tmp 4096 \<subseteq> heap_scratch L" "same_outside (heap_scratch L) m m1"
    using kzalloc_page [OF live, of "u32_of_int (int n)" thesis] av n unfolding un by auto
  let ?L = "L(tmp \<mapsto> 1)" and ?d = "directory_entry m c"
  note s1 = space_scratch [OF ps k(7,5)]
  have sub: "\<And>p j. L p = Some j \<Longrightarrow> ?L p = Some j" using k(4) by auto
  have p1: "process_space ?L process t c m1" and f1: "footprint c m1 = footprint c m"
    and d1: "directory_entry m1 c = ?d" using s1(1-3) [OF sub] by auto
  have tr1: "mmu_translate m1 ?d w = mmu_translate m ?d w" for w using s1(4) [OF sub] by blast
  note q1 = p1 [unfolded process_space_def]
  have cw1: "chunk_wf c m1" and pr1: "\<And>w. pde_present m1 (directory_entry m1 c) w" using q1 by blast+
  define m2 where "m2 = chunk_put c tmp (tmp OR 7) m1"
  note p2 = put_mmu [OF cw1 k(3) m2_def pr1] and s2 = space_put [OF p1 k(3) m2_def]
  have wf2: "chunk_wf c m2" and f2: "footprint c m2 = footprint c m" and d2: "directory_entry m2 c = ?d"
    and so2: "same_outside (footprint c m) m1 m2" and pr2: "\<And>w. pde_present m2 (directory_entry m2 c) w"
    and g2: "chunk_get c m2 tmp = tmp OR 7" "\<And>w. aligned 4096 w \<Longrightarrow> w \<noteq> tmp \<Longrightarrow> chunk_get c m2 w = chunk_get c m1 w"
    using p2 by (simp_all add: f1 d1)
  have tmp2: "mmu_translate m2 ?d (tmp + of_nat j) = Some (tmp + of_nat j)" if "j < 4096" for j
    using self_page [OF k(3) wf2 pr2 g2(1) that] unfolding d2 .
  have tr2: "mmu_translate m2 ?d w = mmu_translate m1 ?d w" if "w \<notin> region tmp 4096" for w
  proof -
    have "w AND 0xFFFFF000 \<noteq> tmp" using page_member that by blast
    then show ?thesis
      using translate_get [OF wf2 pr2, of w] translate_get [OF cw1 pr1, of w] g2(2) [OF frame_aligned] by (simp add: d1 d2)
  qed
  have tn: "region tmp n \<subseteq> region tmp 4096" using n(2) by (intro region_mono) simp
  have off: "region tmp n \<inter> (table_region kheap \<union> footprint c m \<union> block_region process 3 \<union> region t 4096) = {}"
  proof -
    have "?L tmp = Some 1" by simp
    then have "region tmp 4096 \<inter> table_region kheap = {}"
      using kh.live_ok [OF k(5), of tmp 1] by (simp add: block_region_1)
    then show ?thesis using tn k(6) a(2-4) by blast
  qed
  have so: "same_outside (heap_scratch L \<union> footprint c m) m m2"
    unfolding same_outside_def using same_outsideD [OF so2] same_outsideD [OF k(7)] by simp
  have td: "task_page_directory m1 t = c" using q1 by blast
  have tr: "mmu_translate m ?d w = (let e = chunk_get c m1 (w AND 0xFFFFF000) in
      if bit e 0 then Some ((e AND 0xFFFFF000) + take_bit 12 w) else None)" for w
    using translate_get [OF cw1 pr1, of w] tr1 [of w] by (simp only: d1)
  show thesis
    by (rule that [OF k(1-4,6) d1 td m2_def s2 f2 d2 so tmp2 tr2 [unfolded tr1] g2(2) tr off])
qed

text \<open>The string is copied into it, and its old entry is put back.\<close>

lemma copy_page_used:
  assumes s2: "process_space L process t c m2" and v: "aligned 4096 tmp" and n: "0 < n" "n < 4096"
    and off: "region tmp n \<inter> (table_region kheap \<union> footprint c m2 \<union> block_region process 3 \<union> region t 4096) = {}"
    and self: "\<And>j. j < 4096 \<Longrightarrow> mmu_translate m2 (directory_entry m2 c) (tmp + of_nat j) = Some (tmp + of_nat j)"
    and str: "user_str (region tmp n) m2 (directory_entry m2 c) virtual s"
  obtains m3 m4 where "vstrncpy m2 (directory_entry m2 c) tmp virtual (int n) = Some m3" "same_outside (region tmp n) m2 m3"
    "directory_entry m3 c = directory_entry m2 c" "m4 = chunk_put c tmp old m3" "process_space L process t c m4"
    "directory_entry m4 c = directory_entry m2 c" "footprint c m4 = footprint c m2" "cstr m4 tmp (take (n - 1) s)"
    "same_outside (footprint c m2) m3 m4"
    "\<And>w. mmu_translate m4 (directory_entry m2 c) w = (let e = if w AND 0xFFFFF000 = tmp then old
       else chunk_get c m2 (w AND 0xFFFFF000) in if bit e 0 then Some ((e AND 0xFFFFF000) + take_bit 12 w) else None)"
proof -
  let ?d = "directory_entry m2 c"
  have st: "steady (region tmp n) ?d m2" by (rule space_steady [OF s2 off])
  obtain m3 where m3: "vstrncpy m2 ?d tmp virtual (int n) = Some m3" "cstr m3 tmp (take (n - 1) s)"
      "same_outside (region tmp n) m2 m3"
    by (rule vstrncpy_ok [OF str n(1) _ st]) (use n(2) self in auto)
  note s3 = space_other [OF s2 m3(3) off]
  note q3 = s3(1) [unfolded process_space_def]
  have cw3: "chunk_wf c m3" and pr3: "\<And>w. pde_present m3 (directory_entry m3 c) w" using q3 by blast+
  define m4 where "m4 = chunk_put c tmp old m3"
  note p4 = put_mmu [OF cw3 v m4_def pr3] and s4 = space_put [OF s3(1) v m4_def]
  have d4: "directory_entry m4 c = ?d" and f4: "footprint c m4 = footprint c m2" using p4(2,3) s3(2,3) by simp_all
  have pr4: "pde_present m4 (directory_entry m4 c) w" for w using p4(2,5) by simp
  have tr: "mmu_translate m4 ?d w = (let e = if w AND 0xFFFFF000 = tmp then old
       else chunk_get c m2 (w AND 0xFFFFF000) in if bit e 0 then Some ((e AND 0xFFFFF000) + take_bit 12 w) else None)" for w
    using translate_get [OF p4(1) pr4, of w] p4(6) p4(7) [OF frame_aligned] s3(5) [OF frame_aligned] by (simp add: d4)
  have c4: "cstr m4 tmp (take (n - 1) s)"
  proof (rule cstr_frame [OF m3(2) p4(4)])
    have "region tmp (Suc (length (take (n - 1) s))) \<subseteq> region tmp n" using n by (intro region_mono) simp
    then show "region tmp (Suc (length (take (n - 1) s))) \<inter> footprint c m3 = {}" using off s3(2) by blast
    show "length (take (n - 1) s) < 2 ^ 32 - 1" using n by simp
  qed
  have so4: "same_outside (footprint c m2) m3 m4" using p4(4) s3(2) by simp
  show thesis by (rule that [OF m3(1,3) s3(3) m4_def s4 d4 f4 c4 so4 tr])
qed

lemma copy_out:
  assumes "cstr m tmp (take (n - 1) s)" and "0 < n" "n < 4096" and "region phys n \<inter> region tmp n = {}"
  shows "cstr (strncpy m phys tmp (int n)) phys (take (n - 1) s)"
proof -
  have "region tmp (Suc (length (take (n - 1) s))) \<subseteq> region tmp n" using assms(2) by (intro region_mono) simp
  then have "cstr (strncpy m phys tmp (int n)) phys (take (nat (int n - 1)) (take (n - 1) s))"
    using assms by (intro strncpy_aux) auto
  then show ?thesis using assms(2) by (simp add: nat_diff_distrib')
qed

text \<open>The calls of \<open>copy_string_from_task\<close> in their order.\<close>

lemma copy_string_steps:
  assumes "0 < n" "n < 4096" and "kzalloc kheap (u32_of_int (int n)) m = (tmp, m1)" "tmp \<noteq> 0" "aligned 4096 tmp"
    and "directory_entry m1 c = d" "task_page_directory m1 t = c" "m2 = chunk_put c tmp (tmp OR 7) m1"
    and "directory_entry m2 c = d" "task_page_directory m2 t = c"
    and "vstrncpy m2 d tmp virtual (int n) = Some m3"
    and "directory_entry m3 c = d" "m4 = chunk_put c tmp (paging_get m1 d tmp) m3"
  shows "copy_string_from_task kheap t virtual phys (int n) K m
    = Some (0, kernel_page m3 (paging_switch m2 c K), strncpy m4 phys tmp (int n))"
proof -
  have "u32_of_int 7 = 7" by simp
  then have map: "paging_map c tmp tmp 7 m1 = (0, m2)"
    using assms(5) by (simp add: paging_map_def aligned_mod_page chunk_put_def paging_set_eq assms(8))
  have set: "paging_set d tmp (paging_get m1 d tmp) m3 = (0, m4)"
    using assms(5) by (simp add: assms(13) chunk_put_def paging_set_eq assms(12))
  have cr: "cr3 (paging_switch m2 c K) = d" by (simp add: paging_switch_def paging_load_directory_def assms(9))
  have "\<not> int n \<ge> uint PAGING_PAGE_SIZE" using assms(2) by (simp add: PAGING_PAGE_SIZE_def)
  then show ?thesis
    unfolding copy_string_from_task_def
    using assms(3,4,11) by (simp add: assms(6,7,10) map copy_flags cr set Let_def)
qed

text \<open>The memory of the kernel around a process: free memory, page tables, structures.\<close>

definition owned :: "(u32 \<rightharpoonup> nat) \<Rightarrow> u32 \<Rightarrow> u32 \<Rightarrow> u32 \<Rightarrow> mem \<Rightarrow> u32 set" where
  "owned L process t c m = heap_scratch L \<union> footprint c m \<union> block_region process 3 \<union> region t 4096"

lemma copy_string_ok:
  assumes ps: "process_space L process t c m" and av: "0 < heap_avail kheap L" and n: "0 < n" "n < 4096"
    and str: "user_str (heap_scratch L \<union> footprint c m) m (directory_entry m c) virtual s"
    and phys: "region phys n \<inter> owned L process t c m = {}"
    and kernel: "region (kernel_chunk K) 4 \<inter> (heap_scratch L \<union> footprint c m \<union> region phys n) = {}"
  shows "\<exists>K' m' tmp. copy_string_from_task kheap t virtual phys (int n) K m = Some (0, K', m')
    \<and> cstr m' phys (take (n - 1) s)
    \<and> (\<forall>w. mmu_translate m' (directory_entry m' c) w = mmu_translate m (directory_entry m c) w)
    \<and> K' = kernel_page m K
    \<and> same_outside (heap_scratch L \<union> footprint c m \<union> region phys n) m m'
    \<and> directory_entry m' c = directory_entry m c \<and> footprint c m' = footprint c m
    \<and> L tmp = None \<and> process_space (L(tmp \<mapsto> 1)) process t c m'"
proof -
  let ?d = "directory_entry m c" and ?A = "heap_scratch L \<union> footprint c m"
  obtain tmp m1 m2 where p: "kzalloc kheap (u32_of_int (int n)) m = (tmp, m1)" "tmp \<noteq> 0" "aligned 4096 tmp" "L tmp = None"
    "region tmp 4096 \<subseteq> heap_scratch L" "directory_entry m1 c = ?d" "task_page_directory m1 t = c"
    "m2 = chunk_put c tmp (tmp OR 7) m1" "process_space (L(tmp \<mapsto> 1)) process t c m2"
    "footprint c m2 = footprint c m" "directory_entry m2 c = ?d" "same_outside ?A m m2"
    and self: "\<And>j. j < 4096 \<Longrightarrow> mmu_translate m2 ?d (tmp + of_nat j) = Some (tmp + of_nat j)"
    and tr: "\<And>w. w \<notin> region tmp 4096 \<Longrightarrow> mmu_translate m2 ?d w = mmu_translate m ?d w"
    and g: "\<And>w. aligned 4096 w \<Longrightarrow> w \<noteq> tmp \<Longrightarrow> chunk_get c m2 w = chunk_get c m1 w"
    and g1: "\<And>w. mmu_translate m ?d w = (let e = chunk_get c m1 (w AND 0xFFFFF000) in
      if bit e 0 then Some ((e AND 0xFFFFF000) + take_bit 12 w) else None)"
    and off: "region tmp n \<inter> (table_region kheap \<union> footprint c m \<union> block_region process 3 \<union> region t 4096) = {}"
    by (rule copy_page_mapped [OF ps av n]) blast
  have tn: "region tmp n \<subseteq> region tmp 4096" using n(2) by (intro region_mono) simp
  have str2: "user_str (region tmp n) m2 ?d virtual s"
    by (rule user_str_frame [OF str]) (use tn p(5) same_outsideD [OF p(12)] tr in auto)
  let ?old = "paging_get m1 ?d tmp"
  obtain m3 m4 where u: "vstrncpy m2 ?d tmp virtual (int n) = Some m3" "same_outside (region tmp n) m2 m3"
    "directory_entry m3 c = ?d" "m4 = chunk_put c tmp ?old m3" "process_space (L(tmp \<mapsto> 1)) process t c m4"
    "directory_entry m4 c = ?d" "footprint c m4 = footprint c m" "cstr m4 tmp (take (n - 1) s)"
    "same_outside (footprint c m) m3 m4"
    and tr4: "\<And>w. mmu_translate m4 ?d w = (let e = if w AND 0xFFFFF000 = tmp then ?old
       else chunk_get c m2 (w AND 0xFFFFF000) in if bit e 0 then Some ((e AND 0xFFFFF000) + take_bit 12 w) else None)"
    using copy_page_used [OF p(9,3) n, where virtual = virtual and s = s and old = ?old and thesis = thesis]
      off self str2 unfolding p(10,11) by blast
  have same4: "mmu_translate m4 ?d w = mmu_translate m ?d w" for w
    using g [OF frame_aligned, of w] unfolding tr4 g1 by (auto simp: chunk_get_def p(6))
  define m5 where "m5 = strncpy m4 phys tmp (int n)"
  have so5: "same_outside (region phys n) m4 m5" using strncpy_frame [of "int n" phys m4 tmp] n by (simp add: m5_def)
  have offp: "region phys n \<inter> (table_region kheap \<union> footprint c m4 \<union> block_region process 3 \<union> region t 4096) = {}"
    using phys u(7) by (auto simp: heap_scratch_def owned_def)
  note s5 = space_other [OF u(5) so5 offp]
  have c5: "cstr m5 phys (take (n - 1) s)"
    unfolding m5_def by (rule copy_out [OF u(8) n]) (use phys tn p(5) in \<open>auto simp: owned_def\<close>)
  have so3: "same_outside ?A m m3"
    using p(5,12) u(2) tn unfolding same_outside_def by (metis UnI1 subsetD)
  have so: "same_outside (?A \<union> region phys n) m m5"
    using so3 u(9) so5 unfolding same_outside_def by (metis UnCI)
  have cr: "directory_entry m3 (kernel_chunk K) = directory_entry m (kernel_chunk K)"
    unfolding directory_entry_def by (rule load32_same_outside [OF so3]) (use kernel in blast)
  let ?K = "kernel_page m3 (paging_switch m2 c K)"
  have K: "?K = kernel_page m K"
    by (simp_all add: kernel_page_def kernel_registers_def paging_switch_def paging_load_directory_def Let_def cr)
  have td2: "task_page_directory m2 t = c" using p(9) by (simp add: process_space_def)
  have "copy_string_from_task kheap t virtual phys (int n) K m = Some (0, ?K, m5)"
    unfolding m5_def using n p(1-3,6-8,11) td2 u(1,3,4) by (rule copy_string_steps)
  then show ?thesis using c5 same4 s5 K so p(4) u(6) by (auto simp: u(6,7))
qed

text \<open>
  C14. A string of a task is copied into the kernel as the task sees it, cut to the size of the
  buffer and terminated; afterwards every address of the task translates as before and the
  kernel's directory is loaded. Only free memory of the heap, the page tables and the
  buffer are written. The temporary page, however, stays allocated.
\<close>

theorem copy_string_from_task_copies:
  assumes ps: "process_space L process t c m" and av: "0 < heap_avail kheap L" and n: "0 < n" "n < 4096"
    and str: "user_str (heap_scratch L \<union> footprint c m) m (directory_entry m c) virtual s"
    and phys: "region phys n \<inter> owned L process t c m = {}"
    and kernel: "region (kernel_chunk K) 4 \<inter> (heap_scratch L \<union> footprint c m \<union> region phys n) = {}"
  shows "\<exists>K' m' tmp. copy_string_from_task kheap t virtual phys (int n) K m = Some (0, K', m')
    \<and> cstr m' phys (take (n - 1) s)
    \<and> (\<forall>w. mmu_translate m' (directory_entry m' c) w = mmu_translate m (directory_entry m c) w)
    \<and> K' = kernel_page m K
    \<and> same_outside (heap_scratch L \<union> footprint c m \<union> region phys n) m m'
    \<and> directory_entry m' c = directory_entry m c \<and> footprint c m' = footprint c m
    \<and> L tmp = None \<and> process_space (L(tmp \<mapsto> 1)) process t c m'"
  using assms by (rule copy_string_ok)

text \<open>The string \<^verbatim>\<open>"Hi"\<close> of a user program in low memory.\<close>

theorem copy_string_from_task_copies_witness:
  "\<exists>t m K' m'. copy_string_from_task kheap t 0x500000 0x600000 16 idle m = Some (0, K', m') \<and> cstr m' 0x600000 [72, 105]"
proof -
  obtain L process t c m where d: "process_space L process t c m" "24000 \<le> heap_avail kheap L"
      "\<And>w. mmu_translate m (directory_entry m c) w = Some w" "footprint c m \<subseteq> data_region kheap"
    by (rule demo_space) blast
  let ?m = "m(0x500000 := 72, 0x500001 := 105, 0x500002 := 0)"
  have live: "heap_live kheap m L" "L process = Some 3" "L t = Some 1" using d(1) by (simp_all add: process_space_def)
  have sub: "footprint c m \<union> block_region process 3 \<union> region t 4096 \<subseteq> data_region kheap"
    using live_data [OF live(1,2)] live_data [OF live(1,3)] d(4) by (simp add: block_region_1)
  have low: "A \<inter> (table_region kheap \<union> footprint c m \<union> block_region process 3 \<union> region t 4096) = {}"
    if "off_heap A" for A using that sub unfolding off_heap_def by blast
  have "off_heap (region 0x500000 3)" by (rule off_heapI) simp_all
  moreover have "same_outside (region 0x500000 3) m ?m"
    using in_region_offset [of 0 3 "0x500000"] in_region_offset [of 1 3 "0x500000"] in_region_offset [of 2 3 "0x500000"]
    by (auto simp: same_outside_def)
  ultimately have s: "process_space L process t c ?m" "footprint c ?m = footprint c m"
      "directory_entry ?m c = directory_entry m c" "\<And>w. mmu_translate ?m (directory_entry m c) w = mmu_translate m (directory_entry m c) w"
    using space_other [OF d(1) _ low] by blast+
  have out: "a \<notin> heap_scratch L \<union> footprint c m" if "off_heap {a}" for a
    using that off_heap_scratch [of "{a}" L] d(4) unfolding off_heap_def by blast
  have "off_heap {a}" if "0xE200 \<le> unat a" "unat a < 0x1000000" for a
    using that by (simp add: off_heap_def kheap_regions)
  then have str: "user_str (heap_scratch L \<union> footprint c ?m) ?m (directory_entry ?m c) 0x500000 [72, 105]"
    using out by (simp add: s d(3))
  have ph: "off_heap (region 0x600000 16)" by (rule off_heapI) simp_all
  have phys: "region 0x600000 16 \<inter> owned L process t c ?m = {}"
    using low [OF ph] off_heap_scratch [OF ph, of L] unfolding owned_def s(2) by blast
  have kernel: "region (kernel_chunk idle) 4 \<inter> (heap_scratch L \<union> footprint c ?m \<union> region 0x600000 16) = {}"
  proof -
    have "off_heap (region 0 4)" by (auto simp: off_heap_def kheap_regions region_eq_range)
    moreover have "region 0 4 \<inter> region 0x600000 16 = ({} :: u32 set)" by (auto simp: region_eq_range)
    ultimately show ?thesis using low [of "region 0 4"] off_heap_scratch [of "region 0 4" L] unfolding s(2) by (auto simp: idle_def)
  qed
  have av: "0 < heap_avail kheap L" and n: "0 < (16 :: nat)" "16 < (4096 :: nat)" using d(2) by simp_all
  obtain K' m' where "copy_string_from_task kheap t 0x500000 0x600000 (int 16) idle ?m = Some (0, K', m')"
      "cstr m' 0x600000 (take (16 - 1) [72, 105])"
    using copy_string_from_task_copies [OF s(1) av n str phys kernel] by blast
  then show ?thesis by auto
qed

end
