(* ===== verification/SyscallSpec.thy ===== *)
theory SyscallSpec
  imports Syscall TaskCopy
begin

text \<open>
  System calls from the interrupt to the return into the task.
\<close>

section \<open>The argument on the stack of the task\<close>

text \<open>The word \<open>x\<close> at the virtual address \<open>v\<close>, in physical bytes outside \<open>A\<close>.\<close>

definition user_word :: "u32 set \<Rightarrow> mem \<Rightarrow> u32 \<Rightarrow> u32 \<Rightarrow> u32 \<Rightarrow> bool" where
  "user_word A m d v x \<longleftrightarrow> vload32 m d v = Some x
     \<and> (\<forall>w \<in> {v, v + 1, v + 2, v + 3}. \<exists>p. p \<notin> A \<and> mmu_translate m d w = Some p)"

lemma user_word_frame:
  assumes "user_word A m d v x"
    and "\<And>p. p \<notin> A \<Longrightarrow> m' p = m p" and "\<And>w. mmu_translate m' d w = mmu_translate m d w"
  shows "user_word A m' d v x"
proof -
  have "vload8 m' d w = vload8 m d w" if "w \<in> {v, v + 1, v + 2, v + 3}" for w
    using assms that by (fastforce simp: user_word_def vload8_def)
  then have "vload32 m' d v = vload32 m d v" by (simp add: vload32_def)
  then show ?thesis using assms(1,3) by (simp add: user_word_def)
qed

lemma stack_item:
  assumes "task_page_directory m t = c" "user_word A m (directory_entry m c) (load32 m (t + 44)) x"
  shows "task_get_stack_item t 0 K m = Some (x, kernel_page m (task_page_task t m K))"
  using assms
  by (simp add: task_get_stack_item_def task_page_task_def user_registers_def paging_switch_def
      paging_load_directory_def user_word_def Let_def)

section \<open>Saving the registers in an address space\<close>

lemma saved_space:
  assumes ps: "process_space L process t c m" and m': "m' = task_save_state t frame m"
  shows "process_space L process t c m'" "footprint c m' = footprint c m" "directory_entry m' c = directory_entry m c"
    "mmu_translate m' (directory_entry m c) w = mmu_translate m (directory_entry m c) w"
    "same_outside (region t 4096) m m'" "owned L process t c m' = owned L process t c m"
proof -
  note d = ps [unfolded process_space_def] and a = process_space_apart [OF ps]
  have so: "same_outside (region (t + 4) 48) m m'" unfolding m' by (rule save_state_frame)
  have sub: "region (t + 4) 48 \<subseteq> region t 4096" by (rule sub_region) simp_all
  have tL: "heap_live kheap m L" "L t = Some 1" and cw: "chunk_wf c m" using d by blast+
  show so': "same_outside (region t 4096) m m'" by (rule same_outside_mono [OF so sub])
  have live: "heap_live kheap m' L" by (rule write_page [OF tL so'])
  have fd: "footprint c m \<inter> region t 4096 = {}" by (rule a(6))
  note f = footprint_frame [OF so' fd cw]
  have P: "process_task m' process = t" using process_fields(1) [OF so'] a(1) d by (simp add: Int_commute)
  have "region t 4 \<inter> region (t + 4) 48 = {}" using region_split_disjoint [of 4 48 t] by simp
  then have "load32 m' t = load32 m t" by (rule load32_same_outside [OF so])
  then have "task_page_directory m' t = c" using d by (simp add: task_page_directory_def)
  then show "process_space L process t c m'" using d live f P by (simp add: process_space_def)
  show "footprint c m' = footprint c m" "directory_entry m' c = directory_entry m c"
    "mmu_translate m' (directory_entry m c) w = mmu_translate m (directory_entry m c) w" by (rule f)+
  then show "owned L process t c m' = owned L process t c m" by (simp add: owned_def)
qed

lemma restored_same:
  assumes "same_outside A m m'" "A \<inter> region t 4096 = {}"
  shows "restored m' (task_registers t) = restored m (task_registers t)"
proof -
  have l: "load32 m' (t + j) = load32 m (t + j)" if "unat j + 4 \<le> 4096" for j
    using sub_region [OF that, of t] assms(2) by (intro load32_same_outside [OF assms(1)]) auto
  show ?thesis by (simp add: restored_def task_registers_def add.assoc l)
qed

lemma saved_esp: "load32 (task_save_state t frame m) (t + 44) = reg_esp (restored (task_save_state t frame m) (task_registers t))"
  by (simp add: restored_def task_registers_def add.assoc)

section \<open>Printing a string\<close>

lemma system_pages [simp]:
  "screen (kernel_page m s) = screen s" "screen (task_page_task t m s) = screen s"
  "isr80h_commands (kernel_page m s) = isr80h_commands s"
  "current_task (kernel_page m s) = current_task s" "current_task (task_page_task t m s) = current_task s"
  "kernel_chunk (kernel_page m s) = kernel_chunk s" "kernel_chunk (task_page_task t m s) = kernel_chunk s"
  by (simp_all add: kernel_page_def task_page_task_def kernel_registers_def user_registers_def paging_switch_def
      paging_load_directory_def Let_def)

lemma kernel_page_again [simp]:
  "kernel_page m (task_page_task t m' s) = kernel_page m s" "kernel_page m (kernel_page m' s) = kernel_page m s"
  by (simp_all add: kernel_page_def task_page_task_def kernel_registers_def user_registers_def paging_switch_def
      paging_load_directory_def Let_def)

text \<open>What printing needs: the text fits, and buffer and screen lie outside the kernel's memory \<open>A\<close>.\<close>

definition printable :: "u32 set \<Rightarrow> u32 \<Rightarrow> u8 list \<Rightarrow> system \<Rightarrow> bool" where
  "printable A buf str s \<longleftrightarrow> (\<forall>b \<in> set str. plain b) \<and> length str < 1024 \<and> column_ok (screen s)
     \<and> position (screen s) + length str < 80 * 65536 \<and> region buf 1024 \<inter> A = {}
     \<and> cells (screen s) (position (screen s)) (length str) \<inter> (A \<union> region buf 1024) = {}
     \<and> region (kernel_chunk s) 4 \<inter> (A \<union> region buf 1024) = {}"

lemma print_command:
  assumes ps: "process_space L process t c m" and av: "0 < heap_avail kheap L" and cur: "current_task s = t"
    and arg: "user_word B m (directory_entry m c) (load32 m (t + 44)) virtual"
    and str: "user_str (owned L process t c m) m (directory_entry m c) virtual str"
    and out: "printable (owned L process t c m) (sp - 1024) str s"
  obtains t' m' tmp where "isr80h_command1_print kheap sp frame s m = Some (Returned 0, (kernel_page m s)\<lparr>screen := t'\<rparr>, m')"
    "column_ok t'" "position t' = position (screen s) + length str"
    "\<And>j. j < length str \<Longrightarrow> load16 m' (cell (screen s) (position (screen s) + j)) = terminal_make_char (str ! j) COLOR_WHITE"
    "process_space (L(tmp \<mapsto> 1)) process t c m'" "directory_entry m' c = directory_entry m c"
    "same_outside (- region t 4096) m m'" "\<And>w. mmu_translate m' (directory_entry m c) w = mmu_translate m (directory_entry m c) w"
proof -
  let ?d = "directory_entry m c" and ?buf = "sp - 1024" and ?A = "heap_scratch L \<union> footprint c m"
  let ?C = "cells (screen s) (position (screen s)) (length str)"
  note o = out [unfolded printable_def]
  have td: "task_page_directory m t = c" using ps by (simp add: process_space_def)
  have item: "current_stack_item 0 s m = Some (virtual, kernel_page m s)"
    using stack_item [OF td arg] by (simp add: current_stack_item_def task_current_def cur)
  have str': "user_str ?A m ?d virtual str"
    by (rule user_str_frame [OF str]) (auto simp: owned_def)
  have n: "0 < (1024 :: nat)" "1024 < (4096 :: nat)" by simp_all
  have buf: "region ?buf 1024 \<inter> owned L process t c m = {}" using o by blast
  have kc: "region (kernel_chunk (kernel_page m s)) 4 \<inter> (?A \<union> region ?buf 1024) = {}"
    using o by (auto simp: owned_def)
  obtain K2 m2 tmp where c: "copy_string_from_task kheap t virtual ?buf (int 1024) (kernel_page m s) m = Some (0, K2, m2)"
      "cstr m2 ?buf (take (1024 - 1) str)" "\<And>w. mmu_translate m2 (directory_entry m2 c) w = mmu_translate m ?d w"
      "K2 = kernel_page m (kernel_page m s)" "same_outside (?A \<union> region ?buf 1024) m m2"
      "process_space (L(tmp \<mapsto> 1)) process t c m2" "directory_entry m2 c = ?d" "footprint c m2 = footprint c m"
    using copy_string_ok [OF ps av n str' buf kc] by blast
  have bytes: "cstr m2 ?buf str" using c(2) o by simp
  have scr: "screen K2 = screen s" by (simp add: c(4))
  have "region ?buf (length str) \<subseteq> region ?buf 1024" using o by (intro region_mono) simp
  then have apart: "region ?buf (length str) \<inter> cells (screen K2) (position (screen K2)) (length str) = {}"
    using o unfolding scr by blast
  obtain t' m3 where p: "print ?buf (screen K2) m2 = Some (t', m3)" "column_ok t'"
      "position t' = position (screen s) + length str" "same_outside ?C m2 m3"
      "\<forall>j < length str. load16 m3 (cell (screen s) (position (screen s) + j)) = terminal_make_char (str ! j) COLOR_WHITE"
    using print_plain [OF bytes _ _ _ apart] o unfolding scr by blast
  have C: "?C \<inter> (table_region kheap \<union> footprint c m2 \<union> block_region process 3 \<union> region t 4096) = {}"
    using o unfolding c(8) by (auto simp: owned_def heap_scratch_def)
  note s3 = space_other [OF c(6) p(4) C]
  have so: "same_outside (- region t 4096) m m3"
    unfolding same_outside_def
  proof (intro allI impI)
    fix a assume "a \<notin> - region t 4096"
    then have a: "a \<in> owned L process t c m" "a \<notin> ?A" using process_space_apart(3,6) [OF ps] by (auto simp: owned_def)
    then have "m2 a = m a" using buf by (intro same_outsideD [OF c(5)]) blast
    moreover have "m3 a = m2 a" using a o by (intro same_outsideD [OF p(4)]) blast
    ultimately show "m3 a = m a" by simp
  qed
  have res: "isr80h_command1_print kheap sp frame s m = Some (Returned 0, (kernel_page m s)\<lparr>screen := t'\<rparr>, m3)"
    unfolding isr80h_command1_print_def using item c(1) p(1) by (simp add: task_current_def cur c(4))
  show thesis
    by (rule that [OF res p(2,3) _ s3(1) _ so]) (use p(5) s3(3,4) c(3,7) in simp_all)
qed

text \<open>
  C5. The system call that prints, from the interrupt to the return: the handler saves the
  task's registers, finds the pointer on the task's stack and the string in the task's
  address space, and writes its characters to the screen from the cursor on. It returns 0
  into the same task with its own directory and segments loaded, its registers as they were
  interrupted and its address space unchanged.
\<close>

theorem print_system_call:
  assumes ps: "process_space L process t c m" and av: "0 < heap_avail kheap L"
    and cur: "current_task s = t" and cmd: "isr80h_commands s 1 = Some isr80h_command1_print_function"
    and frame: "region t 64 \<inter> region frame 52 = {}"
    and arg: "user_word (owned L process t c m) m (directory_entry m c) (load32 m (frame + 44)) virtual"
    and str: "user_str (owned L process t c m) m (directory_entry m c) virtual str"
    and out: "printable (owned L process t c m) (sp - 1024) str s"
  shows "\<exists>s' m' tmp. isr80h_handler S kheap sp 1 frame s m = Some (Returned 0, s', m')
    \<and> position (screen s') = position (screen s) + length str
    \<and> (\<forall>j < length str. load16 m' (cell (screen s) (position (screen s) + j)) = terminal_make_char (str ! j) COLOR_WHITE)
    \<and> current_task s' = t \<and> cr3 s' = directory_entry m c \<and> data_segment s' = 0x23
    \<and> restored m' (task_registers t) = (interrupted m frame)\<lparr>reg_eflags := reg_eflags (interrupted m frame) OR 0x200\<rparr>
    \<and> (\<forall>w. mmu_translate m' (directory_entry m c) w = mmu_translate m (directory_entry m c) w)
    \<and> process_space (L(tmp \<mapsto> 1)) process t c m'"
proof -
  let ?s = "kernel_page m s" and ?d = "directory_entry m c" and ?A = "owned L process t c m"
  define m1 where "m1 = task_save_state t frame m"
  note s1 = saved_space [OF ps m1_def]
  have regs: "restored m1 (task_registers t) = (interrupted m frame)\<lparr>reg_eflags := reg_eflags (interrupted m frame) OR 0x200\<rparr>"
    using save_resume [OF frame, of m] by (simp add: m1_def)
  then have esp: "load32 m1 (t + 44) = load32 m (frame + 44)"
    unfolding m1_def saved_esp by (simp add: interrupted_def)
  have keep: "m1 p = m p" if "p \<notin> ?A" for p using that by (intro same_outsideD [OF s1(5)]) (auto simp: owned_def)
  have arg1: "user_word ?A m1 (directory_entry m1 c) (load32 m1 (t + 44)) virtual"
    unfolding esp s1(3) by (rule user_word_frame [OF arg keep s1(4)])
  have str1: "user_str (owned L process t c m1) m1 (directory_entry m1 c) virtual str"
    unfolding s1(3,6) by (rule user_str_frame [OF str]) (use keep s1(4) in auto)
  have out1: "printable (owned L process t c m1) (sp - 1024) str ?s" using out by (simp add: printable_def s1(6))
  have cur1: "current_task ?s = t" using cur by simp
  obtain t' m' tmp where p: "isr80h_command1_print kheap sp frame ?s m1 = Some (Returned 0, (kernel_page m1 ?s)\<lparr>screen := t'\<rparr>, m')"
    "position t' = position (screen ?s) + length str"
    "\<And>j. j < length str \<Longrightarrow> load16 m' (cell (screen ?s) (position (screen ?s) + j)) = terminal_make_char (str ! j) COLOR_WHITE"
    "process_space (L(tmp \<mapsto> 1)) process t c m'" "directory_entry m' c = directory_entry m1 c"
    "same_outside (- region t 4096) m1 m'" "\<And>w. mmu_translate m' (directory_entry m1 c) w = mmu_translate m1 (directory_entry m1 c) w"
    by (rule print_command [OF s1(1) av cur1 arg1 str1 out1]) blast
  let ?s' = "task_page m' ((kernel_page m1 ?s)\<lparr>screen := t'\<rparr>)"
  have "t \<noteq> 0" using kh.live_ok [of m L t 1] ps by (simp add: process_space_def)
  then have res: "isr80h_handler S kheap sp 1 frame s m = Some (Returned 0, ?s', m')"
    using p(1) cmd by (simp add: isr80h_handler_def task_current_save_state_def task_current_def cur m1_def [symmetric]
        isr80h_handle_command_def isr80h_call_def SIMPOS_MAX_ISR80H_COMMANDS_def Let_def)
  have td: "task_page_directory m' t = c" using p(4) by (simp add: process_space_def)
  have page: "current_task ?s' = t" "cr3 ?s' = ?d" "data_segment ?s' = 0x23" "screen ?s' = t'"
    using cur td p(5) s1(3)
    by (simp_all add: task_page_def user_registers_def task_switch_def paging_switch_def paging_load_directory_def Let_def)
  have same: "restored m' (task_registers t) = restored m1 (task_registers t)" by (rule restored_same [OF p(6)]) blast
  show ?thesis using res p(2,3,4,7) page regs same s1(3,4) by auto
qed

text \<open>
  For the witnesses: a kernel that runs the task \<open>t\<close>, and a user program with the string
  \<^verbatim>\<open>"Hi"\<close> at \<open>0x500000\<close> whose stack holds its address.
\<close>

definition demo_system :: "keyboard_state \<Rightarrow> u32 \<Rightarrow> system" where
  "demo_system ks t =
     \<lparr>cr3 = 0, current_directory = 0, current_task = t, task_tail = t, task_head = t, kernel_chunk = 0x10000,
      data_segment = 0x10, current_process = 0, processes = (\<lambda>_. 0),
      screen = \<lparr>video_mem = 0xB8000, terminal_row = 0, terminal_column = 0\<rparr>,
      keyboard_list = ks, interrupt_callbacks = (\<lambda>_. None),
      isr80h_commands = [1 \<mapsto> isr80h_command1_print_function], idtr = (0, 0), port_writes = []\<rparr>"

definition demo_user :: "mem \<Rightarrow> mem" where
  "demo_user m = (store32 (store32 m 0x3FEFF0 0x500000) 0x5FFFF8 0x3FEFF0)(0x500000 := 72, 0x500001 := 105, 0x500002 := 0)"

lemma demo_user_facts:
  "load32 (demo_user m) 0x5FFFF8 = 0x3FEFF0" "load32 (demo_user m) 0x3FEFF0 = 0x500000"
  "demo_user m 0x500000 = 72" "demo_user m 0x500001 = 105" "demo_user m 0x500002 = 0"
  "same_outside (region 0x3FE000 0x202000) m (demo_user m)"
proof -
  show "load32 (demo_user m) 0x5FFFF8 = 0x3FEFF0" "load32 (demo_user m) 0x3FEFF0 = 0x500000"
    "demo_user m 0x500000 = 72" "demo_user m 0x500001 = 105" "demo_user m 0x500002 = 0"
    by (simp_all add: demo_user_def off_simps del: fun_upd_apply add: fun_upd_same fun_upd_other)
  have w: "same_outside (region 0x3FE000 0x202000) a (store32 a (0x3FE000 + of_nat k) v)" if "k + 4 \<le> 0x202000" for a k v
    by (rule same_outside_mono [OF store32_frame sub_region]) (use that in \<open>simp_all add: unat_of_nat_u32\<close>)
  have b: "same_outside (region 0x3FE000 0x202000) a (a(0x3FE000 + of_nat k := v))" if "k < 0x202000" for a k v
    using that by (intro same_outside_upd in_region_offset) simp_all
  show "same_outside (region 0x3FE000 0x202000) m (demo_user m)"
    unfolding demo_user_def
    using same_outside_trans1 [OF same_outside_trans1 [OF same_outside_trans1 [OF same_outside_trans1 [OF
        w [of "0xFF0" m "0x500000"] w [of "0x201FF8" _ "0x3FEFF0"]] b [of "0x102000" _ 72]] b [of "0x102001" _ 105]]
        b [of "0x102002" _ 0]] by simp
qed

theorem print_system_call_witness:
  "\<forall>S ks. \<exists>t m s' m'. isr80h_handler S kheap 0x5FFE00 1 0x5FFFCC (demo_system ks t) (demo_user m) = Some (Returned 0, s', m')
    \<and> load16 m' 0xB8000 = 0x0F48 \<and> load16 m' 0xB8002 = 0x0F69"
proof (intro allI)
  fix S :: statics and ks
  obtain L process t c m where d: "process_space L process t c m" "24000 \<le> heap_avail kheap L"
      "\<And>w. mmu_translate m (directory_entry m c) w = Some w" "footprint c m \<subseteq> data_region kheap"
    by (rule demo_space) blast
  let ?m = "demo_user m" and ?s = "demo_system ks t" and ?str = "[72, 105] :: u8 list"
  have live: "heap_live kheap m L" "L process = Some 3" "L t = Some 1" using d(1) by (simp_all add: process_space_def)
  have sub: "footprint c m \<union> block_region process 3 \<union> region t 4096 \<subseteq> data_region kheap"
    using live_data [OF live(1,2)] live_data [OF live(1,3)] d(4) by (simp add: block_region_1)
  have low: "A \<inter> (table_region kheap \<union> footprint c m \<union> block_region process 3 \<union> region t 4096) = {}"
    if "off_heap A" for A using that sub unfolding off_heap_def by blast
  have user: "off_heap (region 0x3FE000 0x202000)" by (rule off_heapI) simp_all
  note s = space_other [OF d(1) demo_user_facts(6) low [OF user]]
  have own: "A \<inter> owned L process t c ?m = {}" if "off_heap A" for A
    using low [OF that] off_heap_scratch [OF that, of L] unfolding owned_def s(2) by blast
  have off: "a \<notin> owned L process t c ?m" if "0xE200 \<le> unat a" "unat a < 0x1000000" for a
    using own [of "{a}"] that by (simp add: off_heap_def kheap_regions)
  have str: "user_str (owned L process t c ?m) ?m (directory_entry ?m c) 0x500000 ?str"
    using off by (simp add: s(3,4) d(3) demo_user_facts)
  have "vload32 ?m (directory_entry ?m c) 0x3FEFF0 = Some (load32 ?m 0x3FEFF0)"
    by (simp add: vload32_def vload8_def s(3,4) d(3) load32_def)
  then have arg: "user_word (owned L process t c ?m) ?m (directory_entry ?m c) (load32 ?m (0x5FFFCC + 44)) 0x500000"
    using off by (simp add: user_word_def s(3,4) d(3) demo_user_facts)
  have frame: "region t 64 \<inter> region 0x5FFFCC 52 = {}"
  proof -
    have "off_heap (region 0x5FFFCC 52)" by (rule off_heapI) simp_all
    moreover have "region t 64 \<subseteq> region t 4096" by (rule region_mono) simp
    ultimately show ?thesis using low by blast
  qed
  have scr: "screen ?s = \<lparr>video_mem = 0xB8000, terminal_row = 0, terminal_column = 0\<rparr>" "kernel_chunk ?s = 0x10000"
    "current_task ?s = t" "isr80h_commands ?s 1 = Some isr80h_command1_print_function"
    by (simp_all add: demo_system_def)
  have pos: "position (screen ?s) = 0" by (simp add: scr position_def)
  have cells: "cells (screen ?s) 0 (length ?str) = region 0xB8000 4" by (simp add: cells_def cell_def scr)
  have printable: "printable (owned L process t c ?m) (0x5FFE00 - 1024) ?str ?s"
  proof -
    have r: "off_heap (region 0x5FFA00 1024)" "off_heap (region 0xB8000 4)" "off_heap (region 0x10000 4)"
      by (rule off_heapI; simp)+
    have "region 0xB8000 4 \<inter> region 0x5FFA00 1024 = ({} :: u32 set)" "region 0x10000 4 \<inter> region 0x5FFA00 1024 = ({} :: u32 set)"
      by (auto simp: region_eq_range)
    then show ?thesis
      using own [OF r(1)] own [OF r(2)] own [OF r(3)]
      unfolding printable_def pos cells scr(2) by (simp add: plain_def column_ok_def scr(1) Int_Un_distrib)
  qed
  have av: "0 < heap_avail kheap L" using d(2) by simp
  obtain s' m' where r: "isr80h_handler S kheap 0x5FFE00 1 0x5FFFCC ?s ?m = Some (Returned 0, s', m')"
      "\<forall>j < length ?str. load16 m' (cell (screen ?s) (position (screen ?s) + j)) = terminal_make_char (?str ! j) COLOR_WHITE"
    using print_system_call [OF s(1) av scr(3,4) frame arg str printable, of S] by blast
  have "load16 m' (cell (screen ?s) (position (screen ?s) + 0)) = terminal_make_char 72 COLOR_WHITE"
    "load16 m' (cell (screen ?s) (position (screen ?s) + 1)) = terminal_make_char 105 COLOR_WHITE"
    using spec [OF r(2), of 0] spec [OF r(2), of 1] by simp_all
  then have "load16 m' 0xB8000 = 0x0F48" "load16 m' 0xB8002 = 0x0F69"
    unfolding pos by (simp_all add: cell_def scr terminal_make_char_def COLOR_WHITE_def)
  then show "\<exists>t m s' m'. isr80h_handler S kheap 0x5FFE00 1 0x5FFFCC (demo_system ks t) (demo_user m) = Some (Returned 0, s', m')
      \<and> load16 m' 0xB8000 = 0x0F48 \<and> load16 m' 0xB8002 = 0x0F69" using r(1) by blast
qed

end
