(* ===== verification/IdtSpec.thy ===== *)
theory IdtSpec
  imports Syscall Gdt Bytes
begin

text \<open>
  What \<open>idt_init\<close> leaves for the processor, and the dispatch of system calls.
\<close>

section \<open>Gates\<close>

text \<open>
  An interrupt gate as the processor reads it: the handler's address in bytes 0, 1 and 6, 7,
  its code segment in bytes 2 and 3, present bit, privilege and type in byte 5.
\<close>

record gate =
  gate_address :: u32
  gate_selector :: u16
  gate_access :: u8

definition gate_at :: "mem \<Rightarrow> u32 \<Rightarrow> gate" where
  "gate_at m p = \<lparr>gate_address = ucast (load16 m p) OR push_bit 16 (ucast (load16 m (p + 6))),
     gate_selector = load16 m (p + 2), gate_access = m (p + 5)\<rparr>"

lemma gate_frame:
  assumes "same_outside A m m'" and "region p 8 \<inter> A = {}"
  shows "gate_at m' p = gate_at m p"
proof -
  have k: "m' (p + of_nat i) = m (p + of_nat i)" if "i < 8" for i
    using region_8 [OF that, of p] assms(2) by (intro same_outsideD [OF assms(1)]) auto
  from k [of 0] k [of 1] k [of 2] k [of 3] k [of 5] k [of 6] k [of 7]
  show ?thesis by (simp add: gate_at_def load16_def add.assoc)
qed

definition handler_gate :: "u32 \<Rightarrow> gate" where
  "handler_gate a = \<lparr>gate_address = a, gate_selector = KERNEL_CODE_SELECTOR, gate_access = 0xEE\<rparr>"

lemma load16_off:
  "load16 (store16 m p v) p = v"
  "q \<noteq> p \<Longrightarrow> q \<noteq> p + 1 \<Longrightarrow> load16 (m(q := b)) p = load16 m p"
  "q \<noteq> p \<Longrightarrow> q \<noteq> p + 1 \<Longrightarrow> q + 1 \<noteq> p \<Longrightarrow> q + 1 \<noteq> p + 1 \<Longrightarrow> load16 (store16 m q v) p = load16 m p"
  "p \<noteq> q \<Longrightarrow> p \<noteq> q + 1 \<Longrightarrow> store16 m q v p = m p"
  by (simp_all add: load16_store16_same) (simp_all add: load16_def store16_def)

lemma idt_set_gate:
  assumes "0 \<le> i"
  shows "gate_at (idt_set S i a m) (idt_descriptors S + of_nat (8 * nat i)) = handler_gate a"
    and "same_outside (region (idt_descriptors S + of_nat (8 * nat i)) 8) m (idt_set S i a m)"
proof -
  let ?p = "idt_descriptors S + of_nat (8 * nat i)"
  have p: "idt_descriptors S + u32_of_int (8 * i) = ?p"
    using u32_of_int_of_nat [of "8 * nat i"] assms by simp
  have m: "(0xffff :: u32) = mask 16" by (simp add: mask_eq_exp_minus_1)
  have halves: "ucast (ucast (a AND 0xffff) :: u16) OR push_bit 16 (ucast (ucast (drop_bit 16 a) :: u16)) = (a :: u32)"
    unfolding m by (rule bit_word_eqI) (auto simp: bit_simps)
  have "gate_at (idt_set S i a m) ?p = \<lparr>gate_address = ucast (ucast (a AND 0xffff) :: u16) OR push_bit 16 (ucast (ucast (drop_bit 16 a) :: u16)),
      gate_selector = KERNEL_CODE_SELECTOR, gate_access = 0xEE\<rparr>"
    by (simp add: idt_set_def Let_def p gate_at_def load16_off)
  then show "gate_at (idt_set S i a m) ?p = handler_gate a" by (simp only: halves handler_gate_def)
  have r: "?p + of_nat k \<in> region ?p 8" if "k < 8" for k using that by (rule region_8)
  show "same_outside (region ?p 8) m (idt_set S i a m)"
    unfolding idt_set_def Let_def p store16_def
    using r [of 0] r [of 1] r [of 2] r [of 3] r [of 4] r [of 5] r [of 6] r [of 7]
    by (simp add: same_outside_def add.assoc)
qed

section \<open>The table\<close>

abbreviation idt_entry :: "statics \<Rightarrow> nat \<Rightarrow> u32" where
  "idt_entry S j \<equiv> idt_descriptors S + of_nat (8 * j)"

lemma entry_in_table: "j < 512 \<Longrightarrow> region (idt_entry S j) 8 \<subseteq> region (idt_descriptors S) 4096"
proof (rule sub_region)
  assume j: "j < 512"
  then have "unat (of_nat (8 * j) :: u32) = 8 * j" by (intro unat_of_nat_u32) simp
  then show "unat (of_nat (8 * j) :: u32) + 8 \<le> 4096" using j by linarith
qed simp_all

lemma entries_disjoint:
  assumes "i < 512" "j < 512" "i \<noteq> j"
  shows "region (idt_entry S i) 8 \<inter> region (idt_entry S j) 8 = {}"
proof -
  have "region (idt_entry S a) 8 \<inter> region (idt_entry S b) 8 = {}" if "a < b" "b < 512" for a b
  proof -
    have "idt_entry S b = idt_entry S a + of_nat (8 * (b - a))"
      using that by (simp add: of_nat_diff algebra_simps)
    moreover have "region (idt_entry S a) 8 \<subseteq> region (idt_entry S a) (8 * (b - a))"
      using that by (intro region_mono) simp
    moreover have "region (idt_entry S a) (8 * (b - a)) \<inter> region (idt_entry S a + of_nat (8 * (b - a))) 8 = {}"
      using that by (intro region_split_disjoint) simp
    ultimately show ?thesis by (simp only:) blast
  qed
  from this [of i j] this [of j i] show ?thesis using assms by (cases "i < j") auto
qed

lemma idt_set_other:
  assumes "0 \<le> i" "i < 512" "j < 512" "nat i \<noteq> j"
  shows "gate_at (idt_set S i a m) (idt_entry S j) = gate_at m (idt_entry S j)"
proof (rule gate_frame [OF idt_set_gate(2) [OF assms(1)]])
  have "nat i < 512" using assms by simp
  then show "region (idt_entry S j) 8 \<inter> region (idt_entry S (nat i)) 8 = {}"
    using assms by (intro entries_disjoint) auto
qed

lemma fill_loop_gates:
  "n \<le> 512 \<Longrightarrow> same_outside (region (idt_descriptors S) 4096) m (idt_fill_loop S (512 - int n) m)
     \<and> (\<forall>j < 512. gate_at (idt_fill_loop S (512 - int n) m) (idt_entry S j) =
          (if 512 - n \<le> j then handler_gate (interrupt_pointer_table S (int j)) else gate_at m (idt_entry S j)))"
proof (induction n arbitrary: m)
  case 0
  then show ?case by (subst (1 2) idt_fill_loop.simps) (simp add: SIMPOS_TOTAL_INTERRUPTS_def)
next
  case (Suc n)
  let ?i = "512 - int (Suc n)"
  let ?m = "idt_set S ?i (interrupt_pointer_table S ?i) m"
  have i: "0 \<le> ?i" "?i < 512" "?i + 1 = 512 - int n" "nat ?i = 512 - Suc n" using Suc.prems by simp_all
  have e: "idt_fill_loop S ?i m = idt_fill_loop S (512 - int n) ?m"
    using i by (subst idt_fill_loop.simps) (simp add: SIMPOS_TOTAL_INTERRUPTS_def)
  have "same_outside (region (idt_descriptors S) 4096) m ?m"
    using same_outside_mono [OF idt_set_gate(2) [OF i(1)]] entry_in_table [of "nat ?i" S] i(2) by (simp add: nat_less_iff)
  then have so: "same_outside (region (idt_descriptors S) 4096) m (idt_fill_loop S ?i m)"
    unfolding e using Suc.IH [of ?m] Suc.prems by (blast intro: same_outside_trans1 Suc_leD)
  have "gate_at (idt_fill_loop S ?i m) (idt_entry S j) =
      (if 512 - Suc n \<le> j then handler_gate (interrupt_pointer_table S (int j)) else gate_at m (idt_entry S j))"
    if j: "j < 512" for j
  proof (cases "j = nat ?i")
    case True
    then have "gate_at ?m (idt_entry S j) = handler_gate (interrupt_pointer_table S ?i)"
      using idt_set_gate(1) [OF i(1)] by simp
    moreover have "int j = ?i" using True i(1) by simp
    ultimately show ?thesis using Suc.IH [of ?m] Suc.prems j True i(4) unfolding e by auto
  next
    case False
    have "gate_at ?m (idt_entry S j) = gate_at m (idt_entry S j)"
      using idt_set_other [OF i(1,2) j] False by blast
    moreover have "512 - n \<le> j \<longleftrightarrow> 512 - Suc n \<le> j" using False i(4) Suc.prems by linarith
    ultimately show ?thesis using Suc.IH [of ?m] Suc.prems j unfolding e by auto
  qed
  then show ?case using so by blast
qed

lemma exceptions_loop:
  "n \<le> 32 \<Longrightarrow> idt_exceptions_loop (32 - int n) s = s\<lparr>interrupt_callbacks := (\<lambda>i.
     if 32 - int n \<le> i \<and> i < 32 then Some idt_handle_exception_callback else interrupt_callbacks s i)\<rparr>"
proof (induction n arbitrary: s)
  case 0
  have "(\<lambda>i :: int. if 32 \<le> i \<and> i < 32 then Some idt_handle_exception_callback else interrupt_callbacks s i) = interrupt_callbacks s"
    by (intro ext) auto
  then show ?case by (subst idt_exceptions_loop.simps) simp
next
  case (Suc n)
  let ?i = "32 - int (Suc n)"
  let ?s = "snd (idt_register_interrupt_callback ?i idt_handle_exception_callback s)"
  have s: "?s = s\<lparr>interrupt_callbacks := (interrupt_callbacks s)(?i := Some idt_handle_exception_callback)\<rparr>"
    using Suc.prems by (simp add: idt_register_interrupt_callback_def SIMPOS_TOTAL_INTERRUPTS_def)
  have "idt_exceptions_loop ?i s = idt_exceptions_loop (32 - int n) ?s"
    using Suc.prems by (subst idt_exceptions_loop.simps) simp
  also have "\<dots> = ?s\<lparr>interrupt_callbacks := (\<lambda>i.
      if 32 - int n \<le> i \<and> i < 32 then Some idt_handle_exception_callback else interrupt_callbacks ?s i)\<rparr>"
    using Suc.prems by (intro Suc.IH) simp
  also have "\<dots> = s\<lparr>interrupt_callbacks := (\<lambda>i.
      if ?i \<le> i \<and> i < 32 then Some idt_handle_exception_callback else interrupt_callbacks s i)\<rparr>"
    unfolding s using Suc.prems by (auto intro!: system.equality ext)
  finally show ?case .
qed

text \<open>
  C24. After \<open>idt_init\<close> the processor is given the table of 512 gates, and for every interrupt
  number its gate leads, in the kernel's code segment and open to user programs, to the
  number's own assembly stub, except \<open>0x80\<close>, which leads to the system call wrapper. The
  first 32 numbers are handled as exceptions. Nothing outside the table is written.
\<close>

theorem idt_init_gates:
  "\<exists>s' m'. idt_init S s m = (s', m')
    \<and> (\<forall>j < 512. gate_at m' (idt_entry S j) =
         handler_gate (if j = 0x80 then isr80h_wrapper S else interrupt_pointer_table S (int j)))
    \<and> (\<forall>i. interrupt_callbacks s' i =
         (if 0 \<le> i \<and> i < 32 then Some idt_handle_exception_callback else interrupt_callbacks s i))
    \<and> idtr s' = (4095, idt_descriptors S) \<and> same_outside (region (idt_descriptors S) 4096) m m'"
proof -
  let ?t = "region (idt_descriptors S) 4096" and ?m0 = "memset m (idt_descriptors S) 0 4096"
  let ?m1 = "idt_fill_loop S 0 ?m0"
  let ?m2 = "idt_set S 0x80 (isr80h_wrapper S) ?m1" and ?s = "(idt_exceptions_loop 0 s)\<lparr>idtr := (4095, idt_descriptors S)\<rparr>"
  have f: "same_outside ?t ?m0 ?m1" "\<forall>j < 512. gate_at ?m1 (idt_entry S j) = handler_gate (interrupt_pointer_table S (int j))"
    using fill_loop_gates [of 512 S ?m0] by simp_all
  have z: "same_outside ?t m ?m0" using memset_frame [of "idt_descriptors S" 4096 m 0] by simp
  have e80: "same_outside ?t ?m1 ?m2"
    using same_outside_mono [OF idt_set_gate(2)] entry_in_table [of 128 S] by simp
  have "gate_at ?m2 (idt_entry S j) = handler_gate (if j = 0x80 then isr80h_wrapper S else interrupt_pointer_table S (int j))"
    if "j < 512" for j
    using f(2) that idt_set_gate(1) [where i = "0x80" and S = S] idt_set_other [where i = "0x80" and j = j and S = S] by (cases "j = 0x80") simp_all
  moreover have "idt_init S s m = (?s, ?m2)" by (simp add: idt_init_def)
  moreover have "same_outside ?t m ?m2" using z f(1) e80 by (blast intro: same_outside_trans1)
  ultimately show ?thesis using exceptions_loop [of 32 s] by simp
qed

theorem idt_init_gates_witness:
  "\<forall>S s m. gate_at (snd (idt_init S s m)) (idt_descriptors S + 1024) = handler_gate (isr80h_wrapper S)
    \<and> gate_at (snd (idt_init S s m)) (idt_descriptors S + 256) = handler_gate (interrupt_pointer_table S 32)
    \<and> interrupt_callbacks (fst (idt_init S s m)) 14 = Some idt_handle_exception_callback"
proof (intro allI)
  fix S :: statics and s m
  obtain s' m' where i: "idt_init S s m = (s', m')"
      "\<forall>j < 512. gate_at m' (idt_entry S j) =
         handler_gate (if j = 0x80 then isr80h_wrapper S else interrupt_pointer_table S (int j))"
      "\<forall>i. interrupt_callbacks s' i =
         (if 0 \<le> i \<and> i < 32 then Some idt_handle_exception_callback else interrupt_callbacks s i)"
    using idt_init_gates by blast
  show "gate_at (snd (idt_init S s m)) (idt_descriptors S + 1024) = handler_gate (isr80h_wrapper S)
    \<and> gate_at (snd (idt_init S s m)) (idt_descriptors S + 256) = handler_gate (interrupt_pointer_table S 32)
    \<and> interrupt_callbacks (fst (idt_init S s m)) 14 = Some idt_handle_exception_callback"
    using spec [OF i(2), of 128] spec [OF i(2), of 32] spec [OF i(3), of 14] by (simp add: i(1))
qed

section \<open>Dispatch of system calls\<close>

text \<open>The command of each number a program may put in \<^verbatim>\<open>eax\<close>.\<close>

definition system_calls :: "isr80h_command list" where
  "system_calls = [isr80h_command0_sum_function, isr80h_command1_print_function,
     isr80h_command2_getkey_function, isr80h_command3_putchar_function,
     isr80h_command4_malloc_function, isr80h_command5_free_function,
     isr80h_command6_process_load_start_function, isr80h_command7_invoke_system_command_function,
     isr80h_command8_get_program_arguments_function, isr80h_command9_exit_function]"

definition command_table :: "(int \<Rightarrow> isr80h_command option) \<Rightarrow> bool" where
  "command_table f \<longleftrightarrow> (\<forall>n. f n = (if 0 \<le> n \<and> n < 10 then Some (system_calls ! nat n) else None))"

lemma command_table_nth: "command_table f \<Longrightarrow> 0 \<le> n \<Longrightarrow> n < 10 \<Longrightarrow> f n = Some (system_calls ! nat n)"
  by (simp add: command_table_def)

lemma command_table_none: "command_table f \<Longrightarrow> n < 0 \<or> 10 \<le> n \<Longrightarrow> f n = None"
  by (auto simp: command_table_def)

lemma register_commands:
  assumes "isr80h_commands s = (\<lambda>_. None)"
  shows "\<exists>f. isr80h_register_commands s = Some (s\<lparr>isr80h_commands := f\<rparr>) \<and> command_table f"
proof -
  let ?f = "(\<lambda>_ :: int. None)(0 := Some isr80h_command0_sum_function, 1 := Some isr80h_command1_print_function,
    2 := Some isr80h_command2_getkey_function, 3 := Some isr80h_command3_putchar_function,
    4 := Some isr80h_command4_malloc_function, 5 := Some isr80h_command5_free_function,
    6 := Some isr80h_command6_process_load_start_function, 7 := Some isr80h_command7_invoke_system_command_function,
    8 := Some isr80h_command8_get_program_arguments_function, 9 := Some isr80h_command9_exit_function)"
  have "isr80h_register_commands s = Some (s\<lparr>isr80h_commands := ?f\<rparr>)"
    using assms by (simp add: isr80h_register_commands_def isr80h_register_command_def SIMPOS_MAX_ISR80H_COMMANDS_def)
  moreover have "?f n = (if 0 \<le> n \<and> n < 10 then Some (system_calls ! nat n) else None)" for n
  proof (cases "0 \<le> n \<and> n < 10")
    case True
    then have "n = 0 \<or> n = 1 \<or> n = 2 \<or> n = 3 \<or> n = 4 \<or> n = 5 \<or> n = 6 \<or> n = 7 \<or> n = 8 \<or> n = 9" by presburger
    then show ?thesis by (elim disjE) (simp_all add: system_calls_def)
  qed auto
  ultimately show ?thesis unfolding command_table_def by blast
qed

text \<open>
  C25. The commands can be registered once: from an empty table all ten are entered, and a
  second registration panics because the number is taken. After that a system call with a
  number from 0 to 9 runs that number's command, and with any other number, negative ones and
  ones beyond the table included, the dispatch returns 0 and changes neither the kernel's
  state nor memory.
\<close>

theorem system_call_dispatch:
  assumes "isr80h_commands s = (\<lambda>_. None)"
  shows "\<exists>s'. isr80h_register_commands s = Some s' \<and> isr80h_register_commands s' = None
    \<and> (\<forall>t S h sp n frame m. isr80h_commands t = isr80h_commands s' \<longrightarrow>
          isr80h_handle_command S h sp n frame t m =
            (if 0 \<le> n \<and> n < 10 then isr80h_call S h sp (system_calls ! nat n) frame t m
             else Some (Returned 0, t, m)))"
proof -
  obtain f where f: "isr80h_register_commands s = Some (s\<lparr>isr80h_commands := f\<rparr>)" "command_table f"
    using register_commands [OF assms] by blast
  have "f 0 \<noteq> None" using command_table_nth [OF f(2), of 0] by simp
  then have "isr80h_register_commands (s\<lparr>isr80h_commands := f\<rparr>) = None"
    by (simp add: isr80h_register_commands_def isr80h_register_command_def)
  moreover have "isr80h_handle_command S h sp n frame t m =
      (if 0 \<le> n \<and> n < 10 then isr80h_call S h sp (system_calls ! nat n) frame t m else Some (Returned 0, t, m))"
    if "isr80h_commands t = f" for t :: system and S h sp n frame m
    using command_table_nth [OF f(2), of n] command_table_none [OF f(2), of n] that
    by (simp add: isr80h_handle_command_def SIMPOS_MAX_ISR80H_COMMANDS_def)
  ultimately show ?thesis using f(1) by auto
qed

definition blank_system :: "keyboard_state \<Rightarrow> system" where
  "blank_system k0 =
     \<lparr>cr3 = 0, current_directory = 0, current_task = 0, task_tail = 0, task_head = 0, kernel_chunk = 0,
      data_segment = 0x10, current_process = 0, processes = (\<lambda>_. 0),
      screen = \<lparr>video_mem = 0xB8000, terminal_row = 0, terminal_column = 0\<rparr>,
      keyboard_list = k0,
      interrupt_callbacks = (\<lambda>_. None), isr80h_commands = (\<lambda>_. None), idtr = (0, 0), port_writes = []\<rparr>"

theorem system_call_dispatch_witness:
  "\<forall>k0 S m. \<exists>s'. isr80h_register_commands (blank_system k0) = Some s' \<and> isr80h_register_commands s' = None
    \<and> isr80h_handle_command S kheap 0x600000 10 0x5FFFCC s' m = Some (Returned 0, s', m)"
proof (intro allI)
  fix k0 S m
  have e: "isr80h_commands (blank_system k0) = (\<lambda>_. None)" by (simp add: blank_system_def)
  obtain s' where s: "isr80h_register_commands (blank_system k0) = Some s'" "isr80h_register_commands s' = None"
      "isr80h_handle_command S kheap 0x600000 10 0x5FFFCC s' m =
        (if (0 :: int) \<le> 10 \<and> (10 :: int) < 10 then isr80h_call S kheap 0x600000 (system_calls ! nat 10) 0x5FFFCC s' m
         else Some (Returned 0, s', m))"
    using system_call_dispatch [OF e] by blast
  then show "\<exists>s'. isr80h_register_commands (blank_system k0) = Some s' \<and> isr80h_register_commands s' = None
      \<and> isr80h_handle_command S kheap 0x600000 10 0x5FFFCC s' m = Some (Returned 0, s', m)" by simp
qed

end
