(* ===== verification/KeySpec.thy ===== *)
theory KeySpec
  imports Syscall TaskSpec Bytes
begin

text \<open>
  From the key to the program: keyboard interrupts put characters into the buffer of the
  current process in memory, the getkey system call takes them out.
\<close>

section \<open>The buffer of a process in memory\<close>

abbreviation key_area :: "u32 \<Rightarrow> u32 set" where
  "key_area process \<equiv> region (process + 8324) 1032"

lemma key_area_parts:
  "region (p + 8324) 1024 \<subseteq> key_area p" "region (p + 9348) 4 \<subseteq> key_area p" "region (p + 9352) 4 \<subseteq> key_area p"
  "region (p + 8324) 1024 \<inter> region (p + 9348) 4 = {}" "region (p + 8324) 1024 \<inter> region (p + 9352) 4 = {}"
proof -
  have e: "region (p + 9348) 4 \<subseteq> region (p + 9348) 8" "region (p + 9352) 4 \<subseteq> region (p + 9348) 8"
    using region_mono [of 4 8 "p + 9348"] sub_region [of 4 4 8 "p + 9348"] by (simp_all add: add.commute)
  have a: "p + 8324 + 1024 = p + 9348" "p + 8324 + of_nat 1024 = p + 9348" by simp_all
  have s: "region (p + 9348) 8 \<subseteq> key_area p" "region (p + 8324) 1024 \<inter> region (p + 9348) 8 = {}"
    using sub_region [of 1024 8 1032 "p + 8324"] region_split_disjoint [of 1024 8 "p + 8324"] unfolding a by simp_all
  show "region (p + 8324) 1024 \<subseteq> key_area p" by (rule region_mono) simp
  show "region (p + 9348) 4 \<subseteq> key_area p" "region (p + 9352) 4 \<subseteq> key_area p"
    "region (p + 8324) 1024 \<inter> region (p + 9348) 4 = {}" "region (p + 8324) 1024 \<inter> region (p + 9352) 4 = {}"
    using e s by blast+
qed

lemma load_keyboard_frame:
  assumes "same_outside A m m'" and "key_area p \<inter> A = {}"
  shows "load_keyboard m' p = load_keyboard m p"
proof -
  have "region (p + 8324) 1024 \<inter> A = {}" "region (p + 9348) 4 \<inter> A = {}" "region (p + 9352) 4 \<inter> A = {}"
    using assms(2) key_area_parts(1-3) by blast+
  then show ?thesis
    by (simp add: load_keyboard_def load_bytes_frame [OF assms(1)] load32_same_outside [OF assms(1)])
qed

lemma kb_rel_same:
  assumes "buffer kb' = buffer kb" "u32_of_int (tail kb') = u32_of_int (tail kb)" "u32_of_int (head kb') = u32_of_int (head kb)"
  shows "kb_rel kb' q \<longleftrightarrow> kb_rel kb q"
  unfolding kb_rel_def assms ..

lemma store_keyboard:
  assumes "length (buffer kb) = 1024"
  shows "same_outside (key_area p) m (store_keyboard kb p m)"
    and "kb_rel (load_keyboard (store_keyboard kb p m) p) q \<longleftrightarrow> kb_rel kb q"
proof -
  let ?m1 = "store_bytes m (p + 8324) (buffer kb)"
  let ?m2 = "store32 ?m1 (p + 9348) (u32_of_int (tail kb))" and ?m3 = "store_keyboard kb p m"
  have m3: "?m3 = store32 ?m2 (p + 9352) (u32_of_int (head kb))" by (simp add: store_keyboard_def Let_def)
  have f1: "same_outside (region (p + 8324) 1024) m ?m1" using store_bytes_frame [of "p + 8324" "buffer kb" m] assms by simp
  have f2: "same_outside (region (p + 9348) 4) ?m1 ?m2" by (rule store32_frame)
  have f3: "same_outside (region (p + 9352) 4) ?m2 ?m3" unfolding m3 by (rule store32_frame)
  have "same_outside (key_area p) ?m2 ?m3" "same_outside (key_area p) ?m1 ?m2" "same_outside (key_area p) m ?m1"
    using same_outside_mono [OF f3 key_area_parts(3)] same_outside_mono [OF f2 key_area_parts(2)]
      same_outside_mono [OF f1 key_area_parts(1)] by blast+
  then show "same_outside (key_area p) m ?m3" by (blast intro: same_outside_trans1)
  have "load_bytes ?m3 (p + 8324) 1024 = load_bytes ?m2 (p + 8324) 1024"
    by (rule load_bytes_frame [OF f3 key_area_parts(5)]) simp
  also have "\<dots> = load_bytes ?m1 (p + 8324) 1024" by (rule load_bytes_frame [OF f2 key_area_parts(4)]) simp
  also have "\<dots> = buffer kb" using load_store_bytes [of "buffer kb" m "p + 8324"] assms by simp
  finally have "buffer (load_keyboard ?m3 p) = buffer kb" by (simp add: load_keyboard_def)
  moreover have "u32_of_int (head (load_keyboard ?m3 p)) = u32_of_int (head kb)"
    by (simp add: load_keyboard_def m3 load32_store32_same)
  moreover have "u32_of_int (tail (load_keyboard ?m3 p)) = u32_of_int (tail kb)"
    by (simp add: load_keyboard_def m3 load32_store32_off load32_store32_same)
  ultimately show "kb_rel (load_keyboard ?m3 p) q \<longleftrightarrow> kb_rel kb q" by (intro kb_rel_same)
qed

section \<open>Interrupts and system calls\<close>

text \<open>
  The task \<open>t\<close> of process \<open>p\<close> runs, the keyboard driver is in state \<open>K\<close>, and the characters
  \<open>q\<close> wait for the process.
\<close>

definition typing :: "u32 \<Rightarrow> u32 \<Rightarrow> keyboard_state \<Rightarrow> u8 list \<Rightarrow> system \<Rightarrow> mem \<Rightarrow> bool" where
  "typing p t K q s m \<longleftrightarrow> p \<noteq> 0 \<and> t \<noteq> 0 \<and> current_process s = p \<and> current_task s = t \<and> task_process m t = p
     \<and> region t 64 \<inter> key_area p = {} \<and> keyboard_list s = K
     \<and> interrupt_callbacks s ISR_KEYBOARD_INTERRUPT = Some classic_keyboard_callback
     \<and> isr80h_commands s 2 = Some isr80h_command2_getkey_function \<and> kb_rel (load_keyboard m p) q"

lemma task_part: "region (t + 4) 48 \<subseteq> region t 64" "region (t + 52) 4 \<subseteq> region t 64"
  "region (t + 52) 4 \<inter> region (t + 4) 48 = {}"
proof -
  show "region (t + 4) 48 \<subseteq> region t 64" "region (t + 52) 4 \<subseteq> region t 64"
    using sub_region [of 4 48 64 t] sub_region [of 52 4 64 t] by auto
  have e: "t + 4 + of_nat 48 = t + 52" by simp
  have "region (t + 4) 48 \<inter> region (t + 4 + of_nat 48) 4 = {}" by (rule region_split_disjoint) simp
  then show "region (t + 52) 4 \<inter> region (t + 4) 48 = {}" unfolding e by blast
qed

text \<open>Saving the registers and switching pages leave this state.\<close>

lemma typing_saved:
  assumes "typing p t K q s m"
  shows "typing p t K q (kernel_page m s) m"
    and "task_current_save_state frame s m = Some (task_save_state t frame m)"
    and "typing p t K q s (task_save_state t frame m)"
proof -
  show "typing p t K q (kernel_page m s) m"
    using assms by (simp add: typing_def kernel_page_def kernel_registers_def paging_switch_def paging_load_directory_def Let_def)
  show "task_current_save_state frame s m = Some (task_save_state t frame m)"
    using assms by (simp add: typing_def task_current_save_state_def task_current_def)
  note f = save_state_frame [of t m frame]
  have "key_area p \<inter> region (t + 4) 48 = {}" using assms task_part(1) [of t] by (auto simp: typing_def)
  then show "typing p t K q s (task_save_state t frame m)"
    using assms load_keyboard_frame [OF f] load32_same_outside [OF f task_part(3)] by (simp add: typing_def task_process_def)
qed

lemma typing_page: "typing p t K q s m \<Longrightarrow> typing p t K q (task_page m s) m"
  by (simp add: typing_def task_page_def user_registers_def task_switch_def paging_switch_def paging_load_directory_def Let_def)

lemma typing_outb: "typing p t K q s m \<Longrightarrow> typing p t K q (outb port v s) m"
  by (simp add: typing_def outb_def)

text \<open>Writing back the changed buffer.\<close>

lemma typing_store:
  assumes "typing p t K q s m" and "kb_rel kb q'"
  shows "typing p t K q' s (store_keyboard kb p m)"
proof -
  have "length (buffer kb) = 1024" using assms(2) by (simp add: kb_rel_def)
  note st = store_keyboard [OF this, of p m]
  have "region (t + 52) 4 \<inter> key_area p = {}" using assms(1) task_part(2) [of t] by (auto simp: typing_def)
  then show ?thesis using assms load32_same_outside [OF st(1)] st(2) by (simp add: typing_def task_process_def)
qed

text \<open>The character of a key other than caps lock; none for a release.\<close>

definition key_char :: "statics \<Rightarrow> keyboard_state \<Rightarrow> u8 \<Rightarrow> u8" where
  "key_char S K scancode = classic_keyboard_scancode_to_char (classic_beyond S) (classic_keyboard S) scancode K"

definition types_char :: "statics \<Rightarrow> keyboard_state \<Rightarrow> u8 \<Rightarrow> bool" where
  "types_char S K scancode \<longleftrightarrow> scancode AND CLASSIC_KEYBOARD_KEY_RELEASE = 0
     \<and> scancode \<noteq> CLASSIC_KEYBOARD_CAPSLOCK \<and> key_char S K scancode \<noteq> 0"

lemma key_press:
  assumes t: "typing p t K q s m" and c: "types_char S K scancode" and len: "length q < 1024"
  shows "\<exists>s' m'. interrupt_handler S h scancode ISR_KEYBOARD_INTERRUPT frame s m = Some (Returned 0, s', m')
    \<and> typing p t K (q @ [key_char S K scancode]) s' m'"
proof -
  let ?s = "kernel_page m s" and ?m = "task_save_state t frame m"
  let ?kb = "push_char (key_char S K scancode) (load_keyboard ?m p)"
  have t1: "typing p t K q ?s ?m" using typing_saved [OF typing_saved(1) [OF t]] by blast
  then have t2: "typing p t K q (kernel_page ?m ?s) ?m" by (rule typing_saved(1))
  let ?s2 = "kernel_page ?m ?s"
  have cls: "classic_keyboard_handle_interrupt (classic_beyond S) (classic_keyboard S) scancode (K, Some (load_keyboard ?m p))
      = (K, Some ?kb)"
    using c by (simp add: classic_keyboard_handle_interrupt_def types_char_def key_char_def keyboard_push_def Let_def)
  have rel: "kb_rel ?kb (q @ [key_char S K scancode])"
    using t1 c len by (intro push_rel) (simp_all add: typing_def types_char_def)
  let ?m2 = "store_keyboard ?kb p ?m"
  have ks: "?s2\<lparr>keyboard_list := K\<rparr> = ?s2" using t2 by (simp add: typing_def)
  have k: "keyboard_interrupt S scancode ?s ?m = Some (Returned 0, task_page ?m2 ?s2, ?m2)"
    using t2 c cls by (simp add: ks keyboard_interrupt_def typing_def process_current_def types_char_def Let_def)
  have t3: "typing p t K (q @ [key_char S K scancode]) (outb 0x20 0x20 (task_page ?m2 (task_page ?m2 ?s2))) ?m2"
    by (intro typing_outb typing_page typing_store [OF t2 rel])
  have "task_current_save_state frame ?s m = Some ?m" by (rule typing_saved(2) [OF typing_saved(1) [OF t]])
  moreover have "interrupt_callbacks ?s ISR_KEYBOARD_INTERRUPT = Some classic_keyboard_callback" using t1 by (simp add: typing_def)
  ultimately show ?thesis using t3 k by (auto simp: interrupt_handler_def Let_def)
qed

lemma getkey_call:
  assumes "typing p t K q s m"
  shows "\<exists>s' m'. isr80h_handler S h sp 2 frame s m = Some (Returned (if q = [] then 0 else scast (hd q)), s', m')
    \<and> typing p t K (tl q) s' m'"
proof -
  let ?s = "kernel_page m s" and ?m = "task_save_state t frame m"
  let ?r = "pop_char (load_keyboard ?m p)"
  have t1: "typing p t K q ?s ?m" "task_current_save_state frame ?s m = Some ?m"
    using typing_saved [OF typing_saved(1) [OF assms]] by blast+
  have rel: "kb_rel (load_keyboard ?m p) q" using t1 by (simp add: typing_def)
  have r: "fst ?r = (if q = [] then 0 else hd q)" "kb_rel (snd ?r) (tl q)"
    using pop_rel pop_rel_empty rel by (cases q; force)+
  have call: "isr80h_call S h sp isr80h_command2_getkey_function frame ?s ?m = Some (Returned (scast (fst ?r)), ?s, store_keyboard (snd ?r) p ?m)"
    using t1 by (simp add: isr80h_call_def isr80h_command2_getkey_def task_current_def typing_def keyboard_pop_def split: prod.split)
  have "typing p t K (tl q) (task_page (store_keyboard (snd ?r) p ?m) ?s) (store_keyboard (snd ?r) p ?m)"
    by (intro typing_page typing_store [OF t1(1) r(2)])
  moreover have "isr80h_commands ?s 2 = Some isr80h_command2_getkey_function" using t1 by (simp add: typing_def)
  ultimately show ?thesis
    using call t1(2) r(1)
    by (auto simp: isr80h_handler_def isr80h_handle_command_def SIMPOS_MAX_ISR80H_COMMANDS_def Let_def)
qed

section \<open>What is typed is read\<close>

text \<open>A sequence of keyboard interrupts, and a sequence of getkey calls with their results.\<close>

fun presses :: "statics \<Rightarrow> heap \<Rightarrow> u32 \<Rightarrow> u8 list \<Rightarrow> system \<Rightarrow> mem \<Rightarrow> (system \<times> mem) option" where
  "presses S h frame [] s m = Some (s, m)"
| "presses S h frame (k # ks) s m =
     do { (_, s, m) \<leftarrow> interrupt_handler S h k ISR_KEYBOARD_INTERRUPT frame s m; presses S h frame ks s m }"

fun getkeys :: "statics \<Rightarrow> heap \<Rightarrow> u32 \<Rightarrow> u32 \<Rightarrow> nat \<Rightarrow> system \<Rightarrow> mem \<Rightarrow> (outcome list \<times> system \<times> mem) option" where
  "getkeys S h sp frame 0 s m = Some ([], s, m)"
| "getkeys S h sp frame (Suc n) s m =
     do { (r, s, m) \<leftarrow> isr80h_handler S h sp 2 frame s m;
          (rs, s, m) \<leftarrow> getkeys S h sp frame n s m;
          Some (r # rs, s, m) }"

lemma presses_queue:
  "typing p t K q s m \<Longrightarrow> \<forall>k \<in> set ks. types_char S K k \<Longrightarrow> length q + length ks \<le> 1024
    \<Longrightarrow> \<exists>s' m'. presses S h frame ks s m = Some (s', m') \<and> typing p t K (q @ map (key_char S K) ks) s' m'"
proof (induction ks arbitrary: q s m)
  case (Cons k ks)
  have "types_char S K k" "length q < 1024" using Cons.prems by simp_all
  then obtain s1 m1 where p: "interrupt_handler S h k ISR_KEYBOARD_INTERRUPT frame s m = Some (Returned 0, s1, m1)"
      "typing p t K (q @ [key_char S K k]) s1 m1"
    using key_press [OF Cons.prems(1)] by blast
  then show ?case using Cons.IH [OF p(2)] Cons.prems(2,3) by simp
qed simp

lemma getkeys_queue:
  "typing p t K q s m \<Longrightarrow> \<exists>s' m'. getkeys S h sp frame (length q) s m = Some (map (\<lambda>c. Returned (scast c)) q, s', m')
    \<and> typing p t K [] s' m'"
proof (induction q arbitrary: s m)
  case (Cons c q)
  obtain s1 m1 where g: "isr80h_handler S h sp 2 frame s m = Some (Returned (scast c), s1, m1)" "typing p t K q s1 m1"
    using getkey_call [OF Cons.prems, of S h sp frame] by auto
  then show ?case using Cons.IH [OF g(2)] by auto
qed simp

text \<open>
  C6. What is typed while a process runs is what the process reads: keyboard interrupts and
  getkey system calls, both with their saving of registers and page switches, pass up to 1024
  characters through the process's buffer in memory in order, whatever was waiting comes
  first, and after the last one getkey returns 0.
\<close>

theorem typed_keys_arrive:
  assumes "typing p t K q s m" and "\<forall>k \<in> set ks. types_char S K k" and "length q + length ks \<le> 1024"
  shows "\<exists>s1 m1 s2 m2 s3 m3. presses S h frame ks s m = Some (s1, m1)
    \<and> getkeys S h sp frame' (length q + length ks) s1 m1 = Some (map (\<lambda>c. Returned (scast c)) (q @ map (key_char S K) ks), s2, m2)
    \<and> isr80h_handler S h sp 2 frame' s2 m2 = Some (Returned 0, s3, m3) \<and> typing p t K [] s3 m3"
proof -
  obtain s1 m1 where p: "presses S h frame ks s m = Some (s1, m1)" "typing p t K (q @ map (key_char S K) ks) s1 m1"
    using presses_queue [OF assms] by blast
  obtain s2 m2 where g: "getkeys S h sp frame' (length q + length ks) s1 m1 =
      Some (map (\<lambda>c. Returned (scast c)) (q @ map (key_char S K) ks), s2, m2)" "typing p t K [] s2 m2"
    using getkeys_queue [OF p(2), of S h sp frame'] by auto
  obtain s3 m3 where "isr80h_handler S h sp 2 frame' s2 m2 = Some (Returned 0, s3, m3)" "typing p t K [] s3 m3"
    using getkey_call [OF g(2), of S h sp frame'] by auto
  then show ?thesis using p(1) g(1) by blast
qed

definition typing_system :: system where
  "typing_system =
     \<lparr>cr3 = 0, current_directory = 0, current_task = 0x1008000, task_tail = 0x1008000, task_head = 0x1008000,
      kernel_chunk = 0x10000, data_segment = 0x10, current_process = 0x1004000, processes = (\<lambda>_. 0),
      screen = \<lparr>video_mem = 0xB8000, terminal_row = 0, terminal_column = 0\<rparr>, keyboard_list = one_keyboard,
      interrupt_callbacks = [ISR_KEYBOARD_INTERRUPT \<mapsto> classic_keyboard_callback],
      isr80h_commands = [2 \<mapsto> isr80h_command2_getkey_function], idtr = (0, 0), port_writes = []\<rparr>"

text \<open>The keys \<^verbatim>\<open>L\<close> and \<^verbatim>\<open>S\<close>, without caps lock.\<close>

theorem typed_keys_arrive_witness:
  "\<forall>S. \<exists>m s1 m1 s2 m2. presses S kheap 0x5FFF00 [0x26, 0x1F] typing_system m = Some (s1, m1)
    \<and> getkeys S kheap 0x5FF000 0x5FFF00 2 s1 m1 = Some ([Returned 108, Returned 115], s2, m2)"
proof (intro allI)
  fix S :: statics
  let ?m = "store32 (\<lambda>_. 0) 0x1008034 0x1004000"
  have ch: "key_char S one_keyboard 0x26 = 108" "key_char S one_keyboard 0x1F = 115"
    by (simp_all add: key_char_def classic_keyboard_scancode_to_char_def keyboard_scan_set_one_def one_keyboard_def
        keyboard_get_capslock_state_def)
  have apart: "region 0x1008000 64 \<inter> key_area 0x1004000 = {}" by (auto simp: region_eq_range)
  have z: "load32 ?m 0x1006484 = 0" "load32 ?m 0x1006488 = 0" by (simp_all add: off_simps)
  have "region 0x1006084 1024 \<inter> region 0x1008034 4 = ({} :: u32 set)" by (auto simp: region_eq_range)
  then have "load_bytes ?m 0x1006084 1024 = load_bytes (\<lambda>_. 0) 0x1006084 1024"
    by (intro load_bytes_frame [OF store32_frame]) auto
  then have "load_keyboard ?m 0x1004000 = empty_buffer"
    by (simp add: load_keyboard_def empty_buffer_def z load_bytes_def map_replicate_const int_of_u32_def c_int_def)
  then have "typing 0x1004000 0x1008000 one_keyboard [] typing_system ?m"
    using apart by (simp add: typing_def typing_system_def task_process_def load32_store32_same ISR_KEYBOARD_INTERRUPT_def empty_buffer_rel)
  moreover have "\<forall>k \<in> set [0x26, 0x1F]. types_char S one_keyboard k"
    by (simp add: types_char_def ch CLASSIC_KEYBOARD_KEY_RELEASE_def CLASSIC_KEYBOARD_CAPSLOCK_def)
  ultimately have "\<exists>s1 m1 s2 m2 s3 m3. presses S kheap 0x5FFF00 [0x26, 0x1F] typing_system ?m = Some (s1, m1)
    \<and> getkeys S kheap 0x5FF000 0x5FFF00 (length ([] :: u8 list) + length [0x26, 0x1F :: u8]) s1 m1 =
        Some (map (\<lambda>c. Returned (scast c)) ([] @ map (key_char S one_keyboard) [0x26, 0x1F]), s2, m2)
    \<and> isr80h_handler S kheap 0x5FF000 2 0x5FFF00 s2 m2 = Some (Returned 0, s3, m3) \<and> typing 0x1004000 0x1008000 one_keyboard [] s3 m3"
    by (intro typed_keys_arrive) simp_all
  moreover have "length ([] :: u8 list) + length [0x26, 0x1F :: u8] = 2"
    "map (\<lambda>c. Returned (scast c)) ([] @ map (key_char S one_keyboard) [0x26, 0x1F]) = [Returned 108, Returned 115]"
    by (simp_all add: ch)
  ultimately show "\<exists>m s1 m1 s2 m2. presses S kheap 0x5FFF00 [0x26, 0x1F] typing_system m = Some (s1, m1)
    \<and> getkeys S kheap 0x5FF000 0x5FFF00 2 s1 m1 = Some ([Returned 108, Returned 115], s2, m2)"
    by (simp only:) blast
qed

end
