(* ===== verification/Spec2Isabelle.thy ===== *)
theory Spec2Isabelle
  imports Boot UserSpec CommandSpec PathSpec TaskSpec FileSpec FatDirSpec FatFindSpec OpenSpec ElfSpec ImageSpec SyscallSpec IdtSpec KeySpec
begin

text \<open>
  SimpOS, a 32 bit hobby kernel in C (\<^verbatim>\<open>src/src\<close>) with a small user library and shell
  (\<^verbatim>\<open>src/programs\<close>), as a shallow embedding with its correctness theorems.

  \<^bold>\<open>How the program is modelled.\<close> Memory is one function from 32 bit addresses to bytes
  (\<open>mem\<close> in theory \<open>Base\<close>); every structure that C code reaches through a pointer lies in it at
  the offsets the compiler gives its fields, and is read and written with \<open>load32\<close>, \<open>store32\<close>
  and the byte accesses, so aliasing, overruns and dangling pointers are visible. Globals that
  are never pointed to are fields of records that extend each other: \<open>paging_state\<close>, \<open>tasks\<close>,
  \<open>kernel\<close>, \<open>system\<close>, \<open>machine\<close>. C \<^verbatim>\<open>int\<close> is \<open>int\<close> cut to 32 bits with \<open>c_int\<close> where the code
  can overflow; unsigned integers and pointers are words. Error codes are negative \<open>int\<close>s as in
  \<^verbatim>\<open>status.h\<close>. A function that may not return (kernel panic, endless loop, a device that never
  answers, a fault) has an option result and None is that behaviour. Each C function is one
  definition of the same name; a loop is a recursive definition \<open>..._loop\<close> beside it, the code
  behind a label \<^verbatim>\<open>out\<close> a definition \<open>..._out\<close>. Arguments the C code does not have stand for what
  the build or the hardware fixes: \<open>h\<close> the heap descriptor (\<open>kheap\<close> for the kernel heap), \<open>sp\<close> the
  stack pointer below which the locals lie whose address is taken, \<open>S\<close> (record \<open>sys\<close>) the
  addresses of the globals and string literals and the disk controller.

  \<^bold>\<open>The theories, in the order of the code's layers.\<close>
  \<^item> \<open>Base\<close>, \<open>Bytes\<close>: words, memory, regions, frames (\<open>same_outside\<close>), byte strings, accesses at
    constant offsets.
  \<^item> \<open>Mem\<close> (\<^verbatim>\<open>memory/memory.c\<close>), \<open>CString\<close> (\<^verbatim>\<open>string/string.c\<close>): the primitives, with functional
    correctness on C strings, equivalence with comparison on lists, and the \<^verbatim>\<open>memcmp\<close> bug.
  \<^item> \<open>Heap\<close> (\<^verbatim>\<open>memory/heap/heap.c\<close>), \<open>HeapSpec\<close>, \<open>Allocator\<close> (the locale of an allocator of
    blocks), \<open>KernelHeap\<close> (\<^verbatim>\<open>kernel_heap.c\<close>): the block allocator refines first fit on a map from
    pointers to block counts; \<open>heap_live\<close> is its invariant, \<open>kheap_reach\<close> its reachable states.
    \<open>HeapClient\<close>: what all clients of the heap share.
  \<^item> \<open>PageMap\<close> (the locale of a map from pages), \<open>Paging\<close> (\<^verbatim>\<open>memory/paging/paging.c\<close>),
    \<open>PagingSpec\<close>, \<open>PagingNew\<close>: page tables in memory against the page walk of the processor
    (\<open>mmu_translate\<close>); mapping, the identity map of a new address space, and its release.
  \<^item> \<open>Gdt\<close> (\<^verbatim>\<open>gdt/gdt.c\<close>), \<open>Terminal\<close> (\<^verbatim>\<open>terminal/terminal.c\<close>), \<open>Fifo\<close> (the locale of a bounded queue),
    \<open>Keyboard\<close> (\<^verbatim>\<open>keyboard/keyboard.c\<close>, \<^verbatim>\<open>classic.c\<close>).
  \<^item> \<open>Disk\<close> (\<^verbatim>\<open>disk/disk.c\<close>), \<open>Streamer\<close> (\<^verbatim>\<open>disk/streamer.c\<close>): the ATA dialogue with a controller
    that is a parameter; \<open>ata_reads\<close> states that it answers a read with the sectors of an image.
  \<^item> \<open>PathParser\<close>, \<open>PathSpec\<close> (\<^verbatim>\<open>fs/pparser.c\<close>): parsing yields the list of parts; freeing undoes it.
  \<^item> \<open>Fat16\<close>, \<open>FatSpec\<close>, \<open>FatDirSpec\<close> (\<^verbatim>\<open>fs/fat/fat16.c\<close>): the table is followed as the disk has it,
    files are read cluster by cluster, directories are counted or hang. \<open>FatFindSpec\<close>: 8.3 names and
    the search of a directory for a file.
  \<^item> \<open>File\<close>, \<open>FileSpec\<close> (\<^verbatim>\<open>fs/file.c\<close>): the descriptor table and its invariant over all sequences of
    opening, closing and other work (\<open>fd_reachable\<close>). \<open>OpenSpec\<close> composes path parser, directory
    search, descriptor table and cluster chain: a file of the root directory is opened by its path
    and read as it is on the disk.
  \<^item> \<open>Elf\<close>, \<open>ElfSpec\<close> (\<^verbatim>\<open>loader/formats\<close>): validation and the extent of the image.
  \<^item> \<open>Task\<close>, \<open>TaskSpec\<close> (\<^verbatim>\<open>task/task.c\<close>): registers survive an interrupt, scheduling is round robin,
    removal unlinks a task; \<open>TaskNew\<close>: a new task joins the list with an address space of its own.
  \<^item> \<open>Process\<close> (\<^verbatim>\<open>task/process.c\<close>), \<open>Syscall\<close> (\<^verbatim>\<open>idt/idt.c\<close>, \<^verbatim>\<open>isr80h/*.c\<close>), \<open>Boot\<close> (\<^verbatim>\<open>kernel.c\<close>): processes,
    interrupts, the ten system calls and the start of the kernel, modelled in full.
    \<open>ProcessSpec\<close>: what a process allocates is fresh, zeroed and mapped for it, and what goes wrong
    with a second allocation. \<open>ImageSpec\<close>: the address space a program starts with, its segments and
    its stack. \<open>TaskCopy\<close>: the kernel reads a string of a task through a page lent to
    it and restores the task's tables. \<open>IdtSpec\<close>: the gates the processor is given and the dispatch
    of system calls. \<open>SyscallSpec\<close>: the print system call from interrupt to screen.
    \<open>KeySpec\<close>: what is typed reaches the running process through its buffer and getkey.
  \<^item> \<open>UserLib\<close>, \<open>UserSpec\<close>, \<open>CommandSpec\<close> (\<^verbatim>\<open>programs/stdlib\<close>, \<^verbatim>\<open>programs/shell\<close>): the user library over
    a record of system calls, the decimal text of a number, and a command line cut into words and
    handed to the kernel as a list.

  \<^bold>\<open>Bounds.\<close> No fuel is used: loops with a bound are total functions with a measure, the others
  are partial functions whose None is an endless loop (\<open>fat16_directory_count\<close> shows when one
  arises). Size hypotheses (\<open>2 ^ 31\<close>, \<open>stack_need\<close>) are those of C \<^verbatim>\<open>int\<close> and of the buffers the
  recursion of the disk stream puts on the stack.

  \<^bold>\<open>Not modelled.\<close> Assembly (boot sector, port instructions, interrupt stubs) is replaced by what the
  C code assumes of it; messages printed before a panic are part of the panic; the test program
  \<^verbatim>\<open>programs/blank\<close> and the build files have no logic of their own. Interrupts do not preempt the
  kernel, as the kernel runs with interrupts disabled.
\<close>

end
